(* ===== verification/Prelude.thy ===== *)
theory Prelude
  imports Main "HOL-Library.AList" "HOL-Library.Sublist" "HOL-Library.List_Lexorder"
    "HOL-Library.Char_ord" "HOL-Library.Multiset"
begin

text \<open>
  Shared vocabulary of the development: the proof collections, the string operations of
  Python's standard library that the sources call (\<open>str.split\<close>, \<open>str.strip\<close>,
  \<open>str.startswith\<close>, \<open>str.endswith\<close>, \<open>str.partition\<close>, \<open>str.rpartition\<close>, \<open>str.replace\<close>), dictionaries
  as association lists with Python's update order, and the lemmas every component uses.

  A Python \<open>str\<close> is a list of \<open>char\<close>: the model covers the code points 0 to 255.
\<close>

named_theorems str_simps "evaluation of the string operations"
named_theorems dict_simps "lookup in dictionaries"
named_theorems fs_simps "unfolding of the file-system calls"

section \<open>Types\<close>

type_synonym time = int
  \<comment> \<open>microseconds since a fixed origin, the resolution of \<open>datetime\<close>\<close>

lemma if_then_False: "(if c then False else d) \<longleftrightarrow> \<not> c \<and> d"
  by simp

section \<open>String operations\<close>

definition startswith :: "string \<Rightarrow> string \<Rightarrow> bool" where
  "startswith s p \<longleftrightarrow> prefix p s"

definition endswith :: "string \<Rightarrow> string \<Rightarrow> bool" where
  "endswith s p \<longleftrightarrow> prefix (rev p) (rev s)"

lemma startswith_simps [simp, str_simps]:
  "startswith s []"
  "startswith [] (c # p) = False"
  "startswith (d # s) (c # p) = (c = d \<and> startswith s p)"
  by (auto simp: startswith_def)

lemma startswith_append [simp]: "startswith (p @ s) p"
  by (simp add: startswith_def)

lemma startswith_conv: "startswith s p \<longleftrightarrow> (\<exists>r. s = p @ r)"
  by (auto simp: startswith_def prefix_def)

lemma endswith_conv: "endswith s p \<longleftrightarrow> (\<exists>r. s = r @ p)"
  unfolding endswith_def prefix_def by (metis rev_append rev_rev_ident)

lemma endswith_singleton [simp]: "endswith s [c] \<longleftrightarrow> s \<noteq> [] \<and> last s = c"
  unfolding endswith_conv by (metis append_butlast_last_id append_is_Nil_conv last_snoc not_Cons_self2)

fun split_on :: "char \<Rightarrow> string \<Rightarrow> string list" where
  \<comment> \<open>\<open>s.split(c)\<close> for a one-character separator\<close>
  "split_on c [] = [[]]"
| "split_on c (x # xs) =
     (if x = c then [] # split_on c xs
      else (case split_on c xs of [] \<Rightarrow> [[x]] | y # ys \<Rightarrow> (x # y) # ys))"

fun join_with :: "string \<Rightarrow> string list \<Rightarrow> string" where
  \<comment> \<open>\<open>sep.join(parts)\<close>\<close>
  "join_with sep [] = []"
| "join_with sep [x] = x"
| "join_with sep (x # y # ys) = x @ sep @ join_with sep (y # ys)"

lemma split_on_nonempty [simp]: "split_on c s \<noteq> []"
  by (induction s) (auto split: list.splits)

lemma split_on_no_sep: "p \<in> set (split_on c s) \<Longrightarrow> c \<notin> set p"
  by (induction s arbitrary: p) (auto split: list.splits if_splits)

lemma join_split_on: "join_with [c] (split_on c s) = s"
proof (induction s)
  case Nil
  show ?case by simp
next
  case (Cons x xs)
  obtain y ys where "split_on c xs = y # ys"
    by (meson neq_Nil_conv split_on_nonempty)
  with Cons show ?case by (cases ys) auto
qed

lemma split_on_notin: "c \<notin> set s \<Longrightarrow> split_on c s = [s]"
  by (induction s) auto

lemma split_on_append_sep: "c \<notin> set p \<Longrightarrow> split_on c (p @ c # s) = p # split_on c s"
  by (induction p) auto

lemma split_join:
  "ps \<noteq> [] \<Longrightarrow> \<forall>p\<in>set ps. c \<notin> set p \<Longrightarrow> split_on c (join_with [c] ps) = ps"
  by (induction "[c]" ps rule: join_with.induct) (auto simp: split_on_notin split_on_append_sep)

lemma split_on_append: "split_on c (s @ c # t) = split_on c s @ split_on c t"
  by (induction s) (auto split: list.splits)

lemma join_with_append:
  "xs \<noteq> [] \<Longrightarrow> ys \<noteq> [] \<Longrightarrow> join_with sep (xs @ ys) = join_with sep xs @ sep @ join_with sep ys"
proof (induction sep xs rule: join_with.induct)
  case (2 sep x)
  then show ?case by (cases ys) simp_all
qed auto

fun partition_at :: "char \<Rightarrow> string \<Rightarrow> string \<times> bool \<times> string" where
  \<comment> \<open>\<open>s.partition(c)\<close>: before the first separator, whether there is one, after it\<close>
  "partition_at c [] = ([], False, [])"
| "partition_at c (x # xs) =
     (if x = c then ([], True, xs)
      else (case partition_at c xs of (k, sep, v) \<Rightarrow> (x # k, sep, v)))"

lemma partition_at_eq: "partition_at c s = (k, True, v) \<Longrightarrow> s = k @ c # v \<and> c \<notin> set k"
  by (induction s arbitrary: k) (auto split: if_splits prod.splits)

lemma partition_at_append [simp]: "c \<notin> set k \<Longrightarrow> partition_at c (k @ c # v) = (k, True, v)"
  by (induction k) auto

lemma append_sep_inj:
  fixes c :: char
  assumes "c \<notin> set r" and "c \<notin> set r'" and "r @ c # t = r' @ c # t'"
  shows "r = r' \<and> t = t'"
proof -
  have "partition_at c (r @ c # t) = (r, True, t)" using assms(1) by (rule partition_at_append)
  moreover have "partition_at c (r @ c # t) = (r', True, t')"
    unfolding assms(3) using assms(2) by (rule partition_at_append)
  ultimately show ?thesis by simp
qed

lemma rev_append_sep_inj:
  fixes c :: char
  assumes "c \<notin> set d" and "c \<notin> set d'" and "t @ c # d = t' @ c # d'"
  shows "t = t' \<and> d = d'"
proof -
  have "rev d @ c # rev t = rev d' @ c # rev t'" using arg_cong [OF assms(3), of rev] by simp
  then have "rev d = rev d' \<and> rev t = rev t'" by (rule append_sep_inj [rotated 2]) (use assms in simp_all)
  then show ?thesis by simp
qed

definition rpartition_at :: "char \<Rightarrow> string \<Rightarrow> string \<times> bool \<times> string" where
  \<comment> \<open>\<open>s.rpartition(c)\<close>: without a separator everything is in the last part\<close>
  "rpartition_at c s =
     (case partition_at c (rev s) of
        (v, True, k) \<Rightarrow> (rev k, True, rev v)
      | (v, False, _) \<Rightarrow> ([], False, s))"

definition py_space :: "char \<Rightarrow> bool" where
  \<comment> \<open>\<open>str.isspace\<close> on one code point below 256\<close>
  "py_space c \<longleftrightarrow> (let n = of_char c :: nat in
     (9 \<le> n \<and> n \<le> 13) \<or> (28 \<le> n \<and> n \<le> 32) \<or> n = 133 \<or> n = 160)"

fun words_acc :: "string \<Rightarrow> string \<Rightarrow> string list" where
  "words_acc acc [] = (if acc = [] then [] else [rev acc])"
| "words_acc acc (c # s) =
     (if py_space c then (if acc = [] then words_acc [] s else rev acc # words_acc [] s)
      else words_acc (c # acc) s)"

definition words_of :: "string \<Rightarrow> string list" where
  \<comment> \<open>\<open>s.split()\<close>: the maximal runs of characters that are not white space\<close>
  "words_of s = words_acc [] s"

definition strip :: "string \<Rightarrow> string" where
  \<comment> \<open>\<open>s.strip()\<close>\<close>
  "strip s = rev (dropWhile py_space (rev (dropWhile py_space s)))"

lemma words_acc_word:
  "\<forall>c\<in>set w. \<not> py_space c \<Longrightarrow> words_acc acc (w @ s) = words_acc (rev w @ acc) s"
  by (induction w arbitrary: acc) auto

lemma words_acc_no_space:
  "\<forall>c\<in>set acc. \<not> py_space c \<Longrightarrow>
   w \<in> set (words_acc acc s) \<Longrightarrow> w \<noteq> [] \<and> (\<forall>c\<in>set w. \<not> py_space c)"
proof (induction s arbitrary: acc)
  case Nil
  then show ?case by (cases "acc = []") simp_all
next
  case (Cons c s)
  show ?case
  proof (cases "py_space c")
    case True
    show ?thesis
    proof (cases "w = rev acc \<and> acc \<noteq> []")
      case True
      then show ?thesis using Cons.prems(1) by simp
    next
      case False
      then have "w \<in> set (words_acc [] s)"
        using \<open>py_space c\<close> Cons.prems(2) by (cases "acc = []") auto
      then show ?thesis using Cons.IH [of "[]"] by simp
    qed
  next
    case False
    have "\<forall>d\<in>set (c # acc). \<not> py_space d" using Cons.prems(1) False by auto
    moreover have "w \<in> set (words_acc (c # acc) s)" using Cons.prems(2) False by simp
    ultimately show ?thesis by (rule Cons.IH)
  qed
qed

lemma words_of_word: "w \<in> set (words_of s) \<Longrightarrow> w \<noteq> [] \<and> (\<forall>c\<in>set w. \<not> py_space c)"
  unfolding words_of_def by (rule words_acc_no_space [where acc = "[]"]) auto

lemma py_space_blank [simp]: "py_space (CHR '' '')"
  by (simp add: py_space_def)

lemma words_acc_blank:
  assumes "w \<noteq> []" and "\<forall>c\<in>set w. \<not> py_space c"
  shows "words_acc [] (w @ CHR '' '' # s) = w # words_acc [] s"
  using words_acc_word [OF assms(2), of "[]" "CHR '' '' # s"] assms(1) by simp

lemma words_of_join:
  "\<forall>w\<in>set ws. w \<noteq> [] \<and> (\<forall>c\<in>set w. \<not> py_space c) \<Longrightarrow> words_of (join_with '' '' ws) = ws"
  unfolding words_of_def
proof (induction ws)
  case Nil
  show ?case by simp
next
  case (Cons w ws)
  show ?case
  proof (cases ws)
    case Nil
    with Cons.prems words_acc_word [of w "[]" "[]"] show ?thesis by simp
  next
    case (Cons v vs)
    with Cons.IH Cons.prems words_acc_blank [of w "join_with '' '' (v # vs)"] show ?thesis by simp
  qed
qed

fun universal_newlines :: "string \<Rightarrow> string" where
  \<comment> \<open>what reading a file in text mode does to line ends\<close>
  "universal_newlines [] = []"
| "universal_newlines [c] = (if c = CHR 0x0D then [CHR 0x0A] else [c])"
| "universal_newlines (c # d # s) =
     (if c = CHR 0x0D then (if d = CHR 0x0A then universal_newlines (d # s)
                            else CHR 0x0A # universal_newlines (d # s))
      else c # universal_newlines (d # s))"

definition lines_of :: "string \<Rightarrow> string list" where
  \<comment> \<open>the lines of a text file that are not blank\<close>
  "lines_of text = filter (\<lambda>l. strip l \<noteq> []) (split_on (CHR 0x0A) (universal_newlines text))"

lemma universal_newlines_id: "CHR 0x0D \<notin> set s \<Longrightarrow> universal_newlines s = s"
  by (induction s rule: universal_newlines.induct) auto

lemma strip_blank: "strip l = [] \<longleftrightarrow> (\<forall>c\<in>set l. py_space c)"
proof -
  have "strip l = [] \<longleftrightarrow> (\<forall>c\<in>set (dropWhile py_space l). py_space c)"
    by (simp add: strip_def)
  also have "\<dots> \<longleftrightarrow> (\<forall>c\<in>set l. py_space c)" by (induction l) auto
  finally show ?thesis .
qed

lemma lines_of_Nil [simp]: "lines_of [] = []"
  by (simp add: lines_of_def strip_def)

lemma lines_of_append:
  assumes "CHR 0x0D \<notin> set s" and "CHR 0x0D \<notin> set t"
  shows "lines_of (s @ CHR 0x0A # t) = lines_of s @ lines_of t"
  using assms by (simp add: lines_of_def universal_newlines_id split_on_append)

lemma lines_of_line:
  assumes "CHR 0x0D \<notin> set l" and "CHR 0x0A \<notin> set l" and "strip l \<noteq> []"
  shows "lines_of l = [l]"
  using assms by (simp add: lines_of_def universal_newlines_id split_on_notin)

fun replace_all :: "string \<Rightarrow> string \<Rightarrow> string \<Rightarrow> string" where
  \<comment> \<open>\<open>s.replace(v, r)\<close> of a \<open>v\<close> that is not empty\<close>
  "replace_all v r [] = []"
| "replace_all v r (c # s) =
     (if v \<noteq> [] \<and> prefix v (c # s) then r @ replace_all v r (drop (length v) (c # s)) else c # replace_all v r s)"

definition is_digit :: "char \<Rightarrow> bool" where
  "is_digit c \<longleftrightarrow> (let n = of_char c :: nat in 48 \<le> n \<and> n \<le> 57)"

definition is_lower_hex :: "char \<Rightarrow> bool" where
  \<comment> \<open>\<open>c in "0123456789abcdef"\<close>\<close>
  "is_lower_hex c \<longleftrightarrow> c \<in> set ''0123456789abcdef''"

section \<open>Dictionaries\<close>

text \<open>
  A Python dictionary keeps insertion order and replaces a value in place; that is
  \<open>AList.update\<close>. \<open>d.get(k)\<close> is \<open>map_of d k\<close>.
\<close>

abbreviation dset :: "('k \<times> 'v) list \<Rightarrow> 'k \<Rightarrow> 'v \<Rightarrow> ('k \<times> 'v) list" where
  "dset d k v \<equiv> AList.update k v d"

lemma map_of_dset [simp, dict_simps]: "map_of (dset d k v) k' = (if k' = k then Some v else map_of d k')"
  by (simp add: update_conv)

lemma keys_dset: "map fst (dset d k v) = (if k \<in> set (map fst d) then map fst d else map fst d @ [k])"
  by (induction d) auto

lemma distinct_dset: "distinct (map fst d) \<Longrightarrow> distinct (map fst (dset d k v))"
  by (simp add: distinct_update)

end
