(* ===== verification/FileSystem.thy ===== *)
theory FileSystem
  imports Prelude "HOL-Library.Finite_Map" "HOL-Library.State_Monad"
begin

text \<open>
  The part of the POSIX file interface the broker uses through \<open>os\<close> and \<open>ctypes\<close>: directories
  that map names to inodes, and inodes with a kind, contents, link count and the one extended
  attribute \<open>user.darm\<close>. A file handle is an inode number, so what is open stays open whatever
  happens to its name. Contents are text (the program hashes and writes UTF-8 text).

  Every call is one atomic step of the machine. Between two steps a foreign actor may do anything
  to the file system: the world carries the actions still to come, one for each step. The world
  also carries the number of steps after which the machine stops, if it does; a stopped machine
  executes no further step. Errors of the device, named pipes and device files are not modelled.
\<close>

section \<open>The tree\<close>

datatype kind = Reg | Dir | Lnk | Sock

record inode =
  ikind :: kind
  contents :: string
  xattr :: "string option"
  nlink :: nat

record fs =
  dirs :: "nat \<Rightarrow> (string, nat) fmap"
  inodes :: "nat \<Rightarrow> inode"
  fresh :: nat                       \<comment> \<open>the next inode number\<close>
  has_xattrs :: bool                 \<comment> \<open>the file system keeps user attributes\<close>
  has_renameat2 :: bool              \<comment> \<open>\<open>_HAS_RENAMEAT2\<close>\<close>

datatype errno =
    ENOENT | EEXIST | ELOOP | ENOTDIR | EISDIR | ENXIO | ENODATA | ENOTSUP
  | ENOTIMPL       \<comment> \<open>\<open>NotImplementedError\<close>, which is no \<open>OSError\<close>\<close>
  | ESTOPPED       \<comment> \<open>the machine has stopped\<close>

type_synonym 'a res = "errno + 'a"

definition at :: "fs \<Rightarrow> nat \<Rightarrow> string \<Rightarrow> nat option" where
  "at f d n = fmlookup (dirs f d) n"

definition kind_at :: "fs \<Rightarrow> nat \<Rightarrow> string \<Rightarrow> kind option" where
  "kind_at f d n = map_option (\<lambda>i. ikind (inodes f i)) (at f d n)"

definition one_link_less :: "inode \<Rightarrow> inode" where
  "one_link_less m = m\<lparr>nlink := nlink m - 1\<rparr>"

lemma one_link_less_simps [simp]:
  "ikind (one_link_less m) = ikind m" "contents (one_link_less m) = contents m"
  "xattr (one_link_less m) = xattr m" "nlink (one_link_less m) = nlink m - 1"
  by (simp_all add: one_link_less_def)

section \<open>System calls\<close>

definition set_entry :: "nat \<Rightarrow> string \<Rightarrow> nat \<Rightarrow> fs \<Rightarrow> fs" where
  "set_entry d n i f = f\<lparr>dirs := (dirs f)(d := fmupd n i (dirs f d))\<rparr>"

definition drop_entry :: "nat \<Rightarrow> string \<Rightarrow> fs \<Rightarrow> fs" where
  "drop_entry d n f = f\<lparr>dirs := (dirs f)(d := fmdrop n (dirs f d))\<rparr>"

definition upd_inode :: "nat \<Rightarrow> (inode \<Rightarrow> inode) \<Rightarrow> fs \<Rightarrow> fs" where
  "upd_inode i g f = f\<lparr>inodes := (inodes f)(i := g (inodes f i))\<rparr>"

definition open_dir :: "nat \<Rightarrow> string \<Rightarrow> fs \<Rightarrow> nat res \<times> fs" where
  \<comment> \<open>\<open>os.open(n, O_RDONLY | O_DIRECTORY | O_NOFOLLOW, dir_fd=d)\<close>\<close>
  "open_dir d n f =
     (case at f d n of
        None \<Rightarrow> (Inl ENOENT, f)
      | Some i \<Rightarrow> (if ikind (inodes f i) = Dir then (Inr i, f) else (Inl ENOTDIR, f)))"

definition open_read :: "nat \<Rightarrow> string \<Rightarrow> fs \<Rightarrow> nat res \<times> fs" where
  \<comment> \<open>\<open>os.open(n, O_RDONLY | O_NOFOLLOW, dir_fd=d)\<close>\<close>
  "open_read d n f =
     (case at f d n of
        None \<Rightarrow> (Inl ENOENT, f)
      | Some i \<Rightarrow> (case ikind (inodes f i) of
                    Lnk \<Rightarrow> (Inl ELOOP, f) | Sock \<Rightarrow> (Inl ENXIO, f) | _ \<Rightarrow> (Inr i, f)))"

definition stat_at :: "nat \<Rightarrow> string \<Rightarrow> fs \<Rightarrow> (kind \<times> nat) res \<times> fs" where
  \<comment> \<open>\<open>os.stat(n, dir_fd=d, follow_symlinks=False)\<close>: kind and link count\<close>
  "stat_at d n f =
     (case at f d n of
        None \<Rightarrow> (Inl ENOENT, f)
      | Some i \<Rightarrow> (Inr (ikind (inodes f i), nlink (inodes f i)), f))"

definition fstat :: "nat \<Rightarrow> fs \<Rightarrow> nat res \<times> fs" where
  "fstat i f = (Inr (nlink (inodes f i)), f)"

definition fdopen :: "nat \<Rightarrow> fs \<Rightarrow> unit res \<times> fs" where
  \<comment> \<open>\<open>os.fdopen\<close> refuses a directory\<close>
  "fdopen i f = ((if ikind (inodes f i) = Dir then Inl EISDIR else Inr ()), f)"

definition fd_read :: "nat \<Rightarrow> fs \<Rightarrow> string res \<times> fs" where
  "fd_read i f = (if ikind (inodes f i) = Dir then (Inl EISDIR, f) else (Inr (contents (inodes f i)), f))"

definition fd_getxattr :: "nat \<Rightarrow> fs \<Rightarrow> string res \<times> fs" where
  "fd_getxattr i f =
     (if \<not> has_xattrs f then (Inl ENOTSUP, f)
      else case xattr (inodes f i) of None \<Rightarrow> (Inl ENODATA, f) | Some v \<Rightarrow> (Inr v, f))"

definition fd_setxattr :: "nat \<Rightarrow> string \<Rightarrow> fs \<Rightarrow> unit res \<times> fs" where
  "fd_setxattr i v f =
     (if \<not> has_xattrs f then (Inl ENOTSUP, f) else (Inr (), upd_inode i (\<lambda>n. n\<lparr>xattr := Some v\<rparr>) f))"

definition fd_removexattr :: "nat \<Rightarrow> fs \<Rightarrow> unit res \<times> fs" where
  "fd_removexattr i f =
     (if \<not> has_xattrs f then (Inl ENOTSUP, f)
      else case xattr (inodes f i) of
        None \<Rightarrow> (Inl ENODATA, f) | Some v \<Rightarrow> (Inr (), upd_inode i (\<lambda>n. n\<lparr>xattr := None\<rparr>) f))"

definition create_excl :: "nat \<Rightarrow> string \<Rightarrow> fs \<Rightarrow> nat res \<times> fs" where
  \<comment> \<open>\<open>os.open(n, O_WRONLY | O_CREAT | O_EXCL | O_NOFOLLOW, 0o644, dir_fd=d)\<close>\<close>
  "create_excl d n f =
     (case at f d n of
        Some i \<Rightarrow> (Inl EEXIST, f)
      | None \<Rightarrow> (Inr (fresh f),
          (set_entry d n (fresh f) f)\<lparr>
             inodes := (inodes f)(fresh f := \<lparr>ikind = Reg, contents = [], xattr = None, nlink = 1\<rparr>),
             fresh := Suc (fresh f)\<rparr>))"

definition fd_write :: "nat \<Rightarrow> string \<Rightarrow> fs \<Rightarrow> unit res \<times> fs" where
  "fd_write i s f = (Inr (), upd_inode i (\<lambda>n. n\<lparr>contents := contents n @ s\<rparr>) f)"

definition fd_sync :: "nat \<Rightarrow> fs \<Rightarrow> unit res \<times> fs" where
  "fd_sync i f = (Inr (), f)"

definition unlink_at :: "nat \<Rightarrow> string \<Rightarrow> fs \<Rightarrow> unit res \<times> fs" where
  "unlink_at d n f =
     (case at f d n of
        None \<Rightarrow> (Inl ENOENT, f)
      | Some i \<Rightarrow>
          (if ikind (inodes f i) = Dir then (Inl EISDIR, f)
           else (Inr (), upd_inode i one_link_less (drop_entry d n f))))"

definition rename_over :: "nat \<Rightarrow> string \<Rightarrow> nat \<Rightarrow> string \<Rightarrow> fs \<Rightarrow> unit res \<times> fs" where
  \<comment> \<open>\<open>os.replace\<close>; two names of one file are left as they are\<close>
  "rename_over d n d' n' f =
     (case at f d n of
        None \<Rightarrow> (Inl ENOENT, f)
      | Some i \<Rightarrow>
          (case at f d' n' of
             None \<Rightarrow> (Inr (), set_entry d' n' i (drop_entry d n f))
           | Some j \<Rightarrow>
               (if i = j then (Inr (), f)
                else if ikind (inodes f j) = Dir \<and> ikind (inodes f i) \<noteq> Dir then (Inl EISDIR, f)
                else if ikind (inodes f i) = Dir \<and> ikind (inodes f j) \<noteq> Dir then (Inl ENOTDIR, f)
                else (Inr (), upd_inode j one_link_less (set_entry d' n' i (drop_entry d n f))))))"

definition rename_noreplace :: "nat \<Rightarrow> string \<Rightarrow> nat \<Rightarrow> string \<Rightarrow> fs \<Rightarrow> unit res \<times> fs" where
  \<comment> \<open>\<open>_renameat2(.., _RENAME_NOREPLACE)\<close>\<close>
  "rename_noreplace d n d' n' f =
     (if \<not> has_renameat2 f then (Inl ENOTIMPL, f)
      else case at f d n of
        None \<Rightarrow> (Inl ENOENT, f)
      | Some i \<Rightarrow> (case at f d' n' of
                    Some j \<Rightarrow> (Inl EEXIST, f)
                  | None \<Rightarrow> (Inr (), set_entry d' n' i (drop_entry d n f))))"

definition rename_exchange :: "nat \<Rightarrow> string \<Rightarrow> string \<Rightarrow> fs \<Rightarrow> unit res \<times> fs" where
  \<comment> \<open>\<open>_renameat2(.., _RENAME_EXCHANGE)\<close> within one directory\<close>
  "rename_exchange d n n' f =
     (if \<not> has_renameat2 f then (Inl ENOTIMPL, f)
      else case (at f d n, at f d n') of
        (Some i, Some j) \<Rightarrow> (Inr (), set_entry d n j (set_entry d n' i f))
      | _ \<Rightarrow> (Inl ENOENT, f))"

definition list_names :: "nat \<Rightarrow> fs \<Rightarrow> string list res \<times> fs" where
  \<comment> \<open>\<open>sorted(os.listdir(fd))\<close>\<close>
  "list_names d f = (Inr (sorted_list_of_fset (fmdom (dirs f d))), f)"

section \<open>The world\<close>

record world =
  w_fs :: fs
  foreign :: "(fs \<Rightarrow> fs) list"      \<comment> \<open>what foreign actors do before each of the coming steps\<close>
  steps_left :: "nat option"        \<comment> \<open>after so many steps the machine stops\<close>

type_synonym 'a io = "(world, 'a res) state"

abbreviation ret :: "'a \<Rightarrow> (world, 'a) state" where
  "ret \<equiv> State_Monad.return"

definition sys :: "(fs \<Rightarrow> 'a res \<times> fs) \<Rightarrow> 'a io" where
  "sys c = State (\<lambda>w.
     if steps_left w = Some 0 then (Inl ESTOPPED, w)
     else (case c (case foreign w of [] \<Rightarrow> w_fs w | g # gs \<Rightarrow> g (w_fs w)) of
             (r, f) \<Rightarrow> (r, w\<lparr>w_fs := f, foreign := drop 1 (foreign w),
                             steps_left := map_option (\<lambda>n. n - 1) (steps_left w)\<rparr>)))"

definition andthen :: "'a io \<Rightarrow> ('a \<Rightarrow> 'b io) \<Rightarrow> 'b io" where
  \<comment> \<open>the next statement: an exception passes\<close>
  "andthen m f = do { r \<leftarrow> m; case r of Inl e \<Rightarrow> ret (Inl e) | Inr x \<Rightarrow> f x }"

definition raise :: "errno \<Rightarrow> 'a io" where "raise e = ret (Inl e)"
definition done_with :: "'a \<Rightarrow> 'a io" where "done_with x = ret (Inr x)"

section \<open>Evaluation\<close>

lemma run_bind [fs_simps]: "run_state (State_Monad.bind m f) w = (case run_state m w of (a, w') \<Rightarrow> run_state (f a) w')"
  by (simp add: State_Monad.bind_def)

lemma run_andthen [fs_simps]:
  "run_state (andthen m f) w =
   (case run_state m w of (r, w') \<Rightarrow> (case r of Inl e \<Rightarrow> (Inl e, w') | Inr x \<Rightarrow> run_state (f x) w'))"
  by (auto simp: andthen_def run_bind split: prod.splits sum.splits)

lemma run_raise [simp, fs_simps]: "run_state (raise e) w = (Inl e, w)" by (simp add: raise_def)
lemma run_done [simp, fs_simps]: "run_state (done_with x) w = (Inr x, w)" by (simp add: done_with_def)

definition quiet :: "fs \<Rightarrow> world" where
  \<comment> \<open>no foreign actor and no stop\<close>
  "quiet f = \<lparr>w_fs = f, foreign = [], steps_left = None\<rparr>"

lemma run_sys_quiet [simp]: "run_state (sys c) (quiet f) = (case c f of (r, f') \<Rightarrow> (r, quiet f'))"
  by (simp add: sys_def quiet_def split: prod.split)

lemma quiet_inject [simp]: "quiet f = quiet g \<longleftrightarrow> f = g" by (simp add: quiet_def)

lemma w_fs_quiet [simp]: "w_fs (quiet f) = f" by (simp add: quiet_def)

definition raced :: "(fs \<Rightarrow> fs) list \<Rightarrow> fs \<Rightarrow> world" where
  \<comment> \<open>foreign actions before the first steps, no stop\<close>
  "raced gs f = \<lparr>w_fs = f, foreign = gs, steps_left = None\<rparr>"

lemma raced_Nil [simp]: "raced [] f = quiet f" by (simp add: raced_def quiet_def)

lemma run_sys_raced [simp]:
  "run_state (sys c) (raced (g # gs) f) = (case c (g f) of (r, f') \<Rightarrow> (r, raced gs f'))"
  by (simp add: sys_def raced_def split: prod.split)

lemma w_fs_raced [simp]: "w_fs (raced gs f) = f" by (simp add: raced_def)

definition stopping :: "nat \<Rightarrow> fs \<Rightarrow> world" where
  \<comment> \<open>no foreign actor; the machine stops after \<open>n\<close> steps\<close>
  "stopping n f = \<lparr>w_fs = f, foreign = [], steps_left = Some n\<rparr>"

lemma run_sys_stopping [simp]:
  "run_state (sys c) (stopping 0 f) = (Inl ESTOPPED, stopping 0 f)"
  "run_state (sys c) (stopping (Suc n) f) = (case c f of (r, f') \<Rightarrow> (r, stopping n f'))"
  by (simp_all add: sys_def stopping_def split: prod.split)

lemma run_sys_stopping_if:
  "run_state (sys c) (stopping n f) =
   (if n = 0 then (Inl ESTOPPED, stopping 0 f) else (case c f of (r, f') \<Rightarrow> (r, stopping (n - 1) f')))"
  by (cases n) (simp_all split: prod.split)

lemma w_fs_stopping [simp]: "w_fs (stopping n f) = f" by (simp add: stopping_def)

lemma entry_simps [simp, fs_simps]:
  "at (set_entry d n i f) d' n' = (if d' = d \<and> n' = n then Some i else at f d' n')"
  "at (drop_entry d n f) d' n' = (if d' = d \<and> n' = n then None else at f d' n')"
  "at (upd_inode i g f) d' n' = at f d' n'"
  "inodes (set_entry d n i f) = inodes f"
  "inodes (drop_entry d n f) = inodes f"
  "inodes (upd_inode i g f) = (inodes f)(i := g (inodes f i))"
  "has_renameat2 (set_entry d n i f) = has_renameat2 f" "has_renameat2 (drop_entry d n f) = has_renameat2 f"
  "has_renameat2 (upd_inode i g f) = has_renameat2 f"
  "has_xattrs (set_entry d n i f) = has_xattrs f" "has_xattrs (drop_entry d n f) = has_xattrs f"
  "has_xattrs (upd_inode i g f) = has_xattrs f"
  "fresh (set_entry d n i f) = fresh f" "fresh (drop_entry d n f) = fresh f" "fresh (upd_inode i g f) = fresh f"
  by (auto simp: at_def set_entry_def drop_entry_def upd_inode_def)

text \<open>Two file systems are the same when their directories and the rest agree.\<close>

lemma fs_eqI:
  fixes f g :: fs
  assumes "\<And>d n. at f d n = at g d n" and "inodes f = inodes g" "fresh f = fresh g"
    "has_xattrs f = has_xattrs g" "has_renameat2 f = has_renameat2 g"
  shows "f = g"
proof -
  have "dirs f d = dirs g d" for d by (rule fmap_ext) (use assms(1) in \<open>simp add: at_def\<close>)
  then show ?thesis using assms(2-) by (cases f; cases g) auto
qed

end
