(* ===== verification/Json.thy ===== *)
theory Json
  imports Prelude
begin

text \<open>
  JSON values and the part of Python's \<open>json\<close> module the sources call: \<open>json.dumps\<close>
  (\<open>dumps\<close>, and \<open>dumps_sorted\<close> for \<open>sort_keys=True\<close>) and \<open>json.loads\<close> (\<open>loads\<close>). Every
  dictionary that crosses a boundary of the program (a proposal, a response, a record of the
  audit log, an attestation, a checkpoint) is a \<open>json\<close> value here.

  Numbers are integers: the sources never write a float into a signed or hashed value, and
  \<open>loads\<close> refuses a float (\<open>NaN\<close> and the infinities too). \<open>loads\<close> also refuses an escape above
  code point 255, outside the model of \<open>str\<close>, and takes the bytes it is given as the characters: the
  decoding of UTF-8 before it is not modelled. The reader recurses on fuel; \<open>jval_fuel\<close> shows that the fuel \<open>loads\<close> gives
  it always suffices. The locale \<open>text_codec\<close> is the contract between whoever writes a line of
  text and whoever reads it back.
\<close>

section \<open>Values\<close>

datatype json =
    JNull
  | JBool bool
  | JNum int
  | JStr string
  | JList "json list"
  | JObj "(string \<times> json) list"

type_synonym jobj = "(string \<times> json) list"

definition jget :: "jobj \<Rightarrow> string \<Rightarrow> json" where
  \<comment> \<open>\<open>d.get(k)\<close>, with \<open>None\<close> as \<open>JNull\<close>\<close>
  "jget d k = (case map_of d k of None \<Rightarrow> JNull | Some v \<Rightarrow> v)"

definition has_key :: "jobj \<Rightarrow> string \<Rightarrow> bool" where
  "has_key d k \<longleftrightarrow> k \<in> set (map fst d)"

fun opt_str :: "string option \<Rightarrow> json" where
  "opt_str None = JNull"
| "opt_str (Some s) = JStr s"

fun truthy :: "json \<Rightarrow> bool" where
  \<comment> \<open>Python's truth value\<close>
  "truthy JNull = False"
| "truthy (JBool b) = b"
| "truthy (JNum i) = (i \<noteq> 0)"
| "truthy (JStr s) = (s \<noteq> [])"
| "truthy (JList vs) = (vs \<noteq> [])"
| "truthy (JObj kvs) = (kvs \<noteq> [])"

definition py_or :: "json \<Rightarrow> json \<Rightarrow> json" where
  \<comment> \<open>\<open>a or b\<close>\<close>
  "py_or a b = (if truthy a then a else b)"

lemma jget_simps [simp, dict_simps]:
  "jget [] k = JNull"
  "jget ((k', v) # d) k = (if k = k' then v else jget d k)"
  "jget (dset d k' v) k = (if k = k' then v else jget d k)"
  by (simp_all add: jget_def update_conv)

section \<open>json.dumps\<close>

abbreviation dq :: char where "dq \<equiv> CHR 0x22"
abbreviation bs :: char where "bs \<equiv> CHR 0x5C"

definition digit_char :: "nat \<Rightarrow> char" where
  "digit_char n = char_of (48 + n)"

definition hex_digit :: "nat \<Rightarrow> char" where
  "hex_digit n = ''0123456789abcdef'' ! n"

definition hex_val :: "char \<Rightarrow> nat option" where
  "hex_val c = (let n = of_char c :: nat in
     if 48 \<le> n \<and> n \<le> 57 then Some (n - 48)
     else if 97 \<le> n \<and> n \<le> 102 then Some (n - 87)
     else if 65 \<le> n \<and> n \<le> 70 then Some (n - 55) else None)"

fun show_nat :: "nat \<Rightarrow> string" where
  "show_nat n = (if n < 10 then [digit_char n] else show_nat (n div 10) @ [digit_char (n mod 10)])"

declare show_nat.simps [simp del]

definition show_int :: "int \<Rightarrow> string" where
  "show_int i = (if i < 0 then CHR ''-'' # show_nat (nat (- i)) else show_nat (nat i))"

definition esc_char :: "char \<Rightarrow> string" where
  \<comment> \<open>\<open>ensure_ascii\<close>: everything outside the printable ASCII characters is escaped\<close>
  "esc_char c =
     (if c = dq then [bs, dq] else if c = bs then [bs, bs]
      else if c = CHR 0x0A then [bs, CHR ''n''] else if c = CHR 0x0D then [bs, CHR ''r'']
      else if c = CHR 0x09 then [bs, CHR ''t''] else if c = CHR 0x08 then [bs, CHR ''b'']
      else if c = CHR 0x0C then [bs, CHR ''f'']
      else (let n = of_char c :: nat in
        if 32 \<le> n \<and> n \<le> 126 then [c]
        else [bs, CHR ''u'', CHR ''0'', CHR ''0'', hex_digit (n div 16), hex_digit (n mod 16)]))"

definition quote :: "string \<Rightarrow> string" where
  "quote s = dq # concat (map esc_char s) @ [dq]"

fun dumps :: "json \<Rightarrow> string" where
  "dumps JNull = ''null''"
| "dumps (JBool b) = (if b then ''true'' else ''false'')"
| "dumps (JNum i) = show_int i"
| "dumps (JStr s) = quote s"
| "dumps (JList vs) = ''['' @ join_with '', '' (map dumps vs) @ '']''"
| "dumps (JObj kvs) = ''{'' @ join_with '', '' (map (\<lambda>(k, v). quote k @ '': '' @ dumps v) kvs) @ ''}''"

fun canon :: "json \<Rightarrow> json" where
  "canon (JList vs) = JList (map canon vs)"
| "canon (JObj kvs) = JObj (sort_key fst (map (\<lambda>(k, v). (k, canon v)) kvs))"
| "canon v = v"

definition dumps_sorted :: "json \<Rightarrow> string" where
  \<comment> \<open>\<open>json.dumps(v, sort_keys=True)\<close>\<close>
  "dumps_sorted v = dumps (canon v)"

section \<open>json.loads\<close>

fun skip_ws :: "string \<Rightarrow> string" where
  "skip_ws [] = []"
| "skip_ws (c # s) =
     (if c = CHR '' '' \<or> c = CHR 0x09 \<or> c = CHR 0x0A \<or> c = CHR 0x0D then skip_ws s else c # s)"

definition unesc :: "char \<Rightarrow> char option" where
  "unesc e =
     (if e = dq then Some dq else if e = bs then Some bs else if e = CHR ''/'' then Some (CHR ''/'')
      else if e = CHR ''n'' then Some (CHR 0x0A) else if e = CHR ''r'' then Some (CHR 0x0D)
      else if e = CHR ''t'' then Some (CHR 0x09) else if e = CHR ''b'' then Some (CHR 0x08)
      else if e = CHR ''f'' then Some (CHR 0x0C) else None)"

definition hex4 :: "char \<Rightarrow> char \<Rightarrow> char \<Rightarrow> char \<Rightarrow> nat option" where
  "hex4 a b c d =
     (case (hex_val a, hex_val b, hex_val c, hex_val d) of
        (Some w, Some x, Some y, Some z) \<Rightarrow> Some (4096 * w + 256 * x + 16 * y + z)
      | _ \<Rightarrow> None)"

abbreviation push :: "'a \<Rightarrow> ('a list \<times> 'b) option \<Rightarrow> ('a list \<times> 'b) option" where
  "push x \<equiv> map_option (\<lambda>(xs, t). (x # xs, t))"

fun read_str :: "string \<Rightarrow> (string \<times> string) option" where
  \<comment> \<open>after the opening quote\<close>
  "read_str [] = None"
| "read_str (c # s) =
     (if c = dq then Some ([], s)
      else if c = bs then
        (case s of
           [] \<Rightarrow> None
         | e # s1 \<Rightarrow>
             (if e = CHR ''u'' then
                (case s1 of
                   h1 # h2 # h3 # h4 # s2 \<Rightarrow>
                     (case hex4 h1 h2 h3 h4 of
                        Some n \<Rightarrow> (if n < 256 then push (char_of n) (read_str s2) else None)
                      | None \<Rightarrow> None)
                 | _ \<Rightarrow> None)
              else (case unesc e of Some d \<Rightarrow> push d (read_str s1) | None \<Rightarrow> None)))
      else if (of_char c :: nat) < 32 then None
      else push c (read_str s))"

definition read_nat :: "string \<Rightarrow> nat" where
  "read_nat ds = foldl (\<lambda>n c. 10 * n + (of_char c - 48)) 0 ds"

definition read_num :: "string \<Rightarrow> (int \<times> string) option" where
  "read_num s =
     (let neg = startswith s ''-''; s1 = (if neg then drop 1 s else s);
          ds = takeWhile is_digit s1; rest = dropWhile is_digit s1
      in if ds = [] \<or> (hd ds = CHR ''0'' \<and> 1 < length ds) then None
         else if rest \<noteq> [] \<and> hd rest \<in> set ''.eE'' then None
         else Some (if neg then - int (read_nat ds) else int (read_nat ds), rest))"

definition dict_of :: "jobj \<Rightarrow> jobj" where
  \<comment> \<open>a repeated key keeps its first place and its last value\<close>
  "dict_of kvs = foldl (\<lambda>d (k, v). dset d k v) [] kvs"

fun jval :: "nat \<Rightarrow> string \<Rightarrow> (json \<times> string) option"
and jlist :: "nat \<Rightarrow> string \<Rightarrow> (json list \<times> string) option"
and jmembers :: "nat \<Rightarrow> string \<Rightarrow> (jobj \<times> string) option" where
  "jval 0 s = None"
| "jval (Suc n) [] = None"
| "jval (Suc n) (c # r) =
     (if c = dq then map_option (\<lambda>(x, t). (JStr x, t)) (read_str r)
      else if c = CHR ''['' then
        (if startswith (skip_ws r) '']'' then Some (JList [], drop 1 (skip_ws r))
         else map_option (\<lambda>(xs, t). (JList xs, t)) (jlist n (skip_ws r)))
      else if c = CHR ''{'' then
        (if startswith (skip_ws r) ''}'' then Some (JObj [], drop 1 (skip_ws r))
         else map_option (\<lambda>(kvs, t). (JObj (dict_of kvs), t)) (jmembers n (skip_ws r)))
      else if startswith (c # r) ''null'' then Some (JNull, drop 4 (c # r))
      else if startswith (c # r) ''true'' then Some (JBool True, drop 4 (c # r))
      else if startswith (c # r) ''false'' then Some (JBool False, drop 5 (c # r))
      else map_option (\<lambda>(i, t). (JNum i, t)) (read_num (c # r)))"
| "jlist 0 s = None"
| "jlist (Suc n) s =
     (case jval n s of
        None \<Rightarrow> None
      | Some (v, t) \<Rightarrow>
          (case skip_ws t of
             [] \<Rightarrow> None
           | c # u \<Rightarrow>
               (if c = CHR '','' then push v (jlist n (skip_ws u))
                else if c = CHR '']'' then Some ([v], u) else None)))"
| "jmembers 0 s = None"
| "jmembers (Suc n) [] = None"
| "jmembers (Suc n) (c # r) =
     (if c \<noteq> dq then None
      else (case read_str r of
        None \<Rightarrow> None
      | Some (k, t) \<Rightarrow>
          (case skip_ws t of
             [] \<Rightarrow> None
           | d # u \<Rightarrow>
               (if d \<noteq> CHR '':'' then None
                else (case jval n (skip_ws u) of
                  None \<Rightarrow> None
                | Some (v, w) \<Rightarrow>
                    (case skip_ws w of
                       [] \<Rightarrow> None
                     | e # x \<Rightarrow>
                         (if e = CHR '','' then push (k, v) (jmembers n (skip_ws x))
                          else if e = CHR ''}'' then Some ([(k, v)], x) else None)))))))"

definition loads :: "string \<Rightarrow> json option" where
  \<comment> \<open>on texts of integers and characters up to 255; floats, \<open>NaN\<close>, infinities and higher escapes,
      which \<open>json.loads\<close> reads, are \<open>None\<close> here\<close>
  "loads s =
     (case jval (2 * length s + 1) (skip_ws s) of
        None \<Rightarrow> None
      | Some (v, t) \<Rightarrow> (if skip_ws t = [] then Some v else None))"

section \<open>Strings and numbers are read back\<close>

lemma hex_val_table: "list_all (\<lambda>k. hex_val (hex_digit k) = Some k) [0..<16]"
  by code_simp

lemma hex_val_hex_digit [simp]: "k < 16 \<Longrightarrow> hex_val (hex_digit k) = Some k"
  using hex_val_table by (simp add: list_all_iff)

lemma hex_val_zero [simp]: "hex_val (CHR ''0'') = Some 0"
  by code_simp

lemma read_str_plain:
  "c \<noteq> dq \<Longrightarrow> c \<noteq> bs \<Longrightarrow> 32 \<le> (of_char c :: nat) \<Longrightarrow> read_str (c # t) = push c (read_str t)"
  by simp

lemma read_str_short: "unesc e = Some c \<Longrightarrow> read_str (bs # e # t) = push c (read_str t)"
  by (auto simp: unesc_def split: if_splits)

lemma read_str_hex:
  "m < 16 \<Longrightarrow> k < 16 \<Longrightarrow>
   read_str (bs # CHR ''u'' # CHR ''0'' # CHR ''0'' # hex_digit m # hex_digit k # t) =
   push (char_of (16 * m + k)) (read_str t)"
  by (simp add: hex4_def)

lemma read_str_esc [simp]: "read_str (esc_char c @ t) = push c (read_str t)"
proof -
  let ?n = "of_char c :: nat"
  have n: "?n < 256" by simp
  have hex: "read_str (bs # CHR ''u'' # CHR ''0'' # CHR ''0'' # hex_digit (?n div 16) #
      hex_digit (?n mod 16) # t) = push c (read_str t)"
  proof -
    have "?n div 16 < 16" using less_mult_imp_div_less [of ?n 16 16] n by simp
    then show ?thesis
      using read_str_hex [of "?n div 16" "?n mod 16" t] by (simp del: read_str.simps)
  qed
  show ?thesis
  proof (cases "c = dq \<or> c = bs \<or> c = CHR 0x0A \<or> c = CHR 0x0D \<or> c = CHR 0x09 \<or> c = CHR 0x08 \<or> c = CHR 0x0C")
    case True
    then show ?thesis
      by (elim disjE) (simp_all add: esc_char_def read_str_short unesc_def del: read_str.simps)
  next
    case False
    then show ?thesis
      using hex by (auto simp: esc_char_def Let_def read_str_plain simp del: read_str.simps)
  qed
qed

lemma read_str_quoted [simp]: "read_str (concat (map esc_char s) @ dq # t) = Some (s, t)"
  by (induction s) (simp_all del: read_str.simps(2) add: read_str.simps(2) [of dq])

lemma digit_char_digit [simp]: "n < 10 \<Longrightarrow> is_digit (digit_char n)"
  by (simp add: is_digit_def digit_char_def Let_def)

lemma of_digit_char [simp]: "n < 10 \<Longrightarrow> (of_char (digit_char n) :: nat) = 48 + n"
  by (simp add: digit_char_def)

lemma show_nat_digits: "list_all is_digit (show_nat n)"
  by (induction n rule: show_nat.induct) (subst show_nat.simps, simp)

lemma show_nat_nonempty [simp]: "show_nat n \<noteq> []"
  by (subst show_nat.simps) simp

lemma read_nat_snoc: "read_nat (ds @ [c]) = 10 * read_nat ds + (of_char c - 48)"
  by (simp add: read_nat_def)

lemma read_show_nat [simp]: "read_nat (show_nat n) = n"
proof (induction n rule: show_nat.induct)
  case (1 n)
  show ?case
  proof (cases "n < 10")
    case True
    then show ?thesis by (subst show_nat.simps) (simp add: read_nat_def)
  next
    case False
    then show ?thesis using 1 by (subst show_nat.simps) (simp add: read_nat_snoc)
  qed
qed

lemma show_nat_leading: "1 < length (show_nat n) \<Longrightarrow> hd (show_nat n) \<noteq> CHR ''0''"
proof (induction n rule: show_nat.induct)
  case (1 n)
  show ?case
  proof (cases "n < 10")
    case True
    then show ?thesis using "1.prems" by (simp add: show_nat.simps)
  next
    case False
    have "hd (show_nat (n div 10)) \<noteq> CHR ''0''"
    proof (cases "n div 10 < 10")
      case True
      then have "hd (show_nat (n div 10)) = digit_char (n div 10)" by (simp add: show_nat.simps)
      moreover have "digit_char (n div 10) \<noteq> CHR ''0''"
      proof
        assume "digit_char (n div 10) = CHR ''0''"
        then have "(of_char (digit_char (n div 10)) :: nat) = of_char (CHR ''0'')" by simp
        with True False show False by simp
      qed
      ultimately show ?thesis by simp
    next
      case large: False
      then have "1 < length (show_nat (n div 10))"
        by (subst show_nat.simps) (simp add: Suc_lessI)
      with 1 False show ?thesis by simp
    qed
    with False show ?thesis by (subst show_nat.simps) simp
  qed
qed

definition ends_value :: "string \<Rightarrow> bool" where
  \<comment> \<open>what may follow a value inside a text\<close>
  "ends_value t \<longleftrightarrow> (case t of [] \<Rightarrow> True | c # _ \<Rightarrow> c = CHR 0x0A \<or> c \<in> set '',]}'')"

lemma ends_value_simps [simp]:
  "ends_value []" "ends_value (CHR '','' # t)" "ends_value (CHR '']'' # t)" "ends_value (CHR ''}'' # t)"
  "ends_value (CHR 0x0A # t)"
  by (simp_all add: ends_value_def)

lemma ends_value_no_digit:
  "ends_value t \<Longrightarrow> takeWhile is_digit t = [] \<and> dropWhile is_digit t = t \<and> (t \<noteq> [] \<longrightarrow> hd t \<notin> set ''.eE'')"
  by (cases t) (auto simp: ends_value_def is_digit_def Let_def)

lemma takeWhile_digits:
  assumes "list_all is_digit ds" and "ends_value t"
  shows "takeWhile is_digit (ds @ t) = ds" and "dropWhile is_digit (ds @ t) = t"
  using assms ends_value_no_digit [of t]
  by (simp_all add: list_all_iff takeWhile_append dropWhile_append3)

lemma not_digit_minus [simp]: "\<not> is_digit (CHR ''-'')"
  by code_simp

lemma read_num_digits:
  assumes "list_all is_digit ds" and "ds \<noteq> []" and "1 < length ds \<Longrightarrow> hd ds \<noteq> CHR ''0''"
    and "ends_value t"
  shows "read_num (ds @ t) = Some (int (read_nat ds), t)"
    and "read_num (CHR ''-'' # ds @ t) = Some (- int (read_nat ds), t)"
proof -
  note tw = takeWhile_digits [OF assms(1,4)]
  have ok: "\<not> (ds = [] \<or> hd ds = CHR ''0'' \<and> 1 < length ds)" using assms(2,3) by auto
  have rest: "\<not> (t \<noteq> [] \<and> hd t \<in> set ''.eE'')" using ends_value_no_digit [OF assms(4)] by blast
  obtain c cs where ds: "ds = c # cs" using assms(2) by (meson neq_Nil_conv)
  with assms(1) have "c \<noteq> CHR ''-''" by (cases "c = CHR ''-''") simp_all
  then have "\<not> startswith (ds @ t) ''-''" by (simp add: ds)
  then show "read_num (ds @ t) = Some (int (read_nat ds), t)"
    using ok rest by (auto simp: read_num_def Let_def tw)
  show "read_num (CHR ''-'' # ds @ t) = Some (- int (read_nat ds), t)"
    using ok rest by (auto simp: read_num_def Let_def tw)
qed

lemma read_num_show_int: "ends_value t \<Longrightarrow> read_num (show_int i @ t) = Some (i, t)"
  using read_num_digits [OF show_nat_digits show_nat_nonempty show_nat_leading]
  by (auto simp: show_int_def)

section \<open>The reader inverts the writer\<close>

text \<open>One step of the list and member readers, as rules to use in either direction.\<close>

lemma jlist_Suc:
  "jlist (Suc n) s = Some q \<longleftrightarrow>
     (\<exists>v t u. jval n s = Some (v, t) \<and>
        ((skip_ws t = CHR '','' # u \<and> (\<exists>vs w. jlist n (skip_ws u) = Some (vs, w) \<and> q = (v # vs, w))) \<or>
         (skip_ws t = CHR '']'' # u \<and> q = ([v], u))))"
proof (cases "jval n s")
  case None
  then show ?thesis by simp
next
  case (Some p)
  obtain v t where p: "p = (v, t)" by (cases p)
  show ?thesis
  proof (cases "skip_ws t")
    case Nil
    then show ?thesis by (simp add: Some p)
  next
    case (Cons c u)
    then show ?thesis by (auto simp: Some p)
  qed
qed

lemma jmembers_Suc:
  "jmembers (Suc n) s = Some q \<longleftrightarrow>
     (\<exists>r k t u v w x. s = dq # r \<and> read_str r = Some (k, t) \<and> skip_ws t = CHR '':'' # u \<and>
        jval n (skip_ws u) = Some (v, w) \<and>
        ((skip_ws w = CHR '','' # x \<and> (\<exists>kvs y. jmembers n (skip_ws x) = Some (kvs, y) \<and> q = ((k, v) # kvs, y))) \<or>
         (skip_ws w = CHR ''}'' # x \<and> q = ([(k, v)], x))))"
  (is "_ \<longleftrightarrow> ?R")
proof
  assume l: "jmembers (Suc n) s = Some q"
  then obtain r k t where s: "s = dq # r" "read_str r = Some (k, t)"
    by (cases s) (auto split: if_splits option.splits)
  with l obtain u where u: "skip_ws t = CHR '':'' # u"
    by (cases "skip_ws t") (auto split: if_splits)
  with l s obtain v w where v: "jval n (skip_ws u) = Some (v, w)"
    by (auto split: option.splits)
  with l s u show ?R
    by (cases "skip_ws w") (auto split: if_splits)
next
  assume ?R
  then show "jmembers (Suc n) s = Some q" by auto
qed

declare jval.simps [simp del] jlist.simps [simp del] jmembers.simps [simp del]
lemmas jval_Cons = jval.simps(3)

lemma jval_0 [simp]: "jval 0 s = None" "jlist 0 s = None" "jmembers 0 s = None" "jval n [] = None"
  by (simp_all add: jval.simps jlist.simps jmembers.simps) (cases n, simp_all add: jval.simps)

text \<open>Every reader consumes input.\<close>

lemma skip_ws_length: "length (skip_ws s) \<le> length s"
  by (induction s) auto

lemma push_Some [simp]: "push d z = Some q \<longleftrightarrow> (\<exists>xs t. z = Some (xs, t) \<and> q = (d # xs, t))"
  by (auto simp: map_option_case split: option.splits)

lemma read_str_Cons:
  "read_str (c # s) = Some (x, t) \<Longrightarrow>
     (c = dq \<and> x = [] \<and> t = s) \<or>
     (\<exists>d y s'. read_str s' = Some (y, t) \<and> x = d # y \<and> length s' \<le> length s)"
  by (simp split: if_splits list.splits option.splits; fastforce)

lemma read_str_length: "read_str s = Some (x, t) \<Longrightarrow> length t < length s"
proof (induction s arbitrary: x rule: length_induct)
  case (1 s)
  then obtain c s0 where s: "s = c # s0" by (cases s) auto
  from read_str_Cons [OF "1.prems" [unfolded s]] show ?case
  proof
    assume "c = dq \<and> x = [] \<and> t = s0"
    then show ?thesis by (simp add: s)
  next
    assume "\<exists>d y s'. read_str s' = Some (y, t) \<and> x = d # y \<and> length s' \<le> length s0"
    then obtain y s' where r: "read_str s' = Some (y, t)" and l: "length s' \<le> length s0" by blast
    from r l have "length t < length s'" using "1.IH" s by (metis le_imp_less_Suc length_Cons)
    with l show ?thesis by (simp add: s)
  qed
qed

lemma read_num_length:
  assumes "read_num s = Some (i, t)"
  shows "length t < length s"
proof -
  define s1 where "s1 = (if startswith s ''-'' then drop 1 s else s)"
  from assms have ne: "takeWhile is_digit s1 \<noteq> []" and t: "t = dropWhile is_digit s1"
    by (auto simp: read_num_def Let_def s1_def split: if_splits)
  have "length (takeWhile is_digit s1) + length t = length s1"
    unfolding t by (metis length_append takeWhile_dropWhile_id)
  moreover have "length s1 \<le> length s" by (simp add: s1_def)
  moreover have "0 < length (takeWhile is_digit s1)" using ne by simp
  ultimately show ?thesis by linarith
qed

lemma jval_length:
  "(\<forall>s v t. jval n s = Some (v, t) \<longrightarrow> length t < length s) \<and>
   (\<forall>s vs t. jlist n s = Some (vs, t) \<longrightarrow> length t < length s) \<and>
   (\<forall>s kvs t. jmembers n s = Some (kvs, t) \<longrightarrow> length t < length s)"
proof (induction n)
  case 0
  show ?case by simp
next
  case (Suc n)
  then have jv: "\<And>s v t. jval n s = Some (v, t) \<Longrightarrow> length t < length s"
    and jl: "\<And>s vs t. jlist n s = Some (vs, t) \<Longrightarrow> length t < length s"
    and jm: "\<And>s kvs t. jmembers n s = Some (kvs, t) \<Longrightarrow> length t < length s" by blast+
  have ws: "skip_ws s = c # u \<Longrightarrow> length u < length s" for s c u
    using skip_ws_length [of s] by simp
  show ?case
  proof (intro conjI allI impI)
    fix s v t
    assume a: "jval (Suc n) s = Some (v, t)"
    then obtain c r where s: "s = c # r" by (cases s) auto
    have "length t \<le> length r"
    proof (cases "c = dq \<or> c = CHR ''['' \<or> c = CHR ''{''")
      case True
      then show ?thesis
      proof (elim disjE)
        assume "c = dq"
        with a obtain x where "read_str r = Some (x, t)" by (auto simp: s jval_Cons)
        then show ?thesis using read_str_length less_imp_le by blast
      next
        assume "c = CHR ''[''"
        with a have "t = drop 1 (skip_ws r) \<or> (\<exists>xs. jlist n (skip_ws r) = Some (xs, t))"
          by (auto simp: s jval_Cons split: if_splits)
        then show ?thesis using skip_ws_length [of r] jl by fastforce
      next
        assume "c = CHR ''{''"
        with a have "t = drop 1 (skip_ws r) \<or> (\<exists>kvs. jmembers n (skip_ws r) = Some (kvs, t))"
          by (auto simp: s jval_Cons split: if_splits)
        then show ?thesis using skip_ws_length [of r] jm by fastforce
      qed
    next
      case False
      with a have "(\<exists>k. t = drop k r) \<or> (\<exists>i. read_num (c # r) = Some (i, t))"
        by (simp add: s jval_Cons split: if_splits) blast+
      then show ?thesis using read_num_length [of "c # r"] by auto
    qed
    then show "length t < length s" by (simp add: s)
  next
    fix s vs t
    assume "jlist (Suc n) s = Some (vs, t)"
    then obtain v w u where v: "jval n s = Some (v, w)"
      and u: "(skip_ws w = CHR '','' # u \<and> (\<exists>vs. jlist n (skip_ws u) = Some (vs, t))) \<or>
              (skip_ws w = CHR '']'' # u \<and> u = t)"
      unfolding jlist_Suc by blast
    from u have "length t < length w"
      using ws [of w] jl [of "skip_ws u"] skip_ws_length [of u] by fastforce
    with jv [OF v] show "length t < length s" by simp
  next
    fix s kvs t
    assume "jmembers (Suc n) s = Some (kvs, t)"
    then obtain r k t1 u v w x where s: "s = dq # r" "read_str r = Some (k, t1)"
      "skip_ws t1 = CHR '':'' # u" "jval n (skip_ws u) = Some (v, w)"
      and x: "(skip_ws w = CHR '','' # x \<and> (\<exists>kvs. jmembers n (skip_ws x) = Some (kvs, t))) \<or>
              (skip_ws w = CHR ''}'' # x \<and> x = t)"
      unfolding jmembers_Suc by blast
    have "length w < length s"
      using s ws [of t1] read_str_length [of r] jv [of "skip_ws u"] skip_ws_length [of u] by fastforce
    moreover have "length t < length w"
      using x ws [of w] jm [of "skip_ws x"] skip_ws_length [of x] by fastforce
    ultimately show "length t < length s" by simp
  qed
qed

text \<open>More fuel never changes a result, and twice the length of the text is always enough.\<close>

lemma jval_Suc_mono:
  assumes "\<And>u q. length u < length s \<Longrightarrow> jlist n u = Some q \<Longrightarrow> jlist m u = Some q"
    and "\<And>u q. length u < length s \<Longrightarrow> jmembers n u = Some q \<Longrightarrow> jmembers m u = Some q"
    and "jval (Suc n) s = Some r"
  shows "jval (Suc m) s = Some r"
proof -
  obtain c u where s: "s = c # u" using assms(3) by (cases s) auto
  have "length (skip_ws u) < length s" using skip_ws_length [of u] by (simp add: s)
  from assms(1) [OF this] assms(2) [OF this] assms(3) show ?thesis
    by (auto simp: s jval_Cons split: if_splits)
qed

lemma jlist_Suc_mono:
  assumes jv: "\<And>r. jval n s = Some r \<Longrightarrow> jval m s = Some r"
    and jl: "\<And>u q. length u < length s \<Longrightarrow> jlist n u = Some q \<Longrightarrow> jlist m u = Some q"
    and "jlist (Suc n) s = Some q"
  shows "jlist (Suc m) s = Some q"
proof -
  have len: "length (skip_ws u) < length s" if "jval n s = Some (v, t)" "skip_ws t = c # u" for v t c u
    using that skip_ws_length [of t] skip_ws_length [of u] jval_length [of n] by fastforce
  show ?thesis
    using assms(3) unfolding jlist_Suc
    by (elim ex_forward conj_forward disj_forward exE conjE) (use jv jl len in blast)+
qed

lemma jmembers_Suc_mono:
  assumes jv: "\<And>u r. length u < length s \<Longrightarrow> jval n u = Some r \<Longrightarrow> jval m u = Some r"
    and jm: "\<And>u q. length u < length s \<Longrightarrow> jmembers n u = Some q \<Longrightarrow> jmembers m u = Some q"
    and a: "jmembers (Suc n) s = Some q"
  shows "jmembers (Suc m) s = Some q"
proof -
  from a obtain r k t u v w x where s: "s = dq # r" "read_str r = Some (k, t)"
    "skip_ws t = CHR '':'' # u" "jval n (skip_ws u) = Some (v, w)"
    and x: "(skip_ws w = CHR '','' # x \<and> (\<exists>kvs y. jmembers n (skip_ws x) = Some (kvs, y) \<and> q = ((k, v) # kvs, y))) \<or>
            (skip_ws w = CHR ''}'' # x \<and> q = ([(k, v)], x))"
    unfolding jmembers_Suc by blast
  have lu: "length (skip_ws u) < length s"
    using s skip_ws_length [of t] read_str_length [of r] skip_ws_length [of u] by fastforce
  have "length (skip_ws x) < length w" if "skip_ws w = c # x" for c
    using that skip_ws_length [of w] skip_ws_length [of x] by simp
  moreover have "length w < length s"
    using s(4) lu jval_length [of n] less_trans by blast
  ultimately have lx: "length (skip_ws x) < length s" if "skip_ws w = c # x" for c
    using that less_trans by blast
  have "jval m (skip_ws u) = Some (v, w)" using jv [OF lu s(4)] .
  moreover have "(skip_ws w = CHR '','' # x \<and> (\<exists>kvs y. jmembers m (skip_ws x) = Some (kvs, y) \<and> q = ((k, v) # kvs, y))) \<or>
            (skip_ws w = CHR ''}'' # x \<and> q = ([(k, v)], x))"
    using x jm lx by blast
  ultimately show ?thesis unfolding jmembers_Suc using s(1-3) by blast
qed

lemma jval_enough:
  "(\<forall>s r n. jval m s = Some r \<longrightarrow> 2 * length s < n \<longrightarrow> jval n s = Some r) \<and>
   (\<forall>s q n. jlist m s = Some q \<longrightarrow> 2 * length s + 1 < n \<longrightarrow> jlist n s = Some q) \<and>
   (\<forall>s q n. jmembers m s = Some q \<longrightarrow> 2 * length s + 1 < n \<longrightarrow> jmembers n s = Some q)"
proof (induction m)
  case 0
  show ?case by simp
next
  case (Suc m)
  then have jv: "\<And>s r n. jval m s = Some r \<Longrightarrow> 2 * length s < n \<Longrightarrow> jval n s = Some r"
    and jl: "\<And>s q n. jlist m s = Some q \<Longrightarrow> 2 * length s + 1 < n \<Longrightarrow> jlist n s = Some q"
    and jm: "\<And>s q n. jmembers m s = Some q \<Longrightarrow> 2 * length s + 1 < n \<Longrightarrow> jmembers n s = Some q"
    by blast+
  show ?case
  proof (intro conjI allI impI)
    fix s r n
    assume a: "jval (Suc m) s = Some r" and "2 * length s < n"
    then obtain k where n: "n = Suc k" "2 * length s \<le> k" by (cases n) auto
    have "jlist k u = Some q" if "length u < length s" "jlist m u = Some q" for u q
      by (rule jl [OF that(2)]) (use that(1) n(2) in linarith)
    moreover have "jmembers k u = Some q" if "length u < length s" "jmembers m u = Some q" for u q
      by (rule jm [OF that(2)]) (use that(1) n(2) in linarith)
    ultimately show "jval n s = Some r" unfolding n(1) by (rule jval_Suc_mono [OF _ _ a])
  next
    fix s q n
    assume a: "jlist (Suc m) s = Some q" and "2 * length s + 1 < n"
    then obtain k where n: "n = Suc k" "2 * length s + 1 \<le> k" by (cases n) auto
    have "jval k s = Some r" if "jval m s = Some r" for r
      by (rule jv [OF that]) (use n(2) in linarith)
    moreover have "jlist k u = Some q" if "length u < length s" "jlist m u = Some q" for u q
      by (rule jl [OF that(2)]) (use that(1) n(2) in linarith)
    ultimately show "jlist n s = Some q" unfolding n(1) by (rule jlist_Suc_mono [OF _ _ a])
  next
    fix s q n
    assume a: "jmembers (Suc m) s = Some q" and "2 * length s + 1 < n"
    then obtain k where n: "n = Suc k" "2 * length s + 1 \<le> k" by (cases n) auto
    have "jval k u = Some r" if "length u < length s" "jval m u = Some r" for u r
      by (rule jv [OF that(2)]) (use that(1) n(2) in linarith)
    moreover have "jmembers k u = Some q" if "length u < length s" "jmembers m u = Some q" for u q
      by (rule jm [OF that(2)]) (use that(1) n(2) in linarith)
    ultimately show "jmembers n s = Some q" unfolding n(1) by (rule jmembers_Suc_mono [OF _ _ a])
  qed
qed

lemma jval_fuel: "jval m s = Some r \<Longrightarrow> 2 * length s < n \<Longrightarrow> jval n s = Some r"
  using jval_enough by blast

lemma jval_mono:
  "n \<le> m \<Longrightarrow>
   (\<forall>s r. jval n s = Some r \<longrightarrow> jval m s = Some r) \<and>
   (\<forall>s q. jlist n s = Some q \<longrightarrow> jlist m s = Some q) \<and>
   (\<forall>s q. jmembers n s = Some q \<longrightarrow> jmembers m s = Some q)"
proof (induction n arbitrary: m)
  case 0
  show ?case by simp
next
  case (Suc n)
  then obtain k where m: "m = Suc k" "n \<le> k" by (cases m) auto
  note IH = Suc.IH [OF m(2)]
  show ?case unfolding m(1)
  proof (intro conjI allI impI)
    fix s r assume a: "jval (Suc n) s = Some r"
    show "jval (Suc k) s = Some r" by (rule jval_Suc_mono [OF _ _ a]) (use IH in blast)+
  next
    fix s q assume a: "jlist (Suc n) s = Some q"
    show "jlist (Suc k) s = Some q" by (rule jlist_Suc_mono [OF _ _ a]) (use IH in blast)+
  next
    fix s q assume a: "jmembers (Suc n) s = Some q"
    show "jmembers (Suc k) s = Some q" by (rule jmembers_Suc_mono [OF _ _ a]) (use IH in blast)+
  qed
qed

text \<open>A value whose keys are distinct at every level is read back as it was written.\<close>

fun wf_json :: "json \<Rightarrow> bool" where
  "wf_json (JList vs) = list_all wf_json vs"
| "wf_json (JObj kvs) = (distinct (map fst kvs) \<and> list_all (\<lambda>(k, v). wf_json v) kvs)"
| "wf_json v = True"

lemma dict_of_distinct: "distinct (map fst kvs) \<Longrightarrow> dict_of kvs = kvs"
proof -
  have app: "foldl (\<lambda>d (k, v). dset d k v) d kvs = d @ kvs"
    if "distinct (map fst (d @ kvs))" for d kvs :: jobj
    using that
  proof (induction kvs arbitrary: d)
    case Nil
    show ?case by simp
  next
    case (Cons kv kvs)
    obtain k v where kv: "kv = (k, v)" by (cases kv)
    have new: "k \<notin> fst ` set d" using Cons.prems by (auto simp: kv)
    have "dset d k v = d @ [(k, v)]" using new by (induction d) auto
    then show ?case using Cons by (simp add: kv)
  qed
  show "distinct (map fst kvs) \<Longrightarrow> dict_of kvs = kvs"
    using app [of "[]" kvs] by (simp add: dict_of_def)
qed

lemma digit_not_space: "is_digit c \<Longrightarrow> skip_ws (c # s) = c # s"
  by (auto simp: is_digit_def)

lemma show_int_start: "\<exists>c u. show_int i = c # u \<and> (is_digit c \<or> c = CHR ''-'')"
proof -
  obtain c u where "show_nat (nat \<bar>i\<bar>) = c # u" by (meson neq_Nil_conv show_nat_nonempty)
  then show ?thesis
    using show_nat_digits [of "nat \<bar>i\<bar>"] by (cases "i < 0") (auto simp: show_int_def)
qed

lemma skip_ws_dumps [simp]: "skip_ws (dumps v @ t) = dumps v @ t"
proof (cases v)
  case (JNum i)
  with show_int_start [of i] digit_not_space show ?thesis by fastforce
qed (auto simp: quote_def)

lemma dumps_not_close [simp]: "\<not> startswith (dumps v @ t) '']''"
proof (cases v)
  case (JNum i)
  then show ?thesis using show_int_start [of i] by (auto simp: is_digit_def)
qed (auto simp: quote_def)

definition reads :: "json \<Rightarrow> bool" where
  "reads v \<longleftrightarrow> (\<exists>n. \<forall>t. ends_value t \<longrightarrow> jval n (dumps v @ t) = Some (v, t))"

lemma jlist_more:
  "jval n s = Some (v, CHR '','' # u) \<Longrightarrow> jlist n (skip_ws u) = Some (vs, t) \<Longrightarrow> jlist (Suc n) s = Some (v # vs, t)"
  by (simp add: jlist.simps)

lemma jlist_last: "jval n s = Some (v, CHR '']'' # t) \<Longrightarrow> jlist (Suc n) s = Some ([v], t)"
  by (simp add: jlist.simps)

lemma jmembers_more:
  "jval n (skip_ws u) = Some (v, CHR '','' # x) \<Longrightarrow> jmembers n (skip_ws x) = Some (kvs, t) \<Longrightarrow>
   jmembers (Suc n) (quote k @ CHR '':'' # u) = Some ((k, v) # kvs, t)"
  by (simp add: jmembers.simps quote_def)

lemma jmembers_last:
  "jval n (skip_ws u) = Some (v, CHR ''}'' # t) \<Longrightarrow>
   jmembers (Suc n) (quote k @ CHR '':'' # u) = Some ([(k, v)], t)"
  by (simp add: jmembers.simps quote_def)

lemma jlist_reads:
  "vs \<noteq> [] \<Longrightarrow> \<forall>v\<in>set vs. reads v \<Longrightarrow>
   \<exists>n. \<forall>t. jlist n (join_with '', '' (map dumps vs) @ CHR '']'' # t) = Some (vs, t)"
proof (induction vs rule: list_nonempty_induct)
  case (single v)
  then obtain n where "\<forall>t. ends_value t \<longrightarrow> jval n (dumps v @ t) = Some (v, t)"
    by (auto simp: reads_def)
  then have "jlist (Suc n) (join_with '', '' (map dumps [v]) @ CHR '']'' # t) = Some ([v], t)" for t
    unfolding jlist_Suc by simp
  then show ?case by blast
next
  case (cons v vs)
  then obtain n m where n: "\<forall>t. ends_value t \<longrightarrow> jval n (dumps v @ t) = Some (v, t)"
    and m: "\<forall>t. jlist m (join_with '', '' (map dumps vs) @ CHR '']'' # t) = Some (vs, t)"
    by (auto simp: reads_def)
  let ?k = "max n m"
  obtain w ws where vs: "vs = w # ws" using cons.hyps by (cases vs) auto
  have skip: "skip_ws (CHR '' '' # join_with '', '' (map dumps vs) @ t) = join_with '', '' (map dumps vs) @ t" for t
    by (cases ws) (simp_all add: vs)
  have "jlist (Suc ?k) (join_with '', '' (map dumps (v # vs)) @ CHR '']'' # t) = Some (v # vs, t)" for t
  proof -
    let ?u = "CHR '' '' # join_with '', '' (map dumps vs) @ CHR '']'' # t"
    have "jval ?k (dumps v @ CHR '','' # ?u) = Some (v, CHR '','' # ?u)"
      using n jval_mono [of n ?k] by simp
    moreover have "jlist ?k (skip_ws ?u) = Some (vs, t)"
      using m jval_mono [of m ?k] unfolding skip by simp
    ultimately have "jlist (Suc ?k) (dumps v @ CHR '','' # ?u) = Some (v # vs, t)" by (rule jlist_more)
    then show ?thesis by (simp add: vs)
  qed
  then show ?case by blast
qed

abbreviation member :: "string \<times> json \<Rightarrow> string" where
  "member \<equiv> (\<lambda>(k, v). quote k @ '': '' @ dumps v)"

lemma jmembers_reads:
  "kvs \<noteq> [] \<Longrightarrow> \<forall>kv\<in>set kvs. reads (snd kv) \<Longrightarrow>
   \<exists>n. \<forall>t. jmembers n (join_with '', '' (map member kvs) @ CHR ''}'' # t) = Some (kvs, t)"
proof (induction kvs rule: list_nonempty_induct)
  case (single kv)
  obtain k v where kv: "kv = (k, v)" by (cases kv)
  with single obtain n where n: "\<forall>t. ends_value t \<longrightarrow> jval n (dumps v @ t) = Some (v, t)"
    by (auto simp: reads_def)
  have "jmembers (Suc n) (join_with '', '' (map member [kv]) @ CHR ''}'' # t) = Some ([kv], t)" for t
  proof -
    have "jval n (skip_ws (CHR '' '' # dumps v @ CHR ''}'' # t)) = Some (v, CHR ''}'' # t)"
      using n by simp
    then show ?thesis using jmembers_last [of n _ v t k] by (simp add: kv del: skip_ws.simps)
  qed
  then show ?case by blast
next
  case (cons kv kvs)
  obtain k v where kv: "kv = (k, v)" by (cases kv)
  with cons obtain n m where n: "\<forall>t. ends_value t \<longrightarrow> jval n (dumps v @ t) = Some (v, t)"
    and m: "\<forall>t. jmembers m (join_with '', '' (map member kvs) @ CHR ''}'' # t) = Some (kvs, t)"
    by (auto simp: reads_def)
  let ?k = "max n m"
  obtain k' v' kvs' where kvs: "kvs = (k', v') # kvs'" using cons.hyps by (cases kvs) auto
  have skip: "skip_ws (CHR '' '' # join_with '', '' (map member kvs) @ t) = join_with '', '' (map member kvs) @ t" for t
    by (cases kvs') (simp_all add: kvs quote_def)
  have "jmembers (Suc ?k) (join_with '', '' (map member (kv # kvs)) @ CHR ''}'' # t) = Some (kv # kvs, t)" for t
  proof -
    let ?x = "CHR '' '' # join_with '', '' (map member kvs) @ CHR ''}'' # t"
    have v: "jval ?k (skip_ws (CHR '' '' # dumps v @ CHR '','' # ?x)) = Some (v, CHR '','' # ?x)"
      using n jval_mono [of n ?k] by simp
    have x: "jmembers ?k (skip_ws ?x) = Some (kvs, t)"
      using m jval_mono [of m ?k] unfolding skip by simp
    from jmembers_more [OF v x, of k] show ?thesis by (simp add: kvs kv)
  qed
  then show ?case by blast
qed

lemma not_digit:
  "\<not> (is_digit dq \<or> dq = CHR ''-'')" "\<not> (is_digit (CHR ''['') \<or> CHR ''['' = CHR ''-'')"
  "\<not> (is_digit (CHR ''{'') \<or> CHR ''{'' = CHR ''-'')" "\<not> (is_digit (CHR ''n'') \<or> CHR ''n'' = CHR ''-'')"
  "\<not> (is_digit (CHR ''t'') \<or> CHR ''t'' = CHR ''-'')" "\<not> (is_digit (CHR ''f'') \<or> CHR ''f'' = CHR ''-'')"
  by code_simp+

lemma jval_number:
  "is_digit c \<or> c = CHR ''-'' \<Longrightarrow>
   jval (Suc n) (c # u) = map_option (\<lambda>(i, t). (JNum i, t)) (read_num (c # u))"
proof -
  assume "is_digit c \<or> c = CHR ''-''"
  then have "c \<noteq> dq" "c \<noteq> CHR ''[''" "c \<noteq> CHR ''{''" "c \<noteq> CHR ''n''" "c \<noteq> CHR ''t''" "c \<noteq> CHR ''f''"
    using not_digit by (blast, blast, blast, blast, blast, blast)
  then show ?thesis by (simp add: jval_Cons)
qed

lemma dumps_reads: "wf_json v \<Longrightarrow> reads v"
proof (induction v)
  case (JList vs)
  show ?case
  proof (cases "vs = []")
    case True
    then have "jval (Suc 0) (dumps (JList vs) @ t) = Some (JList vs, t)" for t by (simp add: jval_Cons)
    then show ?thesis unfolding reads_def by blast
  next
    case False
    with JList obtain n where n: "\<forall>t. jlist n (join_with '', '' (map dumps vs) @ CHR '']'' # t) = Some (vs, t)"
      using jlist_reads [of vs] by (auto simp: list_all_iff)
    obtain w ws where vs: "vs = w # ws" using False by (cases vs) auto
    have "jval (Suc n) (dumps (JList vs) @ t) = Some (JList vs, t)" for t
    proof -
      let ?j = "join_with '', '' (map dumps vs) @ CHR '']'' # t"
      have "skip_ws ?j = ?j" "\<not> startswith ?j '']''" by (cases ws; simp add: vs)+
      then show ?thesis using n by (simp add: jval_Cons)
    qed
    then show ?thesis unfolding reads_def by blast
  qed
next
  case (JObj kvs)
  show ?case
  proof (cases "kvs = []")
    case True
    then have "jval (Suc 0) (dumps (JObj kvs) @ t) = Some (JObj kvs, t)" for t by (simp add: jval_Cons)
    then show ?thesis unfolding reads_def by blast
  next
    case False
    with JObj obtain n where n: "\<forall>t. jmembers n (join_with '', '' (map member kvs) @ CHR ''}'' # t) = Some (kvs, t)"
      using jmembers_reads [of kvs] by (fastforce simp: list_all_iff)
    obtain k v kvs' where kvs: "kvs = (k, v) # kvs'" using False by (cases kvs) auto
    have "jval (Suc n) (dumps (JObj kvs) @ t) = Some (JObj kvs, t)" for t
    proof -
      let ?j = "join_with '', '' (map member kvs) @ CHR ''}'' # t"
      have "skip_ws ?j = ?j" "\<not> startswith ?j ''}''" by (cases kvs'; simp add: kvs quote_def)+
      then show ?thesis using n JObj.prems by (simp add: jval_Cons dict_of_distinct)
    qed
    then show ?thesis unfolding reads_def by blast
  qed
next
  case (JNum i)
  obtain c u where c: "show_int i = c # u" "is_digit c \<or> c = CHR ''-''" using show_int_start by blast
  then have "jval (Suc 0) (dumps (JNum i) @ t) = Some (JNum i, t)" if "ends_value t" for t
    using read_num_show_int [OF that, of i] by (simp add: jval_number)
  then show ?case unfolding reads_def by blast
next
  case (JBool b)
  have "jval (Suc 0) (dumps (JBool b) @ t) = Some (JBool b, t)" for t by (simp add: jval_Cons)
  then show ?case unfolding reads_def by blast
next
  case JNull
  have "jval (Suc 0) (dumps JNull @ t) = Some (JNull, t)" for t by (simp add: jval_Cons)
  then show ?case unfolding reads_def by blast
next
  case (JStr s)
  have "jval (Suc 0) (dumps (JStr s) @ t) = Some (JStr s, t)" for t by (simp add: jval_Cons quote_def)
  then show ?case unfolding reads_def by blast
qed

lemma loads_dumps [simp]: "wf_json v \<Longrightarrow> loads (dumps v) = Some v"
proof -
  assume "wf_json v"
  then obtain n where "jval n (dumps v @ []) = Some (v, [])"
    using dumps_reads unfolding reads_def by (metis ends_value_simps(1))
  then have "jval (2 * length (dumps v) + 1) (dumps v) = Some (v, [])"
    using jval_fuel [of n "dumps v" "(v, [])" "2 * length (dumps v) + 1"] by simp
  then show "loads (dumps v) = Some v"
    using skip_ws_dumps [of v "[]"] by (simp add: loads_def)
qed

section \<open>What is read is well formed\<close>

lemma dset_wf:
  "list_all (\<lambda>(k, v). wf_json v) d \<Longrightarrow> wf_json v \<Longrightarrow> list_all (\<lambda>(k, v). wf_json v) (dset d k v)"
  by (induction d) auto

lemma wf_dset: "wf_json (JObj d) \<Longrightarrow> wf_json v \<Longrightarrow> wf_json (JObj (dset d k v))"
  unfolding wf_json.simps by (intro conjI distinct_dset dset_wf) simp_all

lemma dict_of_wf:
  assumes "list_all (\<lambda>(k, v). wf_json v) kvs"
  shows "wf_json (JObj (dict_of kvs))"
proof -
  have "list_all (\<lambda>(k, v). wf_json v) d \<Longrightarrow> distinct (map fst d) \<Longrightarrow>
        wf_json (JObj (foldl (\<lambda>d (k, v). dset d k v) d kvs))" for d
    using assms
  proof (induction kvs arbitrary: d)
    case (Cons kv kvs)
    obtain k v where kv: "kv = (k, v)" by (cases kv)
    with Cons.prems have "list_all (\<lambda>(k, v). wf_json v) (dset d k v)" "distinct (map fst (dset d k v))"
      using dset_wf distinct_dset by auto
    with Cons.IH Cons.prems(3) show ?case by (simp add: kv)
  qed simp
  from this [of "[]"] show ?thesis by (simp add: dict_of_def)
qed

definition reads_wf :: "(json \<times> string) option \<Rightarrow> bool" where
  "reads_wf r \<longleftrightarrow> (case r of None \<Rightarrow> True | Some (v, t) \<Rightarrow> wf_json v)"

lemma reads_wf_if: "reads_wf a \<Longrightarrow> reads_wf b \<Longrightarrow> reads_wf (if c then a else b)"
  by simp

lemma reads_wf_Some [simp]: "reads_wf (Some (v, t)) \<longleftrightarrow> wf_json v"
  by (simp add: reads_wf_def)

lemma reads_wf_map: "(\<And>x t. r = Some (x, t) \<Longrightarrow> wf_json (f x)) \<Longrightarrow> reads_wf (map_option (\<lambda>(x, t). (f x, t)) r)"
  by (cases r) (auto simp: reads_wf_def)

lemma reads_wf_jval:
  assumes "\<And>vs t. jlist n (skip_ws r) = Some (vs, t) \<Longrightarrow> list_all wf_json vs"
    and "\<And>kvs t. jmembers n (skip_ws r) = Some (kvs, t) \<Longrightarrow> list_all (\<lambda>(k, v). wf_json v) kvs"
  shows "reads_wf (jval (Suc n) (c # r))"
  unfolding jval_Cons
  by (intro reads_wf_if reads_wf_map) (use assms in \<open>simp_all add: dict_of_wf [simplified]\<close>)

lemma jval_wf:
  "(\<forall>s v t. jval n s = Some (v, t) \<longrightarrow> wf_json v) \<and>
   (\<forall>s vs t. jlist n s = Some (vs, t) \<longrightarrow> list_all wf_json vs) \<and>
   (\<forall>s kvs t. jmembers n s = Some (kvs, t) \<longrightarrow> list_all (\<lambda>(k, v). wf_json v) kvs)"
proof (induction n)
  case (Suc n)
  have "wf_json v" if j: "jval (Suc n) s = Some (v, t)" for s v t
  proof -
    obtain c r where s: "s = c # r" using j by (cases s) auto
    have "reads_wf (jval (Suc n) (c # r))" by (rule reads_wf_jval) (use Suc in blast)+
    then show ?thesis using j by (simp add: s)
  qed
  moreover have "list_all wf_json vs" if "jlist (Suc n) s = Some (vs, t)" for s vs t
    using that Suc unfolding jlist_Suc by fastforce
  moreover have "list_all (\<lambda>(k, v). wf_json v) kvs" if "jmembers (Suc n) s = Some (kvs, t)" for s kvs t
    using that Suc unfolding jmembers_Suc by fastforce
  ultimately show ?case by blast
qed simp

lemma loads_wf: "loads s = Some v \<Longrightarrow> wf_json v"
proof -
  assume "loads s = Some v"
  then obtain t where "jval (2 * length s + 1) (skip_ws s) = Some (v, t)"
    by (auto simp: loads_def split: option.splits if_splits)
  then show "wf_json v" using jval_wf [of "2 * length s + 1"] by blast
qed

section \<open>Sorted keys\<close>

lemma distinct_sort_key [simp]: "distinct (map fst (sort_key fst d)) \<longleftrightarrow> distinct (map fst d)"
proof -
  have "mset (map fst (sort_key fst d)) = mset (map fst d)" by simp
  then show ?thesis by (rule mset_eq_imp_distinct_iff)
qed

lemma map_fst_canon [simp]: "map (fst \<circ> (\<lambda>(k, v). (k, f v))) d = map fst d"
  by (auto simp: comp_def case_prod_beta)

lemma canon_wf: "wf_json v \<Longrightarrow> wf_json (canon v)"
proof (induction v)
  case (JObj kvs)
  have "distinct (map fst (sort_key fst (map (\<lambda>(k, v). (k, canon v)) kvs)))"
    using JObj.prems unfolding distinct_sort_key by simp
  moreover have "list_all (\<lambda>(k, v). wf_json v) (map (\<lambda>(k, v). (k, canon v)) kvs)"
    using JObj by (fastforce simp: list_all_iff)
  ultimately show ?case by (simp add: list_all_iff)
qed (simp_all add: list_all_iff)

lemma sort_key_sorted: "sorted (map f xs) \<Longrightarrow> sort_key f xs = xs"
  by (simp add: sort_key_id_if_sorted)

lemma canon_idem [simp]: "canon (canon v) = canon v"
proof (induction v)
  case (JObj kvs)
  let ?s = "sort_key fst (map (\<lambda>(k, v). (k, canon v)) kvs)"
  have "(\<lambda>(k, v). (k, canon v)) kv = kv" if "kv \<in> set ?s" for kv
  proof -
    from that obtain k v where "(k, v) \<in> set kvs" "kv = (k, canon v)" by auto
    with JObj.IH [of "(k, v)" v] show ?thesis by simp
  qed
  then have "map (\<lambda>(k, v). (k, canon v)) ?s = ?s" by (rule map_idI)
  then show ?case by (simp add: sort_key_sorted)
qed auto

lemma sort_key_map_snd:
  "sort_key fst (map (\<lambda>(k, v). (k, f v)) d) = map (\<lambda>(k, v). (k, f v)) (sort_key fst d)"
proof -
  have ins: "insort_key fst (k, f v) (map (\<lambda>(k, v). (k, f v)) xs) =
        map (\<lambda>(k, v). (k, f v)) (insort_key fst (k, v) xs)" for k v xs
    by (induction xs) auto
  show ?thesis
  proof (induction d)
    case (Cons kv d)
    then show ?case using ins by (cases kv) simp
  qed simp
qed

lemma map_of_sort_key: "distinct (map fst d) \<Longrightarrow> map_of (sort_key fst d) k = map_of d k"
proof -
  assume d: "distinct (map fst d)"
  then have "map_of (sort_key fst d) k = Some v \<longleftrightarrow> map_of d k = Some v" for v
    using d by (simp add: map_of_eq_Some_iff)
  then show ?thesis by (metis option.exhaust)
qed

lemma map_of_canon:
  "distinct (map fst d) \<Longrightarrow> canon (JObj d) = JObj d' \<Longrightarrow> map_of d' k = map_option canon (map_of d k)"
proof -
  assume d: "distinct (map fst d)" and c: "canon (JObj d) = JObj d'"
  from d have "distinct (map fst (map (\<lambda>(k, v). (k, canon v)) d))" by simp
  with c have "map_of d' k = map_of (map (\<lambda>(k, v). (k, canon v)) d) k" by (auto simp: map_of_sort_key)
  also have "\<dots> = map_option canon (map_of d k)" by (induction d) auto
  finally show ?thesis .
qed

lemma loads_dumps_sorted [simp]: "wf_json v \<Longrightarrow> loads (dumps_sorted v) = Some (canon v)"
  by (simp add: dumps_sorted_def canon_wf)

lemma dumps_sorted_inj:
  "wf_json v \<Longrightarrow> wf_json w \<Longrightarrow> dumps_sorted v = dumps_sorted w \<Longrightarrow> canon v = canon w"
  by (metis loads_dumps_sorted option.inject)

section \<open>One line per value\<close>

definition printable :: "string \<Rightarrow> bool" where
  "printable s \<longleftrightarrow> list_all (\<lambda>c. 32 \<le> (of_char c :: nat) \<and> (of_char c :: nat) < 127) s"

lemma printable_simps [simp]:
  "printable []" "printable (c # s) \<longleftrightarrow> 32 \<le> (of_char c :: nat) \<and> (of_char c :: nat) < 127 \<and> printable s"
  "printable (s @ t) \<longleftrightarrow> printable s \<and> printable t"
  by (auto simp: printable_def)

lemma printable_join: "printable sep \<Longrightarrow> list_all printable xs \<Longrightarrow> printable (join_with sep xs)"
  by (induction sep xs rule: join_with.induct) auto

lemma printable_digits: "list_all is_digit ds \<Longrightarrow> printable ds"
  by (induction ds) (auto simp: is_digit_def Let_def)

lemma printable_hex_table: "list_all (\<lambda>k. printable [hex_digit k]) [0..<16]"
  by code_simp

lemma printable_hex: "k < 16 \<Longrightarrow> printable [hex_digit k]"
  using printable_hex_table by (simp add: list_all_iff)

lemma printable_esc: "printable (esc_char c)"
proof -
  have "(of_char c :: nat) div 16 < 16" using less_mult_imp_div_less [of "of_char c" 16 16] by simp
  then show ?thesis
    using printable_hex [of "of_char c div 16"] printable_hex [of "of_char c mod 16"]
    by (simp add: esc_char_def Let_def)
qed

lemma printable_quote: "printable (quote s)"
  by (induction s) (auto simp: quote_def printable_esc)

lemma printable_dumps: "printable (dumps v)"
proof (induction v)
  case (JNum i)
  show ?case by (simp add: show_int_def printable_digits show_nat_digits)
next
  case (JList vs)
  then show ?case by (auto intro!: printable_join simp: list_all_iff)
next
  case (JObj kvs)
  then show ?case by (fastforce intro!: printable_join simp: list_all_iff printable_quote)
qed (simp_all add: printable_quote)

lemma printable_no_newline: "printable s \<Longrightarrow> CHR 0x0A \<notin> set s \<and> CHR 0x0D \<notin> set s"
  by (auto simp: printable_def list_all_iff)

text \<open>
  The contract between a writer of lines and their reader. What one writes, the other reads
  back, and a text of several lines splits into exactly the lines written.
\<close>

locale text_codec =
  fixes enc :: "'a \<Rightarrow> string" and dec :: "string \<Rightarrow> 'a option" and ok :: "'a \<Rightarrow> bool"
  assumes dec_enc: "ok x \<Longrightarrow> dec (enc x) = Some x"
    and enc_line: "ok x \<Longrightarrow> CHR 0x0A \<notin> set (enc x)"
begin

lemma enc_inj: "ok x \<Longrightarrow> ok y \<Longrightarrow> enc x = enc y \<Longrightarrow> x = y"
  by (metis dec_enc option.inject)

lemma enc_inj_lists:
  "list_all ok xs \<Longrightarrow> list_all ok ys \<Longrightarrow> map enc xs = map enc ys \<Longrightarrow> xs = ys"
proof (induction xs arbitrary: ys)
  case (Cons x xs)
  then show ?case by (cases ys) (auto dest: enc_inj)
qed simp

lemma dec_lines: "list_all ok xs \<Longrightarrow> map dec (map enc xs) = map Some xs"
  by (induction xs) (simp_all add: dec_enc)

lemma read_back_text:
  "xs \<noteq> [] \<Longrightarrow> list_all ok xs \<Longrightarrow>
   map dec (split_on (CHR 0x0A) (join_with [CHR 0x0A] (map enc xs))) = map Some xs"
proof -
  assume ne: "xs \<noteq> []" and ok: "list_all ok xs"
  have "split_on (CHR 0x0A) (join_with [CHR 0x0A] (map enc xs)) = map enc xs"
    by (rule split_join) (use ne ok enc_line in \<open>auto simp: list_all_iff\<close>)
  with dec_lines [OF ok] show ?thesis by simp
qed

end

interpretation json_lines: text_codec dumps_sorted loads "\<lambda>v. wf_json v \<and> canon v = v"
  using printable_no_newline [OF printable_dumps] by unfold_locales (auto simp: dumps_sorted_def)

declare dumps.simps [simp del]

end
