(* ===== verification/Attest.thy ===== *)
theory Attest
  imports Json
begin

text \<open>
  Attestations and signed checkpoints (\<open>darm_guard/attest.py\<close>), with the broker's key handling
  (\<open>Keys\<close>, \<open>_check_attestation\<close>, \<open>_load_or_create_keys\<close>, \<open>rotate_keys\<close> of
  \<open>darm_guard/broker.py\<close>). Ed25519, HMAC and SHA-256 are not part of the sources: they are the
  functions of the record \<open>crypto\<close>, and the one documented law used of them is that a
  signature verifies under the public half of the key that made it (\<open>ed25519\<close>). Byte strings
  are strings; files are a map from paths to contents.
\<close>

section \<open>Cryptography used\<close>

record crypto =
  sha :: "string \<Rightarrow> string"                        \<comment> \<open>SHA-256, as hex digits\<close>
  hmac :: "string \<Rightarrow> string \<Rightarrow> string"             \<comment> \<open>HMAC-SHA-256 of a message under a key, as hex digits\<close>
  ed_pub :: "string \<Rightarrow> string"                     \<comment> \<open>the raw public key of a private seed\<close>
  ed_sign :: "string \<Rightarrow> string \<Rightarrow> string"          \<comment> \<open>seed, message\<close>
  ed_ok :: "string \<Rightarrow> string \<Rightarrow> string \<Rightarrow> bool"     \<comment> \<open>public key, signature, message\<close>

definition ed25519 :: "crypto \<Rightarrow> bool" where
  "ed25519 cr \<longleftrightarrow> (\<forall>seed m. ed_ok cr (ed_pub cr seed) (ed_sign cr seed m) m)"

fun to_hex :: "string \<Rightarrow> string" where
  \<comment> \<open>\<open>bytes.hex\<close>\<close>
  "to_hex [] = []"
| "to_hex (c # s) = hex_digit (of_char c div 16) # hex_digit (of_char c mod 16) # to_hex s"

definition ascii_space :: "char \<Rightarrow> bool" where
  "ascii_space c \<longleftrightarrow> c = CHR '' '' \<or> (let n = of_char c :: nat in 9 \<le> n \<and> n \<le> 13)"

fun from_hex :: "string \<Rightarrow> string option" where
  \<comment> \<open>\<open>bytes.fromhex\<close>: white space is skipped between bytes\<close>
  "from_hex [] = Some []"
| "from_hex [c] = (if ascii_space c then Some [] else None)"
| "from_hex (c # d # s) =
     (if ascii_space c then from_hex (d # s)
      else (case (hex_val c, hex_val d) of
              (Some h, Some l) \<Rightarrow> map_option (\<lambda>t. char_of (16 * h + l) # t) (from_hex s)
            | _ \<Rightarrow> None))"

lemma hex_no_space_table: "list_all (\<lambda>k. \<not> ascii_space (hex_digit k)) [0..<16]"
  by code_simp

lemma hex_no_space [simp]: "k < 16 \<Longrightarrow> \<not> ascii_space (hex_digit k)"
  using hex_no_space_table by (simp add: list_all_iff)

lemma from_hex_to_hex [simp]: "from_hex (to_hex s) = Some s"
proof (induction s)
  case (Cons c s)
  have "(of_char c :: nat) div 16 < 16" using less_mult_imp_div_less [of "of_char c" 16 16] by simp
  then show ?case using Cons by simp
qed simp

section \<open>Formatting and reading of other values\<close>

definition repr_char :: "char \<Rightarrow> char \<Rightarrow> string" where
  "repr_char q c =
     (let n = of_char c :: nat in
      if c = q \<or> c = bs then [bs, c]
      else if n = 10 then [bs, CHR ''n''] else if n = 13 then [bs, CHR ''r'']
      else if n = 9 then [bs, CHR ''t'']
      else if n < 32 \<or> (127 \<le> n \<and> n \<le> 160) \<or> n = 173
      then [bs, CHR ''x'', hex_digit (n div 16), hex_digit (n mod 16)] else [c])"

definition py_repr_str :: "string \<Rightarrow> string" where
  "py_repr_str s =
     (let q = (if CHR 0x27 \<in> set s \<and> dq \<notin> set s then dq else CHR 0x27)
      in q # concat (map (repr_char q) s) @ [q])"

fun py_repr :: "json \<Rightarrow> string" where
  "py_repr JNull = ''None''"
| "py_repr (JBool b) = (if b then ''True'' else ''False'')"
| "py_repr (JNum i) = show_int i"
| "py_repr (JStr s) = py_repr_str s"
| "py_repr (JList vs) = ''['' @ join_with '', '' (map py_repr vs) @ '']''"
| "py_repr (JObj kvs) =
     ''{'' @ join_with '', '' (map (\<lambda>(k, v). py_repr_str k @ '': '' @ py_repr v) kvs) @ ''}''"

definition py_str :: "json \<Rightarrow> string" where
  \<comment> \<open>what an f-string inserts\<close>
  "py_str v = (case v of JStr s \<Rightarrow> s | _ \<Rightarrow> py_repr v)"

lemma py_str_JStr [simp]: "py_str (JStr s) = s" by (simp add: py_str_def)

definition int_of_str :: "string \<Rightarrow> int option" where
  "int_of_str s =
     (let t = strip s;
          neg = startswith t ''-'';
          ds = (if neg \<or> startswith t ''+'' then drop 1 t else t);
          groups = split_on (CHR ''_'') ds
      in if list_all (\<lambda>g. g \<noteq> [] \<and> list_all is_digit g) groups
         then Some ((if neg then -1 else 1) * int (read_nat (concat groups))) else None)"

fun py_int :: "json \<Rightarrow> int option" where
  "py_int (JNum i) = Some i"
| "py_int (JBool b) = Some (if b then 1 else 0)"
| "py_int (JStr s) = int_of_str s"
| "py_int _ = None"

section \<open>Messages\<close>

definition DOMAIN :: string where "DOMAIN = ''darm-attest-v2''"
definition CHECKPOINT_DOMAIN :: string where "CHECKPOINT_DOMAIN = ''darm-checkpoint-v1''"

definition key_id :: "crypto \<Rightarrow> string \<Rightarrow> string" where
  "key_id cr public_raw = take 16 (sha cr public_raw)"

definition checkpoint_message :: "string \<Rightarrow> int \<Rightarrow> string \<Rightarrow> string" where
  "checkpoint_message genesis n head =
     CHECKPOINT_DOMAIN @ ''|'' @ genesis @ ''|'' @ show_int n @ ''|'' @ head"

definition message :: "string \<Rightarrow> string \<Rightarrow> string \<Rightarrow> string" where
  "message rid target digest = DOMAIN @ ''|'' @ rid @ ''|'' @ target @ ''|'' @ digest"

section \<open>The key ring\<close>

record ring =
  priv_key :: "string option"
  publics :: "(string \<times> string) list"
  active :: "string option"

definition new_ring :: "crypto \<Rightarrow> string option \<Rightarrow> (string \<times> string) list \<Rightarrow> ring" where
  "new_ring cr priv pubs =
     (case priv of
        None \<Rightarrow> \<lparr>priv_key = None, publics = pubs, active = None\<rparr>
      | Some seed \<Rightarrow>
          (let raw = ed_pub cr seed
           in \<lparr>priv_key = priv, publics = dset pubs (key_id cr raw) raw, active = Some (key_id cr raw)\<rparr>))"

definition generate :: "crypto \<Rightarrow> string \<Rightarrow> ring" where
  "generate cr seed = new_ring cr (Some seed) []"

definition rotate_ring :: "crypto \<Rightarrow> string \<Rightarrow> ring \<Rightarrow> ring" where
  "rotate_ring cr seed r =
     (let raw = ed_pub cr seed
      in r\<lparr>priv_key := Some seed, active := Some (key_id cr raw),
           publics := dset (publics r) (key_id cr raw) raw\<rparr>)"

definition public_only :: "ring \<Rightarrow> ring" where
  "public_only r = \<lparr>priv_key = None, publics = publics r, active = None\<rparr>"

definition can_sign :: "ring \<Rightarrow> bool" where
  "can_sign r \<longleftrightarrow> priv_key r \<noteq> None"

definition sign :: "crypto \<Rightarrow> ring \<Rightarrow> string \<Rightarrow> string \<Rightarrow> string \<Rightarrow> string option" where
  \<comment> \<open>\<open>None\<close> is \<open>PermissionError\<close>\<close>
  "sign cr r rid target digest =
     map_option (\<lambda>seed.
       dumps_sorted (JObj [(''v'', JNum 2), (''rid'', JStr rid), (''target'', JStr target),
         (''digest'', JStr digest), (''kid'', opt_str (active r)),
         (''sig'', JStr (to_hex (ed_sign cr seed (message rid target digest))))]))
     (priv_key r)"

datatype why = UnknownKey | Invalid | NotV2

definition check_signature :: "crypto \<Rightarrow> ring \<Rightarrow> jobj \<Rightarrow> string option \<Rightarrow> why option" where
  \<comment> \<open>the key lookup and the signature check both kinds of signature share; \<open>None\<close> is success,
      and a missing field or a value of the wrong type is \<open>Invalid\<close>\<close>
  "check_signature cr r d msg =
     (case map_of d ''kid'' of
        None \<Rightarrow> Some Invalid
      | Some (JList _) \<Rightarrow> Some Invalid
      | Some (JObj _) \<Rightarrow> Some Invalid
      | Some kid \<Rightarrow>
          (case (case kid of JStr k \<Rightarrow> map_of (publics r) k | _ \<Rightarrow> None) of
             None \<Rightarrow> Some UnknownKey
           | Some pub \<Rightarrow>
               (case (map_of d ''sig'', msg) of
                  (Some (JStr s), Some m) \<Rightarrow>
                    (case from_hex s of
                       None \<Rightarrow> Some Invalid
                     | Some sg \<Rightarrow> if ed_ok cr pub sg m then None else Some Invalid)
                | _ \<Rightarrow> Some Invalid)))"

definition attested_message :: "jobj \<Rightarrow> string option" where
  "attested_message d =
     (case (map_of d ''rid'', map_of d ''target'', map_of d ''digest'') of
        (Some r, Some t, Some g) \<Rightarrow> Some (message (py_str r) (py_str t) (py_str g))
      | _ \<Rightarrow> None)"

definition verify :: "crypto \<Rightarrow> ring \<Rightarrow> string \<Rightarrow> why + jobj" where
  "verify cr r raw =
     (case loads raw of
        Some (JObj d) \<Rightarrow>
          (if jget d ''v'' \<noteq> JNum 2 then Inl NotV2
           else (case check_signature cr r d (attested_message d) of
                   None \<Rightarrow> Inr d | Some w \<Rightarrow> Inl w))
      | _ \<Rightarrow> Inl Invalid)"

definition sign_checkpoint :: "crypto \<Rightarrow> ring \<Rightarrow> string \<Rightarrow> int \<Rightarrow> string \<Rightarrow> jobj option" where
  "sign_checkpoint cr r genesis n head =
     map_option (\<lambda>seed.
       [(''v'', JNum 1), (''genesis'', JStr genesis), (''count'', JNum n), (''head'', JStr head),
        (''kid'', opt_str (active r)),
        (''sig'', JStr (to_hex (ed_sign cr seed (checkpoint_message genesis n head))))])
     (priv_key r)"

definition checkpoint_text :: "jobj \<Rightarrow> string option" where
  "checkpoint_text d =
     (case (map_of d ''genesis'', map_of d ''count'', map_of d ''head'') of
        (Some g, Some c, Some h) \<Rightarrow>
          map_option (\<lambda>n. checkpoint_message (py_str g) n (py_str h)) (py_int c)
      | _ \<Rightarrow> None)"

definition verify_checkpoint :: "crypto \<Rightarrow> ring \<Rightarrow> json \<Rightarrow> why option" where
  \<comment> \<open>\<open>None\<close> is \<open>(True, None)\<close>\<close>
  "verify_checkpoint cr r cp =
     (case cp of JObj d \<Rightarrow> check_signature cr r d (checkpoint_text d) | _ \<Rightarrow> Some Invalid)"

section \<open>Key files\<close>

type_synonym files = "string \<rightharpoonup> string"

definition replace_file :: "string \<Rightarrow> string \<Rightarrow> files \<Rightarrow> files" where
  \<comment> \<open>\<open>os.replace(src, dst)\<close> of an existing file\<close>
  "replace_file src dst disk = (disk(dst := disk src))(src := None)"

definition ring_json :: "ring \<Rightarrow> json" where
  "ring_json r = JObj [(''active'', opt_str (active r)),
                       (''keys'', JObj (map (\<lambda>(k, v). (k, JStr (to_hex v))) (publics r)))]"

definition save_private :: "ring \<Rightarrow> string \<Rightarrow> files \<Rightarrow> files" where
  "save_private r priv disk =
     (case priv_key r of
        None \<Rightarrow> disk
      | Some seed \<Rightarrow> replace_file (priv @ ''.tmp'') priv (disk(priv @ ''.tmp'' \<mapsto> seed)))"

definition save_public :: "ring \<Rightarrow> string \<Rightarrow> files \<Rightarrow> files" where
  "save_public r pub disk =
     replace_file (pub @ ''.tmp'') pub (disk(pub @ ''.tmp'' \<mapsto> dumps_sorted (ring_json r)))"

definition save_ring :: "ring \<Rightarrow> string \<Rightarrow> string \<Rightarrow> files \<Rightarrow> files" where
  "save_ring r priv pub disk = save_public r pub (save_private r priv disk)"

fun hex_keys :: "jobj \<Rightarrow> (string \<times> string) list option" where
  "hex_keys [] = Some []"
| "hex_keys ((k, v) # kvs) =
     (case v of
        JStr h \<Rightarrow> (case (from_hex h, hex_keys kvs) of
                    (Some raw, Some rest) \<Rightarrow> Some ((k, raw) # rest)
                  | _ \<Rightarrow> None)
      | _ \<Rightarrow> None)"

definition read_publics :: "string \<Rightarrow> files \<Rightarrow> (string \<times> string) list option" where
  "read_publics pub disk =
     (case disk pub of
        None \<Rightarrow> Some []
      | Some text \<Rightarrow>
          (case loads text of
             Some (JObj d) \<Rightarrow> (case map_of d ''keys'' of Some (JObj kvs) \<Rightarrow> hex_keys kvs | _ \<Rightarrow> None)
           | _ \<Rightarrow> None))"

definition load_ring :: "crypto \<Rightarrow> string \<Rightarrow> string \<Rightarrow> files \<Rightarrow> ring option" where
  \<comment> \<open>\<open>None\<close> when reading raises; a private key is 32 bytes\<close>
  "load_ring cr priv pub disk =
     (case read_publics pub disk of
        None \<Rightarrow> None
      | Some pubs \<Rightarrow>
          (if priv = [] then Some (new_ring cr None pubs)
           else (case disk priv of
                   None \<Rightarrow> Some (new_ring cr None pubs)
                 | Some seed \<Rightarrow> if length seed = 32 then Some (new_ring cr (Some seed) pubs) else None)))"

section \<open>The broker's keys\<close>

record keys =
  k_ring :: ring
  legacy :: "string option"

definition keys_public_only :: "keys \<Rightarrow> keys" where
  "keys_public_only k = \<lparr>k_ring = public_only (k_ring k), legacy = None\<rparr>"

definition check_legacy :: "crypto \<Rightarrow> string \<Rightarrow> jobj \<Rightarrow> jobj option" where
  "check_legacy cr secret v1 =
     (case (map_of v1 ''rid'', map_of v1 ''target'', map_of v1 ''digest'') of
        (Some r, Some t, Some g) \<Rightarrow>
          (let mac = hmac cr secret (py_str r @ ''|'' @ py_str t @ ''|'' @ py_str g)
           in if (case map_of v1 ''mac'' of None \<Rightarrow> JStr [] | Some m \<Rightarrow> m) = JStr mac
              then Some (dset v1 ''scheme'' (JStr ''legacy'')) else None)
      | _ \<Rightarrow> None)"

definition check_attestation :: "crypto \<Rightarrow> keys option \<Rightarrow> string option \<Rightarrow> jobj option" where
  \<comment> \<open>\<open>_check_attestation\<close>\<close>
  "check_attestation cr ks raw =
     (case (ks, raw) of
        (Some k, Some text) \<Rightarrow>
          (if text = [] then None
           else (case verify cr (k_ring k) text of
                   Inr a \<Rightarrow> Some (dset a ''scheme'' (JStr ''v2''))
                 | Inl w \<Rightarrow>
                     (case (w, legacy k) of
                        (NotV2, Some secret) \<Rightarrow>
                          (if secret = [] then None
                           else (case loads text of Some (JObj v1) \<Rightarrow> check_legacy cr secret v1 | _ \<Rightarrow> None))
                      | _ \<Rightarrow> None)))
      | _ \<Rightarrow> None)"

datatype key_error = PrivateKeyMissing | UnreadableKeys

definition load_or_create_keys :: "crypto \<Rightarrow> string \<Rightarrow> string \<Rightarrow> files \<Rightarrow> (key_error + keys) \<times> files" where
  \<comment> \<open>\<open>seed\<close> is the private key generated if one is\<close>
  "load_or_create_keys cr seed audit disk0 =
     (let priv = audit @ ''.key''; pub = audit @ ''.pub.json''; legacy_path = audit @ ''.legacy.key'';
          disk = (if disk0 priv \<noteq> None \<and> disk0 pub = None then replace_file priv legacy_path disk0 else disk0);
          leg = disk legacy_path
      in if disk pub \<noteq> None \<and> disk priv = None then (Inl PrivateKeyMissing, disk)
         else if disk pub \<noteq> None
         then (case load_ring cr priv pub disk of
                 None \<Rightarrow> (Inl UnreadableKeys, disk)
               | Some r \<Rightarrow> (Inr \<lparr>k_ring = r, legacy = leg\<rparr>, disk))
         else (Inr \<lparr>k_ring = generate cr seed, legacy = leg\<rparr>,
               save_ring (generate cr seed) priv pub disk))"

definition rotate_keys ::
  "crypto \<Rightarrow> string \<Rightarrow> string \<Rightarrow> string \<Rightarrow> files \<Rightarrow> (key_error + string option \<times> string option) \<times> files" where
  \<comment> \<open>\<open>seed\<close> for a ring that does not exist yet, \<open>seed'\<close> for the new key; under the lock\<close>
  "rotate_keys cr seed seed' audit disk =
     (case load_or_create_keys cr seed audit disk of
        (Inl e, disk') \<Rightarrow> (Inl e, disk')
      | (Inr k, disk') \<Rightarrow>
          (let r = rotate_ring cr seed' (k_ring k)
           in (Inr (active (k_ring k), active r),
               save_ring r (audit @ ''.key'') (audit @ ''.pub.json'') disk')))"

section \<open>Signing, then verifying\<close>

definition attestation :: "ring \<Rightarrow> string \<Rightarrow> string \<Rightarrow> string \<Rightarrow> string \<Rightarrow> jobj" where
  \<comment> \<open>the object an attestation is the text of, in the order of \<open>sort_keys\<close>\<close>
  "attestation r sg rid target digest =
     [(''digest'', JStr digest), (''kid'', opt_str (active r)), (''rid'', JStr rid),
      (''sig'', JStr sg), (''target'', JStr target), (''v'', JNum 2)]"

lemma wf_attestation: "wf_json (JObj (attestation r sg rid target digest))"
  by (cases "active r") (simp_all add: attestation_def)

lemma sign_eq:
  "sign cr r rid target digest =
   map_option (\<lambda>seed. dumps (JObj (attestation r
     (to_hex (ed_sign cr seed (message rid target digest))) rid target digest))) (priv_key r)"
  by (cases "priv_key r"; cases "active r") (simp_all add: sign_def attestation_def dumps_sorted_def)

lemma loads_attestation [simp]:
  "loads (dumps (JObj (attestation r sg rid target digest))) = Some (JObj (attestation r sg rid target digest))"
  by (rule loads_dumps [OF wf_attestation])

definition holds_key :: "crypto \<Rightarrow> ring \<Rightarrow> string \<Rightarrow> string \<Rightarrow> bool" where
  \<comment> \<open>the ring knows the key of \<open>seed\<close> under its identifier \<open>kid\<close>\<close>
  "holds_key cr r kid seed \<longleftrightarrow> map_of (publics r) kid = Some (ed_pub cr seed)"

definition wf_ring :: "crypto \<Rightarrow> ring \<Rightarrow> bool" where
  "wf_ring cr r \<longleftrightarrow>
     (case (priv_key r, active r) of
        (None, None) \<Rightarrow> True
      | (Some seed, Some kid) \<Rightarrow> kid = key_id cr (ed_pub cr seed) \<and> holds_key cr r kid seed
      | _ \<Rightarrow> False)"

lemma wf_new_ring [intro]: "wf_ring cr (new_ring cr priv pubs)"
  by (cases priv) (simp_all add: new_ring_def wf_ring_def holds_key_def Let_def)

lemma wf_rotate_ring [intro]: "wf_ring cr (rotate_ring cr seed r)"
  by (simp add: rotate_ring_def wf_ring_def holds_key_def Let_def)

lemma wf_public_only [intro]: "wf_ring cr (public_only r)"
  by (simp add: public_only_def wf_ring_def)

lemma wf_ring_signer:
  "wf_ring cr r \<Longrightarrow> can_sign r \<Longrightarrow>
   \<exists>seed. priv_key r = Some seed \<and> active r = Some (key_id cr (ed_pub cr seed)) \<and>
          map_of (publics r) (key_id cr (ed_pub cr seed)) = Some (ed_pub cr seed)"
  by (auto simp: wf_ring_def can_sign_def holds_key_def split: option.splits)

lemma verify_attestation:
  assumes "ed25519 cr" and "map_of (publics r') kid = Some (ed_pub cr seed)" and "active r = Some kid"
    and "message rid' target' digest' = message rid target digest"
  shows "verify cr r' (dumps (JObj (attestation r
           (to_hex (ed_sign cr seed (message rid target digest))) rid' target' digest'))) =
         Inr (attestation r (to_hex (ed_sign cr seed (message rid target digest))) rid' target' digest')"
proof -
  let ?a = "attestation r (to_hex (ed_sign cr seed (message rid target digest))) rid' target' digest'"
  have "attested_message ?a = Some (message rid target digest)"
    using assms(4) by (simp add: attestation_def attested_message_def)
  moreover have "jget ?a ''v'' = JNum 2" by (simp add: attestation_def)
  moreover have "map_of ?a ''kid'' = Some (JStr kid)"
    "map_of ?a ''sig'' = Some (JStr (to_hex (ed_sign cr seed (message rid target digest))))"
    using assms(3) by (simp_all add: attestation_def)
  ultimately show ?thesis
    using assms(1,2) by (simp add: verify_def check_signature_def ed25519_def)
qed

lemma verify_check_attestation:
  "raw \<noteq> [] \<Longrightarrow> verify cr (k_ring k) raw = Inr a \<Longrightarrow>
   check_attestation cr (Some k) (Some raw) = Some (dset a ''scheme'' (JStr ''v2''))"
  by (simp add: check_attestation_def)

section \<open>What the message binds\<close>

lemma message_split:
  "CHR ''|'' \<notin> set rid \<Longrightarrow> CHR ''|'' \<notin> set target \<Longrightarrow> CHR ''|'' \<notin> set digest \<Longrightarrow>
   split_on (CHR ''|'') (message rid target digest) = [DOMAIN, rid, target, digest]"
proof -
  assume n: "CHR ''|'' \<notin> set rid" "CHR ''|'' \<notin> set target" "CHR ''|'' \<notin> set digest"
  have "CHR ''|'' \<notin> set DOMAIN" by (simp add: DOMAIN_def)
  with n show ?thesis by (simp add: message_def split_on_append_sep split_on_notin)
qed

lemma message_inj:
  assumes "CHR ''|'' \<notin> set rid" "CHR ''|'' \<notin> set rid'" "CHR ''|'' \<notin> set digest" "CHR ''|'' \<notin> set digest'"
    and "message rid target digest = message rid' target' digest'"
  shows "rid = rid' \<and> target = target' \<and> digest = digest'"
proof -
  have "rid @ CHR ''|'' # (target @ CHR ''|'' # digest) = rid' @ CHR ''|'' # (target' @ CHR ''|'' # digest')"
    using assms(5) by (simp add: message_def)
  then have "rid = rid'" "target @ CHR ''|'' # digest = target' @ CHR ''|'' # digest'"
    using append_sep_inj [OF assms(1,2)] by blast+
  with rev_append_sep_inj [OF assms(3,4)] show ?thesis by blast
qed

lemma message_not_checkpoint: "message rid target digest \<noteq> checkpoint_message genesis n head"
  by (simp add: message_def checkpoint_message_def DOMAIN_def CHECKPOINT_DOMAIN_def)

section \<open>Key files read back\<close>

lemma hex_keys_to_hex: "hex_keys (map (\<lambda>(k, v). (k, JStr (to_hex v))) kvs) = Some kvs"
  by (induction kvs) auto

lemma canon_ring_json:
  "canon (ring_json r) = JObj [(''active'', opt_str (active r)),
     (''keys'', JObj (map (\<lambda>(k, v). (k, JStr (to_hex v))) (sort_key fst (publics r))))]"
proof -
  have c: "canon (opt_str a) = opt_str a" for a by (cases a) simp_all
  have "(\<lambda>(k, v). (k, canon v)) \<circ> (\<lambda>(k, v). (k, JStr (to_hex v))) =
        (\<lambda>(k :: string, v). (k, JStr (to_hex v)))"
    by (simp add: fun_eq_iff)
  then show ?thesis by (simp add: ring_json_def c sort_key_map_snd)
qed

lemma read_publics_saved:
  assumes "distinct (map fst (publics r))"
  shows "read_publics pub (save_public r pub disk) = Some (sort_key fst (publics r))"
proof -
  have "save_public r pub disk pub = Some (dumps_sorted (ring_json r))"
    by (simp add: save_public_def replace_file_def)
  moreover have "wf_json (ring_json r)"
  proof (cases "active r")
    case None
    then show ?thesis using assms by (simp add: ring_json_def list_all_iff case_prod_beta comp_def)
  next
    case (Some a)
    then show ?thesis using assms by (simp add: ring_json_def list_all_iff case_prod_beta comp_def)
  qed
  ultimately show ?thesis
    by (simp add: read_publics_def canon_ring_json hex_keys_to_hex)
qed

lemma save_ring_disk:
  assumes "priv_key r = Some seed" and "pub \<noteq> priv" "pub @ ''.tmp'' \<noteq> priv" "priv @ ''.tmp'' \<noteq> pub"
  shows "save_ring r priv pub disk priv = Some seed"
    and "save_ring r priv pub disk pub = Some (dumps_sorted (ring_json r))"
  using assms by (simp_all add: save_ring_def save_private_def save_public_def replace_file_def)

section \<open>Rotation and restart\<close>

abbreviation rotations :: "crypto \<Rightarrow> string list \<Rightarrow> ring \<Rightarrow> ring" where
  "rotations cr seeds r \<equiv> foldl (\<lambda>r seed. rotate_ring cr seed r) r seeds"

lemma rotations_keep_key:
  "\<forall>s\<in>set seeds. key_id cr (ed_pub cr s) \<noteq> kid \<Longrightarrow>
   map_of (publics (rotations cr seeds r)) kid = map_of (publics r) kid"
  by (induction seeds arbitrary: r) (auto simp: rotate_ring_def Let_def)

lemma publics_public_only [simp]: "publics (public_only r) = publics r"
  by (simp add: public_only_def)

lemma sign_SomeE:
  assumes "wf_ring cr r" and "sign cr r rid target digest = Some raw"
  obtains seed kid where "priv_key r = Some seed" "active r = Some kid"
    "map_of (publics r) kid = Some (ed_pub cr seed)" "kid = key_id cr (ed_pub cr seed)"
    "raw = dumps (JObj (attestation r (to_hex (ed_sign cr seed (message rid target digest))) rid target digest))"
proof -
  from assms(2) obtain seed where s: "priv_key r = Some seed"
    "raw = dumps (JObj (attestation r (to_hex (ed_sign cr seed (message rid target digest))) rid target digest))"
    by (auto simp: sign_eq)
  then have "can_sign r" by (simp add: can_sign_def)
  with wf_ring_signer [OF assms(1)] s that show ?thesis by auto
qed

lemma attestation_fields [simp]:
  "jget (attestation r sg rid target digest) ''rid'' = JStr rid"
  "jget (attestation r sg rid target digest) ''target'' = JStr target"
  "jget (attestation r sg rid target digest) ''digest'' = JStr digest"
  by (simp_all add: attestation_def)

lemma dumps_object_nonempty [simp]: "dumps (JObj d) \<noteq> []"
  by (simp add: dumps.simps)

lemma signed_checks:
  assumes "ed25519 cr" and "wf_ring cr (k_ring k)" and "sign cr (k_ring k) rid target digest = Some raw"
  shows "\<exists>a. check_attestation cr (Some k) (Some raw) = Some a \<and> jget a ''rid'' = JStr rid \<and>
             jget a ''target'' = JStr target \<and> jget a ''digest'' = JStr digest \<and> jget a ''scheme'' = JStr ''v2''"
  using assms(2,3)
proof (rule sign_SomeE)
  fix seed kid
  let ?a = "attestation (k_ring k) (to_hex (ed_sign cr seed (message rid target digest))) rid target digest"
  assume k: "active (k_ring k) = Some kid" "map_of (publics (k_ring k)) kid = Some (ed_pub cr seed)"
    and raw: "raw = dumps (JObj ?a)"
  have "verify cr (k_ring k) raw = Inr ?a"
    unfolding raw by (rule verify_attestation [OF assms(1) k(2,1) refl])
  then have "check_attestation cr (Some k) (Some raw) = Some (dset ?a ''scheme'' (JStr ''v2''))"
    by (intro verify_check_attestation) (simp_all add: raw)
  then show ?thesis by simp
qed

lemma load_ring_wf: "load_ring cr priv pub disk = Some r \<Longrightarrow> wf_ring cr r"
  by (auto simp: load_ring_def split: option.splits if_splits)

lemma load_ring_can_sign: "load_ring cr priv pub disk = Some r \<Longrightarrow> priv \<noteq> [] \<Longrightarrow> disk priv \<noteq> None \<Longrightarrow> can_sign r"
  by (auto simp: load_ring_def can_sign_def new_ring_def Let_def split: option.splits if_splits)

lemma generate_can_sign: "can_sign (generate cr seed)" "wf_ring cr (generate cr seed)"
  unfolding generate_def by (simp_all add: can_sign_def wf_new_ring) (simp add: new_ring_def Let_def)

lemma load_saved_ring:
  assumes "wf_ring cr r" and "priv_key r = Some seed" and "length seed = 32"
    and "distinct (map fst (publics r))" and "priv \<noteq> []"
    and "pub \<noteq> priv" "pub @ ''.tmp'' \<noteq> priv" "priv @ ''.tmp'' \<noteq> pub"
  shows "\<exists>r'. load_ring cr priv pub (save_ring r priv pub disk) = Some r' \<and> wf_ring cr r' \<and>
              priv_key r' = priv_key r \<and> active r' = active r \<and> map_of (publics r') = map_of (publics r)"
proof -
  let ?d = "save_ring r priv pub disk"
  have p: "?d priv = Some seed" by (rule save_ring_disk) (use assms in auto)
  have q: "read_publics pub ?d = Some (sort_key fst (publics r))"
    unfolding save_ring_def by (rule read_publics_saved) (rule assms(4))
  obtain kid where k: "active r = Some kid" "kid = key_id cr (ed_pub cr seed)"
    "map_of (publics r) kid = Some (ed_pub cr seed)"
    using wf_ring_signer [OF assms(1)] assms(2) by (auto simp: can_sign_def)
  let ?r = "new_ring cr (Some seed) (sort_key fst (publics r))"
  have "load_ring cr priv pub ?d = Some ?r" using p q assms(3,5) by (simp add: load_ring_def)
  moreover have "map_of (publics ?r) x = map_of (publics r) x" for x
    using k map_of_sort_key [OF assms(4)] by (simp add: new_ring_def Let_def)
  moreover have "priv_key ?r = priv_key r" "active ?r = active r"
    using k assms(2) by (simp_all add: new_ring_def Let_def)
  ultimately show ?thesis by (blast intro: ext)
qed

lemma load_or_create_cases:
  assumes "load_or_create_keys cr seed audit disk = (Inr k, disk')"
  obtains (loaded) "disk' = disk" "disk (audit @ ''.pub.json'') \<noteq> None" "disk (audit @ ''.key'') \<noteq> None"
      "load_ring cr (audit @ ''.key'') (audit @ ''.pub.json'') disk = Some (k_ring k)"
      "legacy k = disk (audit @ ''.legacy.key'')"
    | (created) disk0 where "disk' = save_ring (generate cr seed) (audit @ ''.key'') (audit @ ''.pub.json'') disk0"
      "k_ring k = generate cr seed" "legacy k = disk0 (audit @ ''.legacy.key'')"
proof (cases "disk (audit @ ''.pub.json'')")
  case None
  let ?d = "if disk (audit @ ''.key'') \<noteq> None
    then replace_file (audit @ ''.key'') (audit @ ''.legacy.key'') disk else disk"
  have "?d (audit @ ''.pub.json'') = None" using None by (simp add: replace_file_def)
  with assms None created [of ?d] show ?thesis
    by (auto simp: load_or_create_keys_def Let_def split: if_splits)
next
  case (Some t)
  with assms loaded show ?thesis
    by (auto simp: load_or_create_keys_def Let_def split: if_splits option.splits)
qed

section \<open>Properties\<close>

definition demo_crypto :: crypto where
  \<comment> \<open>an instance in which the documented law of signatures holds\<close>
  "demo_crypto = \<lparr>sha = (\<lambda>s. s), hmac = (\<lambda>k m. k @ m), ed_pub = (\<lambda>s. s),
                  ed_sign = (\<lambda>s m. s @ m), ed_ok = (\<lambda>p sg m. sg = p @ m)\<rparr>"

lemma demo_crypto_ed25519 [simp]: "ed25519 demo_crypto"
  by (simp add: ed25519_def demo_crypto_def)

definition demo_seed :: "char \<Rightarrow> string" where "demo_seed c = replicate 32 c"

definition demo_ring :: ring where "demo_ring = generate demo_crypto (demo_seed (CHR ''a''))"

lemma demo_ring_simps:
  "wf_ring demo_crypto demo_ring" "can_sign demo_ring"
  "active demo_ring = Some (replicate 16 (CHR ''a''))" "priv_key demo_ring = Some (demo_seed (CHR ''a''))"
  by (simp_all add: demo_ring_def generate_can_sign)
    (simp_all add: generate_def new_ring_def Let_def key_id_def demo_crypto_def demo_seed_def)

text \<open>C30: An attestation the broker signs verifies for whoever holds only the public ring, now and
  after any number of key rotations (whose new keys do not take over the identifier of the signing
  key), and it then reads back as a v2 attestation of exactly the request, target and digest it was
  signed for.\<close>

theorem attestation_survives_rotation:
  assumes "ed25519 cr" and "wf_ring cr r" and "sign cr r rid target digest = Some raw"
    and "active r = Some kid" and "\<forall>s\<in>set seeds. key_id cr (ed_pub cr s) \<noteq> kid"
  shows "\<exists>a. check_attestation cr (Some \<lparr>k_ring = public_only (rotations cr seeds r), legacy = leg\<rparr>) (Some raw) = Some a \<and>
             jget a ''rid'' = JStr rid \<and> jget a ''target'' = JStr target \<and>
             jget a ''digest'' = JStr digest \<and> jget a ''scheme'' = JStr ''v2''"
  using assms(2,3)
proof (rule sign_SomeE)
  fix seed kid'
  assume s: "priv_key r = Some seed" "active r = Some kid'" "map_of (publics r) kid' = Some (ed_pub cr seed)"
    and raw: "raw = dumps (JObj (attestation r (to_hex (ed_sign cr seed (message rid target digest))) rid target digest))"
  let ?r = "public_only (rotations cr seeds r)"
  have "map_of (publics ?r) kid = Some (ed_pub cr seed)"
    using rotations_keep_key [OF assms(5)] s assms(4) by simp
  from verify_attestation [OF assms(1) this assms(4) refl]
  have "verify cr ?r raw = Inr (attestation r (to_hex (ed_sign cr seed (message rid target digest))) rid target digest)"
    unfolding raw .
  then have "check_attestation cr (Some \<lparr>k_ring = ?r, legacy = leg\<rparr>) (Some raw) =
      Some (dset (attestation r (to_hex (ed_sign cr seed (message rid target digest))) rid target digest) ''scheme'' (JStr ''v2''))"
    by (intro verify_check_attestation) (simp_all add: raw)
  then show ?thesis by simp
qed

theorem attestation_survives_rotation_witness:
  "\<exists>raw a. sign demo_crypto demo_ring ''r1'' ''/workspace/a'' ''d1'' = Some raw \<and>
     check_attestation demo_crypto
       (Some \<lparr>k_ring = public_only (rotations demo_crypto [demo_seed (CHR ''b'')] demo_ring), legacy = None\<rparr>)
       (Some raw) = Some a \<and> jget a ''target'' = JStr ''/workspace/a''"
proof -
  obtain raw where raw: "sign demo_crypto demo_ring ''r1'' ''/workspace/a'' ''d1'' = Some raw"
    using demo_ring_simps(4) by (simp add: sign_def)
  have "\<forall>s\<in>set [demo_seed (CHR ''b'')]. key_id demo_crypto (ed_pub demo_crypto s) \<noteq> replicate 16 (CHR ''a'')"
    by (simp add: demo_crypto_def key_id_def demo_seed_def)
  with attestation_survives_rotation
    [OF demo_crypto_ed25519 demo_ring_simps(1) raw demo_ring_simps(3), of "[demo_seed (CHR ''b'')]" None]
    raw show ?thesis by blast
qed

text \<open>The message of an attestation joins its three fields with a bar. Request ids and digests
  are hexadecimal and contain none, and for those the message determines the request, the target
  and the digest, whatever the target is; and no attestation message is the message of a
  checkpoint, so neither signature can stand for the other.\<close>

theorem message_determines_attestation:
  assumes "CHR ''|'' \<notin> set rid" "CHR ''|'' \<notin> set rid'" "CHR ''|'' \<notin> set digest" "CHR ''|'' \<notin> set digest'"
  shows "(message rid target digest = message rid' target' digest' \<longleftrightarrow>
          rid = rid' \<and> target = target' \<and> digest = digest') \<and>
         message rid target digest \<noteq> checkpoint_message genesis n head"
  using message_inj [OF assms] message_not_checkpoint by blast

theorem message_determines_attestation_witness:
  "message ''ab'' ''/workspace/x|y'' ''cd'' \<noteq> message ''ab'' ''/workspace/x'' ''cd''"
  using message_determines_attestation [of "''ab''" "''ab''" "''cd''" "''cd''" "''/workspace/x|y''" "''/workspace/x''"]
  by simp

text \<open>Verification does not require the request id to be free of bars, so the signature the
  broker made for a target that contains one also verifies, with no access to the private key, as
  an attestation of another target: the part of the path after the bar, under a request id that
  is no request's. The fields of the attestation are moved, its signature is kept.\<close>

theorem bar_in_target_moves_attestation:
  assumes "ed25519 cr" and "wf_ring cr r" and "sign cr r rid (t1 @ ''|'' @ t2) digest = Some raw"
  shows "\<exists>a. verify cr r raw = Inr a \<and> jget a ''target'' = JStr (t1 @ ''|'' @ t2) \<and>
             (let a' = dset (dset a ''rid'' (JStr (rid @ ''|'' @ t1))) ''target'' (JStr t2)
              in verify cr r (dumps (JObj a')) = Inr a' \<and> jget a' ''sig'' = jget a ''sig'')"
  using assms(2,3)
proof (rule sign_SomeE)
  fix seed kid
  let ?m = "message rid (t1 @ ''|'' @ t2) digest"
  let ?sg = "to_hex (ed_sign cr seed ?m)"
  let ?a = "attestation r ?sg rid (t1 @ ''|'' @ t2) digest"
  let ?b = "attestation r ?sg (rid @ ''|'' @ t1) t2 digest"
  assume k: "active r = Some kid" "map_of (publics r) kid = Some (ed_pub cr seed)"
    and raw: "raw = dumps (JObj ?a)"
  have "verify cr r raw = Inr ?a"
    unfolding raw by (rule verify_attestation [OF assms(1) k(2,1) refl])
  moreover have "message (rid @ ''|'' @ t1) t2 digest = ?m" by (simp add: message_def)
  then have "verify cr r (dumps (JObj ?b)) = Inr ?b"
    by (rule verify_attestation [OF assms(1) k(2,1)])
  moreover have "dset (dset ?a ''rid'' (JStr (rid @ ''|'' @ t1))) ''target'' (JStr t2) = ?b"
    by (simp add: attestation_def)
  moreover have "jget ?b ''sig'' = jget ?a ''sig''" by (simp add: attestation_def)
  ultimately show ?thesis by (auto simp: Let_def)
qed

theorem bar_in_target_moves_attestation_witness:
  "\<exists>raw a a'. sign demo_crypto demo_ring ''r1'' (''/workspace/x'' @ ''|'' @ ''/workspace/y'') ''d1'' = Some raw \<and>
     verify demo_crypto demo_ring raw = Inr a \<and>
     verify demo_crypto demo_ring (dumps (JObj a')) = Inr a' \<and> jget a' ''sig'' = jget a ''sig'' \<and>
     jget a ''target'' = JStr ''/workspace/x|/workspace/y'' \<and> jget a' ''target'' = JStr ''/workspace/y''"
proof -
  obtain raw where raw: "sign demo_crypto demo_ring ''r1'' (''/workspace/x'' @ ''|'' @ ''/workspace/y'') ''d1'' = Some raw"
    using demo_ring_simps(4) by (simp add: sign_def)
  obtain a where a: "verify demo_crypto demo_ring raw = Inr a"
      "jget a ''target'' = JStr (''/workspace/x'' @ ''|'' @ ''/workspace/y'')"
    and b: "let a' = dset (dset a ''rid'' (JStr (''r1'' @ ''|'' @ ''/workspace/x''))) ''target'' (JStr ''/workspace/y'')
              in verify demo_crypto demo_ring (dumps (JObj a')) = Inr a' \<and> jget a' ''sig'' = jget a ''sig''"
    using bar_in_target_moves_attestation [OF demo_crypto_ed25519 demo_ring_simps(1) raw] by blast
  let ?b = "dset (dset a ''rid'' (JStr (''r1'' @ ''|'' @ ''/workspace/x''))) ''target'' (JStr ''/workspace/y'')"
  have "jget ?b ''target'' = JStr ''/workspace/y''" by simp
  with raw a b show ?thesis by (auto simp: Let_def)
qed

text \<open>A broker that starts can sign: with a public ring but no private key the start is refused,
  a lone key file is kept as the legacy secret, and the keys a start leaves on disk are the keys
  the next start loads, with the same signing key, the same public ring and the same legacy
  secret.\<close>

theorem keys_survive_restart:
  assumes "load_or_create_keys cr seed audit disk = (Inr k, disk')" and "length seed = 32"
  shows "can_sign (k_ring k) \<and> wf_ring cr (k_ring k) \<and>
         (\<exists>k'. load_or_create_keys cr seed' audit disk' = (Inr k', disk') \<and>
               priv_key (k_ring k') = priv_key (k_ring k) \<and> active (k_ring k') = active (k_ring k) \<and>
               map_of (publics (k_ring k')) = map_of (publics (k_ring k)) \<and> legacy k' = legacy k)"
  using assms(1)
proof (cases rule: load_or_create_cases)
  case loaded
  then have "load_or_create_keys cr seed' audit disk' = (Inr k, disk')"
    by (auto simp: load_or_create_keys_def Let_def)
  with loaded load_ring_wf [OF loaded(4)] load_ring_can_sign [OF loaded(4)] show ?thesis by auto
next
  case (created disk0)
  let ?g = "generate cr seed"
  have "distinct (map fst (publics ?g))" "priv_key ?g = Some seed"
    by (simp_all add: generate_def new_ring_def Let_def)
  note g = this
  have "\<exists>r'. load_ring cr (audit @ ''.key'') (audit @ ''.pub.json'') disk' = Some r' \<and> wf_ring cr r' \<and>
      priv_key r' = priv_key ?g \<and> active r' = active ?g \<and> map_of (publics r') = map_of (publics ?g)"
    unfolding created(1) by (rule load_saved_ring [OF generate_can_sign(2) g(2) assms(2) g(1)]) simp_all
  then obtain r' where r': "load_ring cr (audit @ ''.key'') (audit @ ''.pub.json'') disk' = Some r'"
    "priv_key r' = priv_key ?g" "active r' = active ?g" "map_of (publics r') = map_of (publics ?g)"
    by blast
  have "disk' (audit @ ''.key'') = Some seed" "disk' (audit @ ''.pub.json'') \<noteq> None"
    "disk' (audit @ ''.legacy.key'') = disk0 (audit @ ''.legacy.key'')"
    unfolding created(1) using \<open>priv_key ?g = Some seed\<close>
    by (simp_all add: save_ring_def save_private_def save_public_def replace_file_def)
  then have "load_or_create_keys cr seed' audit disk' = (Inr \<lparr>k_ring = r', legacy = legacy k\<rparr>, disk')"
    using r'(1) created(3) by (auto simp: load_or_create_keys_def Let_def)
  with r' generate_can_sign created(2) show ?thesis by auto
qed

theorem keys_survive_restart_witness:
  "\<exists>k disk'. load_or_create_keys demo_crypto (demo_seed (CHR ''a'')) ''audit'' [''audit.key'' \<mapsto> ''v1-secret''] = (Inr k, disk') \<and>
     legacy k = Some ''v1-secret'' \<and>
     (\<exists>k'. load_or_create_keys demo_crypto (demo_seed (CHR ''b'')) ''audit'' disk' = (Inr k', disk') \<and>
           active (k_ring k') = active (k_ring k))"
proof -
  obtain k disk' where k: "load_or_create_keys demo_crypto (demo_seed (CHR ''a'')) ''audit''
      [''audit.key'' \<mapsto> ''v1-secret''] = (Inr k, disk')" "legacy k = Some ''v1-secret''"
    by (simp add: load_or_create_keys_def Let_def replace_file_def)
  have "length (demo_seed (CHR ''a'')) = 32" by (simp add: demo_seed_def)
  from keys_survive_restart [OF k(1) this, of "demo_seed (CHR ''b'')"] k show ?thesis by blast
qed

section \<open>A rotation that is interrupted\<close>

definition rotation_stops :: "ring \<Rightarrow> string \<Rightarrow> files \<Rightarrow> string \<Rightarrow> files list" where
  \<comment> \<open>the key files at each point of saving the ring \<open>r\<close>, a temporary file holding any \<open>t\<close> while it is
      written: writing the private key, private key in place, writing the public ring, both in place\<close>
  "rotation_stops r audit disk t =
     (let priv = audit @ ''.key''; pub = audit @ ''.pub.json'' in
        [disk(priv @ ''.tmp'' \<mapsto> t), save_private r priv disk,
          (save_private r priv disk)(pub @ ''.tmp'' \<mapsto> t), save_ring r priv pub disk])"

lemma publics_read_distinct:
  assumes "read_publics pub disk = Some ps"
  shows "distinct (map fst ps)"
proof -
  have hk: "hex_keys kvs = Some qs \<Longrightarrow> map fst qs = map fst kvs" for kvs qs
    by (induction kvs arbitrary: qs) (auto split: json.splits option.splits)
  have "distinct (map fst ps)"
    if "loads tx = Some (JObj d)" "map_of d ''keys'' = Some (JObj kvs)" "hex_keys kvs = Some ps" for tx d kvs
  proof -
    have "\<forall>kv\<in>set d. wf_json (snd kv)"
      using loads_wf [OF that(1)] by (auto simp: list_all_iff)
    with map_of_SomeD [OF that(2)] have "wf_json (JObj kvs)" by fastforce
    with hk [OF that(3)] show ?thesis by simp
  qed
  with assms show ?thesis
    by (auto simp: read_publics_def split: option.splits json.splits)
qed

lemma new_ring_distinct: "distinct (map fst ps) \<Longrightarrow> distinct (map fst (publics (new_ring cr priv ps)))"
  by (cases priv) (simp_all add: new_ring_def Let_def distinct_dset)

lemma rotate_ring_fields [simp]:
  "priv_key (rotate_ring cr seed r) = Some seed"
  "active (rotate_ring cr seed r) = Some (key_id cr (ed_pub cr seed))"
  "map_of (publics (rotate_ring cr seed r)) =
   (map_of (publics r))(key_id cr (ed_pub cr seed) \<mapsto> ed_pub cr seed)"
  by (auto simp: rotate_ring_def Let_def)

lemma save_private_rotated:
  "save_private (rotate_ring cr seed r) p disk = (disk(p \<mapsto> seed))(p @ ''.tmp'' := None)"
  by (auto simp: save_private_def replace_file_def)

lemma new_ring_fields [simp]:
  "priv_key (new_ring cr (Some seed) ps) = Some seed"
  "active (new_ring cr (Some seed) ps) = Some (key_id cr (ed_pub cr seed))"
  "map_of (publics (new_ring cr (Some seed) ps)) =
   (map_of ps)(key_id cr (ed_pub cr seed) \<mapsto> ed_pub cr seed)"
  by (auto simp: new_ring_def Let_def)

lemma load_with_ring:
  \<comment> \<open>the start when a ring and a private key are there\<close>
  assumes "disk (audit @ ''.key'') = Some s" and "length s = 32"
    and "disk (audit @ ''.pub.json'') \<noteq> None" and "read_publics (audit @ ''.pub.json'') disk = Some ps"
  shows "load_or_create_keys cr seed audit disk =
         (Inr \<lparr>k_ring = new_ring cr (Some s) ps, legacy = disk (audit @ ''.legacy.key'')\<rparr>, disk)"
  using assms by (auto simp: load_or_create_keys_def load_ring_def Let_def)

lemma loaded_keysE:
  assumes "load_or_create_keys cr seed audit disk = (Inr k, disk)" and "disk (audit @ ''.pub.json'') \<noteq> None"
  obtains s ps where "disk (audit @ ''.key'') = Some s" "length s = 32"
    "read_publics (audit @ ''.pub.json'') disk = Some ps" "k_ring k = new_ring cr (Some s) ps"
    "legacy k = disk (audit @ ''.legacy.key'')"
  using assms that
  by (auto simp: load_or_create_keys_def load_ring_def Let_def split: option.splits if_splits)

lemma verify_more_keys:
  assumes "map_of (publics r) \<subseteq>\<^sub>m map_of (publics r')"
  shows "verify cr r raw = Inr a \<Longrightarrow> verify cr r' raw = Inr a"
    and "verify cr r raw = Inl NotV2 \<longleftrightarrow> verify cr r' raw = Inl NotV2"
proof -
  have k: "map_of (publics r) x = Some p \<Longrightarrow> map_of (publics r') x = Some p" for x p
    using assms by (auto simp: map_le_def dom_def)
  have nv: "check_signature cr q d m \<noteq> Some NotV2" for q d m
    by (auto simp: check_signature_def split: option.splits json.splits)
  have ok: "check_signature cr r d m = None \<Longrightarrow> check_signature cr r' d m = None" for d m
    by (auto simp: check_signature_def dest: k split: option.splits json.splits if_splits)
  show "verify cr r raw = Inr a \<Longrightarrow> verify cr r' raw = Inr a"
    using ok by (auto simp: verify_def split: option.splits json.splits if_splits)
  show "verify cr r raw = Inl NotV2 \<longleftrightarrow> verify cr r' raw = Inl NotV2"
    using nv by (auto simp: verify_def split: option.splits json.splits if_splits)
qed

lemma check_attestation_more_keys:
  assumes "map_of (publics (k_ring k)) \<subseteq>\<^sub>m map_of (publics (k_ring k'))" and "legacy k' = legacy k"
    and "check_attestation cr (Some k) raw = Some a"
  shows "check_attestation cr (Some k') raw = Some a"
proof -
  obtain tx where t: "raw = Some tx" "tx \<noteq> []"
    using assms(3) by (auto simp: check_attestation_def split: option.splits if_splits)
  note m = verify_more_keys [OF assms(1), of cr tx]
  show ?thesis
  proof (cases "verify cr (k_ring k) tx")
    case (Inl w)
    with assms(3) t have w: "w = NotV2" by (auto simp: check_attestation_def split: why.splits option.splits)
    with Inl m(2) have "verify cr (k_ring k') tx = Inl NotV2" by simp
    with assms Inl w t show ?thesis by (simp add: check_attestation_def)
  next
    case (Inr b)
    with m(1) assms(3) t show ?thesis by (simp add: check_attestation_def)
  qed
qed

lemma rotation_stop_loads:
  \<comment> \<open>what the next start loads at each point\<close>
  assumes "load_or_create_keys cr seed0 audit disk = (Inr k, disk)" and "disk (audit @ ''.pub.json'') \<noteq> None"
    and "read_publics (audit @ ''.pub.json'') disk = Some ps" and "map_of ps = map_of (publics (k_ring k))"
    and "length seed = 32" and "n < 4"
    and "disk' = rotation_stops (rotate_ring cr seed (k_ring k)) audit disk t ! n"
  shows "\<exists>k'. load_or_create_keys cr seed1 audit disk' = (Inr k', disk') \<and> legacy k' = legacy k \<and>
              wf_ring cr (k_ring k') \<and>
              priv_key (k_ring k') = (if n = 0 then priv_key (k_ring k) else Some seed) \<and>
              map_of (publics (k_ring k')) = (if n = 0 then map_of (publics (k_ring k))
                else (map_of (publics (k_ring k)))(key_id cr (ed_pub cr seed) \<mapsto> ed_pub cr seed))"
proof -
  let ?r = "rotate_ring cr seed (k_ring k)" and ?p = "audit @ ''.key''" and ?q = "audit @ ''.pub.json''"
  obtain s where s: "disk ?p = Some s" "length s = 32" "k_ring k = new_ring cr (Some s) ps"
    "legacy k = disk (audit @ ''.legacy.key'')"
    using loaded_keysE [OF assms(1,2)] assms(3) by (metis option.inject)
  note sp = save_private_rotated
  have pubs: "read_publics ?q disk' = Some ps" if "disk' ?q = disk ?q"
    using assms(3) that by (simp add: read_publics_def)
  consider "n = 0" | "n = 1 \<or> n = 2" | "n = 3" using assms(6) by linarith
  then show ?thesis
  proof cases
    case 1
    with assms(7) have d: "disk' = disk(?p @ ''.tmp'' \<mapsto> t)" by (simp add: rotation_stops_def Let_def)
    with s have f: "disk' ?p = Some s" "disk' ?q = disk ?q" "disk' (audit @ ''.legacy.key'') = legacy k" by simp_all
    from load_with_ring [OF f(1) s(2) _ pubs [OF f(2)], of cr seed1] f assms(2) s 1 show ?thesis
      by (auto simp: wf_new_ring)
  next
    case 2
    with assms(7) have "disk' = save_private ?r ?p disk \<or> disk' = (save_private ?r ?p disk)(?q @ ''.tmp'' \<mapsto> t)"
      by (auto simp: rotation_stops_def Let_def)
    then have f: "disk' ?p = Some seed" "disk' ?q = disk ?q" "disk' (audit @ ''.legacy.key'') = legacy k"
      unfolding sp s(4) by auto
    from load_with_ring [OF f(1) assms(5) _ pubs [OF f(2)], of cr seed1] f assms(2,4) 2 show ?thesis
      by (auto simp: wf_new_ring)
  next
    case 3
    with assms(7) have d: "disk' = save_public ?r ?q (save_private ?r ?p disk)"
      by (simp add: rotation_stops_def save_ring_def Let_def)
    have dist: "distinct (map fst (publics ?r))"
      using new_ring_distinct [OF publics_read_distinct [OF assms(3)]] s(3)
      by (simp add: rotate_ring_def Let_def distinct_dset)
    have f: "disk' ?p = Some seed" "disk' ?q \<noteq> None" "disk' (audit @ ''.legacy.key'') = legacy k"
      using s by (simp_all add: d sp save_public_def replace_file_def)
    have "read_publics ?q disk' = Some (sort_key fst (publics ?r))"
      unfolding d by (rule read_publics_saved [OF dist])
    from load_with_ring [OF f(1) assms(5) f(2) this, of cr seed1] f 3 map_of_sort_key [OF dist] show ?thesis
      by (auto simp: wf_new_ring fun_eq_iff)
  qed
qed

text \<open>C38: A rotation interrupted anywhere is safe. Let a start of the broker load its keys from a key
  file and a public ring that lists every key it then knows, and let \<open>rotate_keys\<close> run on them, its
  new key not taking the identifier of a different known key. Wherever it stops (with any part of a
  temporary file written, the private key in place, the public ring being written, or finished) the
  next start succeeds and changes no file; it signs with the old key if the new one was not yet in
  place and with the new one otherwise, its own attestations verify, the legacy secret is the same,
  and every attestation that was accepted before, v2 or legacy, is accepted with the same content.\<close>

theorem rotation_crash_safe:
  assumes "ed25519 cr"
    and "load_or_create_keys cr seed0 audit disk = (Inr k, disk)" and "disk (audit @ ''.pub.json'') \<noteq> None"
    and "read_publics (audit @ ''.pub.json'') disk = Some ps" and "map_of ps = map_of (publics (k_ring k))"
    and "length seed = 32" and "n < 4"
    and "map_of (publics (k_ring k)) (key_id cr (ed_pub cr seed)) \<in> {None, Some (ed_pub cr seed)}"
    and "disk' = rotation_stops (rotate_ring cr seed (k_ring k)) audit disk t ! n"
  shows "rotate_keys cr seed0 seed audit disk =
           (Inr (active (k_ring k), Some (key_id cr (ed_pub cr seed))),
            rotation_stops (rotate_ring cr seed (k_ring k)) audit disk t ! 3) \<and>
         (\<exists>k'. load_or_create_keys cr seed1 audit disk' = (Inr k', disk') \<and> legacy k' = legacy k \<and>
               priv_key (k_ring k') = (if n = 0 then priv_key (k_ring k) else Some seed) \<and>
               (\<forall>rid target digest. \<exists>raw a.
                  sign cr (k_ring k') rid target digest = Some raw \<and>
                  check_attestation cr (Some k') (Some raw) = Some a \<and> jget a ''rid'' = JStr rid \<and>
                  jget a ''target'' = JStr target \<and> jget a ''digest'' = JStr digest) \<and>
               (\<forall>raw a. check_attestation cr (Some k) raw = Some a \<longrightarrow>
                        check_attestation cr (Some k') raw = Some a))"
proof (rule conjI)
  show "rotate_keys cr seed0 seed audit disk =
      (Inr (active (k_ring k), Some (key_id cr (ed_pub cr seed))),
       rotation_stops (rotate_ring cr seed (k_ring k)) audit disk t ! 3)"
    using assms(2) by (simp add: rotate_keys_def rotation_stops_def Let_def)
  obtain k' where k': "load_or_create_keys cr seed1 audit disk' = (Inr k', disk')" "legacy k' = legacy k"
    "wf_ring cr (k_ring k')" "priv_key (k_ring k') = (if n = 0 then priv_key (k_ring k) else Some seed)"
    "map_of (publics (k_ring k')) = (if n = 0 then map_of (publics (k_ring k))
       else (map_of (publics (k_ring k)))(key_id cr (ed_pub cr seed) \<mapsto> ed_pub cr seed))"
    using rotation_stop_loads [OF assms(2-7,9)] by blast
  have p: "priv_key (k_ring k') \<noteq> None"
    by (rule loaded_keysE [OF assms(2,3)]) (simp add: k'(4))
  have "\<exists>raw a. sign cr (k_ring k') rid target digest = Some raw \<and>
      check_attestation cr (Some k') (Some raw) = Some a \<and> jget a ''rid'' = JStr rid \<and>
      jget a ''target'' = JStr target \<and> jget a ''digest'' = JStr digest" for rid target digest
  proof -
    from p obtain raw where "sign cr (k_ring k') rid target digest = Some raw" by (auto simp: sign_def)
    with signed_checks [OF assms(1) k'(3) this] show ?thesis by blast
  qed
  moreover have "map_of (publics (k_ring k)) \<subseteq>\<^sub>m map_of (publics (k_ring k'))"
    using assms(8) k'(5) by (auto simp: map_le_def split: if_splits)
  note check_attestation_more_keys [OF this k'(2)]
  ultimately show "\<exists>k'. load_or_create_keys cr seed1 audit disk' = (Inr k', disk') \<and> legacy k' = legacy k \<and>
      priv_key (k_ring k') = (if n = 0 then priv_key (k_ring k) else Some seed) \<and>
      (\<forall>rid target digest. \<exists>raw a. sign cr (k_ring k') rid target digest = Some raw \<and>
         check_attestation cr (Some k') (Some raw) = Some a \<and> jget a ''rid'' = JStr rid \<and>
         jget a ''target'' = JStr target \<and> jget a ''digest'' = JStr digest) \<and>
      (\<forall>raw a. check_attestation cr (Some k) raw = Some a \<longrightarrow> check_attestation cr (Some k') raw = Some a)"
    using k'(1,2,4) by blast
qed

definition demo_disk :: files where
  \<comment> \<open>the key files a first start leaves\<close>
  "demo_disk = save_ring demo_ring ''audit.key'' ''audit.pub.json'' (\<lambda>_. None)"

lemma demo_disk_reads:
  "demo_disk ''audit.key'' = Some (demo_seed (CHR ''a''))" "demo_disk ''audit.pub.json'' \<noteq> None"
  "read_publics ''audit.pub.json'' demo_disk = Some [(replicate 16 (CHR ''a''), demo_seed (CHR ''a''))]"
proof -
  have p: "publics demo_ring = [(replicate 16 (CHR ''a''), demo_seed (CHR ''a''))]"
    "priv_key demo_ring = Some (demo_seed (CHR ''a''))"
    by (simp_all add: demo_ring_def generate_def new_ring_def Let_def key_id_def demo_crypto_def demo_seed_def)
  then show "read_publics ''audit.pub.json'' demo_disk = Some [(replicate 16 (CHR ''a''), demo_seed (CHR ''a''))]"
    using read_publics_saved [of demo_ring] by (simp add: demo_disk_def save_ring_def)
  show "demo_disk ''audit.key'' = Some (demo_seed (CHR ''a''))" "demo_disk ''audit.pub.json'' \<noteq> None"
    using p by (simp_all add: demo_disk_def save_ring_def save_private_def save_public_def replace_file_def)
qed

lemma demo_disk_loads:
  "load_or_create_keys demo_crypto seed ''audit'' demo_disk =
   (Inr \<lparr>k_ring = demo_ring, legacy = demo_disk ''audit.legacy.key''\<rparr>, demo_disk)"
proof -
  have "new_ring demo_crypto (Some (demo_seed (CHR ''a''))) [(replicate 16 (CHR ''a''), demo_seed (CHR ''a''))] = demo_ring"
    by (simp add: demo_ring_def generate_def new_ring_def Let_def key_id_def demo_crypto_def demo_seed_def)
  with load_with_ring [of demo_disk "''audit''"] demo_disk_reads show ?thesis by (simp add: demo_seed_def)
qed

theorem rotation_crash_safe_witness:
  "\<exists>k'. load_or_create_keys demo_crypto [] ''audit''
          (save_private (rotate_ring demo_crypto (demo_seed (CHR ''b'')) demo_ring) ''audit.key'' demo_disk) =
        (Inr k', save_private (rotate_ring demo_crypto (demo_seed (CHR ''b'')) demo_ring) ''audit.key'' demo_disk) \<and>
        priv_key (k_ring k') = Some (demo_seed (CHR ''b'')) \<and>
        (\<exists>raw. sign demo_crypto demo_ring ''r1'' ''/workspace/a'' ''d1'' = Some raw \<and>
               check_attestation demo_crypto (Some k') (Some raw) \<noteq> None)"
proof -
  let ?s = "demo_seed (CHR ''b'')" and ?k = "\<lparr>k_ring = demo_ring, legacy = demo_disk ''audit.legacy.key''\<rparr>"
  have p: "publics demo_ring = [(replicate 16 (CHR ''a''), demo_seed (CHR ''a''))]"
    by (simp add: demo_ring_def generate_def new_ring_def Let_def key_id_def demo_crypto_def demo_seed_def)
  have r: "disk'' (''audit'' @ ''.pub.json'') \<noteq> None \<longleftrightarrow> disk'' ''audit.pub.json'' \<noteq> None"
    "read_publics (''audit'' @ ''.pub.json'') disk'' = read_publics ''audit.pub.json'' disk''" for disk'' by simp_all
  have f: "demo_disk (''audit'' @ ''.pub.json'') \<noteq> None"
    "read_publics (''audit'' @ ''.pub.json'') demo_disk = Some (publics demo_ring)"
    using demo_disk_reads by (simp_all add: p)
  have m: "map_of (publics demo_ring) = map_of (publics (k_ring ?k))" by simp
  have l: "length ?s = 32" "(1 :: nat) < 4" by (simp_all add: demo_seed_def)
  have i: "map_of (publics (k_ring ?k)) (key_id demo_crypto (ed_pub demo_crypto ?s)) \<in> {None, Some (ed_pub demo_crypto ?s)}"
    by (simp add: p key_id_def demo_crypto_def demo_seed_def)
  have d: "save_private (rotate_ring demo_crypto ?s demo_ring) ''audit.key'' demo_disk =
      rotation_stops (rotate_ring demo_crypto ?s (k_ring ?k)) ''audit'' demo_disk [] ! 1"
    by (simp add: rotation_stops_def Let_def)
  obtain raw where raw: "sign demo_crypto demo_ring ''r1'' ''/workspace/a'' ''d1'' = Some raw"
    using demo_ring_simps(4) by (simp add: sign_def)
  then have "check_attestation demo_crypto (Some ?k) (Some raw) \<noteq> None"
    using signed_checks [OF demo_crypto_ed25519, of ?k] demo_ring_simps(1) by fastforce
  with rotation_crash_safe [OF demo_crypto_ed25519 demo_disk_loads f m l i d, of "[]" "[]"] raw
  show ?thesis by auto
qed

lemma signed_unknown:
  assumes "wf_ring cr r" and "priv_key r = Some seed" and "sign cr r rid target digest = Some raw"
    and "map_of (publics r') (key_id cr (ed_pub cr seed)) = None"
  shows "verify cr r' raw = Inl UnknownKey" and "raw \<noteq> []"
  using assms(1,3)
proof (atomize (full), rule sign_SomeE)
  fix seed' kid
  let ?a = "attestation r (to_hex (ed_sign cr seed' (message rid target digest))) rid target digest"
  assume k: "priv_key r = Some seed'" "active r = Some kid" "kid = key_id cr (ed_pub cr seed')"
    and raw: "raw = dumps (JObj ?a)"
  have "map_of ?a ''kid'' = Some (JStr kid)" "jget ?a ''v'' = JNum 2"
    using k(2) by (simp_all add: attestation_def)
  then show "verify cr r' raw = Inl UnknownKey \<and> raw \<noteq> []"
    using k assms(2,4) unfolding raw by (simp add: verify_def check_signature_def)
qed

text \<open>C16: What an interrupted rotation does cost. When the process stops between the new private key
  and the public ring, the next start signs with a key the public ring does not list and never
  writes it there: what it signs, it accepts itself, but whoever holds the public ring alone answers
  unknown key; and if the next rotation stops at the same point again, the start after that no
  longer accepts those attestations either.\<close>

theorem interrupted_rotation_unpublished_key:
  assumes "ed25519 cr"
    and "load_or_create_keys cr seed0 audit disk = (Inr k, disk)" and "disk (audit @ ''.pub.json'') \<noteq> None"
    and "read_publics (audit @ ''.pub.json'') disk = Some ps"
    and "length s1 = 32" and "length s2 = 32"
    and "map_of ps (key_id cr (ed_pub cr s1)) = None" and "key_id cr (ed_pub cr s2) \<noteq> key_id cr (ed_pub cr s1)"
    and "disk1 = rotation_stops (rotate_ring cr s1 (k_ring k)) audit disk t ! 1"
  shows "\<exists>k1 pub k2 disk2.
           load_or_create_keys cr seed1 audit disk1 = (Inr k1, disk1) \<and>
           load_ring cr [] (audit @ ''.pub.json'') disk1 = Some pub \<and>
           disk2 = rotation_stops (rotate_ring cr s2 (k_ring k1)) audit disk1 t ! 1 \<and>
           load_or_create_keys cr seed2 audit disk2 = (Inr k2, disk2) \<and>
           (\<forall>rid target digest. \<exists>raw a. sign cr (k_ring k1) rid target digest = Some raw \<and>
              check_attestation cr (Some k1) (Some raw) = Some a \<and>
              verify cr pub raw = Inl UnknownKey \<and> check_attestation cr (Some k2) (Some raw) = None)"
proof -
  let ?p = "audit @ ''.key''" and ?q = "audit @ ''.pub.json''" and ?l = "disk (audit @ ''.legacy.key'')"
  let ?k1 = "\<lparr>k_ring = new_ring cr (Some s1) ps, legacy = ?l\<rparr>"
  let ?k2 = "\<lparr>k_ring = new_ring cr (Some s2) ps, legacy = ?l\<rparr>"
  let ?d2 = "rotation_stops (rotate_ring cr s2 (k_ring ?k1)) audit disk1 t ! 1"
  have d1: "disk1 = (disk(?p \<mapsto> s1))(?p @ ''.tmp'' := None)"
    by (simp only: assms(9)) (simp add: rotation_stops_def save_private_rotated Let_def)
  have d2: "?d2 = (disk1(?p \<mapsto> s2))(?p @ ''.tmp'' := None)"
    by (simp add: rotation_stops_def save_private_rotated Let_def)
  have q: "disk1 ?q = disk ?q" "?d2 ?q = disk ?q" "disk1 (audit @ ''.legacy.key'') = ?l"
    "?d2 (audit @ ''.legacy.key'') = ?l" "disk1 ?p = Some s1" "?d2 ?p = Some s2"
    unfolding d2 by (simp_all add: d1)
  have ps: "read_publics ?q disk1 = Some ps" "read_publics ?q ?d2 = Some ps"
    using assms(4) q(1,2) by (simp_all add: read_publics_def)
  have l1: "load_or_create_keys cr seed1 audit disk1 = (Inr ?k1, disk1)"
    using load_with_ring [OF q(5) assms(5) _ ps(1), of cr seed1] assms(3) q(1,3) by simp
  have l2: "load_or_create_keys cr seed2 audit ?d2 = (Inr ?k2, ?d2)"
    using load_with_ring [OF q(6) assms(6) _ ps(2), of cr seed2] assms(3) q(2,4) by simp
  have pub: "load_ring cr [] ?q disk1 = Some (new_ring cr None ps)"
    using ps(1) by (simp add: load_ring_def)
  have "\<exists>raw a. sign cr (k_ring ?k1) rid target digest = Some raw \<and>
      check_attestation cr (Some ?k1) (Some raw) = Some a \<and>
      verify cr (new_ring cr None ps) raw = Inl UnknownKey \<and> check_attestation cr (Some ?k2) (Some raw) = None"
    for rid target digest
  proof -
    obtain raw where raw: "sign cr (k_ring ?k1) rid target digest = Some raw" by (auto simp: sign_def)
    have w: "wf_ring cr (k_ring ?k1)" "priv_key (k_ring ?k1) = Some s1" by (simp_all add: wf_new_ring)
    have u: "map_of (publics (new_ring cr None ps)) (key_id cr (ed_pub cr s1)) = None"
      "map_of (publics (k_ring ?k2)) (key_id cr (ed_pub cr s1)) = None"
      using assms(7,8) by (simp_all add: new_ring_def Let_def)
    note x = signed_unknown [OF w raw u(1)] and y = signed_unknown [OF w raw u(2)]
    obtain a where "check_attestation cr (Some ?k1) (Some raw) = Some a"
      using signed_checks [OF assms(1) w(1) raw] by blast
    with raw x y show ?thesis by (auto simp: check_attestation_def)
  qed
  with l1 l2 pub show ?thesis by blast
qed

theorem interrupted_rotation_unpublished_key_witness:
  "\<exists>raw k1 pub. load_or_create_keys demo_crypto [] ''audit''
          (save_private (rotate_ring demo_crypto (demo_seed (CHR ''b'')) demo_ring) ''audit.key'' demo_disk) =
        (Inr k1, save_private (rotate_ring demo_crypto (demo_seed (CHR ''b'')) demo_ring) ''audit.key'' demo_disk) \<and>
     load_ring demo_crypto [] ''audit.pub.json''
       (save_private (rotate_ring demo_crypto (demo_seed (CHR ''b'')) demo_ring) ''audit.key'' demo_disk) = Some pub \<and>
     sign demo_crypto (k_ring k1) ''r1'' ''/workspace/a'' ''d1'' = Some raw \<and>
     verify demo_crypto pub raw = Inl UnknownKey"
proof -
  let ?s = "\<lambda>c. demo_seed c" and ?k = "\<lparr>k_ring = demo_ring, legacy = demo_disk ''audit.legacy.key''\<rparr>"
  have q: "demo_disk (''audit'' @ ''.pub.json'') \<noteq> None"
    "read_publics (''audit'' @ ''.pub.json'') demo_disk = Some [(replicate 16 (CHR ''a''), ?s (CHR ''a''))]"
    using demo_disk_reads by simp_all
  have l: "length (?s (CHR ''b'')) = 32" "length (?s (CHR ''c'')) = 32" by (simp_all add: demo_seed_def)
  have i: "map_of [(replicate 16 (CHR ''a''), ?s (CHR ''a''))] (key_id demo_crypto (ed_pub demo_crypto (?s (CHR ''b'')))) = None"
    "key_id demo_crypto (ed_pub demo_crypto (?s (CHR ''c''))) \<noteq> key_id demo_crypto (ed_pub demo_crypto (?s (CHR ''b'')))"
    by (simp_all add: key_id_def demo_crypto_def demo_seed_def)
  have d: "save_private (rotate_ring demo_crypto (?s (CHR ''b'')) demo_ring) ''audit.key'' demo_disk =
      rotation_stops (rotate_ring demo_crypto (?s (CHR ''b'')) (k_ring ?k)) ''audit'' demo_disk [] ! 1"
    by (simp add: rotation_stops_def Let_def)
  show ?thesis
    using interrupted_rotation_unpublished_key
      [OF demo_crypto_ed25519 demo_disk_loads q l i d, of "[]" "[]"] by simp blast
qed

end
