(* ===== verification/Url.thy ===== *)
theory Url
  imports Prelude
begin

text \<open>
  The decisions of \<open>darm_guard/http_get.py\<close> that are made before a call: the URL normal form
  (\<open>normal_url\<close>, with the part of \<open>urllib.parse.urlsplit\<close> it uses), and the choice of a
  credential by longest prefix. Regular expressions of the source are written as the recursive
  functions they denote.
\<close>

section \<open>Character classes\<close>

definition is_lower :: "char \<Rightarrow> bool" where
  "is_lower c \<longleftrightarrow> (let n = of_char c :: nat in 97 \<le> n \<and> n \<le> 122)"

definition is_upper :: "char \<Rightarrow> bool" where
  "is_upper c \<longleftrightarrow> (let n = of_char c :: nat in 65 \<le> n \<and> n \<le> 90)"

definition lower_char :: "char \<Rightarrow> char" where
  "lower_char c = (if is_upper c then char_of ((of_char c :: nat) + 32) else c)"

definition unreserved :: "char \<Rightarrow> bool" where
  "unreserved c \<longleftrightarrow> is_lower c \<or> is_upper c \<or> is_digit c \<or> c \<in> set ''-._~''"

definition path_char :: "char \<Rightarrow> bool" where
  "path_char c \<longleftrightarrow> unreserved c \<or> c \<in> set ''!$&()*+,;=:@/'' \<or> c = CHR 0x27"

definition query_char :: "char \<Rightarrow> bool" where
  "query_char c \<longleftrightarrow> path_char c \<or> c = CHR ''?''"

definition upper_hex :: "char \<Rightarrow> nat option" where
  "upper_hex c = (let n = of_char c :: nat in
     if 48 \<le> n \<and> n \<le> 57 then Some (n - 48)
     else if 65 \<le> n \<and> n \<le> 70 then Some (n - 55) else None)"

fun chars_match :: "(char \<Rightarrow> bool) \<Rightarrow> string \<Rightarrow> bool" where
  \<comment> \<open>\<open>_PATH_CHARS\<close> and \<open>_QUERY_CHARS\<close>: allowed characters, or \<open>%\<close> and two upper-case digits\<close>
  "chars_match ok [] = True"
| "chars_match ok (c # s) =
     (if c = CHR ''%'' then
        (case s of h # l # t \<Rightarrow> upper_hex h \<noteq> None \<and> upper_hex l \<noteq> None \<and> chars_match ok t | _ \<Rightarrow> False)
      else ok c \<and> chars_match ok s)"

section \<open>Normal form\<close>

definition MAX_URL :: nat where "MAX_URL = 2048"

definition any_hex :: "char \<Rightarrow> nat option" where
  "any_hex c = (let n = of_char c :: nat in
     if 97 \<le> n \<and> n \<le> 102 then Some (n - 87) else upper_hex c)"

fun pct_ok :: "string \<Rightarrow> bool" where
  \<comment> \<open>\<open>_pct_ok\<close>: the matches of \<open>%([0-9A-Fa-f]{2})\<close>, from the left and not overlapping\<close>
  "pct_ok [] = True"
| "pct_ok (c # s) =
     (if c = CHR ''%'' then
        (case s of
           h # l # t \<Rightarrow>
             (case (any_hex h, any_hex l) of
                (Some a, Some b) \<Rightarrow>
                  (if upper_hex h = None \<or> upper_hex l = None then False
                   else let ch = char_of (16 * a + b)
                        in if unreserved ch \<or> ch \<in> set [CHR ''/'', CHR 0x5C, CHR ''.''] then False
                           else pct_ok t)
              | _ \<Rightarrow> pct_ok s)
         | _ \<Rightarrow> pct_ok s)
      else pct_ok s)"

definition label_ok :: "string \<Rightarrow> bool" where
  \<comment> \<open>\<open>_LABEL\<close>\<close>
  "label_ok l \<longleftrightarrow> l \<noteq> [] \<and> length l \<le> 63 \<and> (is_lower (hd l) \<or> is_digit (hd l)) \<and>
     (is_lower (last l) \<or> is_digit (last l)) \<and>
     list_all (\<lambda>c. is_lower c \<or> is_digit c \<or> c = CHR ''-'') l"

definition dec_val :: "string \<Rightarrow> nat" where
  "dec_val ds = foldl (\<lambda>n c. 10 * n + (of_char c - 48)) 0 ds"

definition octet_ok :: "string \<Rightarrow> bool" where
  "octet_ok s \<longleftrightarrow> s \<noteq> [] \<and> length s \<le> 3 \<and> list_all is_digit s \<and>
     (hd s = CHR ''0'' \<longrightarrow> length s = 1) \<and> dec_val s \<le> 255"

definition ipv4 :: "string \<Rightarrow> bool" where
  \<comment> \<open>\<open>_IPV4\<close>: four decimal numbers up to 255 without leading zeros\<close>
  "ipv4 h \<longleftrightarrow> length (split_on (CHR ''.'') h) = 4 \<and> list_all octet_ok (split_on (CHR ''.'') h)"

definition numeric_part :: "string \<Rightarrow> bool" where
  "numeric_part s \<longleftrightarrow> (s \<noteq> [] \<and> list_all is_digit s) \<or>
     (startswith s ''0x'' \<and> drop 2 s \<noteq> [] \<and> list_all is_lower_hex (drop 2 s))"

definition numeric_host :: "string \<Rightarrow> bool" where
  \<comment> \<open>\<open>_NUMERIC_HOST\<close>\<close>
  "numeric_host h \<longleftrightarrow> list_all numeric_part (split_on (CHR ''.'') h)"

definition is_num :: "string \<Rightarrow> bool" where
  \<comment> \<open>\<open>str.isdigit\<close> on ASCII text\<close>
  "is_num s \<longleftrightarrow> s \<noteq> [] \<and> list_all is_digit s"

record split_url =
  netloc :: string
  u_path :: string
  u_query :: string

definition urlsplit :: "string \<Rightarrow> split_url" where
  \<comment> \<open>of a text that starts with \<open>https://\<close> and has no \<open>#\<close>\<close>
  "urlsplit url =
     (let rest = drop 8 url; nl = takeWhile (\<lambda>c. c \<noteq> CHR ''/'' \<and> c \<noteq> CHR ''?'') rest;
          tail = drop (length nl) rest; (p, _, q) = partition_at (CHR ''?'') tail
      in \<lparr>netloc = nl, u_path = p, u_query = q\<rparr>)"

definition port_ok :: "string \<Rightarrow> bool" where
  \<comment> \<open>the port as written; an empty port after a colon counts as no port\<close>
  "port_ok port \<longleftrightarrow> port = [] \<or>
     (is_num port \<and> hd port \<noteq> CHR ''0'' \<and> dec_val port \<noteq> 443 \<and> 0 < dec_val port \<and> dec_val port < 65536)"

definition host_ok :: "string \<Rightarrow> bool" where
  "host_ok host \<longleftrightarrow> ipv4 host \<or>
     (\<not> (numeric_host host \<or> is_num (last (split_on (CHR ''.'') host))) \<and>
      \<not> (endswith host ''.'' \<or> 253 < length host \<or> (CHR ''.'' \<notin> set host \<and> host \<noteq> ''localhost'')) \<and>
      list_all label_ok (split_on (CHR ''.'') host))"

definition normal_url :: "string \<Rightarrow> bool" where
  "normal_url url \<longleftrightarrow>
     (if url = [] \<or> MAX_URL < length url \<or> \<not> list_all (\<lambda>c. (of_char c :: nat) < 128) url then False
      else if list_ex (\<lambda>c. py_space c \<or> (of_char c :: nat) < 33 \<or> of_char c = (127 :: nat)) url
        \<or> CHR 0x5C \<in> set url \<or> CHR ''#'' \<in> set url then False
      else if \<not> startswith url ''https://'' then False
      else
        let p = urlsplit url; (host, _, port) = partition_at (CHR '':'') (netloc p)
        in if CHR ''['' \<in> set (netloc p) \<or> CHR '']'' \<in> set (netloc p) then False
           else if CHR ''@'' \<in> set (netloc p) \<or> host = [] then False
           else if map lower_char host \<noteq> host then False
           else if \<not> port_ok port then False
           else if \<not> host_ok host then False
           else if \<not> startswith (u_path p) ''/'' \<or> sublist ''//'' (u_path p) then False
           else if list_ex (\<lambda>seg. seg = ''.'' \<or> seg = ''..'') (split_on (CHR ''/'') (u_path p)) then False
           else if \<not> chars_match path_char (u_path p) \<or> \<not> pct_ok (u_path p) then False
           else if CHR ''?'' \<in> set url \<and> u_query p = [] then False
           else if u_query p \<noteq> [] \<and> (\<not> chars_match query_char (u_query p) \<or> \<not> pct_ok (u_query p)) then False
           else url = ''https://'' @ netloc p @ u_path p @ (if u_query p = [] then [] else CHR ''?'' # u_query p))"

section \<open>Credentials\<close>

record http_credential =
  cr_prefix :: string
  cr_header :: string
  cr_file :: string

fun best_credential :: "string \<Rightarrow> http_credential option \<Rightarrow> http_credential list \<Rightarrow> http_credential option" where
  \<comment> \<open>the loop of \<open>credential_for\<close>\<close>
  "best_credential url best [] = best"
| "best_credential url best (c # cs) =
     best_credential url
       (if startswith url (cr_prefix c) \<and>
           (case best of None \<Rightarrow> True | Some b \<Rightarrow> length (cr_prefix b) < length (cr_prefix c))
        then Some c else best) cs"

section \<open>Properties\<close>

lemma best_credential_sound:
  assumes "\<And>b. best = Some b \<Longrightarrow> startswith url (cr_prefix b)"
    and "best_credential url best cs = Some c"
  shows "startswith url (cr_prefix c) \<and> (c \<in> set cs \<or> best = Some c) \<and>
    (\<forall>b. best = Some b \<longrightarrow> length (cr_prefix b) \<le> length (cr_prefix c)) \<and>
    (\<forall>d\<in>set cs. startswith url (cr_prefix d) \<longrightarrow> length (cr_prefix d) \<le> length (cr_prefix c))"
  using assms
proof (induction cs arbitrary: best)
  case (Cons d cs)
  let ?b = "if startswith url (cr_prefix d) \<and>
           (case best of None \<Rightarrow> True | Some b \<Rightarrow> length (cr_prefix b) < length (cr_prefix d))
        then Some d else best"
  have "\<And>b. ?b = Some b \<Longrightarrow> startswith url (cr_prefix b)"
    using Cons.prems(1) by (auto split: if_splits)
  moreover have "best_credential url ?b cs = Some c" using Cons.prems(2) by simp
  ultimately have IH: "startswith url (cr_prefix c)" "c \<in> set cs \<or> ?b = Some c"
    "\<And>b. ?b = Some b \<Longrightarrow> length (cr_prefix b) \<le> length (cr_prefix c)"
    "\<forall>d\<in>set cs. startswith url (cr_prefix d) \<longrightarrow> length (cr_prefix d) \<le> length (cr_prefix c)"
    using Cons.IH by blast+
  have "length (cr_prefix b) \<le> length (cr_prefix c)" if "best = Some b" for b
    using IH(3) that by (cases "?b = Some d") (fastforce split: if_splits)+
  moreover have "length (cr_prefix d) \<le> length (cr_prefix c)" if "startswith url (cr_prefix d)"
    using IH(3) that by (fastforce split: if_splits option.splits)
  ultimately show ?case using IH by (auto split: if_splits)
qed simp

lemma best_credential_None:
  "best_credential url best cs = None \<Longrightarrow> best = None \<and> (\<forall>c\<in>set cs. \<not> startswith url (cr_prefix c))"
proof (induction cs arbitrary: best)
  case (Cons c cs)
  let ?b = "if startswith url (cr_prefix c) \<and>
           (case best of None \<Rightarrow> True | Some b \<Rightarrow> length (cr_prefix b) < length (cr_prefix c))
        then Some c else best"
  have "?b = None \<and> (\<forall>c\<in>set cs. \<not> startswith url (cr_prefix c))" using Cons by simp
  then show ?case by (auto split: if_splits)
qed simp

lemma normal_url_split:
  "normal_url url \<Longrightarrow>
   url = ''https://'' @ netloc (urlsplit url) @ u_path (urlsplit url) @
         (if u_query (urlsplit url) = [] then [] else CHR ''?'' # u_query (urlsplit url)) \<and>
   startswith (u_path (urlsplit url)) ''/'' \<and> CHR ''/'' \<notin> set (netloc (urlsplit url))"
proof -
  assume n: "normal_url url"
  have "CHR ''/'' \<notin> set (netloc (urlsplit url))"
    unfolding urlsplit_def Let_def by (auto split: prod.splits dest: set_takeWhileD)
  moreover from n have "url = ''https://'' @ netloc (urlsplit url) @ u_path (urlsplit url) @
         (if u_query (urlsplit url) = [] then [] else CHR ''?'' # u_query (urlsplit url))"
    and "startswith (u_path (urlsplit url)) ''/''"
    unfolding normal_url_def Let_def case_prod_beta if_then_False by blast+
  ultimately show ?thesis by blast
qed

text \<open>a URL prefix in normal form admits, as a string prefix, only URLs of the same
  authority: it cannot reach another host or port.\<close>

theorem url_prefix_same_authority:
  assumes "normal_url p" and "normal_url v" and "startswith v p"
  shows "netloc (urlsplit v) = netloc (urlsplit p)"
proof -
  have slash: "takeWhile (\<lambda>c. c \<noteq> CHR ''/'') (n @ CHR ''/'' # r) = n" if "CHR ''/'' \<notin> set n" for n r
    using that by (induction n) auto
  obtain r where "v = p @ r" using assms(3) by (auto simp: startswith_conv)
  moreover obtain a where "p = ''https://'' @ netloc (urlsplit p) @ CHR ''/'' # a"
    using normal_url_split [OF assms(1)] by (auto simp: startswith_conv)
  moreover obtain b where "v = ''https://'' @ netloc (urlsplit v) @ CHR ''/'' # b"
    using normal_url_split [OF assms(2)] by (auto simp: startswith_conv)
  ultimately have "''https://'' @ netloc (urlsplit v) @ CHR ''/'' # b =
      (''https://'' @ netloc (urlsplit p) @ CHR ''/'' # a) @ r"
    by metis
  then have "netloc (urlsplit v) @ CHR ''/'' # b = netloc (urlsplit p) @ CHR ''/'' # a @ r"
    by simp
  then show ?thesis
    using slash normal_url_split [OF assms(1)] normal_url_split [OF assms(2)] by metis
qed

theorem url_prefix_same_authority_witness:
  "netloc (urlsplit ''https://api.test/v1/x'') = netloc (urlsplit ''https://api.test/v1/'')"
  by (rule url_prefix_same_authority) code_simp+

end
