(* ===== verification/Registry.thy ===== *)
theory Registry
  imports Json Url "HOL-Library.FSet"
begin

text \<open>
  The principal's configuration and what the broker derives from it (\<open>darm_guard/broker.py\<close>):
  path normal form, the load-time checks on prefixes, the registry with its per-tool lines,
  provenance, and the canonical invocation the kernel is asked about. The kernel's policy stays
  the JSON value it is in the configuration file. \<open>os.path.realpath\<close> and SHA-256 are
  arguments.
\<close>

section \<open>Paths\<close>

definition PATH_KEYS :: "string list" where "PATH_KEYS = [''path'', ''destination'']"
definition URL_KEYS :: "string list" where "URL_KEYS = [''url'']"
definition LOGICAL_ROOT :: string where "LOGICAL_ROOT = ''/workspace/''"

definition bad_component :: "string \<Rightarrow> bool" where
  "bad_component c \<longleftrightarrow> c \<in> set ['''', ''.'', ''..'']"

definition path_in_normal_form :: "string \<Rightarrow> bool" where
  "path_in_normal_form value \<longleftrightarrow>
     (if value = ''/'' then True
      else if \<not> startswith value ''/'' then False
      else list_all (\<lambda>c. \<not> bad_component c) (split_on (CHR ''/'') (drop 1 value)))"

lemma normal_path_components:
  "path_in_normal_form v \<Longrightarrow> v \<noteq> ''/'' \<Longrightarrow>
   v = CHR ''/'' # drop 1 v \<and> list_all (\<lambda>c. \<not> bad_component c) (split_on (CHR ''/'') (drop 1 v))"
  by (cases v) (auto simp: path_in_normal_form_def split: if_splits)

section \<open>Prefixes\<close>

datatype prefix_kind = PathPrefix | UrlPrefix

datatype prefix_verdict = PrefixFine | UrlPrefixOpen | PathPrefixOpen

definition prefix_problem :: "string \<Rightarrow> prefix_kind \<Rightarrow> prefix_verdict" where
  "prefix_problem p kind =
     (if p = [] then PrefixFine
      else if kind = UrlPrefix
      then (if \<not> endswith p ''/'' \<or> \<not> normal_url p then UrlPrefixOpen else PrefixFine)
      else if \<not> endswith p ''/'' then PathPrefixOpen else PrefixFine)"

definition jlist_of :: "json \<Rightarrow> json list" where
  "jlist_of v = (case v of JList vs \<Rightarrow> vs | _ \<Rightarrow> [])"

definition jfields :: "json \<Rightarrow> jobj" where
  "jfields v = (case v of JObj d \<Rightarrow> d | _ \<Rightarrow> [])"

definition jstr_of :: "json \<Rightarrow> string option" where
  "jstr_of v = (case v of JStr s \<Rightarrow> Some s | _ \<Rightarrow> None)"

definition rule_kind :: "json \<Rightarrow> prefix_kind option" where
  "rule_kind key =
     (case key of
        JStr k \<Rightarrow> (if k \<in> set PATH_KEYS then Some PathPrefix
                   else if k \<in> set URL_KEYS then Some UrlPrefix else None)
      | _ \<Rightarrow> None)"

definition pattern_kind :: "string \<Rightarrow> prefix_kind option" where
  "pattern_kind p =
     (if startswith p ''/'' then Some PathPrefix
      else if startswith p ''https://'' \<or> startswith p ''http://'' then Some UrlPrefix else None)"

datatype problem = PolicyPrefix json json string prefix_verdict | RegistryPattern string prefix_verdict

definition rule_problems :: "json \<Rightarrow> json \<Rightarrow> problem list" where
  "rule_problems t rule =
     (case rule_kind (jget (jfields rule) ''key'') of
        None \<Rightarrow> []
      | Some kind \<Rightarrow>
          concat (map (\<lambda>pv. case pv of
              JStr p \<Rightarrow> (if prefix_problem p kind = PrefixFine then []
                         else [PolicyPrefix (jget (jfields t) ''tool'') (jget (jfields rule) ''key'') p
                                 (prefix_problem p kind)])
            | _ \<Rightarrow> [])
          (jlist_of (jget (jfields rule) ''allowedPrefixes''))))"

definition pattern_problems :: "string \<Rightarrow> problem list" where
  "pattern_problems p =
     (case pattern_kind p of
        None \<Rightarrow> []
      | Some kind \<Rightarrow> (if prefix_problem p kind = PrefixFine then []
                     else [RegistryPattern p (prefix_problem p kind)]))"

definition check_prefixes :: "json \<Rightarrow> string list \<Rightarrow> problem list" where
  "check_prefixes policy patterns =
     concat (map (\<lambda>t. concat (map (rule_problems t) (jlist_of (jget (jfields t) ''rules''))))
       (jlist_of (jget (jfields policy) ''tools''))) @
     concat (map pattern_problems patterns)"

section \<open>Registry lines\<close>

datatype config_error =
    UnknownTool string string
  | PrefixesRefused "problem list"
  | ManifestInWorkspace string
  | CredentialPrefixNotNormal string
  | CredentialInWorkspace string

definition tool_char :: "char \<Rightarrow> bool" where
  "tool_char c \<longleftrightarrow> is_lower c \<or> is_digit c \<or> c = CHR ''_''"

definition tool_line :: "string \<Rightarrow> (string \<times> string) option" where
  \<comment> \<open>the match of \<open>^([a-z][a-z0-9_]*)\s+(\S.*)$\<close>, with the value stripped\<close>
  "tool_line line =
     (let tool = takeWhile tool_char line; rest = dropWhile tool_char line;
          value = dropWhile py_space rest
      in if tool = [] \<or> \<not> is_lower (hd tool) \<or> rest = [] \<or> \<not> py_space (hd rest) \<or> value = []
         then None else Some (tool, strip value))"

definition add_line :: "(string \<times> string list) list \<Rightarrow> string \<Rightarrow> string \<Rightarrow> (string \<times> string list) list" where
  \<comment> \<open>\<open>per_tool.setdefault(tool, []).append(value)\<close>\<close>
  "add_line d tool value =
     dset d tool ((case map_of d tool of None \<Rightarrow> [] | Some vs \<Rightarrow> vs) @ [value])"

fun split_lines ::
  "string list \<Rightarrow> string list \<Rightarrow> string list \<Rightarrow> (string \<times> string list) list \<Rightarrow>
   config_error + (string list \<times> (string \<times> string list) list)" where
  "split_lines tools [] untagged per_tool = Inr (untagged, per_tool)"
| "split_lines tools (line # lines) untagged per_tool =
     (case tool_line line of
        None \<Rightarrow> split_lines tools lines (untagged @ [line]) per_tool
      | Some (tool, value) \<Rightarrow>
          if tool \<notin> set tools then Inl (UnknownTool line tool)
          else split_lines tools lines untagged (add_line per_tool tool value))"

type_synonym tool_entries = "(string \<times> string fset \<times> string list) list"

definition is_pattern :: "string \<Rightarrow> bool" where
  "is_pattern v \<longleftrightarrow> endswith v ''*''"

definition policy_tools :: "json \<Rightarrow> string list" where
  "policy_tools policy =
     List.map_filter (\<lambda>t. jstr_of (jget (jfields t) ''tool'')) (jlist_of (jget (jfields policy) ''tools''))"

definition split_registry :: "string list \<Rightarrow> json \<Rightarrow> config_error + (string list \<times> tool_entries)" where
  "split_registry lines policy =
     (case split_lines (policy_tools policy) lines [] [] of
        Inl e \<Rightarrow> Inl e
      | Inr (untagged, per_tool) \<Rightarrow>
          Inr (untagged,
               map (\<lambda>(t, vs). (t, fset_of_list (filter (\<lambda>v. \<not> is_pattern v) vs),
                                 map butlast (filter is_pattern vs)))
                 (sort_key fst per_tool)))"

section \<open>Configuration\<close>

record http_settings =
  hs_credentials :: "http_credential list"
  allow_private :: "string list"
  max_body :: nat

record broker_config =
  policy :: json
  credential_tools :: "string list"
  registry :: "string fset"
  workspace :: string
  bc_issued_at :: "time option"
  ttl_seconds :: "time option"
  patterns :: "string list"
  read_requires_attestation :: bool
  vouched_manifest :: "string option"
  http :: "http_settings option"
  tool_registry :: tool_entries

definition registry_for :: "broker_config \<Rightarrow> string \<Rightarrow> string fset \<times> string list" where
  "registry_for cfg tool =
     (let mine = filter (\<lambda>(t, vs, ps). t = tool) (tool_registry cfg)
      in (foldl (\<lambda>values (t, vs, ps). values |\<union>| vs) (registry cfg) mine,
          foldl (\<lambda>pats (t, vs, ps). pats @ ps) (patterns cfg) mine))"

definition expired :: "broker_config \<Rightarrow> time \<Rightarrow> bool" where
  "expired cfg now =
     (case (bc_issued_at cfg, ttl_seconds cfg) of
        (Some issued, Some ttl) \<Rightarrow> ttl < now - issued
      | _ \<Rightarrow> False)"

record raw_config =
  rc_policy :: json
  rc_credential_tools :: "string list"
  rc_workspace :: string
  rc_issued_at :: "time option"
  rc_ttl :: "time option"
  rc_read_requires_attestation :: bool
  rc_vouched_manifest :: "string option"
  rc_http :: "http_settings option"

definition inside :: "string \<Rightarrow> string \<Rightarrow> bool" where
  \<comment> \<open>\<open>real == ws or real.startswith(ws + os.sep)\<close>\<close>
  "inside ws real \<longleftrightarrow> real = ws \<or> startswith real (ws @ ''/'')"

definition principal_held ::
  "(string \<Rightarrow> string) \<Rightarrow> string option \<Rightarrow> string \<Rightarrow> config_error + string option" where
  "principal_held realpath path ws =
     (case path of
        None \<Rightarrow> Inr None
      | Some p \<Rightarrow>
          if p = [] then Inr None
          else if inside (realpath ws) (realpath p) then Inl (ManifestInWorkspace p)
          else Inr (Some (realpath p)))"

fun check_credentials ::
  "(string \<Rightarrow> string) \<Rightarrow> string \<Rightarrow> http_credential list \<Rightarrow> config_error option" where
  "check_credentials realpath ws [] = None"
| "check_credentials realpath ws (c # cs) =
     (if \<not> normal_url (cr_prefix c) then Some (CredentialPrefixNotNormal (cr_prefix c))
      else if inside (realpath ws) (realpath (cr_file c)) then Some (CredentialInWorkspace (cr_file c))
      else check_credentials realpath ws cs)"

definition check_http ::
  "(string \<Rightarrow> string) \<Rightarrow> http_settings option \<Rightarrow> string \<Rightarrow> config_error + http_settings option" where
  \<comment> \<open>\<open>_http_config\<close>\<close>
  "check_http realpath h ws =
     (case h of
        None \<Rightarrow> Inr None
      | Some s \<Rightarrow> (case check_credentials realpath ws (hs_credentials s) of
                     Some e \<Rightarrow> Inl e | None \<Rightarrow> Inr (Some s)))"

definition load_config ::
  "(string \<Rightarrow> string) \<Rightarrow> raw_config \<Rightarrow> string list \<Rightarrow> config_error + broker_config" where
  "load_config realpath cfg file_lines =
     (let lines0 = filter (\<lambda>l. l \<noteq> []) (map strip file_lines) in
      case split_registry lines0 (rc_policy cfg) of
        Inl e \<Rightarrow> Inl e
      | Inr (lines, tagged) \<Rightarrow>
          let reg = filter (\<lambda>l. \<not> is_pattern l) lines;
              pats = map butlast (filter is_pattern lines);
              problems = check_prefixes (rc_policy cfg)
                           (pats @ concat (map (\<lambda>(t, vs, ps). ps) tagged))
          in if problems \<noteq> [] then Inl (PrefixesRefused problems)
             else (case principal_held realpath (rc_vouched_manifest cfg) (rc_workspace cfg) of
                     Inl e \<Rightarrow> Inl e
                   | Inr manifest \<Rightarrow>
                       (case check_http realpath (rc_http cfg) (rc_workspace cfg) of
                          Inl e \<Rightarrow> Inl e
                        | Inr h \<Rightarrow>
                            Inr \<lparr>policy = rc_policy cfg, credential_tools = rc_credential_tools cfg,
                                 registry = fset_of_list reg, workspace = realpath (rc_workspace cfg),
                                 bc_issued_at = rc_issued_at cfg, ttl_seconds = rc_ttl cfg,
                                 patterns = pats,
                                 read_requires_attestation = rc_read_requires_attestation cfg,
                                 vouched_manifest = manifest, http = h,
                                 tool_registry = tagged\<rparr>)))"

section \<open>Provenance and the canonical invocation\<close>

datatype provenance = Untrusted | Derived | Authoritative

instantiation provenance :: linorder
begin

definition prov_rank :: "provenance \<Rightarrow> nat" where
  "prov_rank p = (case p of Untrusted \<Rightarrow> 0 | Derived \<Rightarrow> 1 | Authoritative \<Rightarrow> 2)"

definition less_eq_provenance :: "provenance \<Rightarrow> provenance \<Rightarrow> bool" where
  "less_eq_provenance a b \<longleftrightarrow> prov_rank a \<le> prov_rank b"

definition less_provenance :: "provenance \<Rightarrow> provenance \<Rightarrow> bool" where
  "less_provenance a b \<longleftrightarrow> prov_rank a < prov_rank b"

instance
  by standard
    (auto simp: less_eq_provenance_def less_provenance_def prov_rank_def split: provenance.splits)

end

definition assign_prov :: "string fset \<Rightarrow> string \<Rightarrow> string list \<Rightarrow> provenance" where
  "assign_prov reg value pats =
     (if value |\<in>| reg then Authoritative
      else if list_ex (\<lambda>p. startswith value p) pats then Derived
      else Untrusted)"

record arg =
  a_key :: string
  a_value :: string
  a_prov :: provenance

record invocation =
  i_tool :: string
  i_args :: "arg list"

definition canonicalize :: "broker_config \<Rightarrow> string \<Rightarrow> (string \<times> string) list \<Rightarrow> invocation" where
  "canonicalize cfg tool args =
     (let (values, pats) = registry_for cfg tool
      in \<lparr>i_tool = tool,
          i_args = map (\<lambda>(k, v). \<lparr>a_key = k, a_value = v, a_prov = assign_prov values v pats\<rparr>) args\<rparr>)"

fun prov_str :: "provenance \<Rightarrow> string" where
  "prov_str Authoritative = ''authoritative''"
| "prov_str Derived = ''derived''"
| "prov_str Untrusted = ''untrusted''"

definition arg_json :: "arg \<Rightarrow> json" where
  "arg_json a = JObj [(''key'', JStr (a_key a)), (''value'', JStr (a_value a)),
                      (''prov'', JStr (prov_str (a_prov a)))]"

definition inv_json :: "invocation \<Rightarrow> json" where
  "inv_json ivn = JObj [(''tool'', JStr (i_tool ivn)), (''args'', JList (map arg_json (i_args ivn)))]"

definition args_of :: "invocation \<Rightarrow> (string \<times> string) list" where
  \<comment> \<open>\<open>{a["key"]: a["value"] for a in inv["args"]}\<close>\<close>
  "args_of ivn = foldl (\<lambda>d a. dset d (a_key a) (a_value a)) [] (i_args ivn)"

definition invocation_hash :: "(string \<Rightarrow> string) \<Rightarrow> invocation \<Rightarrow> string" where
  "invocation_hash sha ivn = sha (dumps_sorted (inv_json ivn))"

section \<open>Proposals\<close>

fun str_pair :: "json \<Rightarrow> (string \<times> string) option" where
  "str_pair (JList [JStr k, JStr v]) = Some (k, v)"
| "str_pair _ = None"

fun str_pairs :: "json list \<Rightarrow> (string \<times> string) list option" where
  "str_pairs [] = Some []"
| "str_pairs (kv # kvs) =
     (case str_pair kv of
        None \<Rightarrow> None
      | Some p \<Rightarrow> map_option (\<lambda>ps. p # ps) (str_pairs kvs))"

definition parse_proposal :: "json \<Rightarrow> (string \<times> (string \<times> string) list) option" where
  "parse_proposal obj =
     (case obj of
        JObj d \<Rightarrow>
          if set (map fst d) \<noteq> {''tool'', ''args''} then None
          else (case (jget d ''tool'', jget d ''args'') of
                  (JStr tool, JList args) \<Rightarrow>
                    (case str_pairs args of
                       None \<Rightarrow> None
                     | Some out \<Rightarrow> if \<not> distinct (map fst out) then None else Some (tool, out))
                | _ \<Rightarrow> None)
      | _ \<Rightarrow> None)"

definition summary_arg :: "(string \<Rightarrow> string) \<Rightarrow> json \<Rightarrow> json" where
  "summary_arg sha a =
     (case str_pair a of
        Some (k, v) \<Rightarrow>
          (if k \<in> set PATH_KEYS \<or> k \<in> set URL_KEYS then JList [JStr (take 64 k), JStr (take 1024 v)]
           else JList [JStr (take 64 k), JObj [(''sha256'', JStr (sha v)), (''length'', JNum (int (length v)))]])
      | None \<Rightarrow> JList [JStr ''?'', JStr ''malformed argument''])"

definition proposal_summary :: "(string \<Rightarrow> string) \<Rightarrow> json \<Rightarrow> json" where
  "proposal_summary sha obj =
     (case obj of
        JObj d \<Rightarrow>
          (let tool = (case jget d ''tool'' of JStr t \<Rightarrow> JStr (take 64 t) | _ \<Rightarrow> JNull);
               args = map (summary_arg sha) (take 16 (jlist_of (jget d ''args'')));
               extra = sort (filter (\<lambda>k. k \<noteq> ''tool'' \<and> k \<noteq> ''args'') (map fst d))
           in JObj ([(''tool'', tool), (''args'', JList args)] @
                    (if extra \<noteq> [] then [(''extra_fields'', JList (map (JStr \<circ> take 64) (take 8 extra)))]
                     else [])))
      | _ \<Rightarrow> JObj [(''malformed'', JBool True)])"

section \<open>How an accepted prefix reads\<close>

definition components :: "string \<Rightarrow> string list" where
  "components v = split_on (CHR ''/'') (drop 1 v)"

lemma prefix_by_components:
  assumes "startswith p ''/''" and "endswith p ''/''"
  shows "startswith v p \<longleftrightarrow> startswith v ''/'' \<and> strict_prefix (butlast (components p)) (components v)"
proof (cases "p = ''/''")
  case True
  then show ?thesis by (cases "components v") (auto simp: components_def)
next
  case False
  obtain p' where "p = CHR ''/'' # p'" using assms(1) by (cases p) auto
  moreover have "p' \<noteq> []" "last p' = CHR ''/''" using False assms(2) calculation by auto
  ultimately obtain q where p: "p = CHR ''/'' # q @ [CHR ''/'']" by (metis append_butlast_last_id)
  then have q: "butlast (components p) = split_on (CHR ''/'') q"
    by (simp add: components_def split_on_append)
  show ?thesis
  proof
    assume "startswith v p"
    then obtain r where "v = CHR ''/'' # q @ CHR ''/'' # r" by (auto simp: startswith_conv p)
    then show "startswith v ''/'' \<and> strict_prefix (butlast (components p)) (components v)"
      unfolding q by (simp add: components_def split_on_append strict_prefix_def)
  next
    assume a: "startswith v ''/'' \<and> strict_prefix (butlast (components p)) (components v)"
    then obtain w where v: "v = CHR ''/'' # w" by (cases v) auto
    from a obtain z zs where "split_on (CHR ''/'') w = split_on (CHR ''/'') q @ z # zs"
      unfolding q by (auto simp: v components_def elim!: strict_prefixE')
    then have "w = q @ CHR ''/'' # join_with ''/'' (z # zs)"
      using join_split_on [of "CHR ''/''" w] join_split_on [of "CHR ''/''" q]
        join_with_append [of "split_on (CHR ''/'') q" "z # zs" "''/''"] by simp
    then show "startswith v p" by (simp add: startswith_conv p v)
  qed
qed

lemma no_pattern_problem:
  "pattern_problems p = [] \<Longrightarrow> startswith p ''/'' \<Longrightarrow> endswith p ''/''"
  by (cases p) (auto simp: pattern_problems_def pattern_kind_def prefix_problem_def split: if_splits)

lemma load_config_Inr:
  assumes "load_config realpath rc ls = Inr cfg"
  obtains lines tagged where
    "split_registry (filter (\<lambda>l. l \<noteq> []) (map strip ls)) (rc_policy rc) = Inr (lines, tagged)"
    "patterns cfg = map butlast (filter is_pattern lines)" "tool_registry cfg = tagged"
    "registry cfg = fset_of_list (filter (\<lambda>l. \<not> is_pattern l) lines)"
    "check_prefixes (rc_policy rc) (patterns cfg @ concat (map (\<lambda>(t, vs, ps). ps) tagged)) = []"
    "principal_held realpath (rc_vouched_manifest rc) (rc_workspace rc) = Inr (vouched_manifest cfg)"
    "check_http realpath (rc_http rc) (rc_workspace rc) = Inr (http cfg)"
    "policy cfg = rc_policy rc" "workspace cfg = realpath (rc_workspace rc)"
  using assms unfolding load_config_def Let_def
  by (auto split: sum.splits prod.splits if_splits)

section \<open>The registry\<close>

lemma registry_for_values:
  "v |\<in>| fst (registry_for cfg tool) \<longleftrightarrow>
   v |\<in>| registry cfg \<or> (\<exists>vs ps. (tool, vs, ps) \<in> set (tool_registry cfg) \<and> v |\<in>| vs)"
proof -
  have "v |\<in>| foldl (\<lambda>values (t, vs, ps). values |\<union>| vs) R mine \<longleftrightarrow>
        v |\<in>| R \<or> (\<exists>t vs ps. (t, vs, ps) \<in> set mine \<and> v |\<in>| vs)" for R :: "string fset" and mine :: tool_entries
    by (induction mine arbitrary: R) auto
  then show ?thesis by (auto simp: registry_for_def Let_def)
qed

lemma registry_for_patterns:
  "p \<in> set (snd (registry_for cfg tool)) \<longleftrightarrow>
   p \<in> set (patterns cfg) \<or> (\<exists>vs ps. (tool, vs, ps) \<in> set (tool_registry cfg) \<and> p \<in> set ps)"
proof -
  have "p \<in> set (foldl (\<lambda>pats (t, vs, ps). pats @ ps) P mine) \<longleftrightarrow>
        p \<in> set P \<or> (\<exists>t vs ps. (t, vs, ps) \<in> set mine \<and> p \<in> set ps)" for P :: "string list" and mine :: tool_entries
    by (induction mine arbitrary: P) auto
  then show ?thesis by (auto simp: registry_for_def Let_def)
qed

lemma accepted_pattern_ends_at_component:
  assumes "load_config realpath rc ls = Inr cfg" and "p \<in> set (snd (registry_for cfg tool))"
    and "startswith p ''/''"
  shows "endswith p ''/''"
proof -
  obtain tagged where t: "tool_registry cfg = tagged"
    and c: "check_prefixes (rc_policy rc) (patterns cfg @ concat (map (\<lambda>(t, vs, ps). ps) tagged)) = []"
    using assms(1) by (elim load_config_Inr)
  have "p \<in> set (patterns cfg @ concat (map (\<lambda>(t, vs, ps). ps) tagged))"
    using assms(2) t unfolding registry_for_patterns by fastforce
  then have "pattern_problems p = []" using c by (auto simp: check_prefixes_def)
  then show ?thesis using assms(3) by (rule no_pattern_problem)
qed

section \<open>JSON of an invocation\<close>

lemma wf_inv_json: "wf_json (inv_json ivn)"
  by (simp add: inv_json_def arg_json_def list_all_iff)

lemma prov_str_inj: "prov_str p = prov_str q \<longleftrightarrow> p = q"
  by (cases p; cases q) simp_all

lemma canon_arg_json:
  "canon (arg_json a) = JObj [(''key'', JStr (a_key a)), (''prov'', JStr (prov_str (a_prov a))),
                              (''value'', JStr (a_value a))]"
  by (simp add: arg_json_def)

lemma canon_arg_json_inj: "canon (arg_json a) = canon (arg_json b) \<Longrightarrow> a = b"
  by (simp add: canon_arg_json prov_str_inj)

lemma canon_inv_json:
  "canon (inv_json ivn) =
   JObj [(''args'', JList (map (canon \<circ> arg_json) (i_args ivn))), (''tool'', JStr (i_tool ivn))]"
  by (simp add: inv_json_def)

lemma canon_inv_json_inj: "canon (inv_json i) = canon (inv_json j) \<Longrightarrow> i = j"
proof -
  assume "canon (inv_json i) = canon (inv_json j)"
  then have "map (canon \<circ> arg_json) (i_args i) = map (canon \<circ> arg_json) (i_args j)" "i_tool i = i_tool j"
    by (simp_all add: canon_inv_json)
  moreover have "inj (canon \<circ> arg_json)" by (intro injI) (simp add: canon_arg_json_inj)
  ultimately show "i = j" by (simp add: inj_map_eq_map)
qed

lemma serialised_invocations_differ:
  "i \<noteq> j \<Longrightarrow> dumps_sorted (inv_json i) \<noteq> dumps_sorted (inv_json j)"
  using dumps_sorted_inj [OF wf_inv_json wf_inv_json] canon_inv_json_inj by blast

section \<open>Reading a proposal\<close>

lemma str_pair_iff: "str_pair v = Some (k, x) \<longleftrightarrow> v = JList [JStr k, JStr x]"
  by (cases v rule: str_pair.cases) auto

lemma str_pairs_iff:
  "str_pairs vs = Some out \<longleftrightarrow> vs = map (\<lambda>(k, x). JList [JStr k, JStr x]) out"
proof (induction vs arbitrary: out)
  case (Cons v vs)
  show ?case
  proof (cases "str_pair v")
    case None
    then have "v \<noteq> JList [JStr k, JStr x]" for k x using str_pair_iff [of v k x] by simp
    then show ?thesis using None by (cases out) auto
  next
    case (Some kx)
    obtain k x where kx: "kx = (k, x)" by (cases kx)
    then have v: "v = JList [JStr k, JStr x]" using Some str_pair_iff by simp
    show ?thesis using Cons.IH by (cases out) (auto simp: v)
  qed
qed auto

lemma jget_conv: "jget d k = v \<longleftrightarrow> map_of d k = Some v \<or> (map_of d k = None \<and> v = JNull)"
  by (auto simp: jget_def split: option.splits)

lemma jget_typed:
  "jget d k = JStr s \<longleftrightarrow> map_of d k = Some (JStr s)"
  "jget d k = JList vs \<longleftrightarrow> map_of d k = Some (JList vs)"
  "jget d k = JObj e \<longleftrightarrow> map_of d k = Some (JObj e)"
  "jget d k = JNum i \<longleftrightarrow> map_of d k = Some (JNum i)"
  by (simp_all add: jget_conv)

lemma parse_args_iff:
  "(case v of JList args \<Rightarrow> (case str_pairs args of None \<Rightarrow> None
      | Some out \<Rightarrow> if \<not> distinct (map fst out) then None else Some (tool, out)) | _ \<Rightarrow> None) = Some (t, out)
   \<longleftrightarrow> t = tool \<and> v = JList (map (\<lambda>(k, v). JList [JStr k, JStr v]) out) \<and> distinct (map fst out)"
proof (cases v)
  case (JList args)
  have inj: "map (\<lambda>(k, x). JList [JStr k, JStr x]) a = map (\<lambda>(k, x). JList [JStr k, JStr x]) b \<longleftrightarrow> a = b"
    for a b :: "(string \<times> string) list"
    by (rule inj_map_eq_map) (auto intro!: injI)
  show ?thesis
  proof (cases "str_pairs args")
    case None
    then have "args \<noteq> map (\<lambda>(k, v). JList [JStr k, JStr v]) out" using str_pairs_iff [of args out] by simp
    with None JList show ?thesis by simp
  next
    case (Some out')
    then have "args = map (\<lambda>(k, x). JList [JStr k, JStr x]) out'" by (simp add: str_pairs_iff)
    with Some JList inj [of out' out] show ?thesis by auto
  qed
qed auto

lemma parse_proposal_iff:
  "parse_proposal obj = Some (tool, out) \<longleftrightarrow>
   (\<exists>d. obj = JObj d \<and> set (map fst d) = {''tool'', ''args''} \<and>
        map_of d ''tool'' = Some (JStr tool) \<and>
        map_of d ''args'' = Some (JList (map (\<lambda>(k, v). JList [JStr k, JStr v]) out)) \<and>
        distinct (map fst out))"
proof (cases obj)
  case (JObj d)
  show ?thesis
  proof (cases "set (map fst d) = {''tool'', ''args''} \<and> (\<exists>t. jget d ''tool'' = JStr t)")
    case True
    then obtain t where "jget d ''tool'' = JStr t" by blast
    with True have "parse_proposal obj =
        (case jget d ''args'' of JList args \<Rightarrow> (case str_pairs args of None \<Rightarrow> None
          | Some out \<Rightarrow> if \<not> distinct (map fst out) then None else Some (t, out)) | _ \<Rightarrow> None)"
      by (simp add: parse_proposal_def JObj split: json.split)
    then show ?thesis
      using True \<open>jget d ''tool'' = JStr t\<close> JObj by (auto simp: parse_args_iff jget_typed)
  next
    case False
    then have "parse_proposal obj = None"
      by (auto simp: parse_proposal_def JObj split: json.split)
    with False JObj show ?thesis by (auto simp: jget_typed)
  qed
qed (simp_all add: parse_proposal_def)

section \<open>Files of the principal\<close>

lemma principal_held_outside:
  "principal_held realpath path ws = Inr (Some m) \<Longrightarrow> \<not> inside (realpath ws) m"
  by (auto simp: principal_held_def split: option.splits if_splits)

lemma check_credentials_outside:
  "check_credentials realpath ws cs = None \<Longrightarrow> c \<in> set cs \<Longrightarrow>
   normal_url (cr_prefix c) \<and> \<not> inside (realpath ws) (realpath (cr_file c))"
  by (induction cs) (auto split: if_splits)

lemma check_http_outside:
  "check_http realpath h ws = Inr (Some s) \<Longrightarrow> c \<in> set (hs_credentials s) \<Longrightarrow>
   \<not> inside (realpath ws) (realpath (cr_file c))"
  using check_credentials_outside
  by (fastforce simp: check_http_def split: option.splits)

section \<open>Properties\<close>

text \<open>C22: A configuration the broker loads has only path patterns that mean the same to the
  kernel, which compares strings, and to the file system, which walks components: a value starts
  with the pattern exactly when it is an absolute path whose components properly extend the
  components of the pattern. In particular a pattern never admits a sibling directory.\<close>

lemma accepted_path_pattern_reads_by_components:
  assumes "load_config realpath rc ls = Inr cfg" and "p \<in> set (snd (registry_for cfg tool))"
    and "startswith p ''/''"
  shows "startswith v p \<longleftrightarrow>
         startswith v ''/'' \<and> strict_prefix (butlast (components p)) (components v)"
  using assms accepted_pattern_ends_at_component prefix_by_components by blast

definition demo_policy :: json where
  "demo_policy = JObj [(''tools'', JList [
     JObj [(''tool'', JStr ''read_file''),
           (''rules'', JList [JObj [(''key'', JStr ''path''),
                                    (''allowedPrefixes'', JList [JStr ''/workspace/''])]])]])]"

definition demo_raw :: raw_config where
  "demo_raw = \<lparr>rc_policy = demo_policy, rc_credential_tools = [''read_file''], rc_workspace = ''/srv/ws'',
     rc_issued_at = None, rc_ttl = None, rc_read_requires_attestation = False,
     rc_vouched_manifest = Some ''/etc/vouched'', rc_http = None\<rparr>"

definition demo_lines :: "string list" where
  "demo_lines = [''/workspace/notes.txt'', ''read_file /workspace/reports/*'']"

lemma demo_loads:
  "load_config (\<lambda>p. p) demo_raw demo_lines =
   Inr \<lparr>policy = demo_policy, credential_tools = [''read_file''],
        registry = {|''/workspace/notes.txt''|}, workspace = ''/srv/ws'',
        bc_issued_at = None, ttl_seconds = None, patterns = [],
        read_requires_attestation = False, vouched_manifest = Some ''/etc/vouched'', http = None,
        tool_registry = [(''read_file'', {||}, [''/workspace/reports/''])]\<rparr>"
  by code_simp

lemma accepted_path_pattern_reads_by_components_witness:
  "\<exists>cfg. load_config (\<lambda>p. p) demo_raw demo_lines = Inr cfg \<and>
     \<not> startswith ''/workspace/reports-private/x'' ''/workspace/reports/'' \<and>
     \<not> strict_prefix (butlast (components ''/workspace/reports/'')) (components ''/workspace/reports-private/x'')"
proof -
  obtain cfg where cfg: "load_config (\<lambda>p. p) demo_raw demo_lines = Inr cfg"
    and reg: "tool_registry cfg = [(''read_file'', {||}, [''/workspace/reports/''])]"
    using demo_loads by simp
  have "''/workspace/reports/'' \<in> set (snd (registry_for cfg ''read_file''))"
    by (simp add: registry_for_patterns reg)
  then show ?thesis
    using accepted_path_pattern_reads_by_components
      [OF cfg, of "''/workspace/reports/''" "''read_file''" "''/workspace/reports-private/x''"] cfg
    by auto
qed

text \<open>A proposal is accepted exactly when it is an object with the two fields \<open>tool\<close> and
  \<open>args\<close> and no other, the tool a string, the arguments a list of pairs of strings without a
  repeated name; the arguments are then taken over in order. Everything else is refused, never
  repaired: there is no field through which the agent could state a provenance.\<close>

lemma parse_proposal_exact:
  "parse_proposal obj = Some (tool, out) \<longleftrightarrow>
   (\<exists>d. obj = JObj d \<and> set (map fst d) = {''tool'', ''args''} \<and>
        map_of d ''tool'' = Some (JStr tool) \<and>
        map_of d ''args'' = Some (JList (map (\<lambda>(k, v). JList [JStr k, JStr v]) out)) \<and>
        distinct (map fst out))"
  by (rule parse_proposal_iff)

text \<open>The canonical invocation keeps the tool and the arguments of the proposal, in order,
  and each argument's provenance is what the principal's registry says of its value for this
  tool: \<open>authoritative\<close> for a value vouched for on an untagged line or on a line naming this very
  tool, else \<open>derived\<close> when it extends a pattern so vouched for, else \<open>untrusted\<close>. A line naming
  another tool never counts.\<close>

lemma canonicalize_provenance:
  "canonicalize cfg tool args =
   \<lparr>i_tool = tool,
    i_args = map (\<lambda>(k, v). \<lparr>a_key = k, a_value = v, a_prov =
      (if v |\<in>| registry cfg \<or> (\<exists>(t, vs, ps)\<in>set (tool_registry cfg). t = tool \<and> v |\<in>| vs)
       then Authoritative
       else if (\<exists>p\<in>set (patterns cfg). startswith v p) \<or>
               (\<exists>(t, vs, ps)\<in>set (tool_registry cfg). t = tool \<and> (\<exists>p\<in>set ps. startswith v p))
       then Derived else Untrusted)\<rparr>) args\<rparr>"
proof -
  obtain vals pats where r: "registry_for cfg tool = (vals, pats)" by (cases "registry_for cfg tool")
  have v: "v |\<in>| vals \<longleftrightarrow>
      v |\<in>| registry cfg \<or> (\<exists>(t, vs, ps)\<in>set (tool_registry cfg). t = tool \<and> v |\<in>| vs)" for v
    using registry_for_values [of v cfg tool] r by fastforce
  have p: "list_ex (startswith v) pats \<longleftrightarrow>
      (\<exists>p\<in>set (patterns cfg). startswith v p) \<or>
      (\<exists>(t, vs, ps)\<in>set (tool_registry cfg). t = tool \<and> (\<exists>p\<in>set ps. startswith v p))" for v
    using registry_for_patterns [of _ cfg tool] r unfolding list_ex_iff by fastforce
  have "assign_prov vals v pats =
      (if v |\<in>| registry cfg \<or> (\<exists>(t, vs, ps)\<in>set (tool_registry cfg). t = tool \<and> v |\<in>| vs)
       then Authoritative
       else if (\<exists>p\<in>set (patterns cfg). startswith v p) \<or>
               (\<exists>(t, vs, ps)\<in>set (tool_registry cfg). t = tool \<and> (\<exists>p\<in>set ps. startswith v p))
       then Derived else Untrusted)" for v
    by (simp only: assign_prov_def v p)
  then show ?thesis unfolding canonicalize_def r by simp
qed

text \<open>The hash that ties the records of the log to the invocation decided on and executed
  identifies the invocation: two different canonical invocations with the same hash are an
  explicit collision of SHA-256.\<close>

lemma invocation_hash_collision:
  assumes "invocation_hash sha i = invocation_hash sha j" and "i \<noteq> j"
  shows "\<exists>s t. s \<noteq> t \<and> sha s = sha t"
  using assms serialised_invocations_differ [of i j] unfolding invocation_hash_def by blast

lemma invocation_hash_collision_witness:
  "\<exists>s t. s \<noteq> t \<and> (\<lambda>_ :: string. ''0'') s = (\<lambda>_. ''0'') t"
  using invocation_hash_collision
    [of "\<lambda>_. ''0''" "\<lparr>i_tool = ''read_file'', i_args = []\<rparr>" "\<lparr>i_tool = ''list_dir'', i_args = []\<rparr>"]
  by (simp add: invocation_hash_def)

text \<open>The files the principal keeps away from the agent really are out of its reach: a loaded
  configuration names no vouching manifest and no credential file whose real path lies in the
  workspace.\<close>

lemma principal_files_outside_workspace:
  assumes "load_config realpath rc ls = Inr cfg"
  shows "\<not> (\<exists>m. vouched_manifest cfg = Some m \<and> inside (workspace cfg) m) \<and>
         \<not> (\<exists>h c. http cfg = Some h \<and> c \<in> set (hs_credentials h) \<and>
                  inside (workspace cfg) (realpath (cr_file c)))"
  using assms
proof (rule load_config_Inr)
  assume "principal_held realpath (rc_vouched_manifest rc) (rc_workspace rc) = Inr (vouched_manifest cfg)"
    and "check_http realpath (rc_http rc) (rc_workspace rc) = Inr (http cfg)"
    and "workspace cfg = realpath (rc_workspace rc)"
  then show ?thesis using principal_held_outside check_http_outside by metis
qed

lemma principal_files_outside_workspace_witness:
  "\<exists>cfg. load_config (\<lambda>p. p) demo_raw demo_lines = Inr cfg \<and>
     vouched_manifest cfg = Some ''/etc/vouched'' \<and> \<not> inside (workspace cfg) ''/etc/vouched''"
proof -
  obtain cfg where cfg: "load_config (\<lambda>p. p) demo_raw demo_lines = Inr cfg"
    and "vouched_manifest cfg = Some ''/etc/vouched''"
    using demo_loads by simp
  then show ?thesis using principal_files_outside_workspace [OF cfg] by blast
qed

end
