(* ===== verification/Effects.thy ===== *)
theory Effects
  imports FileSystem Attest Registry
begin

text \<open>
  What the broker does to the file system (\<open>darm_guard/broker.py\<close>): resolution of a path through
  handles, observation of a target, compare-and-swap replacement and deletion, the rename
  protocol, the execution of an admitted invocation, and the recovery of a rename a crash
  interrupted. Every function performs the system calls of its Python counterpart in the same
  order; \<open>Inl\<close> is an exception that leaves it. Inode 0 is the workspace. The random part of a
  private name is an argument. Handles are closed implicitly.
\<close>

section \<open>Error texts\<close>

fun class_name :: "errno \<Rightarrow> string" where
  "class_name ENOENT = ''FileNotFoundError''"
| "class_name EEXIST = ''FileExistsError''"
| "class_name ENOTDIR = ''NotADirectoryError''"
| "class_name EISDIR = ''IsADirectoryError''"
| "class_name ENOTIMPL = ''NotImplementedError''"
| "class_name _ = ''OSError''"

fun strerror :: "errno \<Rightarrow> string" where
  "strerror ENOENT = ''No such file or directory''"
| "strerror EEXIST = ''File exists''"
| "strerror ELOOP = ''Too many levels of symbolic links''"
| "strerror ENOTDIR = ''Not a directory''"
| "strerror EISDIR = ''Is a directory''"
| "strerror ENXIO = ''No such device or address''"
| "strerror ENODATA = ''No data available''"
| "strerror ENOTSUP = ''Operation not supported''"
| "strerror ENOTIMPL = ''renameat2 unavailable''"
| "strerror ESTOPPED = ''stopped''"

fun errno_num :: "errno \<Rightarrow> int" where
  "errno_num ENOENT = 2" | "errno_num EEXIST = 17" | "errno_num ELOOP = 40" | "errno_num ENOTDIR = 20"
| "errno_num EISDIR = 21" | "errno_num ENXIO = 6" | "errno_num ENODATA = 61" | "errno_num ENOTSUP = 95"
| "errno_num ENOTIMPL = 0" | "errno_num ESTOPPED = 0"

definition error_line :: "errno \<Rightarrow> string" where
  \<comment> \<open>\<open>f"{type(e).__name__}: {e.strerror}"\<close>\<close>
  "error_line e = class_name e @ '': '' @ strerror e"

definition error_full :: "errno \<Rightarrow> string \<Rightarrow> string" where
  \<comment> \<open>\<open>f"{type(e).__name__}: {e}"\<close> of a call on a name\<close>
  "error_full e name = class_name e @ '': [Errno '' @ show_int (errno_num e) @ ''] '' @ strerror e @ '': '' @ py_repr_str name"

section \<open>Resolution\<close>

abbreviation (input) ROOT :: nat where "ROOT \<equiv> 0"

definition path_parts :: "string \<Rightarrow> string list option" where
  \<comment> \<open>the components below the workspace, if the path is below it and in normal form\<close>
  "path_parts path =
     (if \<not> startswith path LOGICAL_ROOT then None
      else let parts = split_on (CHR ''/'') (drop (length LOGICAL_ROOT) path)
           in if list_ex bad_component parts then None else Some parts)"

fun walk_dirs :: "nat \<Rightarrow> string list \<Rightarrow> nat io" where
  "walk_dirs d [] = done_with d"
| "walk_dirs d (c # cs) = andthen (sys (open_dir d c)) (\<lambda>i. walk_dirs i cs)"

definition open_parent :: "string \<Rightarrow> (world, (nat \<times> string) option) state" where
  "open_parent path =
     (case path_parts path of
        None \<Rightarrow> ret None
      | Some parts \<Rightarrow> do {
          r \<leftarrow> walk_dirs ROOT (butlast parts);
          ret (case r of Inl e \<Rightarrow> None | Inr d \<Rightarrow> Some (d, last parts)) })"

definition lstat_at :: "nat \<Rightarrow> string \<Rightarrow> fs \<Rightarrow> (kind \<times> nat) res \<times> fs" where
  \<comment> \<open>\<open>os.lstat\<close> of the path walked so far: kind and inode\<close>
  "lstat_at d n f =
     (case at f d n of None \<Rightarrow> (Inl ENOENT, f) | Some i \<Rightarrow> (Inr (ikind (inodes f i), i), f))"

definition MISSING_DIR :: string where "MISSING_DIR = ''a directory on the path does not exist''"

fun problem_walk :: "nat \<Rightarrow> string list \<Rightarrow> (world, string) state" where
  "problem_walk d [] = ret ''the path could not be resolved''"
| "problem_walk d (c # cs) = do {
     r \<leftarrow> sys (lstat_at d c);
     case r of
       Inl e \<Rightarrow> ret (if e = ENOENT then MISSING_DIR @ '': '' @ c
                    else ''a directory on the path cannot be examined: '' @ c @ '' ('' @ class_name e @ '')'')
     | Inr (k, i) \<Rightarrow>
         if k = Lnk then ret (''the path crosses a symlink: '' @ c)
         else if k \<noteq> Dir then ret (''a component of the path is not a directory: '' @ c)
         else problem_walk i cs }"

definition path_problem :: "string \<Rightarrow> (world, string) state" where
  "path_problem path =
     (if \<not> startswith path LOGICAL_ROOT then ret ''the path is outside the workspace''
      else case path_parts path of
             None \<Rightarrow> ret ''the path is not in normal form''
           | Some parts \<Rightarrow> problem_walk ROOT (butlast parts))"

section \<open>Observation\<close>

datatype tstate = Absent | Present string | Unavailable string

fun tstate_json :: "tstate \<Rightarrow> json" where
  "tstate_json Absent = JList [JStr ''absent'', JNull]"
| "tstate_json (Present d) = JList [JStr ''present'', JStr d]"
| "tstate_json (Unavailable e) = JList [JStr ''unavailable'', JStr e]"

definition NOT_REGULAR :: string where "NOT_REGULAR = ''target is not a regular file''"

definition leaf_kind :: "nat \<Rightarrow> string \<Rightarrow> kind option io" where
  "leaf_kind d n = do {
     r \<leftarrow> sys (stat_at d n);
     ret (case r of
            Inl e \<Rightarrow> (if e = ENOENT then Inr None else Inl e)
          | Inr (k, _) \<Rightarrow> Inr (Some k)) }"

definition digest_at :: "crypto \<Rightarrow> nat \<Rightarrow> string \<Rightarrow> string io" where
  "digest_at cr d n = andthen (sys (open_read d n)) (\<lambda>i. andthen (sys (fd_read i)) (\<lambda>s. done_with (sha cr s)))"

definition leaf_state :: "crypto \<Rightarrow> nat \<Rightarrow> string \<Rightarrow> tstate io" where
  "leaf_state cr d n = andthen (leaf_kind d n) (\<lambda>k.
     case k of None \<Rightarrow> done_with Absent
     | Some k \<Rightarrow> if k \<noteq> Reg then done_with (Unavailable NOT_REGULAR)
                 else andthen (digest_at cr d n) (\<lambda>h. done_with (Present h)))"

definition observe :: "crypto \<Rightarrow> string \<Rightarrow> (world, tstate) state" where
  "observe cr path = do {
     opened \<leftarrow> open_parent path;
     case opened of
       None \<Rightarrow> do {
         why \<leftarrow> path_problem path;
         ret (if startswith why MISSING_DIR then Absent else Unavailable why) }
     | Some (d, leaf) \<Rightarrow> do {
         r \<leftarrow> leaf_state cr d leaf;
         ret (case r of Inl e \<Rightarrow> Unavailable (error_full e leaf) | Inr s \<Rightarrow> s) } }"

section \<open>Compare and swap\<close>

definition TARGET_APPEARED :: string where
  "TARGET_APPEARED = ''conflict: target appeared since it was recorded; write not applied''"
definition WRITE_CONFLICT :: string where
  "WRITE_CONFLICT = ''conflict: target changed since it was recorded; the change was restored and the write not applied''"
definition FALLBACK_CONFLICT :: string where
  "FALLBACK_CONFLICT = ''conflict (fallback check): target changed since it was recorded''"

definition cas_fallback :: "crypto \<Rightarrow> nat \<Rightarrow> string \<Rightarrow> string \<Rightarrow> tstate \<Rightarrow> string option io" where
  \<comment> \<open>the clause \<open>except NotImplementedError\<close>\<close>
  "cas_fallback cr d tmp leaf expected = andthen (leaf_state cr d leaf) (\<lambda>current.
     if current \<noteq> expected
     then andthen (sys (unlink_at d tmp)) (\<lambda>_. done_with (Some FALLBACK_CONFLICT))
     else andthen (sys (rename_over d tmp d leaf)) (\<lambda>_. done_with None))"

definition cas_replace :: "crypto \<Rightarrow> nat \<Rightarrow> string \<Rightarrow> string \<Rightarrow> tstate option \<Rightarrow> string option io" where
  "cas_replace cr d tmp leaf expected =
     (case expected of
        Some Absent \<Rightarrow> do {
          r \<leftarrow> sys (rename_noreplace d tmp d leaf);
          case r of
            Inr _ \<Rightarrow> done_with None
          | Inl e \<Rightarrow> if e = EEXIST then andthen (sys (unlink_at d tmp)) (\<lambda>_. done_with (Some TARGET_APPEARED))
                     else if e = ENOTIMPL then cas_fallback cr d tmp leaf Absent
                     else raise e }
      | Some (Present dg) \<Rightarrow> do {
          r \<leftarrow> sys (rename_exchange d tmp leaf);
          case r of
            Inl e \<Rightarrow> if e = ENOTIMPL then cas_fallback cr d tmp leaf (Present dg) else raise e
          | Inr _ \<Rightarrow> andthen (digest_at cr d tmp) (\<lambda>h.
              if h \<noteq> dg
              then andthen (sys (rename_exchange d tmp leaf)) (\<lambda>_.
                   andthen (sys (unlink_at d tmp)) (\<lambda>_. done_with (Some WRITE_CONFLICT)))
              else andthen (sys (unlink_at d tmp)) (\<lambda>_. done_with None)) }
      | _ \<Rightarrow> andthen (sys (rename_over d tmp d leaf)) (\<lambda>_. done_with None))"

definition NOTHING_DELETED :: string where
  "NOTHING_DELETED = ''target absent or not a regular file; nothing deleted''"
definition DELETE_DISAPPEARED :: string where
  "DELETE_DISAPPEARED = ''conflict: target disappeared since it was recorded; nothing deleted''"
definition DELETE_FALLBACK :: string where
  "DELETE_FALLBACK = ''conflict (fallback check): target changed since it was recorded; nothing deleted''"
definition DELETE_CONFLICT :: string where
  "DELETE_CONFLICT = ''conflict: target changed since it was recorded; the change was restored and nothing deleted''"

definition delete_tmp :: "string \<Rightarrow> string \<Rightarrow> string" where
  "delete_tmp leaf uuid = ''.'' @ leaf @ ''.darm-tmp-del-'' @ uuid"

definition same_regular :: "crypto \<Rightarrow> nat \<Rightarrow> string \<Rightarrow> string \<Rightarrow> bool io" where
  \<comment> \<open>\<open>not (_leaf_kind(d, n) != S_IFREG or _digest_at(d, n) != dg)\<close>\<close>
  "same_regular cr d n dg = andthen (leaf_kind d n) (\<lambda>k.
     if k \<noteq> Some Reg then done_with False
     else andthen (digest_at cr d n) (\<lambda>h. done_with (h = dg)))"

definition cas_delete :: "crypto \<Rightarrow> string \<Rightarrow> nat \<Rightarrow> string \<Rightarrow> tstate option \<Rightarrow> string option io" where
  "cas_delete cr uuid d leaf expected =
     (case expected of
        Some (Present dg) \<Rightarrow> (let tmp = delete_tmp leaf uuid in do {
          r \<leftarrow> sys (rename_noreplace d leaf d tmp);
          case r of
            Inl e \<Rightarrow>
              if e = ENOENT then done_with (Some DELETE_DISAPPEARED)
              else if e = ENOTIMPL
              then andthen (leaf_state cr d leaf) (\<lambda>current.
                   if current \<noteq> Present dg then done_with (Some DELETE_FALLBACK)
                   else andthen (sys (unlink_at d leaf)) (\<lambda>_. done_with None))
              else raise e
          | Inr _ \<Rightarrow> andthen (same_regular cr d tmp dg) (\<lambda>same.
              if \<not> same
              then do {
                b \<leftarrow> sys (rename_noreplace d tmp d leaf);
                case b of
                  Inl e \<Rightarrow> if e = EEXIST
                           then done_with (Some (''conflict: target changed and its name was re-created; the displaced file is kept as '' @ tmp @ ''; nothing deleted''))
                           else raise e
                | Inr _ \<Rightarrow> done_with (Some DELETE_CONFLICT) }
              else andthen (sys (unlink_at d tmp)) (\<lambda>_. done_with None)) })
      | _ \<Rightarrow> done_with (Some NOTHING_DELETED))"

section \<open>Attributes\<close>

definition set_att :: "nat \<Rightarrow> string \<Rightarrow> string option \<Rightarrow> unit io" where
  "set_att d n v = andthen (sys (open_read d n)) (\<lambda>i.
     case v of
       None \<Rightarrow> do { _ \<leftarrow> sys (fd_removexattr i); done_with () }
     | Some s \<Rightarrow> sys (fd_setxattr i s))"

definition read_att :: "nat \<Rightarrow> string \<Rightarrow> (world, string option) state" where
  \<comment> \<open>open, read the attribute; \<open>None\<close> if either fails\<close>
  "read_att d n = do {
     r \<leftarrow> andthen (sys (open_read d n)) (\<lambda>i. sys (fd_getxattr i));
     ret (case r of Inl e \<Rightarrow> None | Inr v \<Rightarrow> Some v) }"

definition read_attestation :: "string \<Rightarrow> (world, string option) state" where
  "read_attestation path = do {
     opened \<leftarrow> open_parent path;
     case opened of None \<Rightarrow> ret None | Some (d, leaf) \<Rightarrow> read_att d leaf }"

section \<open>The rename protocol\<close>

type_synonym attest = "(ring \<times> string \<times> string) option"
  \<comment> \<open>the ring to sign with, the request and the target\<close>

definition RENAME_NO_SOURCE :: string where
  "RENAME_NO_SOURCE = ''source absent or not a regular file; nothing renamed''"
definition RENAME_NO_PRIVATE :: string where
  "RENAME_NO_PRIVATE = ''no private name recorded; nothing renamed''"
definition RENAME_DISAPPEARED :: string where
  "RENAME_DISAPPEARED = ''conflict: source disappeared since it was recorded; nothing renamed''"
definition RENAME_UNAVAILABLE :: string where
  "RENAME_UNAVAILABLE = ''renameat2 unavailable: rename is not supported without it; nothing renamed''"
definition RENAME_CHANGED :: string where
  "RENAME_CHANGED = ''conflict: source changed since it was recorded; the change was restored and nothing renamed''"
definition RENAME_EXISTS :: string where
  "RENAME_EXISTS = ''conflict: destination exists; the source was restored with its original attestation and nothing renamed''"

definition reattest :: "crypto \<Rightarrow> attest \<Rightarrow> nat \<Rightarrow> string \<Rightarrow> string \<Rightarrow> (world, string option) state" where
  \<comment> \<open>step 3; the result is the class of the exception, if any\<close>
  "reattest cr attest d n digest =
     (case attest of
        None \<Rightarrow> ret None
      | Some (r, rid, target) \<Rightarrow>
          (case sign cr r rid target digest of
             None \<Rightarrow> ret (Some ''PermissionError'')
           | Some raw \<Rightarrow> do {
               x \<leftarrow> set_att d n (Some raw);
               ret (case x of Inl e \<Rightarrow> Some (class_name e) | Inr _ \<Rightarrow> None) }))"

definition place :: "nat \<Rightarrow> string \<Rightarrow> nat \<Rightarrow> string \<Rightarrow> string \<Rightarrow> string option \<Rightarrow> string option io" where
  \<comment> \<open>step 4\<close>
  "place sfd sleaf dfd dleaf priv old_att = do {
     r \<leftarrow> sys (rename_noreplace sfd priv dfd dleaf);
     case r of
       Inl e \<Rightarrow>
         if e = EEXIST
         then andthen (sys (rename_noreplace sfd priv sfd sleaf)) (\<lambda>_.
              andthen (set_att sfd sleaf old_att) (\<lambda>_. done_with (Some RENAME_EXISTS)))
         else raise e
     | Inr _ \<Rightarrow> andthen (sys (fd_sync sfd)) (\<lambda>_. andthen (sys (fd_sync dfd)) (\<lambda>_. done_with None)) }"

definition rename_protocol ::
  "crypto \<Rightarrow> nat \<Rightarrow> string \<Rightarrow> nat \<Rightarrow> string \<Rightarrow> tstate option \<Rightarrow> attest \<Rightarrow> string option \<Rightarrow> string option \<Rightarrow>
   string option io" where
  "rename_protocol cr sfd sleaf dfd dleaf expected attest private_name old_att =
     (case (expected, private_name) of
        (Some (Present dg), None) \<Rightarrow> done_with (Some RENAME_NO_PRIVATE)
      | (Some (Present dg), Some priv) \<Rightarrow>
          (if priv = [] then done_with (Some RENAME_NO_PRIVATE)
           else do {
             r \<leftarrow> sys (rename_noreplace sfd sleaf sfd priv);
             case r of
               Inl e \<Rightarrow> if e = ENOENT then done_with (Some RENAME_DISAPPEARED)
                        else if e = ENOTIMPL then done_with (Some RENAME_UNAVAILABLE) else raise e
             | Inr _ \<Rightarrow> andthen (same_regular cr sfd priv dg) (\<lambda>same.
                 if \<not> same
                 then andthen (sys (rename_noreplace sfd priv sfd sleaf)) (\<lambda>_. done_with (Some RENAME_CHANGED))
                 else do {
                   failed \<leftarrow> reattest cr attest sfd priv dg;
                   case failed of
                     Some cls \<Rightarrow> andthen (sys (rename_noreplace sfd priv sfd sleaf)) (\<lambda>_.
                       done_with (Some (''re-attestation failed ('' @ cls @ ''): the source was restored and nothing renamed'')))
                   | None \<Rightarrow> place sfd sleaf dfd dleaf priv old_att }) })
      | _ \<Rightarrow> done_with (Some RENAME_NO_SOURCE))"

section \<open>Execution\<close>

definition MULTIPLE_NAMES :: string where
  "MULTIPLE_NAMES = ''the target has more than one name (a hard link); refused, because the policy covers this name and the file is reachable by others''"

definition failed_with :: "string \<Rightarrow> jobj" where "failed_with e = [(''error'', JStr e)]"

definition conflicted :: "string \<Rightarrow> jobj" where
  "conflicted e = [(''error'', JStr e), (''conflict'', JBool (startswith e ''conflict''))]"

definition aget :: "(string \<times> string) list \<Rightarrow> string \<Rightarrow> string" where
  \<comment> \<open>\<open>args.get(k, "")\<close>\<close>
  "aget args k = (case map_of args k of None \<Rightarrow> [] | Some v \<Rightarrow> v)"

definition exec_read :: "nat \<Rightarrow> string \<Rightarrow> jobj io" where
  "exec_read d leaf =
     andthen (sys (open_read d leaf)) (\<lambda>i.
     andthen (sys (fdopen i)) (\<lambda>_.
     andthen (sys (fstat i)) (\<lambda>n.
       if 1 < n then done_with (failed_with MULTIPLE_NAMES)
       else andthen (sys (fd_read i)) (\<lambda>s. do {
         a \<leftarrow> sys (fd_getxattr i);
         done_with [(''content'', JStr (universal_newlines s)),
                    (''_raw_attestation'', case a of Inl e \<Rightarrow> JNull | Inr v \<Rightarrow> JStr v)] }))))"

definition attest_new :: "crypto \<Rightarrow> attest \<Rightarrow> nat \<Rightarrow> string \<Rightarrow> (world, bool) state" where
  "attest_new cr attest i content =
     (case attest of
        None \<Rightarrow> ret False
      | Some (r, rid, target) \<Rightarrow>
          (case sign cr r rid target (sha cr content) of
             None \<Rightarrow> ret False
           | Some raw \<Rightarrow> do { x \<leftarrow> sys (fd_setxattr i raw); ret (case x of Inl e \<Rightarrow> False | Inr _ \<Rightarrow> True) }))"

definition write_tmp :: "string \<Rightarrow> string \<Rightarrow> string" where
  "write_tmp leaf uuid = ''.'' @ leaf @ ''.darm-tmp-'' @ uuid"

definition one_name :: "nat \<Rightarrow> string \<Rightarrow> bool io" where
  \<comment> \<open>the target does not exist or has one name\<close>
  "one_name d leaf = do {
     r \<leftarrow> sys (stat_at d leaf);
     ret (case r of
            Inl e \<Rightarrow> (if e = ENOENT then Inr True else Inl e)
          | Inr (_, n) \<Rightarrow> Inr (n \<le> 1)) }"

definition exec_write ::
  "crypto \<Rightarrow> string \<Rightarrow> nat \<Rightarrow> string \<Rightarrow> string \<Rightarrow> attest \<Rightarrow> tstate option \<Rightarrow> jobj io" where
  "exec_write cr uuid d leaf content attest expected =
     andthen (one_name d leaf) (\<lambda>one.
       if \<not> one then done_with (failed_with MULTIPLE_NAMES)
       else let tmp = write_tmp leaf uuid in
         andthen (sys (create_excl d tmp)) (\<lambda>i.
         andthen (sys (fd_write i content)) (\<lambda>_. do {
           attested \<leftarrow> attest_new cr attest i content;
           andthen (sys (fd_sync i)) (\<lambda>_.
           andthen (cas_replace cr d tmp leaf expected) (\<lambda>conflict.
             case conflict of
               Some e \<Rightarrow> done_with [(''error'', JStr e), (''conflict'', JBool True)]
             | None \<Rightarrow> andthen (sys (fd_sync d)) (\<lambda>_.
                 done_with [(''written'', JNum (int (length content))), (''attested'', JBool attested)]))) })))"

definition exec_rename ::
  "crypto \<Rightarrow> nat \<Rightarrow> string \<Rightarrow> (string \<times> string) list \<Rightarrow> tstate option \<Rightarrow> attest \<Rightarrow> string option \<Rightarrow> string option \<Rightarrow> jobj io" where
  "exec_rename cr d leaf args expected attest private_name old_att =
     (if map_of args ''destination'' = map_of args ''path''
      then done_with (failed_with ''source and destination are the same; nothing renamed'')
      else do {
        dopened \<leftarrow> open_parent (aget args ''destination'');
        case dopened of
          None \<Rightarrow> do { why \<leftarrow> path_problem (aget args ''destination'');
                       done_with (failed_with (''destination: '' @ why)) }
        | Some (dfd, dleaf) \<Rightarrow>
            andthen (leaf_kind dfd dleaf) (\<lambda>k.
              if k = Some Lnk then done_with (failed_with ''the destination is a symlink'')
              else andthen (rename_protocol cr d leaf dfd dleaf expected attest private_name old_att) (\<lambda>err.
                case err of
                  Some e \<Rightarrow> done_with (conflicted e)
                | None \<Rightarrow> done_with [(''renamed'', JBool True), (''attested'', JBool (attest \<noteq> None))])) })"

definition exec_delete :: "crypto \<Rightarrow> string \<Rightarrow> nat \<Rightarrow> string \<Rightarrow> tstate option \<Rightarrow> jobj io" where
  "exec_delete cr uuid d leaf expected =
     andthen (cas_delete cr uuid d leaf expected) (\<lambda>conflict.
       case conflict of
         Some e \<Rightarrow> done_with (conflicted e)
       | None \<Rightarrow> andthen (sys (fd_sync d)) (\<lambda>_. done_with [(''deleted'', JBool True)]))"

definition exec_list :: "nat \<Rightarrow> string \<Rightarrow> jobj io" where
  "exec_list d leaf =
     andthen (sys (open_dir d leaf)) (\<lambda>i.
     andthen (sys (list_names i)) (\<lambda>ns. done_with [(''entries'', JList (map JStr ns))]))"

definition exec_tool ::
  "crypto \<Rightarrow> string \<Rightarrow> string \<Rightarrow> nat \<Rightarrow> string \<Rightarrow> (string \<times> string) list \<Rightarrow> tstate option \<Rightarrow> attest \<Rightarrow>
   string option \<Rightarrow> string option \<Rightarrow> jobj io" where
  \<comment> \<open>the body of \<open>_execute\<close> once the parent directory is open\<close>
  "exec_tool cr uuid tool d leaf args expected attest private_name old_att =
     andthen (leaf_kind d leaf) (\<lambda>k.
       if k = Some Lnk then done_with (failed_with ''the target is a symlink'')
       else if tool = ''read_file'' then exec_read d leaf
       else if tool = ''write_file'' then exec_write cr uuid d leaf (aget args ''content'') attest expected
       else if tool = ''rename_file'' then exec_rename cr d leaf args expected attest private_name old_att
       else if tool = ''delete_file'' then exec_delete cr uuid d leaf expected
       else if tool = ''list_dir'' then exec_list d leaf
       else done_with (failed_with ''no implementation for tool''))"

definition execute ::
  "crypto \<Rightarrow> string \<Rightarrow> (string \<Rightarrow> jobj) \<Rightarrow> invocation \<Rightarrow> tstate option \<Rightarrow> attest \<Rightarrow> string option \<Rightarrow>
   string option \<Rightarrow> jobj io" where
  \<comment> \<open>\<open>_execute\<close>; \<open>get\<close> is the outcome of the governed GET of a URL\<close>
  "execute cr uuid get ivn expected attest private_name old_att =
     (let args = args_of ivn in
      if i_tool ivn = ''http_get'' then done_with (get (aget args ''url''))
      else do {
        opened \<leftarrow> open_parent (aget args ''path'');
        case opened of
          None \<Rightarrow> do { why \<leftarrow> path_problem (aget args ''path''); done_with (failed_with why) }
        | Some (d, leaf) \<Rightarrow> do {
            r \<leftarrow> exec_tool cr uuid (i_tool ivn) d leaf args expected attest private_name old_att;
            case r of
              Inr resp \<Rightarrow> done_with resp
            | Inl e \<Rightarrow> if e = ENOTIMPL then raise e else done_with (failed_with (error_line e)) } })"

section \<open>Recovery of an interrupted rename\<close>

definition jstate :: "json \<Rightarrow> string option" where
  \<comment> \<open>the digest of a recorded state, if it is \<open>present\<close>\<close>
  "jstate v = (case v of JList [JStr k, JStr d] \<Rightarrow> (if k = ''present'' then Some d else None) | _ \<Rightarrow> None)"

definition roll_back :: "crypto \<Rightarrow> nat \<Rightarrow> string \<Rightarrow> string \<Rightarrow> json \<Rightarrow> string option \<Rightarrow> unit io" where
  "roll_back cr sfd sleaf priv before old_att =
     andthen (case jstate before of None \<Rightarrow> done_with False | Some dg \<Rightarrow> same_regular cr sfd priv dg) (\<lambda>ours.
     andthen (sys (rename_noreplace sfd priv sfd sleaf)) (\<lambda>_.
       if ours then set_att sfd sleaf old_att else done_with ()))"

definition restore_att :: "crypto \<Rightarrow> nat \<Rightarrow> string \<Rightarrow> nat \<Rightarrow> string \<Rightarrow> json \<Rightarrow> string option \<Rightarrow> unit io" where
  "restore_att cr sfd sleaf dfd src before old_att =
     (case jstate before of
        None \<Rightarrow> done_with ()
      | Some dg \<Rightarrow> andthen (same_regular cr sfd sleaf dg) (\<lambda>ours.
          if \<not> ours then done_with ()
          else do {
            cur \<leftarrow> read_attestation src;
            andthen (if cur \<noteq> old_att then set_att sfd sleaf old_att else done_with ()) (\<lambda>_.
            andthen (sys (fd_sync sfd)) (\<lambda>_. sys (fd_sync dfd))) }))"

definition recover_act ::
  "crypto \<Rightarrow> keys option \<Rightarrow> jobj \<Rightarrow> nat \<Rightarrow> string \<Rightarrow> nat \<Rightarrow> string \<Rightarrow> string \<Rightarrow> string \<Rightarrow> string \<Rightarrow> unit io" where
  \<comment> \<open>the \<open>try\<close> block of \<open>_recover_rename\<close>\<close>
  "recover_act cr ks e sfd sleaf dfd dleaf src dst priv =
     (let before = jget e ''before_state''; old_att = jstr_of (jget e ''source_attestation'') in
      andthen (leaf_kind sfd priv) (\<lambda>k.
        if k = None then restore_att cr sfd sleaf dfd src before old_att
        else do {
          raw \<leftarrow> read_att sfd priv;
          (let a = check_attestation cr ks raw;
               reattested = (case a of None \<Rightarrow> False
                 | Some d \<Rightarrow> jget d ''target'' = JStr dst \<and> jget d ''rid'' = jget e ''request_id'')
           in andthen (if reattested then leaf_kind dfd dleaf else done_with (Some Reg)) (\<lambda>dk.
                if reattested \<and> dk = None then sys (rename_noreplace sfd priv dfd dleaf)
                else roll_back cr sfd sleaf priv before old_att)) }))"

definition classify_rename :: "jobj \<Rightarrow> tstate \<Rightarrow> tstate \<Rightarrow> string" where
  "classify_rename e src_now dst_now =
     (if truthy (jget e ''intended_state'') \<and> tstate_json dst_now = jget e ''intended_state'' \<and> src_now = Absent
      then ''confirmedSuccess''
      else if truthy (jget e ''before_state'') \<and> tstate_json src_now = jget e ''before_state'' \<and>
              tstate_json dst_now = jget e ''destination_before''
      then ''confirmedFailure'' else ''unresolved'')"

definition recover_rename :: "crypto \<Rightarrow> keys option \<Rightarrow> jobj \<Rightarrow> string io" where
  \<comment> \<open>of a record as the broker writes it: names are texts or missing, states are pairs\<close>
  "recover_rename cr ks e =
     (let str = (\<lambda>k. case jget e k of JStr s \<Rightarrow> s | _ \<Rightarrow> []);
          src = str ''source''; dst = str ''target''; priv = str ''private'' in do {
        sopen \<leftarrow> open_parent src;
        dopen \<leftarrow> open_parent dst;
        case (sopen, dopen) of
          (Some (sfd, sleaf), Some (dfd, dleaf)) \<Rightarrow>
            if priv = [] then done_with ''unresolved''
            else do {
              r \<leftarrow> recover_act cr ks e sfd sleaf dfd dleaf src dst priv;
              case r of
                Inl x \<Rightarrow> if x = ENOTIMPL then raise x else done_with ''unresolved''
              | Inr _ \<Rightarrow> do {
                  src_now \<leftarrow> observe cr src;
                  dst_now \<leftarrow> observe cr dst;
                  done_with (classify_rename e src_now dst_now) } }
        | _ \<Rightarrow> done_with ''unresolved'' })"

section \<open>Intended states and reconciliation\<close>

definition intended_state :: "crypto \<Rightarrow> invocation \<Rightarrow> tstate option" where
  "intended_state cr ivn =
     (let args = args_of ivn in
      if i_tool ivn = ''delete_file'' then (if map_of args ''path'' = None then None else Some Absent)
      else if i_tool ivn \<noteq> ''write_file'' then None
      else (case (map_of args ''path'', map_of args ''content'') of
              (Some p, Some c) \<Rightarrow> Some (Present (sha cr c)) | _ \<Rightarrow> None))"

definition reconcile :: "tstate option \<Rightarrow> tstate option \<Rightarrow> tstate \<Rightarrow> string" where
  "reconcile before intended observed =
     (case observed of
        Unavailable e \<Rightarrow> ''unresolved''
      | _ \<Rightarrow>
          if intended = Some observed then ''confirmedSuccess''
          else if before \<noteq> None \<and> before \<noteq> intended \<and> before = Some observed then ''confirmedFailure''
          else ''unresolved'')"

end
