(* ===== verification/Cas.thy ===== *)
theory Cas
  imports Effects
begin

text \<open>
  The contract of the two compare-and-swap operations of the broker and what holds of them when a
  foreign actor is faster. The locale states the contract once: an operation names the state it
  expects, applies exactly in that state, and otherwise leaves everything but its private file
  as it was. \<open>cas_replace\<close> and \<open>cas_delete\<close> are shown to keep it as long as the target is a
  regular file or absent; the last property shows that \<open>cas_replace\<close> does not keep it when the
  target has become something else.
\<close>

section \<open>The contract\<close>

locale compare_and_swap =
  fixes run :: "'e \<Rightarrow> 's \<Rightarrow> bool \<times> 's"      \<comment> \<open>try; the result tells whether it applied\<close>
    and state :: "'s \<Rightarrow> 'e option"        \<comment> \<open>what an operation can be asked to expect\<close>
    and applied :: "'s \<Rightarrow> 's"
    and view :: "'s \<Rightarrow> 'v"               \<comment> \<open>everything but the private file\<close>
    and ok :: "'s \<Rightarrow> bool"
  assumes applies: "ok s \<Longrightarrow> state s = Some e \<Longrightarrow> run e s = (True, applied s)"
    and refuses: "ok s \<Longrightarrow> state s \<noteq> Some e \<Longrightarrow> \<not> fst (run e s) \<and> view (snd (run e s)) = view s"
begin

lemma applies_iff: "ok s \<Longrightarrow> fst (run e s) \<longleftrightarrow> state s = Some e"
  using applies refuses by (cases "state s = Some e") auto

text \<open>Whatever a foreign actor does between the observation and the operation, the operation is
  decided by the state it finds: it applies to the recorded state or not at all.\<close>

lemma race:
  assumes "ok (g s)" and "state s = Some e"
  shows "if state (g s) = state s then run e (g s) = (True, applied (g s))
         else \<not> fst (run e (g s)) \<and> view (snd (run e (g s))) = view (g s)"
  using assms applies [of "g s" e] refuses [of "g s" e] by auto

lemma applied_only_from_recorded:
  "ok s \<Longrightarrow> run e s = (True, s') \<Longrightarrow> state s = Some e \<and> s' = applied s"
  using applies refuses by (metis fst_conv prod.inject)

end

section \<open>Replacement\<close>

definition leaf_now :: "crypto \<Rightarrow> nat \<Rightarrow> string \<Rightarrow> fs \<Rightarrow> tstate" where
  \<comment> \<open>the state of a name, as \<open>leaf_state\<close> finds it\<close>
  "leaf_now cr d n f =
     (case at f d n of
        None \<Rightarrow> Absent
      | Some i \<Rightarrow> if ikind (inodes f i) = Reg then Present (sha cr (contents (inodes f i))) else Unavailable NOT_REGULAR)"

lemma run_leaf_kind [simp]:
  "run_state (leaf_kind d n) (quiet f) = (Inr (kind_at f d n), quiet f)"
  by (simp add: leaf_kind_def run_bind stat_at_def kind_at_def split: option.split)

lemma run_digest_at [simp]:
  "kind_at f d n = Some Reg \<Longrightarrow>
   run_state (digest_at cr d n) (quiet f) = (Inr (sha cr (contents (inodes f (the (at f d n))))), quiet f)"
  by (auto simp: digest_at_def run_andthen open_read_def fd_read_def kind_at_def split: option.splits)

lemma run_leaf_state [simp]: "run_state (leaf_state cr d n) (quiet f) = (Inr (leaf_now cr d n f), quiet f)"
proof (cases "kind_at f d n")
  case None
  then show ?thesis by (simp add: leaf_state_def run_andthen leaf_now_def) (simp add: kind_at_def)
next
  case (Some k)
  then show ?thesis
    by (cases "k = Reg") (auto simp: leaf_state_def run_andthen leaf_now_def kind_at_def split: option.splits)
qed

lemma run_same_regular [simp]:
  "run_state (same_regular cr d n dg) (quiet f) = (Inr (leaf_now cr d n f = Present dg), quiet f)"
proof (cases "kind_at f d n = Some Reg")
  case True
  then show ?thesis
    by (auto simp: same_regular_def run_andthen leaf_now_def kind_at_def)
next
  case False
  then show ?thesis
    by (auto simp: same_regular_def run_andthen leaf_now_def kind_at_def split: option.splits)
qed

type_synonym digest = "string option"
  \<comment> \<open>an expected state: a content's digest, or \<open>None\<close> for no file\<close>

fun expect :: "digest \<Rightarrow> tstate" where
  "expect None = Absent"
| "expect (Some d) = Present d"

definition run_io :: "string option io \<Rightarrow> fs \<Rightarrow> bool \<times> fs" where
  "run_io m f = (case run_state m (quiet f) of (r, w) \<Rightarrow> (r = Inr None, w_fs w))"

definition everything_but :: "nat \<Rightarrow> string \<Rightarrow> fs \<Rightarrow>
    (nat \<Rightarrow> string \<Rightarrow> nat option) \<times> (nat \<Rightarrow> kind \<times> string \<times> string option)" where
  \<comment> \<open>all names but one, and what all files are\<close>
  "everything_but d n f =
     ((\<lambda>d' n'. if d' = d \<and> n' = n then None else at f d' n'),
      (\<lambda>i. (ikind (inodes f i), contents (inodes f i), xattr (inodes f i))))"

definition target_digest :: "crypto \<Rightarrow> nat \<Rightarrow> string \<Rightarrow> fs \<Rightarrow> digest option" where
  "target_digest cr d n f =
     (case leaf_now cr d n f of Absent \<Rightarrow> Some None | Present h \<Rightarrow> Some (Some h) | Unavailable e \<Rightarrow> None)"

definition replaced :: "nat \<Rightarrow> string \<Rightarrow> string \<Rightarrow> fs \<Rightarrow> fs" where
  \<comment> \<open>the private file has taken the target's name\<close>
  "replaced d tmp leaf f =
     (let g = set_entry d leaf (the (at f d tmp)) (drop_entry d tmp f)
      in case at f d leaf of None \<Rightarrow> g | Some j \<Rightarrow> upd_inode j one_link_less g)"

definition can_replace :: "nat \<Rightarrow> string \<Rightarrow> string \<Rightarrow> fs \<Rightarrow> bool" where
  "can_replace d tmp leaf f \<longleftrightarrow>
     has_renameat2 f \<and> tmp \<noteq> leaf \<and> kind_at f d tmp = Some Reg \<and>
     (kind_at f d leaf = None \<or> kind_at f d leaf = Some Reg)"

abbreviation unlinked :: "nat \<Rightarrow> nat \<Rightarrow> string \<Rightarrow> fs \<Rightarrow> fs" where
  "unlinked i d n f \<equiv> upd_inode i one_link_less (drop_entry d n f)"

lemma everything_but_unlinked [simp]: "everything_but d n (unlinked i d n f) = everything_but d n f"
  by (auto simp: everything_but_def fun_eq_iff)

lemma swap_twice:
  assumes "at f d a = Some i" and "at f d b = Some j" and "a \<noteq> b"
  shows "set_entry d a i (set_entry d b j (set_entry d a j (set_entry d b i f))) = f"
  by (rule fs_eqI) (use assms in \<open>auto\<close>)

lemma cas_replace_absent:
  assumes "can_replace d tmp leaf f"
  shows "run_state (cas_replace cr d tmp leaf (Some Absent)) (quiet f) =
    (if at f d leaf = None then (Inr None, quiet (replaced d tmp leaf f))
     else (Inr (Some TARGET_APPEARED), quiet (unlinked (the (at f d tmp)) d tmp f)))"
  using assms
  by (auto simp: cas_replace_def run_bind run_andthen rename_noreplace_def can_replace_def kind_at_def
      replaced_def unlink_at_def Let_def split: option.splits)

lemma cas_replace_present:
  assumes "can_replace d tmp leaf f" and "at f d leaf = Some j" and "at f d tmp = Some i"
  shows "run_state (cas_replace cr d tmp leaf (Some (Present dg))) (quiet f) =
    (if sha cr (contents (inodes f j)) = dg then (Inr None, quiet (replaced d tmp leaf f))
     else (Inr (Some WRITE_CONFLICT), quiet (unlinked i d tmp f)))"
proof -
  let ?x = "set_entry d tmp j (set_entry d leaf i f)"
  have ne: "tmp \<noteq> leaf" "has_renameat2 f" "ikind (inodes f j) = Reg" "ikind (inodes f i) = Reg"
    using assms by (auto simp: can_replace_def kind_at_def)
  have x: "rename_exchange d tmp leaf f = (Inr (), ?x)"
    using assms ne by (simp add: rename_exchange_def)
  have undo: "rename_exchange d tmp leaf ?x = (Inr (), f)"
    using assms ne swap_twice [of f d tmp i leaf j] by (simp add: rename_exchange_def)
  have k: "kind_at ?x d tmp = Some Reg" using ne by (simp add: kind_at_def)
  have fin: "upd_inode j one_link_less (drop_entry d tmp ?x) = replaced d tmp leaf f"
    by (rule fs_eqI) (use assms ne in \<open>auto simp: replaced_def Let_def\<close>)
  show ?thesis
    using assms ne k fin
    by (simp add: cas_replace_def run_bind run_andthen x undo unlink_at_def)
qed

lemma cas_replace_gone:
  assumes "can_replace d tmp leaf f" and "at f d leaf = None"
  shows "run_state (cas_replace cr d tmp leaf (Some (Present dg))) (quiet f) = (Inl ENOENT, quiet f)"
  using assms by (auto simp: cas_replace_def run_bind rename_exchange_def can_replace_def split: option.splits)

interpretation replace: compare_and_swap
  "\<lambda>e. run_io (cas_replace cr d tmp leaf (Some (expect e)))" "target_digest cr d leaf"
  "replaced d tmp leaf" "everything_but d tmp" "can_replace d tmp leaf" for cr d tmp leaf
proof
  fix f e
  assume ok: "can_replace d tmp leaf f"
  then obtain i where i: "at f d tmp = Some i" by (auto simp: can_replace_def kind_at_def)
  show "target_digest cr d leaf f = Some e \<Longrightarrow>
        run_io (cas_replace cr d tmp leaf (Some (expect e))) f = (True, replaced d tmp leaf f)"
    using ok i cas_replace_absent [OF ok] cas_replace_present [OF ok _ i]
    by (auto simp: target_digest_def leaf_now_def run_io_def split: option.splits if_splits)
  show "target_digest cr d leaf f \<noteq> Some e \<Longrightarrow>
        \<not> fst (run_io (cas_replace cr d tmp leaf (Some (expect e))) f) \<and>
        everything_but d tmp (snd (run_io (cas_replace cr d tmp leaf (Some (expect e))) f)) = everything_but d tmp f"
  proof (cases "at f d leaf")
    case None
    moreover assume "target_digest cr d leaf f \<noteq> Some e"
    ultimately obtain dg where "e = Some dg" by (cases e) (auto simp: target_digest_def leaf_now_def)
    then show ?thesis using cas_replace_gone [OF ok None] by (simp add: run_io_def)
  next
    case (Some j)
    moreover assume "target_digest cr d leaf f \<noteq> Some e"
    ultimately show ?thesis
      using ok cas_replace_absent [OF ok] cas_replace_present [OF ok Some i] i
      by (cases e) (auto simp: run_io_def target_digest_def leaf_now_def can_replace_def kind_at_def
          simp del: entry_simps)
  qed
qed

section \<open>Deletion\<close>

lemma delete_tmp_neq [simp]: "delete_tmp leaf uuid \<noteq> leaf" "leaf \<noteq> delete_tmp leaf uuid"
proof -
  have "length (delete_tmp leaf uuid) \<noteq> length leaf" by (simp add: delete_tmp_def)
  then show "delete_tmp leaf uuid \<noteq> leaf" "leaf \<noteq> delete_tmp leaf uuid" by auto
qed

definition present_digest :: "crypto \<Rightarrow> nat \<Rightarrow> string \<Rightarrow> fs \<Rightarrow> string option" where
  "present_digest cr d n f = (case leaf_now cr d n f of Present h \<Rightarrow> Some h | _ \<Rightarrow> None)"

definition deleted :: "nat \<Rightarrow> string \<Rightarrow> fs \<Rightarrow> fs" where
  "deleted d leaf f = unlinked (the (at f d leaf)) d leaf f"

definition can_delete :: "string \<Rightarrow> nat \<Rightarrow> string \<Rightarrow> fs \<Rightarrow> bool" where
  "can_delete uuid d leaf f \<longleftrightarrow> has_renameat2 f \<and> at f d (delete_tmp leaf uuid) = None"

lemma leaf_now_moved:
  "a \<noteq> b \<Longrightarrow> at f d b = Some i \<Longrightarrow>
   leaf_now cr d a (set_entry d a i (drop_entry d b f)) = leaf_now cr d b f"
  by (simp add: leaf_now_def)

lemma cas_delete_run:
  assumes "can_delete uuid d leaf f"
  shows "run_state (cas_delete cr uuid d leaf (Some (Present dg))) (quiet f) =
    (case at f d leaf of
       None \<Rightarrow> (Inr (Some DELETE_DISAPPEARED), quiet f)
     | Some i \<Rightarrow> if leaf_now cr d leaf f = Present dg then (Inr None, quiet (deleted d leaf f))
                else (Inr (Some DELETE_CONFLICT), quiet f))"
proof (cases "at f d leaf")
  case None
  then show ?thesis
    using assms by (simp add: cas_delete_def run_bind rename_noreplace_def can_delete_def Let_def)
next
  case (Some i)
  let ?t = "delete_tmp leaf uuid"
  let ?x = "set_entry d ?t i (drop_entry d leaf f)"
  have t: "has_renameat2 f" "at f d ?t = None" using assms by (simp_all add: can_delete_def)
  have x: "rename_noreplace d leaf d ?t f = (Inr (), ?x)" using Some t by (simp add: rename_noreplace_def)
  have "set_entry d leaf i (drop_entry d ?t ?x) = f" by (rule fs_eqI) (use Some t in auto)
  then have undo: "rename_noreplace d ?t d leaf ?x = (Inr (), f)" using t by (simp add: rename_noreplace_def)
  have l: "leaf_now cr d ?t ?x = leaf_now cr d leaf f" by (rule leaf_now_moved) (use Some in auto)
  have "upd_inode i one_link_less (drop_entry d ?t ?x) = deleted d leaf f"
    by (rule fs_eqI) (use Some t in \<open>auto simp: deleted_def\<close>)
  then have gone: "leaf_now cr d leaf f = Present dg \<Longrightarrow> unlink_at d ?t ?x = (Inr (), deleted d leaf f)"
    using Some by (auto simp: unlink_at_def leaf_now_def split: if_splits)
  show ?thesis
    using Some gone by (simp add: cas_delete_def run_bind run_andthen x undo l Let_def)
qed

interpretation delete: compare_and_swap
  "\<lambda>dg. run_io (cas_delete cr uuid d leaf (Some (Present dg)))" "present_digest cr d leaf"
  "deleted d leaf" "everything_but d (delete_tmp leaf uuid)" "can_delete uuid d leaf" for cr uuid d leaf
proof
  fix f dg
  assume ok: "can_delete uuid d leaf f"
  show "present_digest cr d leaf f = Some dg \<Longrightarrow>
        run_io (cas_delete cr uuid d leaf (Some (Present dg))) f = (True, deleted d leaf f)"
    using cas_delete_run [OF ok, of cr dg]
    by (auto simp: run_io_def present_digest_def leaf_now_def split: option.splits if_splits)
  show "present_digest cr d leaf f \<noteq> Some dg \<Longrightarrow>
        \<not> fst (run_io (cas_delete cr uuid d leaf (Some (Present dg))) f) \<and>
        everything_but d (delete_tmp leaf uuid) (snd (run_io (cas_delete cr uuid d leaf (Some (Present dg))) f)) =
        everything_but d (delete_tmp leaf uuid) f"
    using cas_delete_run [OF ok, of cr dg]
    by (auto simp: run_io_def present_digest_def leaf_now_def split: option.splits if_splits)
qed

section \<open>Properties\<close>

definition demo_inode :: "string \<Rightarrow> inode" where
  "demo_inode c = \<lparr>ikind = Reg, contents = c, xattr = None, nlink = 1\<rparr>"

definition demo_fs :: fs where
  \<comment> \<open>a workspace with the target \<open>a\<close> and the private file \<open>t\<close>\<close>
  "demo_fs = \<lparr>dirs = (\<lambda>_. fmempty)(0 := fmupd ''a'' 1 (fmupd ''t'' 2 fmempty)),
     inodes = (\<lambda>_. demo_inode [])(1 := demo_inode ''old'', 2 := demo_inode ''new''),
     fresh = 3, has_xattrs = True, has_renameat2 = True\<rparr>"

lemma demo_fs_simps [simp]:
  "at demo_fs 0 ''a'' = Some 1" "at demo_fs 0 ''t'' = Some 2" "has_renameat2 demo_fs" "has_xattrs demo_fs"
  "inodes demo_fs (Suc 0) = demo_inode ''old''" "inodes demo_fs 2 = demo_inode ''new''"
  "ikind (demo_inode c) = Reg" "contents (demo_inode c) = c" "nlink (demo_inode c) = 1"
  by (simp_all add: demo_fs_def at_def demo_inode_def)

text \<open>C4: On a file system with \<open>renameat2\<close>, a write is a compare-and-swap: whatever a foreign actor
  does between the moment the target was recorded and the start of the swap, as long as it leaves
  the private file (of another name) a regular file and the target is then a regular file or
  absent, the write is applied exactly when the target is in the recorded state (and then the
  private file has taken its name), and otherwise every other name and the content of every file is
  as the foreign actor left it. Nobody acts during the swap itself: the window in its undoing is
  \<open>change_during_undo_is_lost\<close>.\<close>

theorem write_applies_only_to_recorded_state:
  assumes "can_replace d tmp leaf (interfere f)" and "target_digest cr d leaf f = Some e"
  shows "if target_digest cr d leaf (interfere f) = target_digest cr d leaf f
         then run_io (cas_replace cr d tmp leaf (Some (expect e))) (interfere f) =
              (True, replaced d tmp leaf (interfere f))
         else \<not> fst (run_io (cas_replace cr d tmp leaf (Some (expect e))) (interfere f)) \<and>
              everything_but d tmp (snd (run_io (cas_replace cr d tmp leaf (Some (expect e))) (interfere f))) =
              everything_but d tmp (interfere f)"
  using assms by (rule replace.race)

theorem write_applies_only_to_recorded_state_witness:
  "\<not> fst (run_io (cas_replace demo_crypto 0 ''t'' ''a'' (Some (expect (Some ''old''))))
            (upd_inode 5 (\<lambda>_. demo_inode ''foreign'') (set_entry 0 ''a'' 5 demo_fs))) \<and>
   at (snd (run_io (cas_replace demo_crypto 0 ''t'' ''a'' (Some (expect (Some ''old''))))
            (upd_inode 5 (\<lambda>_. demo_inode ''foreign'') (set_entry 0 ''a'' 5 demo_fs)))) 0 ''a'' = Some 5 \<and>
   at (snd (run_io (cas_replace demo_crypto 0 ''t'' ''a'' (Some (expect (Some ''old''))))
            (upd_inode 5 (\<lambda>_. demo_inode ''old'') (set_entry 0 ''a'' 5 demo_fs)))) 0 ''a'' = Some 2"
proof -
  let ?i = "\<lambda>c f. upd_inode 5 (\<lambda>_. demo_inode c) (set_entry 0 ''a'' 5 f)"
  have ok: "can_replace 0 ''t'' ''a'' (?i c demo_fs)" for c by (simp add: can_replace_def kind_at_def)
  have old: "target_digest demo_crypto 0 ''a'' demo_fs = Some (Some ''old'')"
    by (simp add: target_digest_def leaf_now_def demo_crypto_def)
  have now: "target_digest demo_crypto 0 ''a'' (?i c demo_fs) = Some (Some c)" for c
    by (simp add: target_digest_def leaf_now_def demo_crypto_def)
  have kept: "at g 0 ''a'' = Some 5" if "everything_but 0 ''t'' g = everything_but 0 ''t'' (?i c demo_fs)" for g c
  proof -
    have "fst (everything_but 0 ''t'' g) 0 ''a'' = fst (everything_but 0 ''t'' (?i c demo_fs)) 0 ''a''" by (simp only: that)
    then show ?thesis by (simp add: everything_but_def)
  qed
  from write_applies_only_to_recorded_state [where interfere = "?i ''foreign''", OF ok old]
    write_applies_only_to_recorded_state [where interfere = "?i ''old''", OF ok old] kept
  show ?thesis by (simp add: now old replaced_def Let_def)
qed

text \<open>A deletion is a compare-and-swap under the same interference: the file is removed exactly
  when it is still the regular file with the recorded content, and otherwise (changed, replaced
  by a link or a directory, or gone) every other name and the content of every file is as the
  foreign actor left it.\<close>

theorem delete_applies_only_to_recorded_state:
  assumes "can_delete uuid d leaf (interfere f)" and "present_digest cr d leaf f = Some dg"
  shows "if present_digest cr d leaf (interfere f) = present_digest cr d leaf f
         then run_io (cas_delete cr uuid d leaf (Some (Present dg))) (interfere f) =
              (True, deleted d leaf (interfere f))
         else \<not> fst (run_io (cas_delete cr uuid d leaf (Some (Present dg))) (interfere f)) \<and>
              everything_but d (delete_tmp leaf uuid)
                (snd (run_io (cas_delete cr uuid d leaf (Some (Present dg))) (interfere f))) =
              everything_but d (delete_tmp leaf uuid) (interfere f)"
  using assms by (rule delete.race)

theorem delete_applies_only_to_recorded_state_witness:
  "\<not> fst (run_io (cas_delete demo_crypto ''u'' 0 ''a'' (Some (Present ''old''))) (set_entry 0 ''a'' 2 demo_fs))"
proof -
  have ok: "can_delete ''u'' 0 ''a'' (set_entry 0 ''a'' 2 demo_fs)"
    by (simp add: can_delete_def delete_tmp_def) (simp add: demo_fs_def at_def)
  have "present_digest demo_crypto 0 ''a'' demo_fs = Some ''old''"
    by (simp add: present_digest_def leaf_now_def demo_crypto_def)
  from delete_applies_only_to_recorded_state [where interfere = "set_entry 0 ''a'' 2", OF ok this]
  show ?thesis by (simp add: present_digest_def leaf_now_def demo_crypto_def)
qed

text \<open>The exchange is not undone when what it displaced is no file that can be read: if the target
  has become a symbolic link since it was recorded, the replacement ends with the error \<open>ELOOP\<close>
  (reported as a failed write) while the new content stands under the target's name and the
  foreign link under the private one.\<close>

theorem write_over_link_is_not_undone:
  assumes "has_renameat2 f" and "tmp \<noteq> leaf" and "at f d tmp = Some i" and "at f d leaf = Some j"
    and "ikind (inodes f j) = Lnk"
  shows "\<exists>f'. run_state (cas_replace cr d tmp leaf (Some (Present dg))) (quiet f) = (Inl ELOOP, quiet f') \<and>
              at f' d leaf = Some i \<and> at f' d tmp = Some j"
  using assms
  by (simp add: cas_replace_def run_bind run_andthen rename_exchange_def digest_at_def open_read_def)

theorem write_over_link_is_not_undone_witness:
  "\<exists>f'. run_state (cas_replace demo_crypto 0 ''t'' ''a'' (Some (Present ''old'')))
          (quiet (upd_inode 1 (\<lambda>n. n\<lparr>ikind := Lnk\<rparr>) demo_fs)) = (Inl ELOOP, quiet f') \<and>
        at f' 0 ''a'' = Some 2 \<and> at f' 0 ''t'' = Some 1"
  by (rule write_over_link_is_not_undone) simp_all

text \<open>Undoing a conflicting write is itself a race: a file that a foreign actor puts under the
  target's name between the exchange and its undoing ends under the private name and is unlinked.
  The operation reports that the foreign change was restored; the first one was, the second is
  lost.\<close>

theorem change_during_undo_is_lost:
  assumes "has_renameat2 f" and "tmp \<noteq> leaf" and "at f d tmp = Some i" and "at f d leaf = Some j"
    and "ikind (inodes f j) = Reg" and "sha cr (contents (inodes f j)) \<noteq> dg" and "ikind (inodes f k) = Reg"
  shows "\<exists>f'. run_state (cas_replace cr d tmp leaf (Some (Present dg))) (raced [id, id, id, set_entry d leaf k] f) =
              (Inr (Some WRITE_CONFLICT), quiet f') \<and>
              at f' d leaf = Some j \<and> at f' d tmp = None \<and> nlink (inodes f' k) = nlink (inodes f k) - 1"
  using assms
  by (simp add: cas_replace_def run_bind run_andthen rename_exchange_def digest_at_def open_read_def
      fd_read_def unlink_at_def)

theorem change_during_undo_is_lost_witness:
  "\<exists>f'. run_state (cas_replace demo_crypto 0 ''t'' ''a'' (Some (Present ''other'')))
          (raced [id, id, id, set_entry 0 ''a'' 5] demo_fs) = (Inr (Some WRITE_CONFLICT), quiet f') \<and>
        at f' 0 ''a'' = Some 1 \<and> at f' 0 ''t'' = None \<and> nlink (inodes f' 5) = nlink (inodes demo_fs 5) - 1"
  by (rule change_during_undo_is_lost) (simp_all add: demo_crypto_def demo_fs_def demo_inode_def at_def)

end
