(* ===== verification/Rename.thy ===== *)
theory Rename
  imports Cas
begin

text \<open>
  Resolution of paths in a quiet file system, and the rename protocol with its recovery. The
  machine may stop after any system call of the protocol; the last property shows that the
  recovery the next start runs brings the file system to one of two states, the one before the
  rename or the one after it, and reports which.
\<close>

section \<open>Resolution\<close>

fun walk :: "fs \<Rightarrow> nat \<Rightarrow> string list \<Rightarrow> nat option" where
  \<comment> \<open>the directory a list of names leads to, through real directories only\<close>
  "walk f d [] = Some d"
| "walk f d (c # cs) =
     (case at f d c of
        None \<Rightarrow> None | Some i \<Rightarrow> if ikind (inodes f i) = Dir then walk f i cs else None)"

definition resolve :: "fs \<Rightarrow> string \<Rightarrow> (nat \<times> string) option" where
  "resolve f path =
     (case path_parts path of
        None \<Rightarrow> None | Some parts \<Rightarrow> map_option (\<lambda>d. (d, last parts)) (walk f ROOT (butlast parts)))"

lemma run_walk_dirs:
  "\<exists>r. run_state (walk_dirs d cs) (quiet f) = (r, quiet f) \<and>
       (case r of Inl e \<Rightarrow> walk f d cs = None | Inr i \<Rightarrow> walk f d cs = Some i)"
proof (induction cs arbitrary: d)
  case (Cons c cs)
  show ?case
  proof (cases "at f d c")
    case (Some i)
    with Cons.IH [of i] show ?thesis by (auto simp: run_andthen open_dir_def split: sum.splits)
  qed (simp add: run_andthen open_dir_def)
qed simp

lemma run_open_parent [simp]: "run_state (open_parent path) (quiet f) = (resolve f path, quiet f)"
proof (cases "path_parts path")
  case (Some parts)
  obtain r where "run_state (walk_dirs ROOT (butlast parts)) (quiet f) = (r, quiet f)"
    "case r of Inl e \<Rightarrow> walk f ROOT (butlast parts) = None | Inr i \<Rightarrow> walk f ROOT (butlast parts) = Some i"
    using run_walk_dirs by blast
  then show ?thesis by (cases r) (simp_all add: open_parent_def resolve_def Some run_bind)
qed (simp add: open_parent_def resolve_def)

lemma run_observe:
  "resolve f path = Some (d, leaf) \<Longrightarrow> run_state (observe cr path) (quiet f) = (leaf_now cr d leaf f, quiet f)"
  by (simp add: observe_def run_bind)

definition same_dirs :: "fs \<Rightarrow> fs \<Rightarrow> bool" where
  \<comment> \<open>the same directories under the same names\<close>
  "same_dirs f g \<longleftrightarrow> (\<forall>d n i. (at f d n = Some i \<and> ikind (inodes f i) = Dir) \<longleftrightarrow>
                             (at g d n = Some i \<and> ikind (inodes g i) = Dir))"

lemma walk_Some:
  "walk f d (c # cs) = Some x \<longleftrightarrow> (\<exists>i. (at f d c = Some i \<and> ikind (inodes f i) = Dir) \<and> walk f i cs = Some x)"
  by (auto split: option.split)

lemma walk_same_dirs: "same_dirs f g \<Longrightarrow> walk f d cs = Some x \<longleftrightarrow> walk g d cs = Some x"
proof (induction cs arbitrary: d)
  case (Cons c cs)
  then show ?case unfolding walk_Some same_dirs_def by blast
qed simp

lemma resolve_same_dirs: "same_dirs f g \<Longrightarrow> resolve f path = resolve g path"
proof -
  assume "same_dirs f g"
  then have "walk f d cs = walk g d cs" for d cs
    using walk_same_dirs by (metis option.exhaust)
  then show ?thesis by (simp add: resolve_def split: option.split)
qed

lemma same_dirs_refl [simp]: "same_dirs f f" by (simp add: same_dirs_def)

lemma same_dirs_trans: "same_dirs f g \<Longrightarrow> same_dirs g h \<Longrightarrow> same_dirs f h"
  by (simp add: same_dirs_def)

lemma same_dirs_set:
  "ikind (inodes f i) \<noteq> Dir \<Longrightarrow> (at f d n = None \<or> kind_at f d n \<noteq> Some Dir) \<Longrightarrow> same_dirs f (set_entry d n i f)"
  by (auto simp: same_dirs_def kind_at_def)

lemma same_dirs_drop: "kind_at f d n \<noteq> Some Dir \<Longrightarrow> same_dirs f (drop_entry d n f)"
  by (auto simp: same_dirs_def kind_at_def)

lemma same_dirs_upd: "ikind (g (inodes f i)) = ikind (inodes f i) \<Longrightarrow> same_dirs f (upd_inode i g f)"
  by (auto simp: same_dirs_def)

lemma resolve_leaf: "resolve f path = Some (d, leaf) \<Longrightarrow> \<exists>parts. path_parts path = Some parts \<and> leaf = last parts"
  by (auto simp: resolve_def split: option.splits)

section \<open>The stages of a rename\<close>

definition attested_with :: "string \<Rightarrow> inode \<Rightarrow> inode" where
  "attested_with s n = n\<lparr>xattr := Some s\<rparr>"

record renaming =
  rn_sdir :: nat  rn_sleaf :: string  rn_ddir :: nat  rn_dleaf :: string
  rn_priv :: string
  rn_file :: nat                   \<comment> \<open>the inode renamed\<close>
  rn_digest :: string
  rn_old :: "string option"        \<comment> \<open>its attestation before\<close>
  rn_new :: string                 \<comment> \<open>its attestation under this request\<close>

definition claimed :: "renaming \<Rightarrow> fs \<Rightarrow> fs" where
  "claimed rn f = set_entry (rn_sdir rn) (rn_priv rn) (rn_file rn) (drop_entry (rn_sdir rn) (rn_sleaf rn) f)"

definition reattested :: "renaming \<Rightarrow> fs \<Rightarrow> fs" where
  "reattested rn f = upd_inode (rn_file rn) (attested_with (rn_new rn)) f"

definition placed :: "renaming \<Rightarrow> fs \<Rightarrow> fs" where
  \<comment> \<open>the state after the whole rename\<close>
  "placed rn f = set_entry (rn_ddir rn) (rn_dleaf rn) (rn_file rn)
     (drop_entry (rn_sdir rn) (rn_sleaf rn) (reattested rn f))"

definition renames :: "crypto \<Rightarrow> renaming \<Rightarrow> fs \<Rightarrow> bool" where
  \<comment> \<open>what holds when the prepared record of the rename has been written\<close>
  "renames cr rn f \<longleftrightarrow>
     has_renameat2 f \<and> has_xattrs f \<and>
     at f (rn_sdir rn) (rn_sleaf rn) = Some (rn_file rn) \<and> ikind (inodes f (rn_file rn)) = Reg \<and>
     sha cr (contents (inodes f (rn_file rn))) = rn_digest rn \<and> xattr (inodes f (rn_file rn)) = rn_old rn \<and>
     rn_priv rn \<noteq> [] \<and> at f (rn_sdir rn) (rn_priv rn) = None \<and>
     (rn_ddir rn, rn_dleaf rn) \<noteq> (rn_sdir rn, rn_sleaf rn) \<and>
     (rn_ddir rn, rn_dleaf rn) \<noteq> (rn_sdir rn, rn_priv rn)"


lemma renames_priv: "renames cr rn f \<Longrightarrow> rn_priv rn \<noteq> rn_sleaf rn"
  by (auto simp: renames_def)

definition dest_free :: "renaming \<Rightarrow> fs \<Rightarrow> bool" where
  "dest_free rn f \<longleftrightarrow> at f (rn_ddir rn) (rn_dleaf rn) = None"

lemma reattested_simps [simp]:
  "at (reattested rn f) d n = at f d n" "has_renameat2 (reattested rn f) = has_renameat2 f"
  "has_xattrs (reattested rn f) = has_xattrs f" "fresh (reattested rn f) = fresh f"
  "inodes (reattested rn f) = (inodes f)(rn_file rn := attested_with (rn_new rn) (inodes f (rn_file rn)))"
  by (simp_all add: reattested_def)

lemma attested_with_simps [simp]:
  "ikind (attested_with s n) = ikind n" "contents (attested_with s n) = contents n"
  "xattr (attested_with s n) = Some s" "nlink (attested_with s n) = nlink n"
  by (simp_all add: attested_with_def)

abbreviation protocol :: "crypto \<Rightarrow> renaming \<Rightarrow> attest \<Rightarrow> string option io" where
  "protocol cr rn attest \<equiv> rename_protocol cr (rn_sdir rn) (rn_sleaf rn) (rn_ddir rn) (rn_dleaf rn)
     (Some (Present (rn_digest rn))) attest (Some (rn_priv rn)) (rn_old rn)"

lemma claim_call:
  "renames cr rn f \<Longrightarrow>
   rename_noreplace (rn_sdir rn) (rn_sleaf rn) (rn_sdir rn) (rn_priv rn) f = (Inr (), claimed rn f)"
  by (simp add: renames_def rename_noreplace_def claimed_def)

lemma claimed_at:
  assumes "renames cr rn f"
  shows "at (claimed rn f) (rn_sdir rn) (rn_priv rn) = Some (rn_file rn)"
    and "at (claimed rn f) (rn_sdir rn) (rn_sleaf rn) = None"
    and "at (claimed rn f) (rn_ddir rn) (rn_dleaf rn) = at f (rn_ddir rn) (rn_dleaf rn)"
    and "inodes (claimed rn f) = inodes f" "has_xattrs (claimed rn f)" "has_renameat2 (claimed rn f)"
  using assms by (auto simp: claimed_def renames_def)

lemma unclaim_call:
  assumes "renames cr rn f"
  shows "rename_noreplace (rn_sdir rn) (rn_priv rn) (rn_sdir rn) (rn_sleaf rn) (claimed rn f) = (Inr (), f)"
    and "rename_noreplace (rn_sdir rn) (rn_priv rn) (rn_sdir rn) (rn_sleaf rn) (reattested rn (claimed rn f)) =
         (Inr (), reattested rn f)"
proof -
  note c = claimed_at [OF assms]
  have back_to: "set_entry (rn_sdir rn) (rn_sleaf rn) (rn_file rn) (drop_entry (rn_sdir rn) (rn_priv rn) (claimed rn f)) = f"
    by (rule fs_eqI) (use assms renames_priv [OF assms] in \<open>auto simp: claimed_def renames_def\<close>)
  then show "rename_noreplace (rn_sdir rn) (rn_priv rn) (rn_sdir rn) (rn_sleaf rn) (claimed rn f) = (Inr (), f)"
    using c by (simp add: rename_noreplace_def)
  have "set_entry (rn_sdir rn) (rn_sleaf rn) (rn_file rn)
      (drop_entry (rn_sdir rn) (rn_priv rn) (reattested rn (claimed rn f))) = reattested rn f"
    by (rule fs_eqI) (use assms renames_priv [OF assms] c in \<open>auto simp: claimed_def renames_def\<close>)
  then show "rename_noreplace (rn_sdir rn) (rn_priv rn) (rn_sdir rn) (rn_sleaf rn) (reattested rn (claimed rn f)) =
         (Inr (), reattested rn f)"
    using c by (simp add: rename_noreplace_def)
qed

lemma place_call:
  assumes "renames cr rn f"
  shows "rename_noreplace (rn_sdir rn) (rn_priv rn) (rn_ddir rn) (rn_dleaf rn) (reattested rn (claimed rn f)) =
    (if dest_free rn f then (Inr (), placed rn f) else (Inl EEXIST, reattested rn (claimed rn f)))"
proof -
  have "set_entry (rn_ddir rn) (rn_dleaf rn) (rn_file rn)
      (drop_entry (rn_sdir rn) (rn_priv rn) (reattested rn (claimed rn f))) = placed rn f" if "dest_free rn f"
    by (rule fs_eqI) (use assms renames_priv [OF assms] that in \<open>auto simp: claimed_def placed_def renames_def dest_free_def\<close>)
  then show ?thesis
    using claimed_at [OF assms] by (auto simp: rename_noreplace_def dest_free_def split: option.split)
qed

definition old_att_of :: "string option \<Rightarrow> inode \<Rightarrow> inode" where
  "old_att_of v n = n\<lparr>xattr := v\<rparr>"

lemma restore_old:
  assumes "renames cr rn f"
  shows "upd_inode (rn_file rn) (\<lambda>n. n\<lparr>xattr := rn_old rn\<rparr>) (reattested rn f) = f"
    and "upd_inode (rn_file rn) (\<lambda>n. n\<lparr>xattr := rn_old rn\<rparr>) f = f"
proof -
  have "(inodes f (rn_file rn))\<lparr>xattr := rn_old rn\<rparr> = inodes f (rn_file rn)"
    using assms by (auto simp: renames_def)
  then show "upd_inode (rn_file rn) (\<lambda>n. n\<lparr>xattr := rn_old rn\<rparr>) f = f"
    by (intro fs_eqI) auto
  from \<open>(inodes f (rn_file rn))\<lparr>xattr := rn_old rn\<rparr> = _\<close>
  show "upd_inode (rn_file rn) (\<lambda>n. n\<lparr>xattr := rn_old rn\<rparr>) (reattested rn f) = f"
    by (intro fs_eqI) (auto simp: attested_with_def)
qed

text \<open>Wherever the machine stops, the file system is in one of five states.\<close>

definition stages :: "renaming \<Rightarrow> fs \<Rightarrow> fs set" where
  "stages rn f = {f, claimed rn f, reattested rn (claimed rn f)} \<union>
                 (if dest_free rn f then {placed rn f} else {reattested rn f})"

lemma stopped_calls [simp]:
  "run_state (same_regular cr d n dg) (stopping 0 f) = (Inl ESTOPPED, stopping 0 f)"
  "run_state (set_att d n v) (stopping 0 f) = (Inl ESTOPPED, stopping 0 f)"
  by (simp_all add: same_regular_def leaf_kind_def set_att_def run_andthen run_bind)

lemma stopping_same_regular:
  "\<exists>k. run_state (same_regular cr d n dg) (stopping m f) = (Inr (leaf_now cr d n f = Present dg), stopping k f) \<or>
       run_state (same_regular cr d n dg) (stopping m f) = (Inl ESTOPPED, stopping 0 f)"
proof (cases "kind_at f d n = Some Reg")
  case True
  then obtain i where "at f d n = Some i" "ikind (inodes f i) = Reg" by (auto simp: kind_at_def)
  then show ?thesis
    by (auto simp: same_regular_def leaf_kind_def digest_at_def fs_simps run_sys_stopping_if stat_at_def
        open_read_def fd_read_def leaf_now_def)
next
  case False
  then show ?thesis
    by (cases "at f d n")
      (auto simp: same_regular_def leaf_kind_def fs_simps run_sys_stopping_if stat_at_def leaf_now_def kind_at_def)
qed

lemma stopping_set_att:
  assumes "at f d n = Some i" and "ikind (inodes f i) = Reg" and "has_xattrs f"
  shows "\<exists>k r. run_state (set_att d n v) (stopping m f) = (r, stopping k (upd_inode i (\<lambda>a. a\<lparr>xattr := v\<rparr>) f)) \<and> r = Inr () \<or>
         run_state (set_att d n v) (stopping m f) = (r, stopping 0 f)"
proof -
  have same: "upd_inode i (\<lambda>a. a\<lparr>xattr := None\<rparr>) f = f" if "xattr (inodes f i) = None"
  proof -
    have "(inodes f i)\<lparr>xattr := None\<rparr> = inodes f i" using that by (cases "inodes f i") simp
    then show ?thesis by (intro fs_eqI) auto
  qed
  show ?thesis
  proof (cases v)
    case None
    show ?thesis
      using assms same unfolding set_att_def run_andthen run_bind None
      by (cases "xattr (inodes f i)")
        (auto simp: run_sys_stopping_if open_read_def fd_removexattr_def run_bind)
  next
    case (Some s)
    show ?thesis
      using assms unfolding set_att_def run_andthen Some
      by (auto simp: run_sys_stopping_if open_read_def fd_setxattr_def)
  qed
qed

lemma upd_attested: "upd_inode i (\<lambda>a. a\<lparr>xattr := Some s\<rparr>) f = upd_inode i (attested_with s) f"
  by (rule fs_eqI) (auto simp: attested_with_def)

lemma stopping_place:
  assumes "renames cr rn f"
  shows "w_fs (snd (run_state (place (rn_sdir rn) (rn_sleaf rn) (rn_ddir rn) (rn_dleaf rn) (rn_priv rn) (rn_old rn))
           (stopping m (reattested rn (claimed rn f))))) \<in> stages rn f"
proof (cases m)
  case 0
  then show ?thesis by (simp add: place_def run_bind stages_def)
next
  case (Suc k)
  show ?thesis
  proof (cases "dest_free rn f")
    case True
    then show ?thesis
      using place_call [OF assms]
      by (simp add: place_def run_bind run_andthen Suc run_sys_stopping_if fd_sync_def stages_def)
  next
    case False
    let ?r = "reattested rn f"
    have set: "\<exists>k2 r. run_state (set_att (rn_sdir rn) (rn_sleaf rn) (rn_old rn)) (stopping j ?r) = (r, stopping k2 f) \<or>
        run_state (set_att (rn_sdir rn) (rn_sleaf rn) (rn_old rn)) (stopping j ?r) = (r, stopping 0 ?r)" for j
      using stopping_set_att [of ?r "rn_sdir rn" "rn_sleaf rn" "rn_file rn" "rn_old rn" j] assms restore_old(1) [OF assms]
      by (auto simp: renames_def)
    show ?thesis
    proof (cases k)
      case 0
      then show ?thesis using False place_call [OF assms]
        by (simp add: place_def run_bind run_andthen Suc stages_def)
    next
      case (Suc j)
      obtain k2 r where "run_state (set_att (rn_sdir rn) (rn_sleaf rn) (rn_old rn)) (stopping j ?r) = (r, stopping k2 f) \<or>
        run_state (set_att (rn_sdir rn) (rn_sleaf rn) (rn_old rn)) (stopping j ?r) = (r, stopping 0 ?r)"
        using set by blast
      then show ?thesis
        using False place_call [OF assms] unclaim_call(2) [OF assms] \<open>m = Suc k\<close> Suc
        by (cases r) (auto simp: place_def run_bind run_andthen stages_def)
    qed
  qed
qed

lemma stopped_in_stage:
  assumes "renames cr rn f" and "sign cr r rid target (rn_digest rn) = Some (rn_new rn)"
  shows "w_fs (snd (run_state (protocol cr rn (Some (r, rid, target))) (stopping n f))) \<in> stages rn f"
proof (cases n)
  case 0
  then show ?thesis using assms(1)
    by (simp add: rename_protocol_def run_bind stages_def renames_def)
next
  case (Suc m)
  let ?c = "claimed rn f"
  let ?t = "stopping m ?c"
  let ?p = "place (rn_sdir rn) (rn_sleaf rn) (rn_ddir rn) (rn_dleaf rn) (rn_priv rn) (rn_old rn)"
  note c = claimed_at [OF assms(1)]
  have l: "leaf_now cr (rn_sdir rn) (rn_priv rn) ?c = Present (rn_digest rn)"
    using assms(1) c by (simp add: leaf_now_def renames_def)
  have set: "\<exists>k x. run_state (set_att (rn_sdir rn) (rn_priv rn) (Some (rn_new rn))) (stopping j ?c) =
        (x, stopping k (reattested rn ?c)) \<and> x = Inr () \<or>
      run_state (set_att (rn_sdir rn) (rn_priv rn) (Some (rn_new rn))) (stopping j ?c) = (x, stopping 0 ?c)" for j
    using stopping_set_att [of ?c "rn_sdir rn" "rn_priv rn" "rn_file rn" "Some (rn_new rn)" j] assms(1) c
    by (simp add: renames_def upd_attested reattested_def)
  have prot: "run_state (protocol cr rn (Some (r, rid, target))) (stopping n f) =
      run_state (andthen (same_regular cr (rn_sdir rn) (rn_priv rn) (rn_digest rn)) (\<lambda>same.
        if \<not> same
        then andthen (sys (rename_noreplace (rn_sdir rn) (rn_priv rn) (rn_sdir rn) (rn_sleaf rn))) (\<lambda>_. done_with (Some RENAME_CHANGED))
        else do {
          failed \<leftarrow> reattest cr (Some (r, rid, target)) (rn_sdir rn) (rn_priv rn) (rn_digest rn);
          case failed of
            Some cls \<Rightarrow> andthen (sys (rename_noreplace (rn_sdir rn) (rn_priv rn) (rn_sdir rn) (rn_sleaf rn))) (\<lambda>_.
              done_with (Some (''re-attestation failed ('' @ cls @ ''): the source was restored and nothing renamed'')))
          | None \<Rightarrow> ?p })) ?t"
    using assms(1) claim_call [OF assms(1)] by (simp add: rename_protocol_def run_bind Suc renames_def)
  obtain k where k: "run_state (same_regular cr (rn_sdir rn) (rn_priv rn) (rn_digest rn)) ?t = (Inr True, stopping k ?c) \<or>
      run_state (same_regular cr (rn_sdir rn) (rn_priv rn) (rn_digest rn)) ?t = (Inl ESTOPPED, stopping 0 ?c)"
    using stopping_same_regular [of cr "rn_sdir rn" "rn_priv rn" "rn_digest rn" m ?c] l by auto
  obtain k2 x where x: "run_state (set_att (rn_sdir rn) (rn_priv rn) (Some (rn_new rn))) (stopping k ?c) =
        (x, stopping k2 (reattested rn ?c)) \<and> x = Inr () \<or>
      run_state (set_att (rn_sdir rn) (rn_priv rn) (Some (rn_new rn))) (stopping k ?c) = (x, stopping 0 ?c)"
    using set by blast
  have pl: "w_fs (snd (run_state ?p (stopping j (reattested rn ?c)))) \<in> stages rn f" for j
    by (rule stopping_place [OF assms(1)])
  have pl0: "w_fs (snd (run_state ?p (stopping 0 ?c))) \<in> stages rn f"
    by (simp add: place_def run_bind stages_def)
  have back0: "?c \<in> stages rn f" by (simp add: stages_def)
  from k show ?thesis
  proof
    assume "run_state (same_regular cr (rn_sdir rn) (rn_priv rn) (rn_digest rn)) ?t = (Inl ESTOPPED, stopping 0 ?c)"
    then show ?thesis unfolding prot by (simp add: run_andthen back0)
  next
    assume s: "run_state (same_regular cr (rn_sdir rn) (rn_priv rn) (rn_digest rn)) ?t = (Inr True, stopping k ?c)"
    show ?thesis
      unfolding prot using s x pl pl0 back0 assms(2)
      by (cases x) (auto simp: run_andthen run_bind reattest_def)
  qed
qed

section \<open>Recovery\<close>

definition records :: "crypto \<Rightarrow> renaming \<Rightarrow> fs \<Rightarrow> string \<Rightarrow> string \<Rightarrow> string \<Rightarrow> jobj \<Rightarrow> bool" where
  \<comment> \<open>the prepared record of the rename of \<open>src\<close> to \<open>dst\<close> under the request \<open>rid\<close>\<close>
  "records cr rn f src dst rid e \<longleftrightarrow>
     resolve f src = Some (rn_sdir rn, rn_sleaf rn) \<and> resolve f dst = Some (rn_ddir rn, rn_dleaf rn) \<and>
     jget e ''source'' = JStr src \<and> jget e ''target'' = JStr dst \<and> jget e ''private'' = JStr (rn_priv rn) \<and>
     jget e ''request_id'' = JStr rid \<and> jget e ''source_attestation'' = opt_str (rn_old rn) \<and>
     jget e ''before_state'' = tstate_json (Present (rn_digest rn)) \<and>
     jget e ''intended_state'' = tstate_json (Present (rn_digest rn)) \<and>
     jget e ''destination_before'' = tstate_json (leaf_now cr (rn_ddir rn) (rn_dleaf rn) f)"

definition names_rename :: "crypto \<Rightarrow> keys \<Rightarrow> string option \<Rightarrow> string \<Rightarrow> string \<Rightarrow> bool" where
  \<comment> \<open>an attestation of this request for the destination\<close>
  "names_rename cr k raw dst rid \<longleftrightarrow>
     (case check_attestation cr (Some k) raw of
        None \<Rightarrow> False | Some a \<Rightarrow> jget a ''target'' = JStr dst \<and> jget a ''rid'' = JStr rid)"

lemma jstate_tstate [simp]:
  "jstate (tstate_json (Present d)) = Some d" "jstate (JList [JStr ''present'', JStr d]) = Some d"
  by (simp_all add: jstate_def)

lemma tstate_json_inj [simp]: "tstate_json a = tstate_json b \<longleftrightarrow> a = b"
  by (cases a; cases b) auto

lemma truthy_tstate [simp]: "truthy (tstate_json s)" by (cases s) simp_all

lemma jstr_of_opt [simp]: "jstr_of (opt_str s) = s" by (cases s) (simp_all add: jstr_of_def)

lemma run_read_att [simp]:
  "at f d n = Some i \<Longrightarrow> ikind (inodes f i) = Reg \<Longrightarrow> has_xattrs f \<Longrightarrow>
   run_state (read_att d n) (quiet f) = (xattr (inodes f i), quiet f)"
  by (cases "xattr (inodes f i)") (simp_all add: read_att_def fs_simps open_read_def fd_getxattr_def)

lemma run_set_att [simp]:
  assumes "at f d n = Some i" and "ikind (inodes f i) = Reg" and "has_xattrs f"
  shows "run_state (set_att d n v) (quiet f) = (Inr (), quiet (upd_inode i (\<lambda>a. a\<lparr>xattr := v\<rparr>) f))"
proof (cases v)
  case None
  show ?thesis
  proof (cases "xattr (inodes f i)")
    case None
    then have "(inodes f i)\<lparr>xattr := None\<rparr> = inodes f i" by (cases "inodes f i") simp
    then have "upd_inode i (\<lambda>a. a\<lparr>xattr := None\<rparr>) f = f" by (intro fs_eqI) auto
    then show ?thesis using assms \<open>v = None\<close> None
      by (simp add: set_att_def fs_simps open_read_def fd_removexattr_def)
  qed (use assms None in \<open>simp add: set_att_def fs_simps open_read_def fd_removexattr_def\<close>)
qed (use assms in \<open>simp add: set_att_def fs_simps open_read_def fd_setxattr_def\<close>)

lemma same_dirs_stages:
  assumes "renames cr rn f" and "g \<in> stages rn f"
  shows "same_dirs f g"
  using assms
  by (auto simp: stages_def same_dirs_def claimed_def placed_def renames_def dest_free_def split: if_splits)

definition rename_outcome :: "renaming \<Rightarrow> fs \<Rightarrow> string \<Rightarrow> fs \<Rightarrow> bool" where
  \<comment> \<open>all or nothing, truthfully reported\<close>
  "rename_outcome rn f verdict g \<longleftrightarrow>
     verdict = ''confirmedFailure'' \<and> g = f \<or>
     verdict = ''confirmedSuccess'' \<and> dest_free rn f \<and> g = placed rn f"

lemma recover_reduce:
  assumes "records cr rn f src dst rid e" and "rn_priv rn \<noteq> []" and "same_dirs f g" and "same_dirs f h"
    and "run_state (recover_act cr (Some k) e (rn_sdir rn) (rn_sleaf rn) (rn_ddir rn) (rn_dleaf rn) src dst (rn_priv rn))
           (quiet g) = (Inr (), quiet h)"
  shows "run_state (recover_rename cr (Some k) e) (quiet g) =
         (Inr (classify_rename e (leaf_now cr (rn_sdir rn) (rn_sleaf rn) h) (leaf_now cr (rn_ddir rn) (rn_dleaf rn) h)), quiet h)"
proof -
  have r: "resolve g src = Some (rn_sdir rn, rn_sleaf rn)" "resolve g dst = Some (rn_ddir rn, rn_dleaf rn)"
    "resolve h src = Some (rn_sdir rn, rn_sleaf rn)" "resolve h dst = Some (rn_ddir rn, rn_dleaf rn)"
    using assms(1) resolve_same_dirs [OF assms(3)] resolve_same_dirs [OF assms(4)] by (simp_all add: records_def)
  have j: "jget e ''source'' = JStr src" "jget e ''target'' = JStr dst" "jget e ''private'' = JStr (rn_priv rn)"
    using assms(1) by (simp_all add: records_def)
  show ?thesis
    by (simp add: recover_rename_def Let_def j run_bind r assms(2,5) run_observe)
qed

lemma classify_back:
  assumes "renames cr rn f" and "records cr rn f src dst rid e"
  shows "classify_rename e (leaf_now cr (rn_sdir rn) (rn_sleaf rn) f) (leaf_now cr (rn_ddir rn) (rn_dleaf rn) f) = ''confirmedFailure''"
  using assms by (auto simp: classify_rename_def records_def renames_def leaf_now_def)

lemma classify_done:
  assumes "renames cr rn f" and "records cr rn f src dst rid e"
  shows "classify_rename e (leaf_now cr (rn_sdir rn) (rn_sleaf rn) (placed rn f))
           (leaf_now cr (rn_ddir rn) (rn_dleaf rn) (placed rn f)) = ''confirmedSuccess''"
proof -
  have "leaf_now cr (rn_sdir rn) (rn_sleaf rn) (placed rn f) = Absent"
    "leaf_now cr (rn_ddir rn) (rn_dleaf rn) (placed rn f) = Present (rn_digest rn)"
    using assms(1) by (auto simp: leaf_now_def placed_def renames_def)
  then show ?thesis using assms(2) by (simp add: classify_rename_def records_def)
qed

lemma recover_unclaimed:
  assumes "renames cr rn f" and "records cr rn f src dst rid e" and "g = f \<or> g = reattested rn f"
  shows "run_state (recover_act cr (Some k) e (rn_sdir rn) (rn_sleaf rn) (rn_ddir rn) (rn_dleaf rn) src dst (rn_priv rn))
           (quiet g) = (Inr (), quiet f)"
proof -
  have g: "at g (rn_sdir rn) (rn_sleaf rn) = Some (rn_file rn)" "ikind (inodes g (rn_file rn)) = Reg"
    "has_xattrs g" "at g (rn_sdir rn) (rn_priv rn) = None"
    "leaf_now cr (rn_sdir rn) (rn_sleaf rn) g = Present (rn_digest rn)"
    using assms(1,3) by (auto simp: renames_def leaf_now_def)
  have "same_dirs f g" using assms(3) by (auto simp: same_dirs_def split: if_splits)
  then have r: "resolve g src = Some (rn_sdir rn, rn_sleaf rn)"
    using assms(2) resolve_same_dirs by (simp add: records_def)
  have s: "upd_inode (rn_file rn) (\<lambda>a. a\<lparr>xattr := rn_old rn\<rparr>) g = f"
    using restore_old [OF assms(1)] assms(3) by auto
  have eq: "xattr (inodes g (rn_file rn)) = rn_old rn \<Longrightarrow> g = f"
    using assms(3) restore_old(2) [OF assms(1)] upd_attested [of "rn_file rn" "rn_new rn" f]
    by (auto simp: reattested_def)
  show ?thesis
    using assms(2) g r s eq
    by (auto simp: recover_act_def restore_att_def records_def Let_def fs_simps kind_at_def read_attestation_def fd_sync_def)
qed

lemma recover_roll_back:
  assumes "renames cr rn f" and "g = f \<or> g = reattested rn f"
    and "c = claimed rn f \<and> g = f \<or> c = reattested rn (claimed rn f) \<and> g = reattested rn f"
  shows "run_state (roll_back cr (rn_sdir rn) (rn_sleaf rn) (rn_priv rn) (tstate_json (Present (rn_digest rn))) (rn_old rn))
           (quiet c) = (Inr (), quiet f)"
proof -
  have "leaf_now cr (rn_sdir rn) (rn_priv rn) c = Present (rn_digest rn)"
    using assms claimed_at [OF assms(1)] by (auto simp: leaf_now_def renames_def)
  moreover have "rename_noreplace (rn_sdir rn) (rn_priv rn) (rn_sdir rn) (rn_sleaf rn) c = (Inr (), g)"
    using assms(3) unclaim_call [OF assms(1)] by auto
  moreover have "at g (rn_sdir rn) (rn_sleaf rn) = Some (rn_file rn)" "ikind (inodes g (rn_file rn)) = Reg" "has_xattrs g"
    using assms(1,2) by (auto simp: renames_def)
  moreover have "upd_inode (rn_file rn) (\<lambda>a. a\<lparr>xattr := rn_old rn\<rparr>) g = f"
    using restore_old [OF assms(1)] assms(2) by auto
  ultimately show ?thesis by (simp add: roll_back_def fs_simps del: tstate_json.simps)
qed

lemma recover_claimed:
  assumes "renames cr rn f" and "records cr rn f src dst rid e" and "\<not> names_rename cr k (rn_old rn) dst rid"
  shows "run_state (recover_act cr (Some k) e (rn_sdir rn) (rn_sleaf rn) (rn_ddir rn) (rn_dleaf rn) src dst (rn_priv rn))
           (quiet (claimed rn f)) = (Inr (), quiet f)"
proof -
  let ?c = "claimed rn f"
  note c = claimed_at [OF assms(1)]
  have reg: "ikind (inodes ?c (rn_file rn)) = Reg" "xattr (inodes ?c (rn_file rn)) = rn_old rn"
    using assms(1) c(4) by (simp_all add: renames_def)
  have k: "kind_at ?c (rn_sdir rn) (rn_priv rn) = Some Reg" using reg c by (simp add: kind_at_def)
  have j: "jget e ''request_id'' = JStr rid" "jget e ''source_attestation'' = opt_str (rn_old rn)"
    "jget e ''before_state'' = tstate_json (Present (rn_digest rn))"
    using assms(2) by (simp_all add: records_def)
  have n: "\<not> (case check_attestation cr (Some k) (rn_old rn) of None \<Rightarrow> False
              | Some d \<Rightarrow> jget d ''target'' = JStr dst \<and> jget d ''rid'' = jget e ''request_id'')"
    using assms(3) unfolding names_rename_def j(1) .
  have "run_state (roll_back cr (rn_sdir rn) (rn_sleaf rn) (rn_priv rn) (tstate_json (Present (rn_digest rn))) (rn_old rn))
           (quiet ?c) = (Inr (), quiet f)"
    by (rule recover_roll_back [OF assms(1), of f]) simp_all
  then show ?thesis
    using k n run_read_att [OF c(1) reg(1) c(5)] reg(2)
    by (simp add: recover_act_def Let_def fs_simps j del: tstate_json.simps)
qed

lemma recover_reattested:
  assumes "renames cr rn f" and "records cr rn f src dst rid e" and "names_rename cr k (Some (rn_new rn)) dst rid"
  shows "run_state (recover_act cr (Some k) e (rn_sdir rn) (rn_sleaf rn) (rn_ddir rn) (rn_dleaf rn) src dst (rn_priv rn))
           (quiet (reattested rn (claimed rn f))) = (Inr (), quiet (if dest_free rn f then placed rn f else f))"
proof -
  let ?c = "reattested rn (claimed rn f)"
  note c = claimed_at [OF assms(1)]
  have reg: "ikind (inodes ?c (rn_file rn)) = Reg" "xattr (inodes ?c (rn_file rn)) = Some (rn_new rn)"
    "at ?c (rn_sdir rn) (rn_priv rn) = Some (rn_file rn)" "has_xattrs ?c"
    using assms(1) c by (simp_all add: renames_def)
  have k: "kind_at ?c (rn_sdir rn) (rn_priv rn) = Some Reg" using reg by (simp add: kind_at_def)
  have d: "kind_at ?c (rn_ddir rn) (rn_dleaf rn) = None \<longleftrightarrow> dest_free rn f"
    using c(3) by (simp add: kind_at_def dest_free_def)
  have j: "jget e ''request_id'' = JStr rid" "jget e ''source_attestation'' = opt_str (rn_old rn)"
    "jget e ''before_state'' = tstate_json (Present (rn_digest rn))"
    using assms(2) by (simp_all add: records_def)
  obtain a where a: "check_attestation cr (Some k) (Some (rn_new rn)) = Some a"
    "jget a ''target'' = JStr dst" "jget a ''rid'' = JStr rid"
    using assms(3) by (auto simp: names_rename_def split: option.splits)
  have "run_state (roll_back cr (rn_sdir rn) (rn_sleaf rn) (rn_priv rn) (tstate_json (Present (rn_digest rn))) (rn_old rn))
           (quiet ?c) = (Inr (), quiet f)"
    by (rule recover_roll_back [OF assms(1), of "reattested rn f"]) simp_all
  then show ?thesis
    using k d a run_read_att [OF reg(3,1,4)] reg(2) place_call [OF assms(1)]
    by (auto simp: recover_act_def Let_def fs_simps j simp del: tstate_json.simps)
qed

lemma recover_placed:
  assumes "renames cr rn f" and "records cr rn f src dst rid e"
  shows "run_state (recover_act cr (Some k) e (rn_sdir rn) (rn_sleaf rn) (rn_ddir rn) (rn_dleaf rn) src dst (rn_priv rn))
           (quiet (placed rn f)) = (Inr (), quiet (placed rn f))"
proof -
  have "at (placed rn f) (rn_sdir rn) (rn_sleaf rn) = None" "at (placed rn f) (rn_sdir rn) (rn_priv rn) = None"
    using assms(1) renames_priv [OF assms(1)] by (auto simp: placed_def renames_def)
  then show ?thesis
    using assms(2)
    by (simp add: recover_act_def restore_att_def records_def Let_def fs_simps kind_at_def leaf_now_def
        del: tstate_json.simps)
qed

lemma recovered_stage:
  assumes "renames cr rn f" and "records cr rn f src dst rid e" and "g \<in> stages rn f"
    and "\<not> names_rename cr k (rn_old rn) dst rid" and "names_rename cr k (Some (rn_new rn)) dst rid"
  shows "\<exists>v h. run_state (recover_rename cr (Some k) e) (quiet g) = (Inr v, quiet h) \<and> rename_outcome rn f v h"
proof -
  let ?act = "recover_act cr (Some k) e (rn_sdir rn) (rn_sleaf rn) (rn_ddir rn) (rn_dleaf rn) src dst (rn_priv rn)"
  have "\<exists>h. run_state ?act (quiet g) = (Inr (), quiet h) \<and> (h = f \<or> h = placed rn f \<and> dest_free rn f)"
    using assms(3) recover_unclaimed [OF assms(1,2), of f k] recover_unclaimed [OF assms(1,2), of "reattested rn f" k]
      recover_claimed [OF assms(1,2,4)] recover_reattested [OF assms(1,2,5)] recover_placed [OF assms(1,2), of k]
    by (auto simp: stages_def split: if_splits)
  then obtain h where h: "run_state ?act (quiet g) = (Inr (), quiet h)" "h = f \<or> h = placed rn f \<and> dest_free rn f"
    by blast
  have "h \<in> stages rn f" using h(2) by (auto simp: stages_def)
  then have "same_dirs f g" "same_dirs f h" using same_dirs_stages [OF assms(1)] assms(3) by auto
  from recover_reduce [OF assms(2) _ this h(1)] assms(1)
  have "run_state (recover_rename cr (Some k) e) (quiet g) =
      (Inr (classify_rename e (leaf_now cr (rn_sdir rn) (rn_sleaf rn) h) (leaf_now cr (rn_ddir rn) (rn_dleaf rn) h)), quiet h)"
    by (simp add: renames_def)
  then show ?thesis
    using h(2) classify_back [OF assms(1,2)] classify_done [OF assms(1,2)] by (auto simp: rename_outcome_def)
qed

section \<open>Properties\<close>

text \<open>C6: A rename survives a crash at any point. If the machine stops after any number of system calls
  of the protocol, the recovery the next start runs from the prepared record leaves either exactly
  the file system from before the rename, reporting \<open>confirmedFailure\<close>, or exactly the one after
  it (the file under its new name with the new attestation, the source gone), reporting
  \<open>confirmedSuccess\<close>; the file is never lost, duplicated or left under the private name.\<close>

theorem rename_all_or_nothing:
  assumes "renames cr rn f" and "records cr rn f src dst rid e"
    and "ed25519 cr" and "wf_ring cr (k_ring k)" and "sign cr (k_ring k) rid dst (rn_digest rn) = Some (rn_new rn)"
    and "\<not> names_rename cr k (rn_old rn) dst rid"
  shows "\<exists>v h. run_state (recover_rename cr (Some k) e)
                 (quiet (w_fs (snd (run_state (protocol cr rn (Some (k_ring k, rid, dst))) (stopping n f))))) =
               (Inr v, quiet h) \<and>
             (v = ''confirmedFailure'' \<and> h = f \<or> v = ''confirmedSuccess'' \<and> dest_free rn f \<and> h = placed rn f)"
proof -
  have "w_fs (snd (run_state (protocol cr rn (Some (k_ring k, rid, dst))) (stopping n f))) \<in> stages rn f"
    by (rule stopped_in_stage [OF assms(1,5)])
  moreover have "names_rename cr k (Some (rn_new rn)) dst rid"
    using signed_checks [OF assms(3,4,5)] by (auto simp: names_rename_def)
  ultimately show ?thesis
    using recovered_stage [OF assms(1,2) _ assms(6)] unfolding rename_outcome_def by blast
qed

definition demo_renaming :: "string \<Rightarrow> renaming" where
  "demo_renaming raw = \<lparr>rn_sdir = 0, rn_sleaf = ''a'', rn_ddir = 0, rn_dleaf = ''b'', rn_priv = ''.p'',
     rn_file = 1, rn_digest = ''old'', rn_old = None, rn_new = raw\<rparr>"

definition demo_prepared :: jobj where
  "demo_prepared = [(''source'', JStr ''/workspace/a''), (''target'', JStr ''/workspace/b''), (''private'', JStr ''.p''),
     (''request_id'', JStr ''r1''), (''source_attestation'', JNull),
     (''before_state'', tstate_json (Present ''old'')), (''intended_state'', tstate_json (Present ''old'')),
     (''destination_before'', tstate_json Absent)]"

lemma demo_resolve: "resolve demo_fs ''/workspace/a'' = Some (0, ''a'')" "resolve demo_fs ''/workspace/b'' = Some (0, ''b'')"
proof -
  have "path_parts ''/workspace/a'' = Some [''a'']" "path_parts ''/workspace/b'' = Some [''b'']" by code_simp+
  then show "resolve demo_fs ''/workspace/a'' = Some (0, ''a'')" "resolve demo_fs ''/workspace/b'' = Some (0, ''b'')"
    by (simp_all add: resolve_def)
qed

lemma demo_fs_absent [simp]: "at demo_fs 0 ''b'' = None" "at demo_fs 0 ''.p'' = None"
  by (simp_all add: demo_fs_def at_def)

lemma demo_inode_xattr [simp]: "xattr (demo_inode c) = None" by (simp add: demo_inode_def)

theorem rename_all_or_nothing_witness:
  "\<exists>raw v h. sign demo_crypto demo_ring ''r1'' ''/workspace/b'' ''old'' = Some raw \<and>
     run_state (recover_rename demo_crypto (Some \<lparr>k_ring = demo_ring, legacy = None\<rparr>) demo_prepared)
       (quiet (w_fs (snd (run_state (protocol demo_crypto (demo_renaming raw) (Some (demo_ring, ''r1'', ''/workspace/b'')))
                            (stopping 6 demo_fs))))) = (Inr v, quiet h) \<and>
     (v = ''confirmedFailure'' \<and> h = demo_fs \<or> v = ''confirmedSuccess'' \<and> h = placed (demo_renaming raw) demo_fs)"
proof -
  let ?k = "\<lparr>k_ring = demo_ring, legacy = None\<rparr>"
  obtain raw where raw: "sign demo_crypto demo_ring ''r1'' ''/workspace/b'' ''old'' = Some raw"
    using demo_ring_simps(4) by (simp add: sign_def)
  have r: "renames demo_crypto (demo_renaming raw) demo_fs"
    by (simp add: renames_def demo_renaming_def) (simp add: demo_crypto_def)
  have e: "records demo_crypto (demo_renaming raw) demo_fs ''/workspace/a'' ''/workspace/b'' ''r1'' demo_prepared"
    by (simp add: records_def demo_renaming_def demo_resolve demo_prepared_def leaf_now_def)
  have w: "wf_ring demo_crypto (k_ring ?k)" using demo_ring_simps(1) by simp
  have s: "sign demo_crypto (k_ring ?k) ''r1'' ''/workspace/b'' (rn_digest (demo_renaming raw)) = Some (rn_new (demo_renaming raw))"
    using raw by (simp add: demo_renaming_def)
  have o: "\<not> names_rename demo_crypto ?k (rn_old (demo_renaming raw)) ''/workspace/b'' ''r1''"
    by (simp add: names_rename_def demo_renaming_def check_attestation_def)
  from rename_all_or_nothing [OF r e demo_crypto_ed25519 w s o, of 6] raw show ?thesis by auto
qed

end
