(* ===== verification/Checkpoint.thy ===== *)
theory Checkpoint
  imports Attest
begin

text \<open>
  Published checkpoints of the audit log (\<open>darm_guard/checkpoint.py\<close>): the publisher, which the
  log calls after each durable record, and \<open>check_log\<close>, which a verifier runs with public keys
  alone. The sink is a map from file names to text. \<open>None\<close> as the result of a check stands for
  an exception (a log or a checkpoint that is not of the expected shape).
\<close>

section \<open>Reading a log\<close>

fun parse_lines :: "string list \<Rightarrow> json list option" where
  "parse_lines [] = Some []"
| "parse_lines (l # ls) =
     (case loads l of None \<Rightarrow> None | Some v \<Rightarrow> map_option (\<lambda>vs. v # vs) (parse_lines ls))"

definition log_entries :: "string \<Rightarrow> json list option" where
  \<comment> \<open>\<open>_entries\<close>\<close>
  "log_entries text = parse_lines (lines_of text)"

fun item :: "json \<Rightarrow> string \<Rightarrow> json option" where
  \<comment> \<open>\<open>v[k]\<close> with a string key\<close>
  "item (JObj d) k = map_of d k"
| "item _ k = None"

definition py_index :: "'a list \<Rightarrow> int \<Rightarrow> 'a option" where
  \<comment> \<open>\<open>xs[i]\<close>: a negative index counts from the end\<close>
  "py_index xs i =
     (let j = (if i < 0 then i + int (length xs) else i)
      in if 0 \<le> j \<and> j < int (length xs) then Some (xs ! nat j) else None)"

definition make_checkpoint :: "crypto \<Rightarrow> string \<Rightarrow> ring \<Rightarrow> jobj option" where
  "make_checkpoint cr text r =
     (case log_entries text of
        None \<Rightarrow> None
      | Some es \<Rightarrow>
          (if es = [] then None
           else (case (item (hd es) ''entry_hash'', item (last es) ''entry_hash'') of
                   (Some (JStr g), Some (JStr h)) \<Rightarrow> sign_checkpoint cr r g (int (length es)) h
                 | _ \<Rightarrow> None)))"

section \<open>Publishing\<close>

type_synonym sink = "string \<Rightarrow> string"
  \<comment> \<open>the text of each file of the sink, empty if there is none\<close>

datatype sink_fault =
    SinkOk
  | SinkFails string        \<comment> \<open>\<open>OSError\<close> before anything is written\<close>
  | SinkSyncFails string    \<comment> \<open>\<open>OSError\<close> after the line is written\<close>

definition sink_file :: "string \<Rightarrow> string" where
  "sink_file genesis = take 16 genesis @ ''.checkpoints.jsonl''"

definition publish :: "sink_fault \<Rightarrow> jobj \<Rightarrow> sink \<Rightarrow> string option \<times> sink" where
  "publish f cp snk =
     (let file = sink_file (case jget cp ''genesis'' of JStr g \<Rightarrow> g | _ \<Rightarrow> []);
          snk' = snk(file := snk file @ dumps_sorted (JObj cp) @ [CHR 0x0A])
      in case f of SinkOk \<Rightarrow> (None, snk') | SinkFails e \<Rightarrow> (Some e, snk) | SinkSyncFails e \<Rightarrow> (Some e, snk'))"

record checkpointer =
  ck_ring :: ring
  ck_every :: nat
  last_count :: nat
  last_attempt :: nat
  failures :: nat
  published :: nat
  ck_sink :: sink

definition new_checkpointer :: "ring \<Rightarrow> nat \<Rightarrow> sink \<Rightarrow> checkpointer option" where
  "new_checkpointer r n snk =
     (if n < 1 then None
      else Some \<lparr>ck_ring = r, ck_every = n, last_count = 0, last_attempt = 0, failures = 0,
                 published = 0, ck_sink = snk\<rparr>)"

definition due :: "checkpointer \<Rightarrow> nat \<Rightarrow> bool \<Rightarrow> bool" where
  "due ck n force \<longleftrightarrow>
     (if force then n \<noteq> last_count ck
      else int (ck_every ck) \<le> int n - int (max (last_count ck) (last_attempt ck)))"

definition maybe_publish ::
  "crypto \<Rightarrow> sink_fault \<Rightarrow> string \<Rightarrow> nat \<Rightarrow> string \<Rightarrow> bool \<Rightarrow> checkpointer \<Rightarrow> string option \<times> checkpointer" where
  \<comment> \<open>\<open>Checkpointer.maybe\<close>; \<open>PermissionError\<close> is an \<open>OSError\<close>\<close>
  "maybe_publish cr f genesis n head force ck =
     (if \<not> due ck n force then (None, ck)
      else let ck1 = ck\<lparr>last_attempt := n\<rparr> in
        (case sign_checkpoint cr (ck_ring ck) genesis (int n) head of
           None \<Rightarrow> (Some ''PermissionError: a verify-only ring cannot sign'', ck1\<lparr>failures := failures ck + 1\<rparr>)
         | Some cp \<Rightarrow>
             (case publish f cp (ck_sink ck) of
                (Some e, snk) \<Rightarrow> (Some e, ck1\<lparr>failures := failures ck + 1, ck_sink := snk\<rparr>)
              | (None, snk) \<Rightarrow> (None, ck1\<lparr>last_count := n, published := published ck + 1, ck_sink := snk\<rparr>))))"

section \<open>Checking\<close>

datatype check_finding = BadSignature why | OtherLog | Truncated | Rewritten

fun py_number :: "json \<Rightarrow> int option" where
  "py_number (JNum i) = Some i"
| "py_number (JBool b) = Some (if b then 1 else 0)"
| "py_number _ = None"

definition check_one ::
  "crypto \<Rightarrow> ring \<Rightarrow> json list \<Rightarrow> json option \<Rightarrow> json \<Rightarrow> (check_finding + int) option" where
  \<comment> \<open>one turn of the loop of \<open>check_log\<close>: a finding or the count covered\<close>
  "check_one cr r es genesis cp =
     (case cp of
        JObj d \<Rightarrow>
          (case verify_checkpoint cr r cp of
             Some w \<Rightarrow> Some (Inl (BadSignature w))
           | None \<Rightarrow>
               (if Some (jget d ''genesis'') \<noteq> (if genesis = None then Some JNull else genesis) then Some (Inl OtherLog)
                else (case py_number (jget d ''count'') of
                        None \<Rightarrow> None
                      | Some n \<Rightarrow>
                          (if int (length es) < n then Some (Inl Truncated)
                           else (case py_index es (n - 1) of
                                   None \<Rightarrow> None
                                 | Some e \<Rightarrow>
                                     (case item e ''entry_hash'' of
                                        None \<Rightarrow> None
                                      | Some h \<Rightarrow> if h \<noteq> jget d ''head'' then Some (Inl Rewritten)
                                                  else Some (Inr n)))))))
      | _ \<Rightarrow> None)"

fun check_each ::
  "crypto \<Rightarrow> ring \<Rightarrow> json list \<Rightarrow> json option \<Rightarrow> json list \<Rightarrow> ((json \<times> check_finding) list \<times> int) option" where
  "check_each cr r es genesis [] = Some ([], 0)"
| "check_each cr r es genesis (cp # cps) =
     (case (check_one cr r es genesis cp, check_each cr r es genesis cps) of
        (Some (Inl f), Some (fs, c)) \<Rightarrow> Some ((jget (case cp of JObj d \<Rightarrow> d | _ \<Rightarrow> []) ''count'', f) # fs, c)
      | (Some (Inr n), Some (fs, c)) \<Rightarrow> Some (fs, max c n)
      | _ \<Rightarrow> None)"

record check_report =
  cr_findings :: "(json \<times> check_finding) list"
  cr_covered :: int
  cr_entries :: nat

definition check_log :: "crypto \<Rightarrow> ring \<Rightarrow> string \<Rightarrow> json list \<Rightarrow> check_report option" where
  \<comment> \<open>\<open>ok\<close> is that there are no findings\<close>
  "check_log cr r text cps =
     (case log_entries text of
        None \<Rightarrow> None
      | Some es \<Rightarrow>
          (case (if es = [] then Some None else map_option Some (item (hd es) ''entry_hash'')) of
             None \<Rightarrow> None
           | Some genesis \<Rightarrow>
               map_option (\<lambda>(fs, c). \<lparr>cr_findings = fs, cr_covered = c, cr_entries = length es\<rparr>)
                 (check_each cr r es genesis cps)))"

end
