(* ===== verification/Clock.thy ===== *)
theory Clock
  imports Json
begin

text \<open>
  Points in time as the log writes them. A \<open>time\<close> is the number of microseconds since the first
  instant of year 1 (a naive \<open>datetime\<close>); \<open>iso\<close> is \<open>datetime.isoformat\<close> and \<open>of_iso\<close> reads back
  that format (\<open>datetime.fromisoformat\<close> on what \<open>isoformat\<close> writes). The other forms
  \<open>fromisoformat\<close> reads (dates alone, fewer or other fields, a time zone) are outside the model: the
  sources never write them, and a theorem that depends on it asks for stamps in the form they write.
\<close>

definition leap :: "nat \<Rightarrow> bool" where
  "leap y \<longleftrightarrow> y mod 4 = 0 \<and> (y mod 100 \<noteq> 0 \<or> y mod 400 = 0)"

definition year_days :: "nat \<Rightarrow> nat" where
  "year_days y = (if leap y then 366 else 365)"

definition month_days :: "nat \<Rightarrow> nat list" where
  "month_days y = [31, if leap y then 29 else 28, 31, 30, 31, 30, 31, 31, 30, 31, 30, 31]"

lemma year_days_pos [simp]: "0 < year_days y"
  by (simp add: year_days_def)

function year_of :: "nat \<Rightarrow> nat \<Rightarrow> nat \<times> nat" where
  \<comment> \<open>the year and the day in it, counting days from the first of January of the year given\<close>
  "year_of y d = (if d < year_days y then (y, d) else year_of (Suc y) (d - year_days y))"
  by pat_completeness auto

termination
proof (relation "measure snd")
  fix y d :: nat
  assume "\<not> d < year_days y"
  then show "((Suc y, d - year_days y), (y, d)) \<in> measure snd"
    using year_days_pos [of y] by (simp del: year_days_pos)
qed simp

declare year_of.simps [simp del]

definition days_before :: "nat \<Rightarrow> nat" where
  \<comment> \<open>days from the first of January of year 1 to that of year \<open>y\<close>\<close>
  "days_before y = sum_list (map year_days [1..<y])"

fun month_of :: "nat list \<Rightarrow> nat \<Rightarrow> nat \<times> nat" where
  \<comment> \<open>the index of the month and the day in it, from 0\<close>
  "month_of [] d = (0, d)"
| "month_of (l # ls) d = (if d < l then (0, d) else (case month_of ls (d - l) of (m, r) \<Rightarrow> (Suc m, r)))"

fun pad :: "nat \<Rightarrow> nat \<Rightarrow> string" where
  "pad 0 k = []"
| "pad (Suc n) k = pad n (k div 10) @ [digit_char (k mod 10)]"

definition iso :: "time \<Rightarrow> string" where
  "iso t =
     (let n = nat t; us = n mod 1000000; s = n div 1000000 mod 86400;
          (y, doy) = year_of 1 (n div 1000000 div 86400);
          (m, d) = month_of (month_days y) doy
      in pad 4 y @ ''-'' @ pad 2 (Suc m) @ ''-'' @ pad 2 (Suc d) @ ''T'' @
         pad 2 (s div 3600) @ '':'' @ pad 2 (s div 60 mod 60) @ '':'' @ pad 2 (s mod 60) @
         (if us = 0 then [] else ''.'' @ pad 6 us))"

definition num_at :: "nat \<Rightarrow> nat \<Rightarrow> string \<Rightarrow> nat option" where
  "num_at i n s = (let t = take n (drop i s) in if list_all is_digit t then Some (read_nat t) else None)"

definition of_iso :: "string \<Rightarrow> time option" where
  \<comment> \<open>on what \<open>isoformat\<close> writes of a naive time; a date, a time zone or another form that
      \<open>fromisoformat\<close> also reads is \<open>None\<close> here\<close>
  "of_iso s =
     (if length s \<notin> {19, 26} \<or> s ! 4 \<noteq> CHR ''-'' \<or> s ! 7 \<noteq> CHR ''-'' \<or> s ! 10 \<noteq> CHR ''T'' \<or>
         s ! 13 \<noteq> CHR '':'' \<or> s ! 16 \<noteq> CHR '':'' \<or> (length s = 26 \<and> s ! 19 \<noteq> CHR ''.'')
      then None
      else (case (num_at 0 4 s, num_at 5 2 s, num_at 8 2 s, num_at 11 2 s, num_at 14 2 s, num_at 17 2 s,
                  num_at 20 6 s) of
          (Some y, Some m, Some d, Some h, Some mi, Some sc, Some us) \<Rightarrow>
            (if y = 0 \<or> m = 0 \<or> 12 < m \<or> d = 0 \<or> month_days y ! (m - 1) < d \<or> 24 \<le> h \<or> 60 \<le> mi \<or> 60 \<le> sc
             then None
             else Some (int ((((days_before y + sum_list (take (m - 1) (month_days y)) + (d - 1)) * 86400 +
                               h * 3600 + mi * 60 + sc)) * 1000000 + us)))
        | _ \<Rightarrow> None))"

definition valid_time :: "time \<Rightarrow> bool" where
  \<comment> \<open>from year 1 to year 9999, the range of \<open>datetime\<close>\<close>
  "valid_time t \<longleftrightarrow> 0 \<le> t \<and> fst (year_of 1 (nat t div 1000000 div 86400)) \<le> 9999"

section \<open>Reading back\<close>

lemma length_pad [simp]: "length (pad n k) = n"
  by (induction n arbitrary: k) simp_all

lemma pad_digits: "list_all is_digit (pad n k)"
  by (induction n arbitrary: k) simp_all

lemma read_pad: "k < 10 ^ n \<Longrightarrow> read_nat (pad n k) = k"
proof (induction n arbitrary: k)
  case (Suc n)
  then have "k div 10 < 10 ^ n" by (simp add: less_mult_imp_div_less)
  with Suc.IH have "read_nat (pad n (k div 10)) = k div 10" by blast
  then show ?case by (simp add: read_nat_snoc)
qed (simp add: read_nat_def)

lemma year_of_days:
  "1 \<le> y \<Longrightarrow> year_of y d = (y', r) \<Longrightarrow>
   y \<le> y' \<and> r < year_days y' \<and> days_before y + d = days_before y' + r"
proof (induction y d rule: year_of.induct)
  case (1 y d)
  show ?case
  proof (cases "d < year_days y")
    case True
    then show ?thesis using "1.prems" by (simp add: year_of.simps)
  next
    case False
    then have "year_of (Suc y) (d - year_days y) = (y', r)" using "1.prems" by (simp add: year_of.simps [of y d])
    with "1.IH" [OF False] have "Suc y \<le> y' \<and> r < year_days y' \<and> days_before (Suc y) + (d - year_days y) = days_before y' + r"
      by simp
    moreover have "days_before (Suc y) = days_before y + year_days y"
      using "1.prems"(1) by (simp add: days_before_def)
    ultimately show ?thesis using False by simp
  qed
qed

lemma month_of_days:
  "month_of ls d = (m, r) \<Longrightarrow> d < sum_list ls \<Longrightarrow>
   m < length ls \<and> r < ls ! m \<and> d = sum_list (take m ls) + r"
proof (induction ls arbitrary: d m)
  case (Cons l ls)
  show ?case
  proof (cases "d < l")
    case True
    then show ?thesis using Cons.prems by simp
  next
    case False
    then obtain m' where m: "month_of ls (d - l) = (m', r)" "m = Suc m'"
      using Cons.prems(1) by (auto split: prod.splits)
    have "d - l < sum_list ls" using False Cons.prems(2) by simp
    with Cons.IH [OF m(1)] have "m' < length ls \<and> r < ls ! m' \<and> d - l = sum_list (take m' ls) + r" .
    with False show ?thesis by (auto simp: m(2))
  qed
qed simp

lemma sum_month_days: "sum_list (month_days y) = year_days y"
  by (simp add: month_days_def year_days_def)

lemma month_days_bound: "m < 12 \<Longrightarrow> month_days y ! m \<le> 31"
proof -
  have "list_all (\<lambda>l. l \<le> 31) (month_days y)" by (simp add: month_days_def)
  moreover assume "m < 12"
  then have "m < length (month_days y)" by (simp add: month_days_def)
  ultimately show ?thesis by (simp add: list_all_length)
qed

lemma num_at_pad: "k < 10 ^ n \<Longrightarrow> length a = i \<Longrightarrow> num_at i n (a @ pad n k @ b) = Some k"
  by (simp add: num_at_def pad_digits read_pad)

lemma iso_shape:
  assumes "valid_time t"
  obtains y m d h mi sc us where
    "iso t = pad 4 y @ ''-'' @ pad 2 (Suc m) @ ''-'' @ pad 2 (Suc d) @ ''T'' @
             pad 2 h @ '':'' @ pad 2 mi @ '':'' @ pad 2 sc @ (if us = 0 then [] else ''.'' @ pad 6 us)"
    "0 < y" "y < 10000" "m < 12" "d < month_days y ! m" "h < 24" "mi < 60" "sc < 60" "us < 1000000"
    "t = int ((((days_before y + sum_list (take m (month_days y)) + d) * 86400 +
                h * 3600 + mi * 60 + sc)) * 1000000 + us)"
proof -
  let ?n = "nat t"
  let ?s = "?n div 1000000 mod 86400"
  obtain y doy where y: "year_of 1 (?n div 1000000 div 86400) = (y, doy)" by fastforce
  obtain m d where m: "month_of (month_days y) doy = (m, d)" by fastforce
  have yd: "1 \<le> y \<and> doy < year_days y \<and> ?n div 1000000 div 86400 = days_before y + doy"
    using year_of_days [OF _ y] by (simp add: days_before_def)
  then have md: "m < 12 \<and> d < month_days y ! m \<and> doy = sum_list (take m (month_days y)) + d"
    using month_of_days [OF m] unfolding sum_month_days by (simp add: month_days_def)
  have s: "?s = ?s div 3600 * 3600 + ?s div 60 mod 60 * 60 + ?s mod 60"
  proof -
    have "x = x div 3600 * 3600 + x div 60 mod 60 * 60 + x mod 60" for x :: nat
    proof -
      have c: "x div 3600 = x div 60 div 60" by (simp add: div_mult2_eq [symmetric])
      have "x = x div 60 * 60 + x mod 60" by (rule div_mult_mod_eq [symmetric])
      also have "x div 60 * 60 = (x div 60 div 60 * 60 + x div 60 mod 60) * 60"
        by (simp only: div_mult_mod_eq)
      also have "\<dots> = x div 60 div 60 * 3600 + x div 60 mod 60 * 60"
        by (simp only: add_mult_distrib mult.assoc)
      finally show ?thesis unfolding c .
    qed
    then show ?thesis .
  qed
  have "?n = (?n div 1000000 div 86400 * 86400 + ?s) * 1000000 + ?n mod 1000000" by simp
  also have "\<dots> = ((days_before y + sum_list (take m (month_days y)) + d) * 86400 +
                ?s div 3600 * 3600 + ?s div 60 mod 60 * 60 + ?s mod 60) * 1000000 + ?n mod 1000000"
    using yd md s by simp
  finally have n: "?n = ((days_before y + sum_list (take m (month_days y)) + d) * 86400 +
                ?s div 3600 * 3600 + ?s div 60 mod 60 * 60 + ?s mod 60) * 1000000 + ?n mod 1000000" .
  have "t = int ?n" using assms by (simp add: valid_time_def)
  then have t: "t = int (((days_before y + sum_list (take m (month_days y)) + d) * 86400 +
                ?s div 3600 * 3600 + ?s div 60 mod 60 * 60 + ?s mod 60) * 1000000 + ?n mod 1000000)"
    using arg_cong [OF n, of int] by (rule trans)
  have i: "iso t = pad 4 y @ ''-'' @ pad 2 (Suc m) @ ''-'' @ pad 2 (Suc d) @ ''T'' @
      pad 2 (?s div 3600) @ '':'' @ pad 2 (?s div 60 mod 60) @ '':'' @ pad 2 (?s mod 60) @
      (if ?n mod 1000000 = 0 then [] else ''.'' @ pad 6 (?n mod 1000000))"
    unfolding iso_def Let_def y by (simp add: m)
  have "0 < y" "y < 10000" "m < 12" "d < month_days y ! m" using yd md assms y by (simp_all add: valid_time_def)
  moreover have "?s div 3600 < 24" by (simp add: less_mult_imp_div_less)
  moreover have "?s div 60 mod 60 < 60" "?s mod 60 < 60" "?n mod 1000000 < 1000000" by simp_all
  ultimately show thesis by (rule that [OF i _ _ _ _ _ _ _ _ t])
qed

lemma of_iso_iso [simp]: "valid_time t \<Longrightarrow> of_iso (iso t) = Some t"
proof (erule iso_shape)
  fix y m d h mi sc us
  let ?s = "pad 4 y @ ''-'' @ pad 2 (Suc m) @ ''-'' @ pad 2 (Suc d) @ ''T'' @
             pad 2 h @ '':'' @ pad 2 mi @ '':'' @ pad 2 sc @ (if us = 0 then [] else ''.'' @ pad 6 us)"
  assume iso: "iso t = ?s"
    and r: "0 < y" "y < 10000" "m < 12" "d < month_days y ! m" "h < 24" "mi < 60" "sc < 60" "us < 1000000"
    and t: "t = int ((((days_before y + sum_list (take m (month_days y)) + d) * 86400 +
                h * 3600 + mi * 60 + sc)) * 1000000 + us)"
  have b: "Suc d < 10 ^ 2" using r(4) month_days_bound [OF r(3), of y] by simp
  have seps: "length ?s \<in> {19, 26}" "?s ! 4 = CHR ''-''" "?s ! 7 = CHR ''-''" "?s ! 10 = CHR ''T''"
    "?s ! 13 = CHR '':''" "?s ! 16 = CHR '':''" "length ?s = 26 \<longrightarrow> ?s ! 19 = CHR ''.''"
    by (simp_all add: nth_append)
  have nums: "num_at 0 4 ?s = Some y" "num_at 5 2 ?s = Some (Suc m)" "num_at 8 2 ?s = Some (Suc d)"
    "num_at 11 2 ?s = Some h" "num_at 14 2 ?s = Some mi" "num_at 17 2 ?s = Some sc" "num_at 20 6 ?s = Some us"
    using r b by (simp_all add: num_at_def pad_digits read_pad read_nat_def [of "[]"])
  show "of_iso (iso t) = Some t"
    unfolding iso of_iso_def nums using seps r t by simp
qed

lemma iso_nonempty [simp]: "valid_time t \<Longrightarrow> iso t \<noteq> []"
proof (erule iso_shape)
  fix y m d h mi sc us
  assume "iso t = pad 4 y @ ''-'' @ pad 2 (Suc m) @ ''-'' @ pad 2 (Suc d) @ ''T'' @
             pad 2 h @ '':'' @ pad 2 mi @ '':'' @ pad 2 sc @ (if us = 0 then [] else ''.'' @ pad 6 us)"
  then have "length (iso t) \<ge> 5" by simp
  then show "iso t \<noteq> []" by auto
qed

end
