(* ===== verification/AuditLog.thy ===== *)
theory AuditLog
  imports Checkpoint Clock Registry
begin

text \<open>
  The hash-chained audit log (\<open>AuditLog\<close> of \<open>darm_guard/broker.py\<close>) and the auditor's check of
  the chain (\<open>chain_problems\<close> of \<open>darm_guard/evidence.py\<close>). The log file is its text. Writing can
  fail before, during and after the line reaches the file; a crash during a write is the same as
  a failed write with no further append.
\<close>

section \<open>State\<close>

record audit_log =
  al_prev :: string
  al_last_ts :: "time option"
  al_count :: nat
  al_genesis :: "string option"
  al_ck :: "checkpointer option"
  al_file :: "string option"        \<comment> \<open>the file's text; \<open>None\<close> if it does not exist\<close>

definition zeros :: string where "zeros = replicate 64 (CHR ''0'')"

definition al_text :: "audit_log \<Rightarrow> string" where
  "al_text al = (case al_file al of None \<Rightarrow> [] | Some t \<Rightarrow> t)"

section \<open>Loading\<close>

definition without :: "string \<Rightarrow> jobj \<Rightarrow> jobj" where
  "without k d = filter (\<lambda>(k', v). k' \<noteq> k) d"

definition max_ts :: "time option \<Rightarrow> time \<Rightarrow> time" where
  "max_ts lst ts = (case lst of None \<Rightarrow> ts | Some t \<Rightarrow> max t ts)"

definition load_entry :: "(string \<Rightarrow> string) \<Rightarrow> json \<Rightarrow> audit_log \<Rightarrow> audit_log option" where
  \<comment> \<open>one turn of the loop of \<open>__init__\<close>; \<open>None\<close> is an exception: the broker does not start\<close>
  "load_entry hf v al =
     (case v of
        JObj d \<Rightarrow>
          (case map_of d ''entry_hash'' of
             Some (JStr h) \<Rightarrow>
               (let e = without ''entry_hash'' d in
                if jget e ''prev_hash'' \<noteq> JStr (al_prev al) \<or> hf (dumps_sorted (JObj e)) \<noteq> h then None
                else let al1 = al\<lparr>al_prev := h, al_count := al_count al + 1,
                                  al_genesis := (case al_genesis al of None \<Rightarrow> Some h | g \<Rightarrow> g)\<rparr>
                  in if \<not> truthy (jget e ''ts'') then Some al1
                     else (case jget e ''ts'' of
                             JStr s \<Rightarrow> map_option (\<lambda>ts. al1\<lparr>al_last_ts := Some (max_ts (al_last_ts al) ts)\<rparr>) (of_iso s)
                           | _ \<Rightarrow> None))
           | _ \<Rightarrow> None)
      | _ \<Rightarrow> None)"

fun load_entries :: "(string \<Rightarrow> string) \<Rightarrow> string list \<Rightarrow> audit_log \<Rightarrow> audit_log option" where
  "load_entries hf [] al = Some al"
| "load_entries hf (l # ls) al =
     (case loads l of
        None \<Rightarrow> None
      | Some v \<Rightarrow> (case load_entry hf v al of None \<Rightarrow> None | Some al' \<Rightarrow> load_entries hf ls al'))"

definition new_log :: "string option \<Rightarrow> audit_log" where
  "new_log file = \<lparr>al_prev = zeros, al_last_ts = None, al_count = 0, al_genesis = None,
                   al_ck = None, al_file = file\<rparr>"

definition load_log :: "(string \<Rightarrow> string) \<Rightarrow> string option \<Rightarrow> audit_log option" where
  \<comment> \<open>\<open>AuditLog(path)\<close>\<close>
  "load_log hf file =
     (case file of None \<Rightarrow> Some (new_log None)
      | Some text \<Rightarrow> load_entries hf (lines_of text) (new_log (Some text)))"

section \<open>Appending\<close>

datatype write_fault =
    WriteOk
  | OpenFails            \<comment> \<open>nothing is written\<close>
  | Torn nat             \<comment> \<open>only so many characters of the line are written\<close>
  | SyncFails            \<comment> \<open>the line is written, \<open>fsync\<close> raises\<close>

definition chained :: "string \<Rightarrow> time \<Rightarrow> jobj \<Rightarrow> jobj" where
  \<comment> \<open>\<open>dict(entry, prev_hash=self.prev, ts=now.isoformat())\<close>\<close>
  "chained prev now entry = dset (dset entry ''prev_hash'' (JStr prev)) ''ts'' (JStr (iso now))"

definition entry_hash_of :: "(string \<Rightarrow> string) \<Rightarrow> jobj \<Rightarrow> string" where
  "entry_hash_of hf e = hf (dumps_sorted (JObj e))"

definition entry_line :: "(string \<Rightarrow> string) \<Rightarrow> jobj \<Rightarrow> string" where
  "entry_line hf e = dumps_sorted (JObj (dset e ''entry_hash'' (JStr (entry_hash_of hf e)))) @ [CHR 0x0A]"

definition write_line :: "(string \<Rightarrow> string) \<Rightarrow> write_fault \<Rightarrow> time \<Rightarrow> jobj \<Rightarrow> audit_log \<Rightarrow> bool \<times> audit_log" where
  \<comment> \<open>the part of \<open>append\<close> under the lock; the result is false when it raises\<close>
  "write_line hf f now entry al =
     (let e = chained (al_prev al) now entry; h = entry_hash_of hf e; line = entry_line hf e;
          al1 = al\<lparr>al_last_ts := Some (max_ts (al_last_ts al) now)\<rparr>
      in case f of
           OpenFails \<Rightarrow> (False, al1)
         | Torn n \<Rightarrow> (False, al1\<lparr>al_file := Some (al_text al @ take n line)\<rparr>)
         | SyncFails \<Rightarrow> (False, al1\<lparr>al_file := Some (al_text al @ line)\<rparr>)
         | WriteOk \<Rightarrow> (True, al1\<lparr>al_file := Some (al_text al @ line), al_prev := h,
                               al_count := al_count al + 1,
                               al_genesis := (case al_genesis al of None \<Rightarrow> Some h | g \<Rightarrow> g)\<rparr>))"

record append_env =
  ae_now :: time
  ae_fault :: write_fault
  ae_sink :: sink_fault
  ae_now2 :: time             \<comment> \<open>for the record of a failed checkpoint\<close>
  ae_fault2 :: write_fault

definition checkpoint_failed :: "string \<Rightarrow> nat \<Rightarrow> jobj" where
  "checkpoint_failed err n =
     [(''event'', JStr ''checkpoint_failed''), (''error'', JStr err), (''count'', JNum (int n))]"

definition run_checkpoint :: "crypto \<Rightarrow> append_env \<Rightarrow> bool \<Rightarrow> audit_log \<Rightarrow> bool \<times> audit_log" where
  \<comment> \<open>\<open>_checkpoint\<close> for the current head; the failure record itself does not checkpoint\<close>
  "run_checkpoint cr env force al =
     (case (al_ck al, al_genesis al) of
        (Some ck, Some g) \<Rightarrow>
          (case maybe_publish cr (ae_sink env) g (al_count al) (al_prev al) force ck of
             (None, ck') \<Rightarrow> (True, al\<lparr>al_ck := Some ck'\<rparr>)
           | (Some err, ck') \<Rightarrow>
               write_line (sha cr) (ae_fault2 env) (ae_now2 env) (checkpoint_failed err (al_count al))
                 (al\<lparr>al_ck := Some ck'\<rparr>))
      | _ \<Rightarrow> (True, al))"

definition log_append :: "crypto \<Rightarrow> append_env \<Rightarrow> jobj \<Rightarrow> audit_log \<Rightarrow> bool \<times> audit_log" where
  \<comment> \<open>\<open>append\<close>; the result is false when it raises\<close>
  "log_append cr env entry al =
     (case write_line (sha cr) (ae_fault env) (ae_now env) entry al of
        (False, al') \<Rightarrow> (False, al')
      | (True, al') \<Rightarrow> run_checkpoint cr env False al')"

definition checkpoint_now :: "crypto \<Rightarrow> append_env \<Rightarrow> audit_log \<Rightarrow> bool \<times> audit_log" where
  "checkpoint_now cr env al = (if al_count al = 0 then (True, al) else run_checkpoint cr env True al)"

section \<open>The auditor's check\<close>

datatype chain_problem = DoesNotFollow nat | HashMismatch nat

fun chain_check :: "(string \<Rightarrow> string) \<Rightarrow> nat \<Rightarrow> json \<Rightarrow> json list \<Rightarrow> chain_problem list option" where
  "chain_check hf n prev [] = Some []"
| "chain_check hf n prev (v # vs) =
     (case v of
        JObj d \<Rightarrow>
          (let h = jget d ''entry_hash''; e = without ''entry_hash'' d in
           map_option (\<lambda>ps. (if jget e ''prev_hash'' \<noteq> prev then [DoesNotFollow n] else []) @
                            (if JStr (hf (dumps_sorted (JObj e))) \<noteq> h then [HashMismatch n] else []) @ ps)
             (chain_check hf (Suc n) h vs))
      | _ \<Rightarrow> None)"

definition chain_problems :: "(string \<Rightarrow> string) \<Rightarrow> string \<Rightarrow> chain_problem list option" where
  "chain_problems hf text =
     (case log_entries text of None \<Rightarrow> None | Some es \<Rightarrow> chain_check hf 1 (JStr zeros) es)"

section \<open>Hash chains\<close>

definition collision :: "(string \<Rightarrow> string) \<Rightarrow> bool" where
  "collision hf \<longleftrightarrow> (\<exists>s t. s \<noteq> t \<and> hf s = hf t)"

fun linked :: "(string \<Rightarrow> string) \<Rightarrow> ('e \<Rightarrow> string) \<Rightarrow> ('e \<Rightarrow> string option) \<Rightarrow> string \<Rightarrow> 'e list \<Rightarrow> string \<Rightarrow> bool" where
  \<comment> \<open>the entries lead from the hash \<open>p\<close> to the head \<open>h\<close>\<close>
  "linked hf body prev p [] h \<longleftrightarrow> p = h"
| "linked hf body prev p (e # es) h \<longleftrightarrow> prev e = Some p \<and> linked hf body prev (hf (body e)) es h"

lemma linked_append:
  "linked hf body prev p (es @ es') h \<longleftrightarrow> (\<exists>q. linked hf body prev p es q \<and> linked hf body prev q es' h)"
  by (induction es arbitrary: p) auto

text \<open>
  The contract of a hash chain: the serialisation an entry is hashed as determines the entry.
  Then the head determines the whole log, as far as the hash function has no collision.
\<close>

locale hash_chain =
  fixes hf :: "string \<Rightarrow> string" and body :: "'e \<Rightarrow> string" and prev :: "'e \<Rightarrow> string option"
    and ok :: "'e \<Rightarrow> bool"
  assumes body_inj: "ok a \<Longrightarrow> ok b \<Longrightarrow> body a = body b \<Longrightarrow> a = b"
begin

lemma same_hash: "ok a \<Longrightarrow> ok b \<Longrightarrow> hf (body a) = hf (body b) \<Longrightarrow> a = b \<or> collision hf"
  using body_inj collision_def by metis

lemma same_head_same_log:
  "length es = length es' \<Longrightarrow> list_all ok es \<Longrightarrow> list_all ok es' \<Longrightarrow>
   linked hf body prev p es h \<Longrightarrow> linked hf body prev p es' h \<Longrightarrow> es = es' \<or> collision hf"
proof (induction es arbitrary: es' h rule: rev_induct)
  case Nil
  then show ?case by simp
next
  case (snoc e es)
  obtain e' es'' where es': "es' = es'' @ [e']" using snoc.prems(1) by (cases es' rule: rev_cases) auto
  obtain q where q: "linked hf body prev p es q" "prev e = Some q" "hf (body e) = h"
    using snoc.prems(4) by (auto simp: linked_append)
  obtain q' where q': "linked hf body prev p es'' q'" "prev e' = Some q'" "hf (body e') = h"
    using snoc.prems(5) by (auto simp: es' linked_append)
  have "ok e" "ok e'" using snoc.prems(2,3) by (simp_all add: es')
  with q(3) q'(3) have "e = e' \<or> collision hf" using same_hash by simp
  then show ?case
  proof
    assume "e = e'"
    with q q' have "q = q'" by simp
    moreover have "length es = length es''" "list_all ok es" "list_all ok es''"
      using snoc.prems(1-3) by (simp_all add: es')
    ultimately have "es = es'' \<or> collision hf" using snoc.IH q(1) q'(1) by blast
    with \<open>e = e'\<close> show ?thesis by (auto simp: es')
  qed simp
qed

lemma prefix_of_longer:
  assumes "list_all ok es" and "list_all ok es'" and "linked hf body prev p es h"
    and "linked hf body prev p (take (length es) es') h" and "length es \<le> length es'"
  shows "take (length es) es' = es \<or> collision hf"
proof -
  have "list_all ok (take (length es) es')" using assms(2) by (metis append_take_drop_id list_all_append)
  then have "es = take (length es) es' \<or> collision hf"
    by (rule same_head_same_log [OF _ assms(1) _ assms(3,4), rotated]) (use assms(5) in simp)
  then show ?thesis by auto
qed

end

definition entry_body :: "json \<Rightarrow> json" where
  \<comment> \<open>what is hashed of a line of the log\<close>
  "entry_body v = (case v of JObj d \<Rightarrow> canon (JObj (without ''entry_hash'' d)) | _ \<Rightarrow> v)"

definition entry_prev :: "json \<Rightarrow> string option" where
  "entry_prev v = jstr_of (jget (jfields v) ''prev_hash'')"

abbreviation canonical :: "json \<Rightarrow> bool" where
  "canonical v \<equiv> wf_json v \<and> canon v = v"

interpretation log_chain: hash_chain hf dumps_sorted entry_prev canonical for hf
  using json_lines.enc_inj by unfold_locales

section \<open>Entries without their hash\<close>

lemma map_of_without [simp]: "map_of (without k d) k' = (if k' = k then None else map_of d k')"
  by (induction d) (auto simp: without_def)

lemma jget_without [simp]: "jget (without k d) k' = (if k' = k then JNull else jget d k')"
  by (simp add: jget_def)

lemma without_absent: "k \<notin> set (map fst d) \<Longrightarrow> without k d = d"
  by (induction d) (auto simp: without_def)

lemma without_dset: "k \<notin> set (map fst d) \<Longrightarrow> without k (dset d k v) = d"
  by (induction d) (auto simp: without_def)

lemma without_map: "without k (map (\<lambda>(k, v). (k, f v)) d) = map (\<lambda>(k, v). (k, f v)) (without k d)"
  by (induction d) (auto simp: without_def)

lemma without_sort: "without k (sort_key fst d) = sort_key fst (without k d)"
  by (simp add: without_def filter_sort)

lemma wf_without: "wf_json (JObj d) \<Longrightarrow> wf_json (JObj (without k d))"
  by (auto simp: without_def list_all_iff distinct_map inj_on_def)

lemma canon_without: "canon (JObj d) = JObj d' \<Longrightarrow> canon (JObj (without k d)) = JObj (without k d')"
  by (auto simp: without_sort without_map)

lemma map_of_canon_obj:
  "wf_json (JObj d) \<Longrightarrow> canon (JObj d) = JObj d' \<Longrightarrow> map_of d' k = map_option canon (map_of d k)"
  by (rule map_of_canon) simp_all

lemma canonical_entry_body: "wf_json v \<Longrightarrow> \<exists>d. v = JObj d \<Longrightarrow> canonical (entry_body v)"
  using wf_without canon_wf by (auto simp: entry_body_def simp del: canon.simps wf_json.simps)

section \<open>Loading follows the chain\<close>

lemma load_entries_append:
  "load_entries hf (ls @ ls') al =
   (case load_entries hf ls al of None \<Rightarrow> None | Some al' \<Rightarrow> load_entries hf ls' al')"
  by (induction ls arbitrary: al) (auto split: option.splits)

lemma load_entry_file:
  "load_entry hf v (al\<lparr>al_file := x\<rparr>) = map_option (\<lambda>a. a\<lparr>al_file := x\<rparr>) (load_entry hf v al)"
proof (cases v)
  case (JObj d)
  show ?thesis
  proof (cases "map_of d ''entry_hash''")
    case (Some hv)
    show ?thesis
    proof (cases hv)
      case (JStr h)
      let ?e = "without ''entry_hash'' d"
      show ?thesis
        by (cases "jget ?e ''ts''"; cases "of_iso (case jget ?e ''ts'' of JStr s \<Rightarrow> s | _ \<Rightarrow> [])")
          (simp_all add: load_entry_def JObj Some JStr Let_def del: jget_without)
    qed (simp_all add: load_entry_def JObj Some)
  qed (simp add: load_entry_def JObj)
qed (simp_all add: load_entry_def)

lemma load_entries_file:
  "load_entries hf ls (al\<lparr>al_file := x\<rparr>) = map_option (\<lambda>a. a\<lparr>al_file := x\<rparr>) (load_entries hf ls al)"
proof (induction ls arbitrary: al)
  case (Cons l ls)
  show ?case
  proof (cases "loads l")
    case (Some v)
    then show ?thesis
      using Cons.IH by (cases "load_entry hf v al") (simp_all add: load_entry_file)
  qed simp
qed simp

definition ts_reads :: "json \<Rightarrow> bool" where
  \<comment> \<open>the entry's time stamp is absent or can be read\<close>
  "ts_reads v \<longleftrightarrow>
     (let ts = jget (jfields v) ''ts'' in
      \<not> truthy ts \<or> (case ts of JStr s \<Rightarrow> of_iso s \<noteq> None | _ \<Rightarrow> False))"

definition links :: "(string \<Rightarrow> string) \<Rightarrow> json \<Rightarrow> string \<Rightarrow> string \<Rightarrow> bool" where
  \<comment> \<open>the entry leads from one hash to the next\<close>
  "links hf v p h \<longleftrightarrow>
     (\<exists>d. v = JObj d \<and> map_of d ''entry_hash'' = Some (JStr h) \<and>
          jget d ''prev_hash'' = JStr p \<and> hf (dumps_sorted (JObj (without ''entry_hash'' d))) = h)"

lemma load_entry_iff:
  "(\<exists>al'. load_entry hf v al = Some al') \<longleftrightarrow> (\<exists>h. links hf v (al_prev al) h) \<and> ts_reads v"
proof (cases v)
  case (JObj d)
  show ?thesis
  proof (cases "map_of d ''entry_hash''")
    case (Some hv)
    show ?thesis
    proof (cases hv)
      case (JStr h)
      show ?thesis
        by (cases "jget d ''ts''"; cases "of_iso (case jget d ''ts'' of JStr s \<Rightarrow> s | _ \<Rightarrow> [])")
          (auto simp: load_entry_def links_def ts_reads_def jfields_def JObj Some JStr Let_def)
    qed (auto simp: load_entry_def links_def JObj Some)
  qed (auto simp: load_entry_def links_def JObj)
qed (auto simp: load_entry_def links_def)

lemma load_entry_links:
  "load_entry hf v al = Some al' \<Longrightarrow>
   links hf v (al_prev al) (al_prev al') \<and> al_count al' = al_count al + 1"
proof (cases v)
  case (JObj d)
  assume l: "load_entry hf v al = Some al'"
  then obtain h where h: "map_of d ''entry_hash'' = Some (JStr h)"
    by (auto simp: load_entry_def JObj split: option.splits json.splits)
  with l show ?thesis
    by (auto simp: load_entry_def links_def JObj Let_def split: if_splits json.splits)
qed (auto simp: load_entry_def)

lemma links_body:
  assumes "links hf v p h" and "wf_json v"
  shows "entry_prev (entry_body v) = Some p \<and> hf (dumps_sorted (entry_body v)) = h \<and> canonical (entry_body v)"
proof -
  obtain d where d: "v = JObj d" "jget d ''prev_hash'' = JStr p"
    "hf (dumps_sorted (JObj (without ''entry_hash'' d))) = h"
    using assms(1) by (auto simp: links_def)
  obtain d' where d': "canon (JObj (without ''entry_hash'' d)) = JObj d'" by simp
  have "map_of d' ''prev_hash'' = Some (JStr p)"
    using map_of_canon_obj [OF wf_without d', of "''prev_hash''"] assms(2) d(2) unfolding d(1)
    by (simp add: jget_typed)
  then show ?thesis
    using d d' canonical_entry_body [OF assms(2)]
    by (simp add: entry_body_def entry_prev_def jget_def jfields_def jstr_of_def dumps_sorted_def)
qed

definition log_bodies :: "string \<Rightarrow> json option list" where
  \<comment> \<open>what the chain protects: the content of every entry of a log\<close>
  "log_bodies text = map (map_option entry_body \<circ> loads) (lines_of text)"

lemma load_entries_linked:
  "load_entries hf ls al = Some al' \<Longrightarrow>
   \<exists>es. map (map_option entry_body \<circ> loads) ls = map Some es \<and> list_all canonical es \<and>
        linked hf dumps_sorted entry_prev (al_prev al) es (al_prev al') \<and> al_count al' = al_count al + length ls"
proof (induction ls arbitrary: al)
  case Nil
  then show ?case by (intro exI [of _ "[]"]) simp
next
  case (Cons l ls)
  obtain v where v: "loads l = Some v" using Cons.prems by (cases "loads l") auto
  obtain al1 where al1: "load_entry hf v al = Some al1" "load_entries hf ls al1 = Some al'"
    using Cons.prems v by (cases "load_entry hf v al") auto
  obtain es where es: "map (map_option entry_body \<circ> loads) ls = map Some es" "list_all canonical es"
    "linked hf dumps_sorted entry_prev (al_prev al1) es (al_prev al')" "al_count al' = al_count al1 + length ls"
    using Cons.IH [OF al1(2)] by blast
  have "links hf v (al_prev al) (al_prev al1)" "al_count al1 = al_count al + 1"
    using load_entry_links [OF al1(1)] by auto
  with links_body [OF this(1) loads_wf [OF v]] es v show ?case
    by (intro exI [of _ "entry_body v # es"]) (simp add: comp_def)
qed

lemma load_log_linked:
  assumes "load_log hf (Some text) = Some al"
  obtains es where "log_bodies text = map Some es" "list_all canonical es"
    "linked hf dumps_sorted entry_prev zeros es (al_prev al)" "al_count al = length es"
proof -
  from assms obtain es where es: "map (map_option entry_body \<circ> loads) (lines_of text) = map Some es"
    "list_all canonical es" "linked hf dumps_sorted entry_prev zeros es (al_prev al)"
    "al_count al = length (lines_of text)"
    using load_entries_linked [of hf "lines_of text" "new_log (Some text)" al]
    by (auto simp: load_log_def new_log_def)
  moreover from es(1) have "length es = length (lines_of text)" by (metis length_map)
  ultimately show thesis using that [of es] by (simp add: log_bodies_def)
qed

section \<open>Writing a line\<close>

lemma strip_nonblank: "c \<in> set l \<Longrightarrow> \<not> py_space c \<Longrightarrow> strip l \<noteq> []"
  by (auto simp: strip_blank)

lemma dumps_obj_nonblank: "strip (dumps (JObj d)) \<noteq> []"
  by (rule strip_nonblank [of "CHR ''{''"]) (simp_all add: dumps.simps py_space_def)

lemma dumps_sorted_line:
  "CHR 0x0A \<notin> set (dumps_sorted v)" "CHR 0x0D \<notin> set (dumps_sorted v)"
  using printable_no_newline [OF printable_dumps] by (simp_all add: dumps_sorted_def)

definition ends_line :: "string \<Rightarrow> bool" where
  \<comment> \<open>a text without carriage returns whose last line is complete\<close>
  "ends_line t \<longleftrightarrow> CHR 0x0D \<notin> set t \<and> (t = [] \<or> (\<exists>u. t = u @ [CHR 0x0A]))"

lemma lines_of_written:
  assumes "ends_line t" and "CHR 0x0A \<notin> set l" "CHR 0x0D \<notin> set l" "strip l \<noteq> []"
  shows "lines_of (t @ l @ [CHR 0x0A]) = lines_of t @ [l]" and "ends_line (t @ l @ [CHR 0x0A])"
proof -
  have l: "lines_of (l @ [CHR 0x0A]) = [l]"
    using lines_of_append [of l "[]"] lines_of_line [of l] assms by simp
  show "lines_of (t @ l @ [CHR 0x0A]) = lines_of t @ [l]"
  proof (cases "t = []")
    case False
    then obtain u where u: "t = u @ [CHR 0x0A]" "CHR 0x0D \<notin> set u" using assms(1) by (auto simp: ends_line_def)
    have "lines_of (u @ CHR 0x0A # (l @ [CHR 0x0A])) = lines_of u @ lines_of (l @ [CHR 0x0A])"
      by (rule lines_of_append) (use u assms(3) in auto)
    moreover have "lines_of (u @ CHR 0x0A # []) = lines_of u @ lines_of []"
      by (rule lines_of_append) (use u in auto)
    ultimately show ?thesis by (simp add: u l)
  qed (simp add: l)
  show "ends_line (t @ l @ [CHR 0x0A])"
    using assms by (auto simp: ends_line_def intro: exI [of _ "t @ l"])
qed

definition plain_entry :: "jobj \<Rightarrow> bool" where
  \<comment> \<open>what the broker hands to \<open>append\<close>: a dictionary without the log's own hash field\<close>
  "plain_entry e \<longleftrightarrow> wf_json (JObj e) \<and> ''entry_hash'' \<notin> set (map fst e)"

lemma plain_chained: "plain_entry e \<Longrightarrow> plain_entry (chained prev now e)"
  by (auto simp: plain_entry_def chained_def keys_dset distinct_dset dset_wf simp del: map_of_dset)

lemma entry_line_loads:
  assumes "plain_entry e"
  obtains d where "loads (dumps_sorted (JObj (dset e ''entry_hash'' (JStr h)))) = Some (JObj d)"
    "map_of d ''entry_hash'' = Some (JStr h)" "JObj (without ''entry_hash'' d) = canon (JObj e)"
    "\<And>k. k \<noteq> ''entry_hash'' \<Longrightarrow> map_of d k = map_option canon (map_of e k)"
proof -
  let ?d = "dset e ''entry_hash'' (JStr h)"
  have wf: "wf_json (JObj ?d)" using assms wf_dset by (simp add: plain_entry_def del: wf_json.simps(2))
  obtain d where d: "canon (JObj ?d) = JObj d" by simp
  have m: "map_of d k = map_option canon (map_of ?d k)" for k
    by (rule map_of_canon_obj [OF wf d])
  have "canon (JObj (without ''entry_hash'' ?d)) = JObj (without ''entry_hash'' d)"
    by (rule canon_without [OF d])
  moreover have "without ''entry_hash'' ?d = e" using assms without_dset by (simp add: plain_entry_def)
  moreover have "loads (dumps_sorted (JObj ?d)) = Some (JObj d)" using loads_dumps_sorted [OF wf] d by simp
  ultimately show thesis using that [of d] m by simp
qed

lemma dumps_sorted_canon [simp]: "dumps_sorted (canon v) = dumps_sorted v"
  by (simp add: dumps_sorted_def)

lemma chained_fields [simp]:
  "map_of (chained prev now e) ''prev_hash'' = Some (JStr prev)"
  "map_of (chained prev now e) ''ts'' = Some (JStr (iso now))"
  by (simp_all add: chained_def)

lemma load_written_entry:
  assumes "plain_entry e" and "valid_time now"
  shows "\<exists>v. loads (dumps_sorted (JObj (dset (chained prev now e) ''entry_hash''
               (JStr (entry_hash_of hf (chained prev now e)))))) = Some v \<and>
         load_entry hf v al =
         (if al_prev al \<noteq> prev then None
          else Some (al\<lparr>al_prev := entry_hash_of hf (chained prev now e), al_count := al_count al + 1,
                        al_genesis := (case al_genesis al of
                            None \<Rightarrow> Some (entry_hash_of hf (chained prev now e)) | g \<Rightarrow> g),
                        al_last_ts := Some (max_ts (al_last_ts al) now)\<rparr>))"
proof -
  let ?c = "chained prev now e" and ?h = "entry_hash_of hf (chained prev now e)"
  obtain d where d: "loads (dumps_sorted (JObj (dset ?c ''entry_hash'' (JStr ?h)))) = Some (JObj d)"
    "map_of d ''entry_hash'' = Some (JStr ?h)" "JObj (without ''entry_hash'' d) = canon (JObj ?c)"
    "\<And>k. k \<noteq> ''entry_hash'' \<Longrightarrow> map_of d k = map_option canon (map_of ?c k)"
    using entry_line_loads [OF plain_chained [OF assms(1)]] by blast
  have "jget d ''prev_hash'' = JStr prev" "jget d ''ts'' = JStr (iso now)"
    using d(4) [of "''prev_hash''"] d(4) [of "''ts''"] by (simp_all add: jget_def)
  moreover have "hf (dumps_sorted (JObj (without ''entry_hash'' d))) = ?h"
    unfolding d(3) by (simp only: entry_hash_of_def dumps_sorted_canon)
  ultimately have "load_entry hf (JObj d) al =
         (if al_prev al \<noteq> prev then None
          else Some (al\<lparr>al_prev := ?h, al_count := al_count al + 1,
                        al_genesis := (case al_genesis al of None \<Rightarrow> Some ?h | g \<Rightarrow> g),
                        al_last_ts := Some (max_ts (al_last_ts al) now)\<rparr>))"
    using d(2) assms(2) by (auto simp: load_entry_def Let_def)
  with d(1) show ?thesis by blast
qed

definition in_step :: "(string \<Rightarrow> string) \<Rightarrow> audit_log \<Rightarrow> bool" where
  \<comment> \<open>a restart would find the state the broker has in memory\<close>
  "in_step hf al \<longleftrightarrow> ends_line (al_text al) \<and> load_log hf (al_file al) = Some (al\<lparr>al_ck := None\<rparr>)"

lemma load_log_extend:
  assumes "load_log hf (Some t) = Some al" and "ends_line t"
    and "CHR 0x0A \<notin> set l" "CHR 0x0D \<notin> set l" "strip l \<noteq> []" and "loads l = Some v"
  shows "load_log hf (Some (t @ l @ [CHR 0x0A])) =
         map_option (\<lambda>a. a\<lparr>al_file := Some (t @ l @ [CHR 0x0A])\<rparr>) (load_entry hf v al)"
proof -
  let ?t = "t @ l @ [CHR 0x0A]"
  have n: "new_log (Some s) = (new_log None)\<lparr>al_file := Some s\<rparr>" for s by (simp add: new_log_def)
  from assms(1) obtain a where a: "load_entries hf (lines_of t) (new_log None) = Some a" "al = a\<lparr>al_file := Some t\<rparr>"
    by (auto simp: load_log_def n load_entries_file)
  have "load_log hf (Some ?t) = map_option (\<lambda>a. a\<lparr>al_file := Some ?t\<rparr>) (load_entries hf [l] a)"
    using a(1) lines_of_written(1) [OF assms(2-5)]
    by (simp add: load_log_def n load_entries_file load_entries_append)
  also have "\<dots> = map_option (\<lambda>a. a\<lparr>al_file := Some ?t\<rparr>) (load_entry hf v al)"
    using assms(6) by (cases "load_entry hf v a") (simp_all add: a(2) load_entry_file)
  finally show ?thesis .
qed

lemma in_step_text:
  assumes "in_step hf al"
  shows "load_log hf (Some (al_text al)) = Some (al\<lparr>al_ck := None, al_file := Some (al_text al)\<rparr>)"
proof (cases "al_file al")
  case None
  then have "al\<lparr>al_ck := None\<rparr> = new_log None"
    using assms by (simp add: in_step_def load_log_def)
  then have "al\<lparr>al_ck := None, al_file := Some []\<rparr> = new_log (Some [])"
    using arg_cong [of _ _ "\<lambda>a. a\<lparr>al_file := Some []\<rparr>"] by (simp add: new_log_def)
  then show ?thesis by (simp add: al_text_def None load_log_def)
next
  case (Some t)
  then have "al\<lparr>al_ck := None\<rparr> = al\<lparr>al_ck := None, al_file := Some (al_text al)\<rparr>"
    by (cases al) (simp add: al_text_def)
  with assms Some show ?thesis by (simp add: in_step_def al_text_def)
qed

abbreviation signed_line :: "(string \<Rightarrow> string) \<Rightarrow> jobj \<Rightarrow> string" where
  "signed_line hf e \<equiv> dumps_sorted (JObj (dset e ''entry_hash'' (JStr (entry_hash_of hf e))))"

lemma signed_line_shape:
  "CHR 0x0A \<notin> set (signed_line hf e)" "CHR 0x0D \<notin> set (signed_line hf e)" "strip (signed_line hf e) \<noteq> []"
  by (rule dumps_sorted_line, rule dumps_sorted_line) (simp add: dumps_sorted_def dumps_obj_nonblank)

lemma load_after_write:
  assumes "load_log hf (Some t) = Some al" and "ends_line t" and "plain_entry e" and "valid_time now"
  shows "load_log hf (Some (t @ entry_line hf (chained prev now e))) =
         (if al_prev al \<noteq> prev then None
          else Some (al\<lparr>al_file := Some (t @ entry_line hf (chained prev now e)),
                        al_prev := entry_hash_of hf (chained prev now e), al_count := al_count al + 1,
                        al_genesis := (case al_genesis al of
                            None \<Rightarrow> Some (entry_hash_of hf (chained prev now e)) | g \<Rightarrow> g),
                        al_last_ts := Some (max_ts (al_last_ts al) now)\<rparr>))"
proof -
  let ?e = "chained prev now e"
  obtain v where v: "loads (signed_line hf ?e) = Some v" and
    l: "load_entry hf v al = (if al_prev al \<noteq> prev then None
          else Some (al\<lparr>al_prev := entry_hash_of hf ?e, al_count := al_count al + 1,
                        al_genesis := (case al_genesis al of None \<Rightarrow> Some (entry_hash_of hf ?e) | g \<Rightarrow> g),
                        al_last_ts := Some (max_ts (al_last_ts al) now)\<rparr>))"
    using load_written_entry [OF assms(3,4)] by blast
  have "load_log hf (Some (t @ signed_line hf ?e @ [CHR 0x0A])) =
      map_option (\<lambda>a. a\<lparr>al_file := Some (t @ signed_line hf ?e @ [CHR 0x0A])\<rparr>) (load_entry hf v al)"
    by (rule load_log_extend [OF assms(1,2) signed_line_shape v])
  then show ?thesis by (simp add: l entry_line_def)
qed

lemma ends_line_written: "ends_line t \<Longrightarrow> ends_line (t @ entry_line hf e)"
  unfolding entry_line_def by (rule lines_of_written(2) [OF _ signed_line_shape])

lemma write_ok_in_step:
  assumes "in_step hf al" and "plain_entry e" and "valid_time now"
  shows "in_step hf (snd (write_line hf WriteOk now e al))"
proof -
  let ?al = "snd (write_line hf WriteOk now e al)"
  have f: "al_file ?al = Some (al_text al @ entry_line hf (chained (al_prev al) now e))"
    by (simp add: write_line_def Let_def)
  then have "load_log hf (al_file ?al) = Some (?al\<lparr>al_ck := None\<rparr>)"
    using load_after_write [OF in_step_text [OF assms(1)] _ assms(2,3), of "al_prev al"] assms(1)
    by (simp add: write_line_def Let_def in_step_def)
  moreover have "ends_line (al_text ?al)"
    using ends_line_written [of "al_text al"] assms(1) f by (simp add: al_text_def in_step_def)
  ultimately show ?thesis by (simp add: in_step_def)
qed

lemma in_step_ck [simp]: "in_step hf (al\<lparr>al_ck := ck\<rparr>) = in_step hf al"
  by (simp add: in_step_def al_text_def)

lemma plain_checkpoint_failed [simp]: "plain_entry (checkpoint_failed err n)"
  by (simp add: plain_entry_def checkpoint_failed_def)

definition faultless :: "append_env \<Rightarrow> bool" where
  \<comment> \<open>the disk takes the log's writes; the sink may fail\<close>
  "faultless env \<longleftrightarrow> ae_fault env = WriteOk \<and> ae_fault2 env = WriteOk \<and>
                   valid_time (ae_now env) \<and> valid_time (ae_now2 env)"

lemma run_checkpoint_in_step:
  assumes "in_step (sha cr) al" and "faultless env"
  shows "fst (run_checkpoint cr env force al) \<and> in_step (sha cr) (snd (run_checkpoint cr env force al))"
proof (cases "al_ck al")
  case (Some ck)
  show ?thesis
  proof (cases "al_genesis al")
    case (Some g)
    obtain r ck' where m: "maybe_publish cr (ae_sink env) g (al_count al) (al_prev al) force ck = (r, ck')"
      by fastforce
    show ?thesis
    proof (cases r)
      case (Some err)
      have "in_step (sha cr) (snd (write_line (sha cr) WriteOk (ae_now2 env)
              (checkpoint_failed err (al_count al)) (al\<lparr>al_ck := Some ck'\<rparr>)))"
        by (rule write_ok_in_step) (use assms in \<open>simp_all add: faultless_def\<close>)
      then show ?thesis
        using \<open>al_ck al = Some ck\<close> \<open>al_genesis al = Some g\<close> m Some assms(2)
        by (simp add: run_checkpoint_def faultless_def) (simp add: write_line_def Let_def)
    qed (use assms m \<open>al_ck al = Some ck\<close> Some in \<open>simp add: run_checkpoint_def\<close>)
  qed (use assms Some in \<open>simp add: run_checkpoint_def\<close>)
qed (use assms in \<open>simp add: run_checkpoint_def\<close>)

lemma faultless_append: "faultless env \<Longrightarrow> fst (log_append cr env e al)"
  by (auto simp: faultless_def log_append_def write_line_def run_checkpoint_def Let_def split: option.split prod.split)

lemma append_in_step:
  assumes "in_step (sha cr) al" and "plain_entry e" and "faultless env"
  shows "fst (log_append cr env e al) \<and> in_step (sha cr) (snd (log_append cr env e al))"
proof -
  obtain ok al1 where w: "write_line (sha cr) WriteOk (ae_now env) e al = (ok, al1)" by fastforce
  then have ok by (auto simp: write_line_def Let_def)
  moreover have "in_step (sha cr) al1"
    using write_ok_in_step [OF assms(1,2), of "ae_now env"] assms(3) w by (simp add: faultless_def)
  moreover have "write_line (sha cr) (ae_fault env) (ae_now env) e al = (ok, al1)"
    using assms(3) w by (simp add: faultless_def)
  ultimately show ?thesis
    using run_checkpoint_in_step [OF _ assms(3)] by (simp add: log_append_def)
qed

fun run_log :: "crypto \<Rightarrow> (append_env \<times> jobj) list \<Rightarrow> audit_log \<Rightarrow> audit_log" where
  \<comment> \<open>a sequence of calls of \<open>append\<close>\<close>
  "run_log cr [] al = al"
| "run_log cr ((env, e) # steps) al = run_log cr steps (snd (log_append cr env e al))"

section \<open>The two readings of a log agree\<close>

lemma links_iff:
  "(\<exists>h. links hf v p h) \<longleftrightarrow>
   (\<exists>d. v = JObj d \<and> jget d ''prev_hash'' = JStr p \<and>
        JStr (hf (dumps_sorted (JObj (without ''entry_hash'' d)))) = jget d ''entry_hash'')"
  by (auto simp: links_def jget_typed [symmetric])

lemma load_entries_iff:
  "(\<exists>al'. load_entries hf ls al = Some al') \<longleftrightarrow>
   (\<exists>es. parse_lines ls = Some es \<and> chain_check hf n (JStr (al_prev al)) es = Some []) \<and>
   list_all (\<lambda>l. case loads l of Some v \<Rightarrow> ts_reads v | None \<Rightarrow> False) ls"
proof (induction ls arbitrary: al n)
  case (Cons l ls)
  show ?case
  proof (cases "loads l")
    case (Some v)
    show ?thesis
    proof (cases "load_entry hf v al")
      case None
      then have "\<not> ((\<exists>h. links hf v (al_prev al) h) \<and> ts_reads v)"
        using load_entry_iff [of hf v al] by simp
      then show ?thesis
        using Some None by (cases v) (auto simp: links_iff Let_def)
    next
      case (Some al1)
      then have l: "links hf v (al_prev al) (al_prev al1)" "ts_reads v"
        using load_entry_links load_entry_iff [of hf v al] by auto
      then obtain d where d: "v = JObj d" "jget d ''entry_hash'' = JStr (al_prev al1)" "jget d ''prev_hash'' = JStr (al_prev al)"
        "hf (dumps_sorted (JObj (without ''entry_hash'' d))) = al_prev al1"
        by (auto simp: links_def jget_typed)
      show ?thesis
        using \<open>loads l = Some v\<close> Some l(2) d Cons.IH [of al1 "Suc n"] by (auto simp: Let_def)
    qed
  qed simp
qed simp

section \<open>The entries of an extended log\<close>

lemma parse_lines_append:
  "parse_lines (xs @ ys) = (case parse_lines xs of None \<Rightarrow> None | Some vs \<Rightarrow> map_option (\<lambda>ws. vs @ ws) (parse_lines ys))"
  by (induction xs) (cases "parse_lines ys"; auto split: option.split)+

lemma lines_of_more:
  assumes "ends_line t"
  shows "lines_of (t @ later) = lines_of t @ lines_of later"
proof -
  have nl: "CHR 0x0D \<notin> set t \<Longrightarrow> universal_newlines (t @ later) = t @ universal_newlines later"
  proof (induction t)
    case (Cons c t)
    then show ?case by (cases "t @ later") auto
  qed simp
  show ?thesis
  proof (cases "t = []")
    case False
    then obtain u where "t = u @ [CHR 0x0A]" using assms by (auto simp: ends_line_def)
    then show ?thesis
      using assms nl by (simp add: lines_of_def ends_line_def universal_newlines_id split_on_append strip_def)
  qed (simp add: lines_of_def strip_def)
qed

lemma log_entries_more:
  assumes "ends_line t" and "log_entries t = Some vs"
  shows "log_entries (t @ later) = map_option (\<lambda>ws. vs @ ws) (log_entries later)"
  using assms by (simp add: log_entries_def lines_of_more parse_lines_append)

lemma load_entry_ck: "load_entry hf v al = Some al' \<Longrightarrow> al_ck al' = al_ck al \<and> al_file al' = al_file al"
  by (auto simp: load_entry_def Let_def split: json.splits option.splits if_splits)

lemma load_entries_ck: "load_entries hf ls al = Some al' \<Longrightarrow> al_ck al' = al_ck al \<and> al_file al' = al_file al"
proof (induction ls arbitrary: al)
  case (Cons l ls)
  then show ?case by (auto split: option.splits if_splits dest!: load_entry_ck)
qed simp

lemma loaded_in_step:
  assumes "load_log hf f = Some al" and "ends_line (case f of None \<Rightarrow> [] | Some t \<Rightarrow> t)"
  shows "in_step hf al"
proof -
  have "al_file al = f \<and> al_ck al = None"
    using assms(1) load_entries_ck by (auto simp: load_log_def new_log_def split: option.splits)
  then show ?thesis using assms by (cases al) (simp add: in_step_def al_text_def)
qed

lemma load_entries_heads:
  "load_entries hf ls al = Some al' \<Longrightarrow>
   \<exists>vs. parse_lines ls = Some vs \<and> al_count al' = al_count al + length vs \<and>
     (vs \<noteq> [] \<longrightarrow> item (last vs) ''entry_hash'' = Some (JStr (al_prev al'))) \<and>
     (al_genesis al \<noteq> None \<longrightarrow> al_genesis al' = al_genesis al) \<and>
     (al_genesis al = None \<longrightarrow> vs \<noteq> [] \<longrightarrow> (\<exists>g. al_genesis al' = Some g \<and> item (hd vs) ''entry_hash'' = Some (JStr g)))"
proof (induction ls arbitrary: al)
  case (Cons l ls)
  obtain v where v: "loads l = Some v" using Cons.prems by (cases "loads l") auto
  obtain al1 where al1: "load_entry hf v al = Some al1" "load_entries hf ls al1 = Some al'"
    using Cons.prems v by (cases "load_entry hf v al") auto
  have one: "item v ''entry_hash'' = Some (JStr (al_prev al1)) \<and> al_count al1 = al_count al + 1 \<and>
      al_genesis al1 = (case al_genesis al of None \<Rightarrow> Some (al_prev al1) | g \<Rightarrow> g)"
    using al1(1) by (auto simp: load_entry_def Let_def split: json.splits option.splits if_splits)
  from Cons.IH [OF al1(2)] obtain vs where vs: "parse_lines ls = Some vs" "al_count al' = al_count al1 + length vs"
    "vs \<noteq> [] \<longrightarrow> item (last vs) ''entry_hash'' = Some (JStr (al_prev al'))" "al_genesis al' = al_genesis al1"
    using one by (auto split: option.splits)
  have "vs = [] \<Longrightarrow> al_prev al' = al_prev al1" using al1(2) vs(1) by (cases ls) (auto split: option.splits)
  then show ?case
    using one vs v by (intro exI [of _ "v # vs"]) (auto split: option.splits)
qed simp

lemma in_step_heads:
  assumes "in_step hf al"
  shows "\<exists>vs. log_entries (al_text al) = Some vs \<and> al_count al = length vs \<and>
    (vs \<noteq> [] \<longrightarrow> item (last vs) ''entry_hash'' = Some (JStr (al_prev al)) \<and>
      (\<exists>g. al_genesis al = Some g \<and> item (hd vs) ''entry_hash'' = Some (JStr g)))"
proof -
  have "load_entries hf (lines_of (al_text al)) (new_log (Some (al_text al))) = Some (al\<lparr>al_ck := None, al_file := Some (al_text al)\<rparr>)"
    using in_step_text [OF assms] by (simp add: load_log_def)
  from load_entries_heads [OF this] show ?thesis by (auto simp: log_entries_def new_log_def)
qed

section \<open>A checked log extends its checkpoints\<close>

lemma linked_take:
  "linked hf body prev p es h \<Longrightarrow> 0 < n \<Longrightarrow> n \<le> length es \<Longrightarrow>
   linked hf body prev p (take n es) (hf (body (es ! (n - 1))))"
proof (induction es arbitrary: p n)
  case (Cons e es)
  obtain m where n: "n = Suc m" using Cons.prems(2) by (cases n) auto
  show ?case
  proof (cases m)
    case 0
    then show ?thesis using Cons.prems(1) by (simp add: n)
  next
    case (Suc k)
    with Cons.IH [of "hf (body e)" m] Cons.prems show ?thesis by (simp add: n)
  qed
qed simp

lemma loaded_entries:
  assumes "load_log hf (Some text) = Some al"
  obtains vs where "log_entries text = Some vs" "list_all canonical (map entry_body vs)"
    "linked hf dumps_sorted entry_prev zeros (map entry_body vs) (al_prev al)" "al_count al = length vs"
    "log_bodies text = map (Some \<circ> entry_body) vs"
    "\<And>v. v \<in> set vs \<Longrightarrow> item v ''entry_hash'' = Some (JStr (hf (dumps_sorted (entry_body v))))"
proof -
  have "load_entries hf ls a = Some al \<Longrightarrow>
    \<exists>vs. parse_lines ls = Some vs \<and> map (map_option entry_body \<circ> loads) ls = map (Some \<circ> entry_body) vs \<and>
      (\<forall>v\<in>set vs. item v ''entry_hash'' = Some (JStr (hf (dumps_sorted (entry_body v)))))" for ls a
  proof (induction ls arbitrary: a)
    case (Cons l ls)
    obtain v where v: "loads l = Some v" using Cons.prems by (cases "loads l") auto
    obtain a1 where a1: "load_entry hf v a = Some a1" "load_entries hf ls a1 = Some al"
      using Cons.prems v by (cases "load_entry hf v a") auto
    have l: "links hf v (al_prev a) (al_prev a1)" using load_entry_links [OF a1(1)] by simp
    then have "item v ''entry_hash'' = Some (JStr (al_prev a1))" by (auto simp: links_def)
    moreover have "hf (dumps_sorted (entry_body v)) = al_prev a1" using links_body [OF l loads_wf [OF v]] by simp
    ultimately show ?case using Cons.IH [OF a1(2)] v by auto
  qed simp
  moreover have "load_entries hf (lines_of text) (new_log (Some text)) = Some al"
    using assms by (simp add: load_log_def)
  ultimately obtain vs where vs: "parse_lines (lines_of text) = Some vs"
    "log_bodies text = map (Some \<circ> entry_body) vs"
    "\<And>v. v \<in> set vs \<Longrightarrow> item v ''entry_hash'' = Some (JStr (hf (dumps_sorted (entry_body v))))"
    unfolding log_bodies_def by blast
  obtain es where es: "log_bodies text = map Some es" "list_all canonical es"
    "linked hf dumps_sorted entry_prev zeros es (al_prev al)" "al_count al = length es"
    using assms by (rule load_log_linked)
  have "map Some es = map Some (map entry_body vs)" using vs(2) es(1) by (simp add: comp_def)
  then have e: "es = map entry_body vs" by (simp only: inj_map_eq_map [OF inj_Some])
  show thesis
    by (rule that [of vs]) (use vs es in \<open>simp_all add: e log_entries_def del: wf_json.simps\<close>)
qed

lemma check_each_fine:
  "check_each cr r es g cps = Some ([], c) \<Longrightarrow> cp \<in> set cps \<Longrightarrow> \<exists>n. check_one cr r es g cp = Some (Inr n)"
proof (induction cps arbitrary: c)
  case (Cons cp' cps)
  obtain x where x: "check_one cr r es g cp' = Some x" using Cons.prems(1) by (auto split: option.splits)
  obtain n where n: "x = Inr n" using Cons.prems(1) x by (cases x) (auto split: option.splits prod.splits)
  obtain fs c' where c: "check_each cr r es g cps = Some (fs, c')"
    using Cons.prems(1) x n by (auto split: option.splits)
  then have "fs = []" using Cons.prems(1) x n by simp
  with Cons.IH c Cons.prems(2) x n show ?case by auto
qed simp

lemma check_one_fine:
  assumes "check_one cr r es g (JObj d) = Some (Inr m)"
    and "map_of d ''count'' = Some (JNum (int n))" and "map_of d ''head'' = Some (JStr h)" and "0 < n"
  shows "n \<le> length es \<and> item (es ! (n - 1)) ''entry_hash'' = Some (JStr h)"
proof -
  have c: "jget d ''count'' = JNum (int n)" "jget d ''head'' = JStr h" using assms(2,3) by (simp_all add: jget_def)
  have "verify_checkpoint cr r (JObj d) = None"
    using assms(1) by (auto simp: check_one_def split: option.splits)
  with assms(1) have len: "n \<le> length es"
    by (auto simp: check_one_def c split: if_splits)
  then have "py_index es (int n - 1) = Some (es ! (n - 1))"
    using assms(4) by (auto simp: py_index_def Let_def nat_diff_distrib)
  with assms(1) len \<open>verify_checkpoint cr r (JObj d) = None\<close> show ?thesis
    by (auto simp: check_one_def c split: if_splits option.splits)
qed

lemma make_checkpoint_fields:
  assumes "make_checkpoint cr t r = Some d" and "log_entries t = Some vs"
    and "\<And>v. v \<in> set vs \<Longrightarrow> item v ''entry_hash'' = Some (JStr (f v))"
  shows "vs \<noteq> [] \<and> map_of d ''count'' = Some (JNum (int (length vs))) \<and>
         map_of d ''head'' = Some (JStr (f (last vs)))"
proof -
  have ne: "vs \<noteq> []" using assms(1,2) by (auto simp: make_checkpoint_def)
  then have "item (hd vs) ''entry_hash'' = Some (JStr (f (hd vs)))"
    "item (last vs) ''entry_hash'' = Some (JStr (f (last vs)))"
    using assms(3) by simp_all
  with ne assms(1,2) show ?thesis by (auto simp: make_checkpoint_def sign_checkpoint_def)
qed

lemma check_log_fine:
  assumes "check_log cr r t cps = Some rep" and "cr_findings rep = []" and "log_entries t = Some vs" and "cp \<in> set cps"
  shows "\<exists>g n. check_one cr r vs g cp = Some (Inr n)"
proof -
  obtain g fs c where "check_each cr r vs g cps = Some (fs, c)" "fs = []"
    using assms(1-3) by (auto simp: check_log_def split: option.splits if_splits prod.splits)
  with check_each_fine [of cr r vs g cps c cp] assms(4) show ?thesis by auto
qed

section \<open>Properties\<close>

definition demo_hash :: "string \<Rightarrow> string" where
  \<comment> \<open>an instance of the hash function, for the witnesses\<close>
  "demo_hash s = to_hex s"

definition demo_env :: append_env where
  "demo_env = \<lparr>ae_now = 0, ae_fault = WriteOk, ae_sink = SinkOk, ae_now2 = 0, ae_fault2 = WriteOk\<rparr>"

lemma valid_time_0 [simp]: "valid_time 0"
  by (simp add: valid_time_def year_of.simps year_days_def leap_def)

lemma in_step_new [simp]: "in_step hf (new_log None)"
  by (simp add: in_step_def ends_line_def al_text_def load_log_def) (simp add: new_log_def)

text \<open>Whatever the broker appends, a restart finds what the broker had in memory: after any
  sequence of appends to a log that was in step with its file, loading the file succeeds and gives
  the same head, count, first hash and last time stamp, also when publishing checkpoints failed in
  between and was recorded.\<close>

theorem appended_log_reloads:
  assumes "in_step (sha cr) al" and "list_all (\<lambda>(env, e). faultless env \<and> plain_entry e) steps"
  shows "load_log (sha cr) (al_file (run_log cr steps al)) = Some ((run_log cr steps al)\<lparr>al_ck := None\<rparr>)"
proof -
  have "in_step (sha cr) (run_log cr steps al)"
    using assms
  proof (induction cr steps al rule: run_log.induct)
    case (2 cr env e steps al)
    then show ?case using append_in_step [of cr al e env] by simp
  qed simp
  then show ?thesis by (simp add: in_step_def)
qed

theorem appended_log_reloads_witness:
  "\<exists>al. al = run_log demo_crypto [(demo_env, [(''event'', JStr ''start'')]), (demo_env, [(''event'', JStr ''stop'')])] (new_log None) \<and>
     al_count al = 2 \<and> load_log (sha demo_crypto) (al_file al) = Some (al\<lparr>al_ck := None\<rparr>)"
proof -
  let ?steps = "[(demo_env, [(''event'', JStr ''start'')]), (demo_env, [(''event'', JStr ''stop'')])]"
  have "list_all (\<lambda>(env, e). faultless env \<and> plain_entry e) ?steps"
    by (simp add: faultless_def demo_env_def plain_entry_def)
  with appended_log_reloads [OF in_step_new, where cr = demo_crypto and steps = ?steps] show ?thesis
    by (simp add: log_append_def write_line_def run_checkpoint_def demo_env_def new_log_def Let_def)
qed

text \<open>C17: The chain is tamper evident: two log files that both load and end with the same count and
  head hash have the same content in every entry, or exhibit a collision of the hash function.\<close>

theorem same_head_same_content:
  assumes "load_log hf (Some t) = Some al" and "load_log hf (Some t') = Some al'"
    and "al_count al = al_count al'" and "al_prev al = al_prev al'"
  shows "log_bodies t = log_bodies t' \<or> (\<exists>x y. x \<noteq> y \<and> hf x = hf y)"
proof -
  obtain es where es: "log_bodies t = map Some es" "list_all canonical es"
    "linked hf dumps_sorted entry_prev zeros es (al_prev al)" "al_count al = length es"
    using assms(1) by (rule load_log_linked)
  obtain es' where es': "log_bodies t' = map Some es'" "list_all canonical es'"
    "linked hf dumps_sorted entry_prev zeros es' (al_prev al')" "al_count al' = length es'"
    using assms(2) by (rule load_log_linked)
  have "es = es' \<or> collision hf"
    by (rule log_chain.same_head_same_log [OF _ es(2) es'(2) es(3)]) (use es es' assms in simp_all)
  then show ?thesis by (auto simp: es(1) es'(1) collision_def)
qed

theorem same_head_same_content_witness:
  "\<exists>al. load_log demo_hash (Some []) = Some al \<and> al_prev al = zeros \<and>
        (log_bodies [] = log_bodies [CHR 0x0A] \<or> (\<exists>x y. x \<noteq> y \<and> demo_hash x = demo_hash y))"
proof -
  have blank: "lines_of [CHR 0x0A] = []" using lines_of_append [of "[]" "[]"] by simp
  have "load_log demo_hash (Some []) = Some (new_log (Some []))"
    "load_log demo_hash (Some [CHR 0x0A]) = Some (new_log (Some [CHR 0x0A]))"
    by (simp_all add: load_log_def blank)
  from same_head_same_content [OF this] show ?thesis by (simp add: load_log_def new_log_def)
qed

text \<open>A record whose line reaches the file but whose \<open>fsync\<close> fails is not counted by the running
  broker, which goes on to chain the next record to the one before. The file then no longer
  loads: after one failed \<open>fsync\<close> and one further record the broker refuses to start again,
  although nobody tampered with the log.\<close>

theorem fsync_failure_breaks_chain:
  assumes "in_step hf al" and "plain_entry e" and "plain_entry e'" and "valid_time now" and "valid_time now'"
    and "write_line hf SyncFails now e al = (False, al1)" and "write_line hf WriteOk now' e' al1 = (True, al2)"
    and "entry_hash_of hf (chained (al_prev al) now e) \<noteq> al_prev al"
  shows "load_log hf (al_file al2) = None"
proof -
  let ?t = "al_text al @ entry_line hf (chained (al_prev al) now e)"
  have al1: "al_file al1 = Some ?t" "al_prev al1 = al_prev al"
    using assms(6) by (auto simp: write_line_def Let_def)
  have e: "ends_line (al_text al)" using assms(1) by (simp add: in_step_def)
  obtain al3 where al3: "load_log hf (Some ?t) = Some al3" "al_prev al3 = entry_hash_of hf (chained (al_prev al) now e)"
    using load_after_write [OF in_step_text [OF assms(1)] e assms(2,4), of "al_prev al"] by simp
  have "al_file al2 = Some (?t @ entry_line hf (chained (al_prev al) now' e'))"
    using assms(7) al1 by (auto simp: write_line_def Let_def al_text_def)
  moreover have "load_log hf (Some (?t @ entry_line hf (chained (al_prev al) now' e'))) = None"
    using load_after_write [OF al3(1) ends_line_written [OF e] assms(3,5), of "al_prev al"] al3(2) assms(8) by simp
  ultimately show ?thesis by simp
qed

theorem fsync_failure_breaks_chain_witness:
  "\<exists>al1 al2. write_line demo_hash SyncFails 0 [(''event'', JStr ''decision'')] (new_log None) = (False, al1) \<and>
     write_line demo_hash WriteOk 0 [(''event'', JStr ''decision'')] al1 = (True, al2) \<and>
     load_log demo_hash (al_file al2) = None"
proof -
  let ?e = "[(''event'', JStr ''decision'')]"
  obtain al1 where al1: "write_line demo_hash SyncFails 0 ?e (new_log None) = (False, al1)"
    by (simp add: write_line_def Let_def)
  obtain al2 where al2: "write_line demo_hash WriteOk 0 ?e al1 = (True, al2)"
    by (simp add: write_line_def Let_def)
  have p: "plain_entry ?e" by (simp add: plain_entry_def)
  have "hd (entry_hash_of demo_hash d) = CHR ''7''" for d
    by (simp add: entry_hash_of_def demo_hash_def dumps_sorted_def dumps.simps hex_digit_def)
  then have "entry_hash_of demo_hash (chained (al_prev (new_log None)) 0 ?e) \<noteq> al_prev (new_log None)"
    by (intro notI) (drule arg_cong [where f = hd], simp add: new_log_def zeros_def hd_replicate)
  from fsync_failure_breaks_chain [OF in_step_new p p valid_time_0 valid_time_0 al1 al2 this] al1 al2
  show ?thesis by blast
qed

text \<open>C31: A log that passes both checks extends what was checkpointed: if a checkpoint was made of a
  log, and the log shown later opens (its chain holds) and \<open>check_log\<close> finds nothing against a
  list containing that checkpoint, then the later log starts with exactly the entries of the
  earlier one, or exhibits a collision of the hash function.\<close>

theorem checked_log_extends_checkpoint:
  assumes "load_log (sha cr) (Some t0) = Some al0" and "make_checkpoint cr t0 r = Some d"
    and "load_log (sha cr) (Some t) = Some al"
    and "check_log cr r' t cps = Some rep" and "cr_findings rep = []" and "JObj d \<in> set cps"
  shows "take (length (log_bodies t0)) (log_bodies t) = log_bodies t0 \<or> (\<exists>x y. x \<noteq> y \<and> sha cr x = sha cr y)"
proof -
  obtain vs0 where vs0: "log_entries t0 = Some vs0" "list_all canonical (map entry_body vs0)"
    "linked (sha cr) dumps_sorted entry_prev zeros (map entry_body vs0) (al_prev al0)"
    "log_bodies t0 = map (Some \<circ> entry_body) vs0"
    "\<And>v. v \<in> set vs0 \<Longrightarrow> item v ''entry_hash'' = Some (JStr (sha cr (dumps_sorted (entry_body v))))"
    using assms(1) by (rule loaded_entries) blast
  obtain vs where vs: "log_entries t = Some vs" "list_all canonical (map entry_body vs)"
    "linked (sha cr) dumps_sorted entry_prev zeros (map entry_body vs) (al_prev al)"
    "log_bodies t = map (Some \<circ> entry_body) vs"
    "\<And>v. v \<in> set vs \<Longrightarrow> item v ''entry_hash'' = Some (JStr (sha cr (dumps_sorted (entry_body v))))"
    using assms(3) by (rule loaded_entries) blast
  let ?n = "length vs0" and ?h = "sha cr (dumps_sorted (entry_body (last vs0)))"
  have d: "vs0 \<noteq> []" "map_of d ''count'' = Some (JNum (int ?n))" "map_of d ''head'' = Some (JStr ?h)"
    using make_checkpoint_fields [OF assms(2) vs0(1), of "\<lambda>v. sha cr (dumps_sorted (entry_body v))"] vs0(5) by auto
  obtain g m where "check_one cr r' vs g (JObj d) = Some (Inr m)"
    using check_log_fine [OF assms(4,5) vs(1) assms(6)] by blast
  from check_one_fine [OF this d(2,3)] d(1)
  have n: "?n \<le> length vs" "item (vs ! (?n - 1)) ''entry_hash'' = Some (JStr ?h)" by simp_all
  have lt: "?n - 1 < length vs" using d(1) n(1) by (cases vs0) auto
  with n have "sha cr (dumps_sorted (entry_body (vs ! (?n - 1)))) = ?h"
    using vs(5) [OF nth_mem, of "?n - 1"] d(1) by (cases vs0) auto
  then have "linked (sha cr) dumps_sorted entry_prev zeros (take ?n (map entry_body vs)) ?h"
    using linked_take [OF vs(3), of ?n] d(1) n(1) lt by simp
  moreover have "linked (sha cr) dumps_sorted entry_prev zeros (map entry_body vs0) ?h"
    using linked_take [OF vs0(3), of ?n] d(1) by (simp add: last_conv_nth)
  ultimately have "take ?n (map entry_body vs) = map entry_body vs0 \<or> collision (sha cr)"
    using log_chain.prefix_of_longer [OF vs0(2) vs(2)] n(1) by simp
  then show ?thesis
  proof
    assume "take ?n (map entry_body vs) = map entry_body vs0"
    then have "map Some (take ?n (map entry_body vs)) = map Some (map entry_body vs0)" by simp
    then have "take ?n (map (Some \<circ> entry_body) vs) = map (Some \<circ> entry_body) vs0"
      by (simp add: take_map comp_def)
    then show ?thesis by (simp add: vs0(4) vs(4))
  qed (auto simp: collision_def)
qed

definition demo_log :: string where
  "demo_log = al_text (snd (write_line (sha demo_crypto) WriteOk 0 [(''event'', JStr ''start'')] (new_log None)))"

lemma demo_log_loads: "\<exists>al. load_log (sha demo_crypto) (Some demo_log) = Some al \<and> al_count al = 1"
proof -
  let ?al = "snd (write_line (sha demo_crypto) WriteOk 0 [(''event'', JStr ''start'')] (new_log None))"
  have "in_step (sha demo_crypto) ?al"
    by (rule write_ok_in_step) (simp_all add: plain_entry_def)
  moreover have "al_count ?al = 1" by (simp add: write_line_def Let_def new_log_def)
  ultimately show ?thesis using in_step_text [of "sha demo_crypto" ?al] by (simp add: demo_log_def)
qed

lemma make_checkpoint_exists:
  assumes "can_sign r" and "load_log (sha cr) (Some t) = Some al" and "al_count al \<noteq> 0"
  shows "\<exists>d. make_checkpoint cr t r = Some d"
proof -
  obtain vs where vs: "log_entries t = Some vs" "al_count al = length vs"
    "\<And>v. v \<in> set vs \<Longrightarrow> item v ''entry_hash'' = Some (JStr (sha cr (dumps_sorted (entry_body v))))"
    using assms(2) by (rule loaded_entries) blast
  then have "vs \<noteq> []" using assms(3) by auto
  then show ?thesis using vs assms(1) by (auto simp: make_checkpoint_def sign_checkpoint_def can_sign_def)
qed

lemma fresh_checkpoint_checks:
  assumes "ed25519 cr" and "wf_ring cr r" and "can_sign r"
    and "load_log (sha cr) (Some t) = Some al" and "make_checkpoint cr t r = Some d"
  shows "check_log cr (public_only r) t [JObj d] =
         Some \<lparr>cr_findings = [], cr_covered = int (al_count al), cr_entries = al_count al\<rparr>"
proof -
  obtain vs where vs: "log_entries t = Some vs" "al_count al = length vs"
    "\<And>v. v \<in> set vs \<Longrightarrow> item v ''entry_hash'' = Some (JStr (sha cr (dumps_sorted (entry_body v))))"
    using assms(4) by (rule loaded_entries) blast
  let ?f = "\<lambda>v. sha cr (dumps_sorted (entry_body v))"
  have ne: "vs \<noteq> []" using make_checkpoint_fields [OF assms(5) vs(1) vs(3)] by blast
  obtain seed where seed: "priv_key r = Some seed" "active r = Some (key_id cr (ed_pub cr seed))"
    "map_of (publics r) (key_id cr (ed_pub cr seed)) = Some (ed_pub cr seed)"
    using wf_ring_signer [OF assms(2,3)] by blast
  have h: "item (hd vs) ''entry_hash'' = Some (JStr (?f (hd vs)))" "item (last vs) ''entry_hash'' = Some (JStr (?f (last vs)))"
    using vs(3) ne by simp_all
  have d: "d = [(''v'', JNum 1), (''genesis'', JStr (?f (hd vs))), (''count'', JNum (int (length vs))),
      (''head'', JStr (?f (last vs))), (''kid'', JStr (key_id cr (ed_pub cr seed))),
      (''sig'', JStr (to_hex (ed_sign cr seed (checkpoint_message (?f (hd vs)) (int (length vs)) (?f (last vs))))))]"
    using assms(5) ne h by (simp add: make_checkpoint_def vs(1) sign_checkpoint_def seed)
  have "verify_checkpoint cr (public_only r) (JObj d) = None"
    using assms(1) seed(3) by (simp add: verify_checkpoint_def check_signature_def checkpoint_text_def d ed25519_def)
  moreover have "py_index vs (int (length vs) - 1) = Some (last vs)"
    using ne by (cases vs rule: rev_cases) (simp_all add: py_index_def)
  ultimately have "check_one cr (public_only r) vs (Some (JStr (?f (hd vs)))) (JObj d) = Some (Inr (int (length vs)))"
    by (simp add: check_one_def) (simp add: d h)
  then show ?thesis using ne by (simp add: check_log_def vs(1,2) h)
qed

theorem checked_log_extends_checkpoint_witness:
  "\<exists>d rep. make_checkpoint demo_crypto demo_log demo_ring = Some d \<and>
     check_log demo_crypto (public_only demo_ring) demo_log [JObj d] = Some rep \<and> cr_findings rep = [] \<and>
     (take (length (log_bodies demo_log)) (log_bodies demo_log) = log_bodies demo_log \<or>
      (\<exists>x y. x \<noteq> y \<and> sha demo_crypto x = sha demo_crypto y))"
proof -
  obtain al where al: "load_log (sha demo_crypto) (Some demo_log) = Some al" "al_count al = 1"
    using demo_log_loads by blast
  obtain d where d: "make_checkpoint demo_crypto demo_log demo_ring = Some d"
    using make_checkpoint_exists [OF demo_ring_simps(2) al(1)] al(2) by auto
  have c: "check_log demo_crypto (public_only demo_ring) demo_log [JObj d] =
      Some \<lparr>cr_findings = [], cr_covered = int (al_count al), cr_entries = al_count al\<rparr>"
    by (rule fresh_checkpoint_checks [OF demo_crypto_ed25519 demo_ring_simps(1,2) al(1) d])
  from checked_log_extends_checkpoint [OF al(1) d al(1) c] c d show ?thesis by simp
qed

lemma index_item:
  "(case py_index es i of None \<Rightarrow> None | Some e \<Rightarrow> (case item e k of None \<Rightarrow> None | Some h \<Rightarrow> F h)) =
   (case py_index (map (\<lambda>v. item v k) es) i of None \<Rightarrow> None | Some oh \<Rightarrow> (case oh of None \<Rightarrow> None | Some h \<Rightarrow> F h))"
  by (simp add: py_index_def Let_def)

lemma log_entries_one:
  assumes "wf_json (JObj d)"
  shows "log_entries (dumps_sorted (JObj d) @ [CHR 0x0A]) = Some [canon (JObj d)]"
proof -
  have "strip (dumps_sorted (JObj d)) \<noteq> []" by (simp add: dumps_sorted_def dumps_obj_nonblank)
  then have "lines_of ([] @ dumps_sorted (JObj d) @ [CHR 0x0A]) = lines_of [] @ [dumps_sorted (JObj d)]"
    by (intro lines_of_written(1) dumps_sorted_line) (simp_all add: ends_line_def)
  then show ?thesis using loads_dumps_sorted [OF assms] by (simp add: log_entries_def del: canon.simps)
qed

text \<open>\<open>check_log\<close> by itself reads nothing of a log but the \<open>entry_hash\<close> fields: two logs with the
  same fields get the same report, whatever else their entries say. Rewriting an entry and
  keeping its recorded hash is left to the check of the chain.\<close>

theorem check_log_reads_hashes_only:
  assumes "log_entries t = Some vs" and "log_entries t' = Some vs'"
    and "map (\<lambda>v. item v ''entry_hash'') vs = map (\<lambda>v. item v ''entry_hash'') vs'"
  shows "check_log cr r t cps = check_log cr r t' cps"
proof -
  have len: "length vs = length vs'" using assms(3) by (metis length_map)
  have "check_one cr r vs g cp = check_one cr r vs' g cp" for g cp
    by (simp only: check_one_def index_item assms(3) len)
  then have "check_each cr r vs g cps = check_each cr r vs' g cps" for g
    by (induction cps) simp_all
  moreover have "vs = [] \<longleftrightarrow> vs' = []" "vs \<noteq> [] \<Longrightarrow> item (hd vs) ''entry_hash'' = item (hd vs') ''entry_hash''"
    using assms(3) len by (cases vs; cases vs'; simp)+
  ultimately show ?thesis using assms(1,2) len by (simp add: check_log_def split: option.split)
qed

theorem check_log_reads_hashes_only_witness:
  "\<exists>t t'. log_bodies t \<noteq> log_bodies t' \<and>
     check_log demo_crypto demo_ring t [] = check_log demo_crypto demo_ring t' []"
proof -
  let ?a = "[(''effect'', JStr ''failed''), (''entry_hash'', JStr ''h'')]"
  let ?b = "[(''effect'', JStr ''none''), (''entry_hash'', JStr ''h'')]"
  let ?t = "\<lambda>d. dumps_sorted (JObj d) @ [CHR 0x0A]"
  have e: "log_entries (?t ?a) = Some [JObj ?a]" "log_entries (?t ?b) = Some [JObj ?b]"
    using log_entries_one [of ?a] log_entries_one [of ?b] by simp_all
  have "lines_of ([] @ ?t d) = lines_of [] @ [dumps_sorted (JObj d)]" for d
    by (intro lines_of_written(1) dumps_sorted_line) (simp_all add: ends_line_def dumps_sorted_def dumps_obj_nonblank)
  then have "log_bodies (?t ?a) = [Some (JObj [(''effect'', JStr ''failed'')])]"
    "log_bodies (?t ?b) = [Some (JObj [(''effect'', JStr ''none'')])]"
    by (simp_all add: log_bodies_def entry_body_def without_def)
  with check_log_reads_hashes_only [OF e, of demo_crypto demo_ring "[]"] show ?thesis
    by (intro exI [of _ "?t ?a"] exI [of _ "?t ?b"]) simp
qed

section \<open>The broker's check and the auditor's\<close>

definition stamped :: "string \<Rightarrow> bool" where
  \<comment> \<open>every entry's time stamp is missing or in the format the broker writes\<close>
  "stamped t \<longleftrightarrow> (\<forall>l\<in>set (lines_of t). \<forall>v. loads l = Some v \<longrightarrow> ts_reads v)"

lemma parse_lines_loads: "parse_lines ls = Some vs \<Longrightarrow> l \<in> set ls \<Longrightarrow> \<exists>v. loads l = Some v"
  by (induction ls arbitrary: vs) (auto split: option.splits)

lemma loaded_iff:
  "(\<exists>al. load_log hf (Some t) = Some al) \<longleftrightarrow> chain_problems hf t = Some [] \<and> stamped t"
proof -
  have "(\<exists>al. load_log hf (Some t) = Some al) \<longleftrightarrow> chain_problems hf t = Some [] \<and>
      list_all (\<lambda>l. case loads l of Some v \<Rightarrow> ts_reads v | None \<Rightarrow> False) (lines_of t)"
    using load_entries_iff [of hf "lines_of t" "new_log (Some t)" 1]
    by (auto simp: load_log_def chain_problems_def log_entries_def new_log_def split: option.splits)
  moreover have "\<exists>v. loads l = Some v" if "chain_problems hf t = Some []" "l \<in> set (lines_of t)" for l
    using that parse_lines_loads by (auto simp: chain_problems_def log_entries_def split: option.splits)
  ultimately show ?thesis by (fastforce simp: stamped_def list_all_iff split: option.splits)
qed

text \<open>C35: The broker opens a log exactly when the auditor's check of its chain finds nothing: the loop of
  \<open>AuditLog\<close> and \<open>chain_problems\<close>, written separately, agree on every file, whatever was
  changed in it, whose entries have no time stamp or one in the format the broker writes
  (\<open>isoformat\<close> of a naive time; other ISO forms, which the loader may read or fail on, are not in
  the model), of JSON as the model reads it.\<close>

theorem log_opens_iff_no_chain_problem:
  assumes "\<forall>l\<in>set (lines_of t). \<forall>v. loads l = Some v \<longrightarrow> ts_reads v"
  shows "(\<exists>al. load_log hf (Some t) = Some al) \<longleftrightarrow> chain_problems hf t = Some []"
  using assms loaded_iff [of hf t] by (simp add: stamped_def)

theorem log_opens_iff_no_chain_problem_witness:
  "chain_problems (sha demo_crypto) demo_log = Some [] \<and>
   load_log (sha demo_crypto) (Some (demo_log @ demo_log)) = None \<and>
   chain_problems (sha demo_crypto) (demo_log @ demo_log) \<noteq> Some []"
proof -
  let ?e = "[(''event'', JStr ''start'')]"
  let ?al = "snd (write_line (sha demo_crypto) WriteOk 0 ?e (new_log None))"
  have plain: "plain_entry ?e" by (simp add: plain_entry_def)
  have step: "in_step (sha demo_crypto) ?al" by (rule write_ok_in_step) (simp_all add: plain)
  have log: "demo_log = entry_line (sha demo_crypto) (chained zeros 0 ?e)"
    by (simp add: demo_log_def write_line_def new_log_def al_text_def Let_def)
  have loaded: "load_log (sha demo_crypto) (Some demo_log) = Some (?al\<lparr>al_ck := None, al_file := Some demo_log\<rparr>)"
    using in_step_text [OF step] by (simp only: demo_log_def [symmetric])
  have ends: "ends_line demo_log" using step by (simp add: in_step_def demo_log_def)
  have stamped: "stamped demo_log" using loaded loaded_iff by blast
  have "al_prev (?al\<lparr>al_ck := None, al_file := Some demo_log\<rparr>) = entry_hash_of (sha demo_crypto) (chained zeros 0 ?e)"
    by (simp add: write_line_def Let_def new_log_def)
  moreover have "hd (entry_hash_of (sha demo_crypto) d) = CHR ''{''" for d
    by (simp add: entry_hash_of_def demo_crypto_def dumps_sorted_def dumps.simps)
  then have "entry_hash_of (sha demo_crypto) (chained zeros 0 ?e) \<noteq> zeros"
    by (intro notI) (drule arg_cong [where f = hd], simp add: zeros_def hd_replicate)
  ultimately have twice: "load_log (sha demo_crypto) (Some (demo_log @ demo_log)) = None"
    using load_after_write [OF loaded ends plain valid_time_0, of zeros] log by simp
  have "lines_of (demo_log @ demo_log) = lines_of demo_log @ lines_of demo_log" by (rule lines_of_more [OF ends])
  then have "\<forall>l\<in>set (lines_of (demo_log @ demo_log)). \<forall>v. loads l = Some v \<longrightarrow> ts_reads v"
    using stamped by (auto simp: stamped_def)
  from log_opens_iff_no_chain_problem [OF this, of "sha demo_crypto"] twice
    log_opens_iff_no_chain_problem [OF stamped [unfolded stamped_def], of "sha demo_crypto"] loaded
  show ?thesis by auto
qed

section \<open>Which records a checkpoint covers\<close>

lemma check_one_extends:
  assumes "check_one cr r vs g cp = Some (Inr n)" and "0 < n"
  shows "check_one cr r (vs @ ws) g cp = Some (Inr n)"
proof -
  obtain d where d: "cp = JObj d" using assms(1) by (cases cp) (auto simp: check_one_def)
  have n: "py_number (jget d ''count'') = Some n" "n \<le> int (length vs)"
    using assms(1) by (auto simp: d check_one_def split: option.splits if_splits)
  then have "nat (n - 1) < length vs" using assms(2) by linarith
  then have "py_index (vs @ ws) (n - 1) = py_index vs (n - 1)"
    using assms(2) n(2) by (simp add: py_index_def nth_append Let_def)
  then show ?thesis
    using assms(1) n by (auto simp: d check_one_def split: option.splits if_splits)
qed

lemma extended_checkpoint_checks:
  assumes "ed25519 cr" and "wf_ring cr r" and "can_sign r"
    and "load_log (sha cr) (Some t) = Some al" and "make_checkpoint cr t r = Some d"
    and "ends_line t" and "log_entries (t @ later) = Some vs"
  shows "check_log cr (public_only r) (t @ later) [JObj d] =
         Some \<lparr>cr_findings = [], cr_covered = int (al_count al), cr_entries = length vs\<rparr>"
proof -
  obtain vs0 where vs0: "log_entries t = Some vs0" "al_count al = length vs0"
    "\<And>v. v \<in> set vs0 \<Longrightarrow> item v ''entry_hash'' = Some (JStr (sha cr (dumps_sorted (entry_body v))))"
    using assms(4) by (rule loaded_entries) blast
  obtain ws where ws: "vs = vs0 @ ws" using log_entries_more [OF assms(6) vs0(1), of later] assms(7) by (cases "log_entries later") auto
  have ne: "vs0 \<noteq> []" using make_checkpoint_fields [OF assms(5) vs0(1) vs0(3)] by blast
  let ?g = "Some (JStr (sha cr (dumps_sorted (entry_body (hd vs0)))))"
  have g: "item (hd vs0) ''entry_hash'' = ?g" using vs0(3) ne by simp
  have "check_each cr (public_only r) vs0 ?g [JObj d] = Some ([], int (length vs0))"
    using fresh_checkpoint_checks [OF assms(1-5)] ne g by (auto simp: check_log_def vs0(1,2))
  then obtain n where "check_one cr (public_only r) vs0 ?g (JObj d) = Some (Inr n)" "max 0 n = int (length vs0)"
    by (auto split: option.splits sum.splits)
  then have "check_one cr (public_only r) vs0 ?g (JObj d) = Some (Inr (int (length vs0)))"
    using ne by (simp add: max_def split: if_splits)
  then have "check_one cr (public_only r) vs ?g (JObj d) = Some (Inr (int (length vs0)))"
    unfolding ws by (rule check_one_extends) (use ne in simp)
  then show ?thesis using ne g by (simp add: check_log_def assms(7) vs0(2) ws)
qed

definition on_sink :: "crypto \<Rightarrow> checkpointer \<Rightarrow> audit_log \<Rightarrow> bool" where
  \<comment> \<open>the log's sink file has a checkpoint of the log as it was at \<open>last_count\<close>\<close>
  "on_sink cr ck al \<longleftrightarrow>
     (\<exists>t later al0 cp g a b. al_text al = t @ later \<and> ends_line t \<and>
        load_log (sha cr) (Some t) = Some al0 \<and> al_count al0 = last_count ck \<and>
        make_checkpoint cr t (ck_ring ck) = Some cp \<and> al_genesis al = Some g \<and>
        ck_sink ck (sink_file g) = a @ (dumps_sorted (JObj cp) @ [CHR 0x0A]) @ b)"

definition covered_within :: "crypto \<Rightarrow> ring \<Rightarrow> nat \<Rightarrow> audit_log \<Rightarrow> bool" where
  \<comment> \<open>fewer than \<open>every\<close> of the newest records are not covered by a published checkpoint\<close>
  "covered_within cr r every al \<longleftrightarrow> in_step (sha cr) al \<and>
     (\<exists>ck. al_ck al = Some ck \<and> ck_ring ck = r \<and> ck_every ck = every \<and> last_attempt ck \<le> last_count ck \<and>
        al_count al < last_count ck + every \<and> (last_count ck \<noteq> 0 \<longrightarrow> on_sink cr ck al))"

lemma publishes:
  assumes "in_step (sha cr) al" and "al_count al \<noteq> 0" and "can_sign (ck_ring ck)" and "due ck (al_count al) force"
  shows "\<exists>g ck'. al_genesis al = Some g \<and> maybe_publish cr SinkOk g (al_count al) (al_prev al) force ck = (None, ck') \<and>
    ck_ring ck' = ck_ring ck \<and> ck_every ck' = ck_every ck \<and> last_attempt ck' = al_count al \<and> last_count ck' = al_count al \<and>
    (\<forall>x. on_sink cr ck' (al\<lparr>al_ck := x\<rparr>))"
proof -
  from in_step_heads [OF assms(1)] assms(2) obtain vs g where vs: "log_entries (al_text al) = Some vs" "al_count al = length vs" "vs \<noteq> []"
    "item (last vs) ''entry_hash'' = Some (JStr (al_prev al))" "al_genesis al = Some g" "item (hd vs) ''entry_hash'' = Some (JStr g)"
    by auto
  obtain cp where cp: "sign_checkpoint cr (ck_ring ck) g (int (al_count al)) (al_prev al) = Some cp" "jget cp ''genesis'' = JStr g"
    using assms(3) by (auto simp: can_sign_def sign_checkpoint_def jget_def)
  have made: "make_checkpoint cr (al_text al) (ck_ring ck) = Some cp"
    using vs cp(1) by (simp add: make_checkpoint_def)
  let ?snk = "(ck_sink ck)(sink_file g := ck_sink ck (sink_file g) @ dumps_sorted (JObj cp) @ [CHR 0x0A])"
  let ?ck = "ck\<lparr>last_attempt := al_count al, last_count := al_count al, published := published ck + 1, ck_sink := ?snk\<rparr>"
  have run: "maybe_publish cr SinkOk g (al_count al) (al_prev al) force ck = (None, ?ck)"
    using assms(4) cp by (simp add: maybe_publish_def publish_def Let_def)
  have "on_sink cr ?ck (al\<lparr>al_ck := x\<rparr>)" for x
    unfolding on_sink_def
  proof (intro exI conjI)
    show "al_text (al\<lparr>al_ck := x\<rparr>) = al_text al @ []" by (simp add: al_text_def)
    show "ends_line (al_text al)" using assms(1) by (simp add: in_step_def)
    show "load_log (sha cr) (Some (al_text al)) = Some (al\<lparr>al_ck := None, al_file := Some (al_text al)\<rparr>)"
      by (rule in_step_text [OF assms(1)])
    show "make_checkpoint cr (al_text al) (ck_ring ?ck) = Some cp" using made by simp
    show "al_genesis (al\<lparr>al_ck := x\<rparr>) = Some g" using vs(5) by simp
    show "ck_sink ?ck (sink_file g) = ck_sink ck (sink_file g) @ (dumps_sorted (JObj cp) @ [CHR 0x0A]) @ []" by simp
  qed simp
  then show ?thesis using vs(5) run by (intro exI [of _ g] exI [of _ ?ck]) simp
qed

lemma run_checkpoint_covered:
  assumes "in_step (sha cr) al" and "al_count al \<noteq> 0" and "can_sign r" and "ae_sink env = SinkOk" and "0 < every"
    and "al_ck al = Some ck" and "ck_ring ck = r" and "ck_every ck = every" and "last_attempt ck \<le> last_count ck"
    and "\<not> due ck (al_count al) force \<Longrightarrow> al_count al < last_count ck + every \<and> (last_count ck \<noteq> 0 \<longrightarrow> on_sink cr ck al)"
  shows "covered_within cr r every (snd (run_checkpoint cr env force al))"
proof (cases "due ck (al_count al) force")
  case False
  obtain g where "al_genesis al = Some g" using in_step_heads [OF assms(1)] assms(2) by auto
  then have "run_checkpoint cr env force al = (True, al\<lparr>al_ck := Some ck\<rparr>)"
    using False assms(4,6) by (simp add: run_checkpoint_def maybe_publish_def)
  moreover have "al\<lparr>al_ck := Some ck\<rparr> = al" using assms(6) by simp
  ultimately show ?thesis using assms False by (simp add: covered_within_def)
next
  case True
  have "can_sign (ck_ring ck)" using assms(3,7) by simp
  from publishes [OF assms(1,2) this True] obtain g ck' where p: "al_genesis al = Some g"
    "maybe_publish cr SinkOk g (al_count al) (al_prev al) force ck = (None, ck')" "ck_ring ck' = r" "ck_every ck' = every"
    "last_attempt ck' = al_count al" "last_count ck' = al_count al" "on_sink cr ck' (al\<lparr>al_ck := Some ck'\<rparr>)"
    using assms(7,8) by auto
  then have "run_checkpoint cr env force al = (True, al\<lparr>al_ck := Some ck'\<rparr>)"
    using assms(4,6) by (simp add: run_checkpoint_def)
  then show ?thesis using p assms(1,5) by (simp add: covered_within_def)
qed

lemma append_covered:
  assumes "covered_within cr r every al" and "can_sign r" and "0 < every"
    and "faultless env" and "ae_sink env = SinkOk" and "plain_entry e"
  shows "covered_within cr r every (snd (log_append cr env e al))"
proof -
  obtain al1 where w: "write_line (sha cr) WriteOk (ae_now env) e al = (True, al1)"
    by (auto simp: write_line_def Let_def)
  have step: "in_step (sha cr) al1"
    using write_ok_in_step [of "sha cr" al e "ae_now env"] assms(1,4,6) w by (simp add: covered_within_def faultless_def)
  obtain line where al1: "al_ck al1 = al_ck al" "al_count al1 = al_count al + 1" "al_text al1 = al_text al @ line"
    "\<And>g. al_genesis al = Some g \<Longrightarrow> al_genesis al1 = Some g"
    using w by (auto simp: write_line_def Let_def al_text_def)
  obtain ck where ck: "al_ck al = Some ck" "ck_ring ck = r" "ck_every ck = every" "last_attempt ck \<le> last_count ck"
    "al_count al < last_count ck + every" "last_count ck \<noteq> 0 \<longrightarrow> on_sink cr ck al"
    using assms(1) by (auto simp: covered_within_def)
  have "on_sink cr ck al \<Longrightarrow> on_sink cr ck al1"
    unfolding on_sink_def al1(3) using al1(4) by (metis append_assoc)
  moreover have "\<not> due ck (al_count al1) False \<Longrightarrow> al_count al1 < last_count ck + every"
    using ck(3,4) by (simp add: due_def max_def)
  ultimately have "covered_within cr r every (snd (run_checkpoint cr env False al1))"
    using ck al1(1,2) by (intro run_checkpoint_covered [OF step _ assms(2,5,3)]) auto
  then show ?thesis using w assms(4) by (simp add: log_append_def faultless_def)
qed

text \<open>C32: Fewer records than the checkpoint interval are without a published checkpoint, as long as the disk and the
  sink take what is written. Take any log that opens and ends with a complete line, a new publisher
  with a key that can sign, the checkpoint of a start, and then any sequence of appends, one after
  the other: the log has fewer records than the interval, or the log's file in the sink has a
  checkpoint which a verifier with the public keys alone accepts for the log as it is, and which
  covers all of its records but fewer than the interval.\<close>

theorem unprotected_records_bounded:
  assumes "ed25519 cr" and "wf_ring cr r" and "can_sign r"
    and "load_log (sha cr) file = Some al" and "ends_line (case file of None \<Rightarrow> [] | Some t \<Rightarrow> t)"
    and "new_checkpointer r every snk = Some ck"
    and "checkpoint_now cr env0 (al\<lparr>al_ck := Some ck\<rparr>) = (ok, al1)" and "ae_sink env0 = SinkOk"
    and "list_all (\<lambda>(env, e). faultless env \<and> ae_sink env = SinkOk \<and> plain_entry e) steps"
    and "run_log cr steps al1 = al2"
  shows "al_count al2 < every \<or>
    (\<exists>ck2 g a cp b rep. al_ck al2 = Some ck2 \<and> al_genesis al2 = Some g \<and>
       ck_sink ck2 (sink_file g) = a @ (dumps_sorted (JObj cp) @ [CHR 0x0A]) @ b \<and>
       check_log cr (public_only r) (al_text al2) [JObj cp] = Some rep \<and> cr_findings rep = [] \<and>
       cr_entries rep = al_count al2 \<and> int (al_count al2) < cr_covered rep + int every)"
proof -
  have ck: "ck_ring ck = r" "ck_every ck = every" "last_count ck = 0" "last_attempt ck = 0" "0 < every"
    using assms(6) by (auto simp: new_checkpointer_def split: if_splits)
  let ?al = "al\<lparr>al_ck := Some ck\<rparr>"
  have s: "in_step (sha cr) ?al" using loaded_in_step [OF assms(4,5)] by simp
  have "covered_within cr r every al1"
  proof (cases "al_count al = 0")
    case True
    then show ?thesis using s ck assms(7) by (auto simp: checkpoint_now_def covered_within_def)
  next
    case False
    have "covered_within cr r every (snd (run_checkpoint cr env0 True ?al))"
      by (rule run_checkpoint_covered [OF s _ assms(3,8) ck(5), where ck = ck]) (use False ck in \<open>simp_all add: due_def\<close>)
    then show ?thesis using False assms(7) by (simp add: checkpoint_now_def)
  qed
  then have "covered_within cr r every (run_log cr steps al1)"
    using assms(9)
  proof (induction cr steps al1 rule: run_log.induct)
    case (2 cr env e steps al)
    then show ?case using append_covered [of cr r every al env e] assms(3) ck(5) by simp
  qed simp
  then obtain ck2 where c: "in_step (sha cr) al2" "al_ck al2 = Some ck2" "ck_ring ck2 = r"
    "al_count al2 < last_count ck2 + every" "last_count ck2 \<noteq> 0 \<longrightarrow> on_sink cr ck2 al2"
    unfolding assms(10) by (auto simp: covered_within_def)
  show ?thesis
  proof (cases "last_count ck2 = 0")
    case False
    then obtain t later al0 cp g a b where o: "al_text al2 = t @ later" "ends_line t" "load_log (sha cr) (Some t) = Some al0"
      "al_count al0 = last_count ck2" "make_checkpoint cr t r = Some cp" "al_genesis al2 = Some g"
      "ck_sink ck2 (sink_file g) = a @ (dumps_sorted (JObj cp) @ [CHR 0x0A]) @ b"
      using c(3,5) unfolding on_sink_def by blast
    obtain vs where vs: "log_entries (t @ later) = Some vs" "al_count al2 = length vs"
      using in_step_heads [OF c(1)] o(1) by auto
    have "check_log cr (public_only r) (al_text al2) [JObj cp] =
        Some \<lparr>cr_findings = [], cr_covered = int (al_count al0), cr_entries = length vs\<rparr>"
      unfolding o(1) by (rule extended_checkpoint_checks [OF assms(1-3) o(3,5,2) vs(1)])
    then show ?thesis using c(2,4) o(4,6,7) vs(2) by (intro disjI2 exI conjI) (assumption | simp)+
  qed (use c(4) in simp)
qed

lemma append_grows: "faultless env \<Longrightarrow> al_count al + 1 \<le> al_count (snd (log_append cr env e al))"
  by (auto simp: log_append_def faultless_def run_checkpoint_def write_line_def Let_def split: option.split prod.split)

lemma run_log_grows:
  "list_all (\<lambda>(env, e). faultless env) steps \<Longrightarrow> al_count al + length steps \<le> al_count (run_log cr steps al)"
proof (induction cr steps al rule: run_log.induct)
  case (2 cr env e steps al)
  then show ?case using append_grows [of env al cr e] by simp
qed simp

theorem unprotected_records_bounded_witness:
  "\<exists>al2 g a cp b rep ck2. al2 = run_log demo_crypto (replicate 5 (demo_env, [(''event'', JStr ''stop'')]))
       ((new_log None)\<lparr>al_ck := new_checkpointer demo_ring 2 (\<lambda>_. [])\<rparr>) \<and> 5 \<le> al_count al2 \<and>
     al_ck al2 = Some ck2 \<and> al_genesis al2 = Some g \<and>
     ck_sink ck2 (sink_file g) = a @ (dumps_sorted (JObj cp) @ [CHR 0x0A]) @ b \<and>
     check_log demo_crypto (public_only demo_ring) (al_text al2) [JObj cp] = Some rep \<and> cr_findings rep = [] \<and>
     4 \<le> cr_covered rep"
proof -
  let ?steps = "replicate 5 (demo_env, [(''event'', JStr ''stop'')])"
  obtain ck where ck: "new_checkpointer demo_ring 2 (\<lambda>_. []) = Some ck" by (simp add: new_checkpointer_def)
  let ?al = "(new_log None)\<lparr>al_ck := Some ck\<rparr>"
  let ?al2 = "run_log demo_crypto ?steps ?al"
  have new: "load_log (sha demo_crypto) None = Some (new_log None)" by (simp add: load_log_def)
  have now: "checkpoint_now demo_crypto demo_env ?al = (True, ?al)" by (simp add: checkpoint_now_def new_log_def)
  have steps: "list_all (\<lambda>(env, e). faultless env \<and> ae_sink env = SinkOk \<and> plain_entry e) ?steps"
    by (simp add: demo_env_def faultless_def plain_entry_def list_all_iff)
  have "list_all (\<lambda>(env, e). faultless env) ?steps" by (simp add: demo_env_def faultless_def list_all_iff)
  from run_log_grows [OF this, of ?al demo_crypto] have five: "5 \<le> al_count ?al2" by simp
  have sink: "ae_sink demo_env = SinkOk" by (simp add: demo_env_def)
  have "\<exists>ck2 g a cp b rep. al_ck ?al2 = Some ck2 \<and> al_genesis ?al2 = Some g \<and>
       ck_sink ck2 (sink_file g) = a @ (dumps_sorted (JObj cp) @ [CHR 0x0A]) @ b \<and>
       check_log demo_crypto (public_only demo_ring) (al_text ?al2) [JObj cp] = Some rep \<and> cr_findings rep = [] \<and>
       cr_entries rep = al_count ?al2 \<and> int (al_count ?al2) < cr_covered rep + int 2"
    using unprotected_records_bounded [OF demo_crypto_ed25519 demo_ring_simps(1,2) new _ ck now sink steps refl] five
    by (simp add: ends_line_def)
  then obtain ck2 g a cp b rep where "al_ck ?al2 = Some ck2" "al_genesis ?al2 = Some g"
    "ck_sink ck2 (sink_file g) = a @ (dumps_sorted (JObj cp) @ [CHR 0x0A]) @ b"
    "check_log demo_crypto (public_only demo_ring) (al_text ?al2) [JObj cp] = Some rep" "cr_findings rep = []"
    and less: "int (al_count ?al2) < cr_covered rep + int 2" by blast
  moreover have "4 \<le> cr_covered rep" using less five by linarith
  ultimately show ?thesis unfolding ck using five by blast
qed

end
