(* ===== verification/Verdict.thy ===== *)
theory Verdict
  imports Rename AuditLog
begin

text \<open>
  What the evidence says of the files (\<open>darm_guard/broker.py\<close>): the latest logged operation on
  each target, the verdict on a read, the check of the whole workspace against the log, and the
  retirement of the legacy secret. A verdict is the dictionary the program returns. The files of
  the workspace are those \<open>os.walk\<close> lists, to a depth given as fuel (the walk itself has no
  bound; the fuel only has to exceed the depth of the tree).
\<close>

section \<open>The log as a table of targets\<close>

type_synonym latest = "(string \<times> json \<times> string) list"
  \<comment> \<open>target, request id, \<open>write\<close> or \<open>delete\<close>\<close>

definition note_latest :: "json \<Rightarrow> json \<Rightarrow> string \<Rightarrow> latest \<Rightarrow> latest option" where
  \<comment> \<open>\<open>latest[target] = (rid, op)\<close>; only a string can ever be looked up\<close>
  "note_latest target rid op l =
     (case target of JStr t \<Rightarrow> Some (dset l t (rid, op)) | JList _ \<Rightarrow> None | JObj _ \<Rightarrow> None | _ \<Rightarrow> Some l)"

definition closes_with_success :: "jobj \<Rightarrow> bool" where
  "closes_with_success e \<longleftrightarrow>
     jget e ''event'' \<in> {JStr ''outcome'', JStr ''reconciled''} \<and> truthy (jget e ''target'') \<and>
     (jget e ''effect'' = JStr ''succeeded'' \<or> jget e ''reconciliation'' = JStr ''confirmedSuccess'')"

definition latest_step :: "jobj \<Rightarrow> latest \<Rightarrow> latest option" where
  "latest_step e l =
     (if \<not> closes_with_success e then Some l
      else (case map_of e ''request_id'' of
              None \<Rightarrow> None
            | Some rid \<Rightarrow>
                (case note_latest (jget e ''target'') rid
                        (if jget e ''tool'' = JStr ''delete_file'' then ''delete'' else ''write'') l of
                   None \<Rightarrow> None
                 | Some l' \<Rightarrow>
                     if jget e ''tool'' = JStr ''rename_file'' \<and> truthy (jget e ''source'')
                     then note_latest (jget e ''source'') rid ''delete'' l' else Some l')))"

fun latest_of :: "json list \<Rightarrow> latest \<times> json list \<Rightarrow> (latest \<times> json list) option" where
  "latest_of [] s = Some s"
| "latest_of (v # vs) (l, logged) =
     (case v of
        JObj e \<Rightarrow> (case latest_step e l of
                    None \<Rightarrow> None
                  | Some l' \<Rightarrow> latest_of vs (l', logged @ [jget e ''request_id'']))
      | _ \<Rightarrow> None)"

definition latest_entries :: "string option \<Rightarrow> (latest \<times> json list) option" where
  "latest_entries file =
     (case file of
        None \<Rightarrow> Some ([], [])
      | Some text \<Rightarrow> (case log_entries text of None \<Rightarrow> None | Some es \<Rightarrow> latest_of es ([], [])))"

section \<open>The verdict on a read\<close>

definition vouched :: "string option \<Rightarrow> string \<Rightarrow> string \<Rightarrow> bool" where
  \<comment> \<open>\<open>manifest\<close> is the text of the principal's manifest, if there is one\<close>
  "vouched manifest path digest =
     (case manifest of
        None \<Rightarrow> False
      | Some text \<Rightarrow>
          list_ex (\<lambda>line. words_of line = [path, ''sha256='' @ digest])
            (split_on (CHR 0x0A) (universal_newlines text)))"

definition not_attributed :: "jobj \<Rightarrow> jobj" where
  "not_attributed rest = (''attributed'', JBool False) # rest"

definition broker_verdict ::
  "crypto \<Rightarrow> keys option \<Rightarrow> string \<Rightarrow> string \<Rightarrow> string option \<Rightarrow> (json \<times> string) option option \<Rightarrow> jobj" where
  \<comment> \<open>the last argument is \<open>None\<close> for a caller without a log\<close>
  "broker_verdict cr ks path digest raw lat =
     (if ks = None then not_attributed [(''reason'', JStr ''broker has no attestation key'')]
      else if raw = None \<or> raw = Some []
      then not_attributed [(''reason'', JStr ''no attestation: content not written by the broker'')]
      else (case check_attestation cr ks raw of
              None \<Rightarrow> not_attributed [(''reason'', JStr ''attestation does not verify'')]
            | Some a \<Rightarrow>
                if jget a ''target'' \<noteq> JStr path
                then not_attributed [(''rid'', jget a ''rid''), (''reason'', JStr ''attestation names another path'')]
                else if jget a ''digest'' \<noteq> JStr digest
                then not_attributed [(''rid'', jget a ''rid''), (''content_matches'', JBool False),
                  (''reason'', JStr ''content differs from the attested content (modified outside the broker)'')]
                else if (case lat of None \<Rightarrow> False | Some l \<Rightarrow> l \<noteq> Some (jget a ''rid'', ''write''))
                then not_attributed [(''rid'', jget a ''rid''), (''content_matches'', JBool True),
                  (''reason'', JStr ''the log's latest entry for this path is not this write (replayed or superseded content)'')]
                else [(''attributed'', JBool True), (''source'', JStr ''broker''), (''rid'', jget a ''rid''),
                      (''content_matches'', JBool True), (''scheme'', jget a ''scheme'')]))"

definition read_verdict ::
  "crypto \<Rightarrow> keys option \<Rightarrow> string \<Rightarrow> string \<Rightarrow> string option \<Rightarrow> string option \<Rightarrow> (json \<times> string) option option \<Rightarrow> jobj" where
  "read_verdict cr ks path content raw manifest lat =
     (let digest = sha cr content; v = broker_verdict cr ks path digest raw lat
      in if jget v ''attributed'' \<noteq> JBool True \<and> vouched manifest path digest
         then [(''attributed'', JBool True), (''source'', JStr ''principal''), (''content_matches'', JBool True),
               (''broker_verdict'', jget v ''reason'')]
         else v)"

section \<open>The workspace against the log\<close>

fun contains :: "string \<Rightarrow> string \<Rightarrow> bool" where
  \<comment> \<open>\<open>sub in s\<close>\<close>
  "contains sub [] = (sub = [])"
| "contains sub (c # s) = (startswith (c # s) sub \<or> contains sub s)"

fun walk_tree :: "nat \<Rightarrow> fs \<Rightarrow> nat \<Rightarrow> string \<Rightarrow> (string \<times> string \<times> nat) list" where
  \<comment> \<open>\<open>os.walk(root, followlinks=False)\<close>: logical path, name and inode of what is no directory\<close>
  "walk_tree 0 f d path = []"
| "walk_tree (Suc n) f d path =
     (let names = sorted_list_of_fset (fmdom (dirs f d));
          entry = (\<lambda>name. (path @ name, name, the (at f d name)))
      in filter (\<lambda>(p, name, i). ikind (inodes f i) \<noteq> Dir) (map entry names) @
         concat (map (\<lambda>(p, name, i). if ikind (inodes f i) = Dir then walk_tree n f i (p @ ''/'') else [])
           (map entry names)))"

datatype world_finding =
    NoAttestation | DeletedButExists | UnknownKeyFinding | ForgedOrMoved | ContentChanged
  | RequestNotLogged | NotTheLatest | FileGone

definition file_findings ::
  "crypto \<Rightarrow> keys option \<Rightarrow> fs \<Rightarrow> latest \<Rightarrow> json list \<Rightarrow> string \<Rightarrow> nat \<Rightarrow> world_finding list \<times> bool" where
  \<comment> \<open>the findings on one file, and whether its attestation is a legacy one\<close>
  "file_findings cr ks f latest logged logical i =
     (let raw = (if has_xattrs f \<and> ikind (inodes f i) = Reg then xattr (inodes f i) else None) in
      case raw of
        None \<Rightarrow> ((case map_of latest logical of
                    None \<Rightarrow> []
                  | Some (rid, op) \<Rightarrow> if op = ''write'' then [NoAttestation] else [DeletedButExists]), False)
      | Some text \<Rightarrow>
          (case check_attestation cr ks raw of
             None \<Rightarrow>
               (case ks of
                  Some k \<Rightarrow> if verify cr (k_ring k) text = Inl UnknownKey then ([UnknownKeyFinding], False)
                           else ([ForgedOrMoved], False)
                | None \<Rightarrow> ([ForgedOrMoved], False))
           | Some a \<Rightarrow>
               if jget a ''target'' \<noteq> JStr logical then ([ForgedOrMoved], False)
               else ((if JStr (sha cr (contents (inodes f i))) \<noteq> jget a ''digest'' then [ContentChanged] else []) @
                     (if jget a ''rid'' \<notin> set logged then [RequestNotLogged]
                      else (case map_of latest logical of
                              None \<Rightarrow> []
                            | Some (rid, op) \<Rightarrow>
                                if op = ''delete'' then [DeletedButExists]
                                else if rid \<noteq> jget a ''rid'' then [NotTheLatest] else [])),
                     jget a ''scheme'' = JStr ''legacy'')))"

record world_report =
  wr_findings :: "(string \<times> world_finding) list"
  wr_legacy :: "string list"

definition exists_file :: "fs \<Rightarrow> string \<Rightarrow> bool" where
  \<comment> \<open>\<open>os.path.exists\<close> of the path below the root\<close>
  "exists_file f logical = (case resolve f logical of None \<Rightarrow> False | Some (d, leaf) \<Rightarrow> at f d leaf \<noteq> None)"

definition verify_world ::
  "crypto \<Rightarrow> nat \<Rightarrow> fs \<Rightarrow> string option \<Rightarrow> keys option \<Rightarrow> world_report option" where
  \<comment> \<open>\<open>ok\<close> is that there are no findings\<close>
  "verify_world cr depth f log ks =
     (case latest_entries log of
        None \<Rightarrow> None
      | Some (latest, logged) \<Rightarrow>
          (let files = filter (\<lambda>(p, name, i). ikind (inodes f i) \<noteq> Lnk \<and> \<not> contains ''.darm-tmp-'' name)
                         (walk_tree depth f ROOT LOGICAL_ROOT);
               each = map (\<lambda>(p, name, i). (p, file_findings cr ks f latest logged p i)) files
           in Some \<lparr>wr_findings = concat (map (\<lambda>(p, fs, leg). map (\<lambda>x. (p, x)) fs) each) @
                      map (\<lambda>(t, e). (t, FileGone))
                        (filter (\<lambda>(t, rid, op). op = ''write'' \<and> \<not> exists_file f t) latest),
                    wr_legacy = concat (map (\<lambda>(p, fs, leg). if leg then [p] else []) each)\<rparr>))"

definition retire_legacy_secret ::
  "crypto \<Rightarrow> nat \<Rightarrow> fs \<Rightarrow> string \<Rightarrow> string option \<Rightarrow> keys \<Rightarrow> files \<Rightarrow> (bool \<times> keys \<times> files) option" where
  "retire_legacy_secret cr depth f audit log k disk =
     (case verify_world cr depth f log (Some k) of
        None \<Rightarrow> None
      | Some rep \<Rightarrow>
          if wr_legacy rep \<noteq> [] then Some (False, k, disk)
          else Some (True, k\<lparr>legacy := None\<rparr>, disk(audit @ ''.legacy.key'' := None)))"

section \<open>A written file, read back\<close>

lemma universal_newlines_keeps_cr: "CHR 0x0D \<notin> set (universal_newlines s)"
  by (induction s rule: universal_newlines.induct) auto

lemma universal_newlines_same: "universal_newlines s = s \<longleftrightarrow> CHR 0x0D \<notin> set s"
  using universal_newlines_keeps_cr [of s] universal_newlines_id by metis

definition can_write :: "string \<Rightarrow> nat \<Rightarrow> string \<Rightarrow> fs \<Rightarrow> bool" where
  \<comment> \<open>the target is absent or a regular file with one name, and the private name is free\<close>
  "can_write uuid d leaf f \<longleftrightarrow>
     has_xattrs f \<and> has_renameat2 f \<and> at f d (write_tmp leaf uuid) = None \<and>
     (case at f d leaf of None \<Rightarrow> True
      | Some j \<Rightarrow> ikind (inodes f j) = Reg \<and> nlink (inodes f j) \<le> 1 \<and> j \<noteq> fresh f)"

lemma write_tmp_neq [simp]: "write_tmp leaf uuid \<noteq> leaf" "leaf \<noteq> write_tmp leaf uuid"
proof -
  have "length (write_tmp leaf uuid) > length leaf" by (simp add: write_tmp_def)
  then show "write_tmp leaf uuid \<noteq> leaf" "leaf \<noteq> write_tmp leaf uuid" by auto
qed

definition new_file :: "string \<Rightarrow> string \<Rightarrow> inode" where
  "new_file content raw = \<lparr>ikind = Reg, contents = content, xattr = Some raw, nlink = 1\<rparr>"

lemma exec_write_run:
  assumes w: "can_write uuid d leaf f" and e: "target_digest cr d leaf f = Some e"
    and s: "sign cr r rid target (sha cr content) = Some raw"
  shows "\<exists>g. run_state (exec_write cr uuid d leaf content (Some (r, rid, target)) (Some (expect e))) (quiet f) =
           (Inr [(''written'', JNum (int (length content))), (''attested'', JBool True)], quiet g) \<and>
         at g d leaf = Some (fresh f) \<and> inodes g (fresh f) = new_file content raw \<and> has_xattrs g"
proof -
  let ?t = "write_tmp leaf uuid"
  define f1 where "f1 = (set_entry d ?t (fresh f) f)\<lparr>inodes := (inodes f)(fresh f := new_file content raw),
      fresh := Suc (fresh f)\<rparr>"
  have at1: "at f1 d ?t = Some (fresh f)" "at f1 d leaf = at f d leaf"
    by (simp_all add: f1_def at_def set_entry_def)
  have ino: "inodes f1 = (inodes f)(fresh f := new_file content raw)" "has_renameat2 f1" "has_xattrs f1"
    using w by (simp_all add: f1_def can_write_def)
  have one: "run_state (one_name d leaf) (quiet f) = (Inr True, quiet f)"
    using w by (auto simp: one_name_def run_bind stat_at_def can_write_def split: option.splits)
  define f0 where "f0 = (set_entry d ?t (fresh f) f)\<lparr>
      inodes := (inodes f)(fresh f := \<lparr>ikind = Reg, contents = [], xattr = None, nlink = 1\<rparr>),
      fresh := Suc (fresh f)\<rparr>"
  have made: "create_excl d ?t f = (Inr (fresh f), f0)"
    using w by (simp add: create_excl_def can_write_def f0_def)
  have can: "can_replace d ?t leaf f1"
    using w at1 ino by (auto simp: can_replace_def kind_at_def can_write_def new_file_def split: option.splits)
  have cas: "run_state (cas_replace cr d ?t leaf (Some (expect e))) (quiet f1) = (Inr None, quiet (replaced d ?t leaf f1))"
  proof (cases "at f d leaf")
    case None
    then have "e = None" using e by (simp add: target_digest_def leaf_now_def)
    then show ?thesis using cas_replace_absent [OF can] None at1 by simp
  next
    case (Some j)
    then have j: "j \<noteq> fresh f" "e = Some (sha cr (contents (inodes f j)))"
      using e w by (auto simp: target_digest_def leaf_now_def can_write_def)
    then show ?thesis using cas_replace_present [OF can, of j "fresh f" cr] Some at1 ino by simp
  qed
  have fin: "at (replaced d ?t leaf f1) d leaf = Some (fresh f)"
    "inodes (replaced d ?t leaf f1) (fresh f) = new_file content raw" "has_xattrs (replaced d ?t leaf f1)"
    using w at1 ino by (auto simp: replaced_def Let_def can_write_def split: option.splits)
  have step: "upd_inode (fresh f) (\<lambda>n. n\<lparr>xattr := Some raw\<rparr>)
      (upd_inode (fresh f) (\<lambda>n. n\<lparr>contents := contents n @ content\<rparr>) f0) = f1"
    by (simp add: f0_def f1_def upd_inode_def set_entry_def new_file_def)
  have xa: "has_xattrs f0" using w by (simp add: f0_def can_write_def)
  show ?thesis
    using fin
    by (simp add: exec_write_def run_andthen run_bind one Let_def made fd_write_def
        attest_new_def s fd_setxattr_def xa step fd_sync_def cas)
qed


lemma exec_read_run:
  assumes "at g d leaf = Some i" and "inodes g i = new_file content raw" and "has_xattrs g"
  shows "run_state (exec_read d leaf) (quiet g) =
    (Inr [(''content'', JStr (universal_newlines content)), (''_raw_attestation'', JStr raw)], quiet g)"
  using assms
  by (simp add: exec_read_def run_andthen run_bind open_read_def fdopen_def fstat_def fd_read_def
      fd_getxattr_def new_file_def)

lemma sign_exists: "can_sign r \<Longrightarrow> \<exists>raw. sign cr r rid target digest = Some raw \<and> raw \<noteq> []"
  by (auto simp: can_sign_def sign_eq)

lemma broker_verdict_signed:
  assumes "ed25519 cr" and "wf_ring cr (k_ring k)" and "sign cr (k_ring k) rid path digest = Some raw"
    and "raw \<noteq> []"
  shows "jget (broker_verdict cr (Some k) path digest' (Some raw) (Some l)) ''attributed'' =
         JBool (digest = digest' \<and> l = Some (JStr rid, ''write''))"
proof -
  from signed_checks [OF assms(1-3)] obtain a where a:
    "check_attestation cr (Some k) (Some raw) = Some a" "jget a ''rid'' = JStr rid"
    "jget a ''target'' = JStr path" "jget a ''digest'' = JStr digest" by blast
  then show ?thesis using assms(4) by (simp add: broker_verdict_def not_attributed_def)
qed

lemma broker_verdict_changed:
  assumes "ed25519 cr" and "wf_ring cr (k_ring k)" and "sign cr (k_ring k) rid path digest = Some raw"
    and "raw \<noteq> []" and "digest \<noteq> digest'"
  shows "jget (broker_verdict cr (Some k) path digest' (Some raw) lat) ''reason'' =
         JStr ''content differs from the attested content (modified outside the broker)''"
proof -
  from signed_checks [OF assms(1-3)] obtain a where a:
    "check_attestation cr (Some k) (Some raw) = Some a" "jget a ''target'' = JStr path" "jget a ''digest'' = JStr digest" by blast
  then show ?thesis using assms(4,5) by (simp add: broker_verdict_def not_attributed_def)
qed

section \<open>Properties\<close>

text \<open>C28: A file the broker writes is at once the attested file. On a file system with extended attributes and
  \<open>renameat2\<close>, with nobody else acting, with a free private name and a target that is absent or a
  regular file with one name, in the state that was recorded: the write reports success, and a read
  through the broker returns its content in text mode together with the attestation. While the write
  is the latest logged operation on the path, and with no manifest of the principal, the verdict of
  the read attributes the file to the broker exactly when the content has no carriage return (no two
  contents here having one digest). Reading translates line ends, so content with a carriage return
  is returned changed, and the verdict says that it was modified outside the broker, although nobody
  touched it.\<close>

theorem written_file_reads_as_broker_write:
  assumes "ed25519 cr" and "wf_ring cr (k_ring k)" and "can_sign (k_ring k)"
    and "can_write uuid d leaf f" and "target_digest cr d leaf f = Some e"
    and "sha cr (universal_newlines content) = sha cr content \<Longrightarrow> universal_newlines content = content"
  shows "\<exists>g raw verdict. run_state (exec_write cr uuid d leaf content (Some (k_ring k, rid, path)) (Some (expect e))) (quiet f) =
           (Inr [(''written'', JNum (int (length content))), (''attested'', JBool True)], quiet g) \<and>
         run_state (exec_read d leaf) (quiet g) =
           (Inr [(''content'', JStr (universal_newlines content)), (''_raw_attestation'', JStr raw)], quiet g) \<and>
         read_verdict cr (Some k) path (universal_newlines content) (Some raw) None (Some (Some (JStr rid, ''write''))) = verdict \<and>
         jget verdict ''attributed'' = JBool (CHR 0x0D \<notin> set content) \<and>
         (CHR 0x0D \<in> set content \<longrightarrow> universal_newlines content \<noteq> content \<and>
            jget verdict ''reason'' = JStr ''content differs from the attested content (modified outside the broker)'')"
proof -
  obtain raw where s: "sign cr (k_ring k) rid path (sha cr content) = Some raw" "raw \<noteq> []"
    using sign_exists [OF assms(3)] by blast
  from exec_write_run [OF assms(4,5) s(1)] obtain g where g:
    "run_state (exec_write cr uuid d leaf content (Some (k_ring k, rid, path)) (Some (expect e))) (quiet f) =
       (Inr [(''written'', JNum (int (length content))), (''attested'', JBool True)], quiet g)"
    "at g d leaf = Some (fresh f)" "inodes g (fresh f) = new_file content raw" "has_xattrs g" by blast
  let ?v = "read_verdict cr (Some k) path (universal_newlines content) (Some raw) None (Some (Some (JStr rid, ''write'')))"
  have same: "(sha cr content = sha cr (universal_newlines content)) = (CHR 0x0D \<notin> set content)"
    using assms(6) universal_newlines_same [of content] by auto
  then have "jget ?v ''attributed'' = JBool (CHR 0x0D \<notin> set content)"
    using broker_verdict_signed [OF assms(1,2) s] by (simp add: read_verdict_def Let_def vouched_def)
  moreover have "CHR 0x0D \<in> set content \<Longrightarrow> jget ?v ''reason'' =
      JStr ''content differs from the attested content (modified outside the broker)''"
    using broker_verdict_changed [OF assms(1,2) s] same by (simp add: read_verdict_def Let_def vouched_def)
  moreover have "CHR 0x0D \<in> set content \<Longrightarrow> universal_newlines content \<noteq> content" using same by auto
  ultimately show ?thesis using g(1) exec_read_run [OF g(2-)] by blast
qed

theorem written_file_reads_as_broker_write_witness:
  "\<exists>g raw. run_state (exec_write demo_crypto ''u'' 0 ''a'' [CHR ''x'', CHR 0x0D]
       (Some (demo_ring, ''r'', ''/workspace/a'')) (Some (Present ''old''))) (quiet demo_fs) =
       (Inr [(''written'', JNum 2), (''attested'', JBool True)], quiet g) \<and>
     jget (read_verdict demo_crypto (Some \<lparr>k_ring = demo_ring, legacy = None\<rparr>) ''/workspace/a''
       [CHR ''x'', CHR 0x0A] (Some raw) None (Some (Some (JStr ''r'', ''write'')))) ''attributed'' = JBool False"
proof -
  let ?k = "\<lparr>k_ring = demo_ring, legacy = None\<rparr>"
  have w: "can_write ''u'' 0 ''a'' demo_fs"
    by (simp add: can_write_def write_tmp_def) (simp add: demo_fs_def at_def)
  have e: "target_digest demo_crypto 0 ''a'' demo_fs = Some (Some ''old'')"
    by (simp add: target_digest_def leaf_now_def demo_crypto_def)
  from written_file_reads_as_broker_write [where k = ?k and content = "[CHR ''x'', CHR 0x0D]" and rid = "''r''"
      and path = "''/workspace/a''", OF demo_crypto_ed25519 _ _ w e] demo_ring_simps(1,2)
  show ?thesis by (simp add: demo_crypto_def) blast
qed

end
