(* ===== verification/LegacyGuard.thy ===== *)
theory LegacyGuard
  imports Prelude "HOL-Library.FSet"
begin

text \<open>
  The tool-name guard of version 0.1, kept as a legacy interface:
  \<open>darm_guard/types.py\<close> (credentials, policies, results), \<open>darm_guard/checker.py\<close>
  (\<open>check_transfer\<close>), \<open>darm_guard/session.py\<close> (a session's cumulative scope, event log
  and summaries), \<open>darm_guard/guard.py\<close> (the modes, the log file, the alerts) and
  \<open>darm_guard/integrations\<close> (the tool wrapper). A \<open>frozenset\<close> of tool names is a
  \<open>string fset\<close>; \<open>sorted(s)\<close> is \<open>sorted_list_of_fset s\<close>. The current time is an
  argument. The detail of a failure is a datatype, with its text beside it.
\<close>

section \<open>types.py\<close>

datatype failure_kind =
  OBSERVATION | DOMAIN_COMPLETENESS | AUTHORITY | TEMPORAL_FRESHNESS | SEMANTIC_BOUNDARY

datatype drift_level = WITHIN | DRIFT | VIOLATION

datatype detail =
    CredentialExpired "time option" "time option"
  | UnknownToPolicy string
  | NotAuthorizedAt string

record failure_witness =
  fw_kind :: failure_kind
  fw_tool :: string
  fw_detail :: detail

record credential =
  tools :: "string fset"
  actor :: string
  boundary :: string
  issued_at :: "time option"
  ttl :: "time option"

record tool_policy =
  authorized_tools :: "string fset"
  pol_boundary :: string

record transfer_result =
  admitted :: bool
  drift :: drift_level
  delta :: "string fset"
  failures :: "failure_witness list"
  timestamp :: time

definition is_expired :: "credential \<Rightarrow> time \<Rightarrow> bool" where
  "is_expired c now =
     (case (issued_at c, ttl c) of (Some i, Some d) \<Rightarrow> i + d < now | _ \<Rightarrow> False)"

text \<open>The drift levels are ordered by severity.\<close>

instantiation drift_level :: linorder
begin

definition drift_rank :: "drift_level \<Rightarrow> nat" where
  "drift_rank d = (case d of WITHIN \<Rightarrow> 0 | DRIFT \<Rightarrow> 1 | VIOLATION \<Rightarrow> 2)"

definition less_eq_drift_level :: "drift_level \<Rightarrow> drift_level \<Rightarrow> bool" where
  "less_eq_drift_level a b \<longleftrightarrow> drift_rank a \<le> drift_rank b"

definition less_drift_level :: "drift_level \<Rightarrow> drift_level \<Rightarrow> bool" where
  "less_drift_level a b \<longleftrightarrow> drift_rank a < drift_rank b"

instance
  by standard
    (auto simp: less_eq_drift_level_def less_drift_level_def drift_rank_def split: drift_level.splits)

end

section \<open>checker.py\<close>

definition check_transfer ::
  "credential \<Rightarrow> string fset \<Rightarrow> tool_policy \<Rightarrow> time \<Rightarrow> transfer_result" where
  "check_transfer cred requested pol now =
     (let dlt = requested |-| tools cred;
          expired = (if is_expired cred now
                     then [\<lparr>fw_kind = TEMPORAL_FRESHNESS, fw_tool = ''*'',
                            fw_detail = CredentialExpired (issued_at cred) (ttl cred)\<rparr>]
                     else []);
          unknown_tools = requested |-| authorized_tools pol |-| tools cred;
          unknown = map (\<lambda>t. \<lparr>fw_kind = OBSERVATION, fw_tool = t,
                              fw_detail = UnknownToPolicy (pol_boundary pol)\<rparr>)
                      (sorted_list_of_fset unknown_tools);
          unauthorized = map (\<lambda>t. \<lparr>fw_kind = AUTHORITY, fw_tool = t,
                                    fw_detail = NotAuthorizedAt (pol_boundary pol)\<rparr>)
                      (filter (\<lambda>t. t |\<notin>| unknown_tools \<and> t |\<notin>| authorized_tools pol)
                         (sorted_list_of_fset dlt));
          fails = expired @ unknown @ unauthorized
      in \<lparr>admitted = (length fails = 0),
          drift = (if dlt = {||} then WITHIN else if fails = [] then DRIFT else VIOLATION),
          delta = dlt, failures = fails, timestamp = now\<rparr>)"

lemma unauthorized_empty:
  "filter (\<lambda>t. t |\<notin>| (r |-| a |-| c) \<and> t |\<notin>| a) (sorted_list_of_fset (r |-| c)) = []"
  by (auto simp: filter_empty_conv)

lemma sorted_list_of_fset_Nil [simp]: "sorted_list_of_fset s = [] \<longleftrightarrow> s = {||}"
  by (metis fset_of_list_simps(1) sorted_list_of_fset_simps(2) fset_of_list.rep_eq bot_fset.rep_eq
      set_empty sorted_list_of_fset_simps(1) fset_inject)

lemma check_transfer_admitted:
  "admitted (check_transfer c r p now) \<longleftrightarrow>
   \<not> is_expired c now \<and> r |\<subseteq>| authorized_tools p |\<union>| tools c"
  unfolding check_transfer_def Let_def by (auto simp: unauthorized_empty)

lemma check_transfer_drift:
  "drift (check_transfer c r p now) =
     (if r |\<subseteq>| tools c then WITHIN
      else if \<not> is_expired c now \<and> r |\<subseteq>| authorized_tools p |\<union>| tools c then DRIFT else VIOLATION)"
  unfolding check_transfer_def Let_def by (auto simp: unauthorized_empty)

lemma check_transfer_delta [simp]: "delta (check_transfer c r p now) = r |-| tools c"
  by (simp add: check_transfer_def Let_def)

section \<open>Explanations\<close>

text \<open>How a \<open>datetime\<close> and a \<open>timedelta\<close> are shown is an argument.\<close>

fun failure_label :: "failure_kind \<Rightarrow> string" where
  "failure_label OBSERVATION = ''O-failure''"
| "failure_label DOMAIN_COMPLETENESS = ''D-failure''"
| "failure_label AUTHORITY = ''A-failure''"
| "failure_label TEMPORAL_FRESHNESS = ''T-failure''"
| "failure_label SEMANTIC_BOUNDARY = ''S-failure''"

definition quoted :: "string \<Rightarrow> string" where
  "quoted s = CHR 0x27 # s @ [CHR 0x27]"

definition shown :: "(time \<Rightarrow> string) \<Rightarrow> time option \<Rightarrow> string" where
  "shown show t = (case t of None \<Rightarrow> ''None'' | Some x \<Rightarrow> show x)"

fun detail_text :: "(time \<Rightarrow> string) \<Rightarrow> (time \<Rightarrow> string) \<Rightarrow> detail \<Rightarrow> string" where
  "detail_text dt td (CredentialExpired i d) = ''credential expired (issued '' @ shown dt i @ '', ttl '' @ shown td d @ '')''"
| "detail_text dt td (UnknownToPolicy b) = ''not in observation model (unknown to policy at boundary '' @ quoted b @ '')''"
| "detail_text dt td (NotAuthorizedAt b) = ''not authorized at boundary '' @ quoted b"

definition explain_failure :: "(time \<Rightarrow> string) \<Rightarrow> (time \<Rightarrow> string) \<Rightarrow> failure_witness \<Rightarrow> string" where
  "explain_failure dt td w = failure_label (fw_kind w) @ '': '' @ fw_tool w @ '' -- '' @ detail_text dt td (fw_detail w)"

definition explain_result :: "(time \<Rightarrow> string) \<Rightarrow> (time \<Rightarrow> string) \<Rightarrow> transfer_result \<Rightarrow> string" where
  "explain_result dt td r =
     (if admitted r
      then (if drift r = DRIFT
            then ''Admitted with drift: '' @ join_with '', '' (sorted_list_of_fset (delta r)) @ '' outside credential but authorized.''
            else ''Admitted: all obligations discharged.'')
      else join_with [CHR 0x0A] (''Rejected:'' # map (\<lambda>w. ''  '' @ explain_failure dt td w) (failures r)))"

section \<open>session.py\<close>

record session_event =
  ev_timestamp :: time
  requested_tools :: "string fset"
  ev_cumulative :: "string fset"
  ev_result :: transfer_result

record session =
  s_credential :: credential
  s_policy :: tool_policy
  session_id :: string
  cumulative_scope :: "string fset"
  s_log :: "session_event list"
  on_drift :: bool
    \<comment> \<open>whether a drift callback is registered\<close>
  on_violation :: bool
  notified :: "(drift_level \<times> session_event) list"
    \<comment> \<open>the callback invocations, in order\<close>

definition new_session :: "credential \<Rightarrow> tool_policy \<Rightarrow> string \<Rightarrow> session" where
  "new_session c p sid =
     \<lparr>s_credential = c, s_policy = p, session_id = sid, cumulative_scope = {||}, s_log = [],
      on_drift = False, on_violation = False, notified = []\<rparr>"

definition session_check ::
  "session \<Rightarrow> string fset \<Rightarrow> time \<Rightarrow> transfer_result \<times> session" where
  "session_check s requested now =
     (let result0 = check_transfer (s_credential s) requested (s_policy s) now;
          scope = cumulative_scope s |\<union>| requested;
          cumulative_delta = scope |-| tools (s_credential s);
          result = (if cumulative_delta \<noteq> {||} \<and> drift result0 = WITHIN
                    then result0\<lparr>drift := DRIFT\<rparr> else result0);
          event = \<lparr>ev_timestamp = now, requested_tools = requested, ev_cumulative = scope,
                   ev_result = result\<rparr>;
          calls = (if drift result = DRIFT \<and> on_drift s then [(DRIFT, event)] else []) @
                  (if drift result = VIOLATION \<and> on_violation s then [(VIOLATION, event)] else [])
      in (result, s\<lparr>cumulative_scope := scope, s_log := s_log s @ [event],
                    notified := notified s @ calls\<rparr>))"

record scope_report =
  sr_session_id :: string
  credential_scope :: "string list"
  sr_cumulative :: "string list"
  sr_delta :: "string list"
  sr_drift :: bool
  call_count :: nat
  violations :: nat

definition scope_summary :: "session \<Rightarrow> scope_report" where
  "scope_summary s =
     (let dlt = cumulative_scope s |-| tools (s_credential s)
      in \<lparr>sr_session_id = session_id s,
          credential_scope = sorted_list_of_fset (tools (s_credential s)),
          sr_cumulative = sorted_list_of_fset (cumulative_scope s),
          sr_delta = sorted_list_of_fset dlt,
          sr_drift = (dlt \<noteq> {||}),
          call_count = length (s_log s),
          violations = length (filter (\<lambda>e. drift (ev_result e) = VIOLATION) (s_log s))\<rparr>)"

record trail_entry =
  tr_timestamp :: time
  tr_requested :: "string list"
  tr_cumulative :: "string list"
  tr_admitted :: bool
  tr_drift :: drift_level
  tr_delta :: "string list"
  tr_failures :: "failure_witness list"

definition audit_trail :: "session \<Rightarrow> trail_entry list" where
  "audit_trail s =
     map (\<lambda>e. \<lparr>tr_timestamp = ev_timestamp e, tr_requested = sorted_list_of_fset (requested_tools e),
              tr_cumulative = sorted_list_of_fset (ev_cumulative e), tr_admitted = admitted (ev_result e),
              tr_drift = drift (ev_result e), tr_delta = sorted_list_of_fset (delta (ev_result e)),
              tr_failures = failures (ev_result e)\<rparr>) (s_log s)"

fun session_run :: "session \<Rightarrow> (string fset \<times> time) list \<Rightarrow> session" where
  "session_run s [] = s"
| "session_run s ((r, now) # calls) = session_run (snd (session_check s r now)) calls"

lemma session_check_fields [simp]:
  "s_credential (snd (session_check s r now)) = s_credential s"
  "s_policy (snd (session_check s r now)) = s_policy s"
  "cumulative_scope (snd (session_check s r now)) = cumulative_scope s |\<union>| r"
  "length (s_log (snd (session_check s r now))) = Suc (length (s_log s))"
  by (simp_all add: session_check_def Let_def)

lemma session_run_fields:
  "s_credential (session_run s calls) = s_credential s"
  "cumulative_scope (session_run s calls) = cumulative_scope s |\<union>| ffUnion (fset_of_list (map fst calls))"
  "length (s_log (session_run s calls)) = length (s_log s) + length calls"
  by (induction s calls rule: session_run.induct) (auto simp: funion_assoc)

section \<open>guard.py\<close>

datatype mode = OBSERVE | GOVERN | ENFORCE

datatype alert =
    ObserveBanner
  | AlertDrift "string list"
  | AlertReject failure_witness

record guard_log_entry =
  le_timestamp :: time
  le_mode :: mode
  le_requested :: "string list"
  le_admitted :: bool
  le_drift :: drift_level
  le_failures :: "failure_witness list"

record guard =
  g_policy :: tool_policy
  g_credential :: credential
  g_mode :: mode
  g_session :: session
  log_file :: "guard_log_entry list option"
    \<comment> \<open>\<open>None\<close>: no log file was given\<close>
  stderr_alerts :: bool
  stderr :: "alert list"

definition new_guard :: "tool_policy \<Rightarrow> credential \<Rightarrow> mode \<Rightarrow> string \<Rightarrow> bool \<Rightarrow> guard" where
  "new_guard p c m sid logging =
     \<lparr>g_policy = p, g_credential = c, g_mode = m, g_session = new_session c p sid,
      log_file = (if logging then Some [] else None), stderr_alerts = True,
      stderr = (if m = OBSERVE then [ObserveBanner] else [])\<rparr>"

definition log_event :: "guard \<Rightarrow> bool \<Rightarrow> transfer_result \<Rightarrow> guard" where
  \<comment> \<open>the second argument: whether the append to the log file raises an \<open>OSError\<close>, which is
      swallowed\<close>
  "log_event g os_error result =
     (case log_file g of
        None \<Rightarrow> g
      | Some entries \<Rightarrow>
          if s_log (g_session g) = [] then g
          else let event = last (s_log (g_session g));
                   entry = \<lparr>le_timestamp = ev_timestamp event, le_mode = g_mode g,
                            le_requested = sorted_list_of_fset (requested_tools event),
                            le_admitted = admitted result, le_drift = drift result,
                            le_failures = failures result\<rparr>
               in if os_error then g else g\<lparr>log_file := Some (entries @ [entry])\<rparr>)"

definition alert_lines :: "transfer_result \<Rightarrow> alert list" where
  "alert_lines result =
     (case drift result of
        WITHIN \<Rightarrow> []
      | DRIFT \<Rightarrow> [AlertDrift (sorted_list_of_fset (delta result))]
      | VIOLATION \<Rightarrow> map AlertReject (failures result))"

fun alert_text :: "(time \<Rightarrow> string) \<Rightarrow> (time \<Rightarrow> string) \<Rightarrow> alert \<Rightarrow> string" where
  "alert_text dt td ObserveBanner = ''[DARM] OBSERVE mode: tool calls are logged and classified but NEVER blocked.''"
| "alert_text dt td (AlertDrift ts) = ''[DARM DRIFT] '' @ join_with '', '' ts @ '' outside credential scope''"
| "alert_text dt td (AlertReject w) = ''[DARM REJECT] '' @ explain_failure dt td w"

definition raise_alert :: "guard \<Rightarrow> transfer_result \<Rightarrow> guard" where
  "raise_alert g result =
     (if stderr_alerts g then g\<lparr>stderr := stderr g @ alert_lines result\<rparr> else g)"

definition guard_check ::
  "guard \<Rightarrow> string fset \<Rightarrow> time \<Rightarrow> bool \<Rightarrow> transfer_result \<times> guard" where
  "guard_check g requested now os_error =
     (let (result, s') = session_check (g_session g) requested now;
          g' = raise_alert (log_event (g\<lparr>g_session := s'\<rparr>) os_error result) result
      in if g_mode g = OBSERVE then (result\<lparr>admitted := True\<rparr>, g') else (result, g'))"

definition update_credential :: "guard \<Rightarrow> string fset \<Rightarrow> guard" where
  "update_credential g new_tools =
     (let c = (g_credential g)\<lparr>tools := tools (g_credential g) |\<union>| new_tools\<rparr>
      in g\<lparr>g_credential := c, g_session := (g_session g)\<lparr>s_credential := c\<rparr>\<rparr>)"

section \<open>integrations: the tool wrapper\<close>

datatype guard_error = PermissionError transfer_result

definition guarded_run ::
  "guard \<Rightarrow> string \<Rightarrow> ('a \<Rightarrow> 'r) \<Rightarrow> 'a \<Rightarrow> time \<Rightarrow> bool \<Rightarrow> (guard_error + 'r) \<times> guard" where
  \<comment> \<open>\<open>_GuardedTool.run\<close>\<close>
  "guarded_run g name tool arg now os_error =
     (let (result, g') = guard_check g {|name|} now os_error
      in if \<not> admitted result then (Inl (PermissionError result), g') else (Inr (tool arg), g'))"

section \<open>Properties\<close>

lemma guard_check_fst:
  "fst (guard_check g r now e) =
     (let res = fst (session_check (g_session g) r now)
      in if g_mode g = OBSERVE then res\<lparr>admitted := True\<rparr> else res)"
  by (simp add: guard_check_def Let_def split: prod.splits)

lemma session_check_admitted [simp]:
  "admitted (fst (session_check s r now)) = admitted (check_transfer (s_credential s) r (s_policy s) now)"
  by (simp add: session_check_def Let_def)

text \<open>In \<open>OBSERVE\<close> mode a result that is a violation explains itself as one with every obligation discharged.\<close>

lemma observed_violation_explained:
  assumes "g_mode g = OBSERVE" and "drift (fst (guard_check g r now e)) = VIOLATION"
  shows "explain_result dt td (fst (guard_check g r now e)) = ''Admitted: all obligations discharged.''"
  using assms by (simp add: guard_check_fst explain_result_def Let_def)

text \<open>the wrapped tool runs exactly when the guard is in OBSERVE mode, or the credential has
  not expired and the tool is in the policy or in the credential; otherwise \<open>PermissionError\<close> is
  raised and the tool is not run.\<close>

theorem guarded_run_iff:
  "fst (guarded_run g name tool arg now e) = Inr (tool arg) \<longleftrightarrow>
     g_mode g = OBSERVE \<or>
     (\<not> is_expired (s_credential (g_session g)) now \<and>
      (name |\<in>| authorized_tools (s_policy (g_session g)) \<or> name |\<in>| tools (s_credential (g_session g))))"
proof -
  have "fst (guarded_run g name tool arg now e) = Inr (tool arg) \<longleftrightarrow>
        admitted (fst (guard_check g {|name|} now e))"
    by (simp add: guarded_run_def split: prod.splits)
  then show ?thesis
    by (auto simp: guard_check_fst Let_def check_transfer_admitted)
qed

text \<open>an expired credential that covers the requested tools is refused with drift level
  \<open>WITHIN\<close>: the refusal raises no alert and is not counted as a violation.\<close>

theorem expired_refusal_is_silent:
  assumes "is_expired c now" and "r |\<subseteq>| tools c" and "m \<noteq> OBSERVE"
  shows "(let (result, g) = guard_check (new_guard p c m sid lg) r now e
          in \<not> admitted result \<and> drift result = WITHIN \<and> stderr g = [] \<and>
             violations (scope_summary (g_session g)) = 0)"
proof -
  have "r |-| tools c = {||}" using assms(2) by auto
  moreover have "drift (check_transfer c r p now) = WITHIN"
    using assms(2) by (simp add: check_transfer_drift)
  moreover have "\<not> admitted (check_transfer c r p now)"
    using assms(1) by (simp add: check_transfer_admitted)
  ultimately show ?thesis using assms(3)
    by (simp add: guard_check_def session_check_def new_guard_def new_session_def raise_alert_def
        log_event_def alert_lines_def scope_summary_def Let_def)
qed

theorem expired_refusal_is_silent_witness:
  "(let c = \<lparr>tools = {|''read''|}, actor = '''', boundary = ''default'',
             issued_at = Some 0, ttl = Some 10\<rparr>;
        p = \<lparr>authorized_tools = {||}, pol_boundary = ''default''\<rparr>;
        (result, g) = guard_check (new_guard p c GOVERN [] False) {|''read''|} 11 False
    in \<not> admitted result \<and> drift result = WITHIN \<and> stderr g = [] \<and>
       violations (scope_summary (g_session g)) = 0)"
  using expired_refusal_is_silent
    [of "\<lparr>tools = {|''read''|}, actor = '''', boundary = ''default'',
          issued_at = Some 0, ttl = Some 10\<rparr>"
        11 "{|''read''|}" GOVERN "\<lparr>authorized_tools = {||}, pol_boundary = ''default''\<rparr>" "[]" False False]
  by (simp add: is_expired_def Let_def)

text \<open>\<open>check_transfer\<close> never reports an \<open>AUTHORITY\<close> failure: a requested tool outside the
  credential and outside the policy is already counted as unknown.\<close>

theorem authority_never_reported:
  "AUTHORITY \<notin> fw_kind ` set (failures (check_transfer c r p now))"
  by (auto simp: check_transfer_def Let_def unauthorized_empty)

text \<open>after any sequence of calls a session reports drift exactly when some call asked for a
  tool outside the credential, whatever the calls' verdicts and order, and counts every call.\<close>

theorem session_reports_cumulative_drift:
  "(let s = scope_summary (session_run (new_session c p sid) calls)
    in (sr_drift s \<longleftrightarrow> (\<exists>call\<in>set calls. \<not> fst call |\<subseteq>| tools c)) \<and> call_count s = length calls)"
proof -
  let ?s = "session_run (new_session c p sid) calls"
  have f: "cumulative_scope ?s = ffUnion (fset_of_list (map fst calls))"
    "s_credential ?s = c" "length (s_log ?s) = length calls"
    by (simp_all add: session_run_fields new_session_def)
  have "x |\<in>| ffUnion (fset_of_list (map fst calls)) \<longleftrightarrow> (\<exists>call\<in>set calls. x |\<in>| fst call)" for x
    by (force simp: ffUnion.rep_eq fset_of_list.rep_eq)
  then show ?thesis unfolding scope_summary_def Let_def f by (auto simp: f)
qed

end
