(* ===== verification/Kernel.thy ===== *)
theory Kernel
  imports Registry LegacyGuard
begin

text \<open>
  The client of the decision kernel (\<open>darm_guard/kernel.py\<close>) and the installer that pins its
  binary (\<open>darm_guard/install.py\<close>). The kernel binary is not part of the sources: what it
  answers to a request line is an argument, \<open>io\<close>, whose results are the outcomes the client
  distinguishes. The client's state is its process handle.
\<close>

section \<open>Policy\<close>

record arg_rule =
  ar_key :: string
  allowed_values :: "string list"
  allowed_prefixes :: "string list"

record tool_rule =
  tr_tool :: string
  tr_rules :: "arg_rule list"

definition arg_rule_json :: "arg_rule \<Rightarrow> json" where
  "arg_rule_json r = JObj [(''key'', JStr (ar_key r)),
     (''allowedValues'', JList (map JStr (allowed_values r))),
     (''allowedPrefixes'', JList (map JStr (allowed_prefixes r)))]"

definition tool_rule_json :: "tool_rule \<Rightarrow> json" where
  "tool_rule_json t = JObj [(''tool'', JStr (tr_tool t)), (''rules'', JList (map arg_rule_json (tr_rules t)))]"

definition kernel_policy_json :: "tool_rule list \<Rightarrow> json" where
  "kernel_policy_json ts = JObj [(''tools'', JList (map tool_rule_json ts))]"

section \<open>Decisions\<close>

record kernel_decision =
  kd_admitted :: bool
  kd_failure :: json
  kd_error :: json
  kd_raw :: string
  kd_invocation :: json

definition rejection :: "json \<Rightarrow> json \<Rightarrow> string \<Rightarrow> kernel_decision" where
  "rejection f e raw = \<lparr>kd_admitted = False, kd_failure = f, kd_error = e, kd_raw = raw, kd_invocation = JNull\<rparr>"

definition explain :: "kernel_decision \<Rightarrow> string" where
  "explain d =
     (if kd_admitted d then ''admitted by kernel''
      else if truthy (kd_error d)
      then ''rejected: '' @ (case kd_error d of JStr e \<Rightarrow> e | v \<Rightarrow> dumps v)
      else ''rejected: '' @ (case kd_failure d of JStr f \<Rightarrow> f | JNull \<Rightarrow> ''None'' | v \<Rightarrow> dumps v) @ ''-failure'')"

datatype kernel_io =
    TimedOut            \<comment> \<open>\<open>select\<close> found nothing to read\<close>
  | Exited              \<comment> \<open>end of file\<close>
  | Raised string       \<comment> \<open>starting, writing or reading raised\<close>
  | Line string         \<comment> \<open>one line\<close>

datatype proc = NoProc | Running | Dead

definition no_kernel :: string where
  "no_kernel = ''no kernel: run darm-guard-install-kernel or set DARM_KERNEL_PATH''"

definition kernel_reply :: "string \<Rightarrow> string \<Rightarrow> json \<Rightarrow> proc \<Rightarrow> kernel_decision \<times> proc" where
  "kernel_reply nonce line data pr =
     (case data of
        JObj d \<Rightarrow>
          (if jget d ''nonce'' \<noteq> JStr nonce
           then (rejection JNull (JStr ''kernel reply does not answer this request (nonce mismatch)'')
                   (strip line), NoProc)
           else if jget d ''decision'' = JStr ''admit''
           then (\<lparr>kd_admitted = True, kd_failure = JNull, kd_error = JNull, kd_raw = strip line,
                  kd_invocation = (case jget d ''invocation'' of JObj i \<Rightarrow> JObj i | _ \<Rightarrow> JNull)\<rparr>, pr)
           else (rejection (jget d ''failure'') (jget d ''error'') (strip line), pr))
      | _ \<Rightarrow> (rejection JNull (JStr ''kernel reply is not a JSON object'') (strip line), pr))"

definition kernel_decide ::
  "string \<Rightarrow> string \<Rightarrow> (string \<Rightarrow> kernel_io) \<Rightarrow> jobj \<Rightarrow> proc \<Rightarrow> kernel_decision \<times> proc" where
  "kernel_decide path nonce io request pr =
     (if path = [] then (rejection JNull (JStr no_kernel) [], pr)
      else (case io (dumps (JObj (dset request ''nonce'' (JStr nonce))) @ [CHR 0x0A]) of
              TimedOut \<Rightarrow> (rejection JNull (JStr ''kernel timeout'') [], NoProc)
            | Exited \<Rightarrow> (rejection JNull (JStr ''kernel exited'') [], NoProc)
            | Raised e \<Rightarrow> (rejection JNull (JStr (''kernel unavailable: '' @ e)) [], NoProc)
            | Line line \<Rightarrow>
                (case loads line of
                   None \<Rightarrow> (rejection JNull (JStr ''kernel unavailable: invalid JSON'') [], NoProc)
                 | Some data \<Rightarrow> kernel_reply nonce line data Running)))"

lemma kernel_reply_admits:
  "kd_admitted (fst (kernel_reply nonce line data pr)) \<longleftrightarrow>
   (\<exists>d. data = JObj d \<and> jget d ''nonce'' = JStr nonce \<and> jget d ''decision'' = JStr ''admit'')"
  by (cases data) (auto simp: kernel_reply_def rejection_def)

lemma kernel_decide_admits:
  "kd_admitted (fst (kernel_decide path nonce io request pr)) \<longleftrightarrow>
   path \<noteq> [] \<and>
   (\<exists>line d. io (dumps (JObj (dset request ''nonce'' (JStr nonce))) @ [CHR 0x0A]) = Line line \<and>
      loads line = Some (JObj d) \<and> jget d ''nonce'' = JStr nonce \<and> jget d ''decision'' = JStr ''admit'')"
  unfolding kernel_decide_def
  by (auto simp: rejection_def kernel_reply_admits split: kernel_io.splits option.splits)

section \<open>KernelGuard\<close>

record kernel_log_entry =
  kl_time :: time
  kl_tool :: string
  kl_args :: json
  kl_admitted :: bool
  kl_failure :: json
  kl_error :: json

record kernel_guard =
  kg_policy :: "tool_rule list"
  kg_tools :: "string fset"
  default_provenance :: string
  kg_mode :: mode
  kg_issued_at :: "time option"
  kg_ttl :: "time option"
  kg_log :: "kernel_log_entry list"

definition kg_expired :: "kernel_guard \<Rightarrow> time \<Rightarrow> bool" where
  "kg_expired g now =
     (case (kg_issued_at g, kg_ttl g) of (Some i, Some t) \<Rightarrow> now > i + t | _ \<Rightarrow> False)"

definition kg_invocation_args ::
  "kernel_guard \<Rightarrow> (string \<times> string) list \<Rightarrow> (string \<times> string) list \<Rightarrow> json" where
  "kg_invocation_args g args prov =
     JList (map (\<lambda>(k, v). JObj [(''key'', JStr k), (''value'', JStr v),
       (''prov'', JStr (case map_of prov k of Some p \<Rightarrow> p | None \<Rightarrow> default_provenance g))]) args)"

definition kg_request ::
  "kernel_guard \<Rightarrow> string \<Rightarrow> json \<Rightarrow> time \<Rightarrow> jobj" where
  "kg_request g tool args now =
     [(''policy'', kernel_policy_json (kg_policy g)),
      (''credential'', JObj [(''tools'', JList (map JStr (sorted_list_of_fset (kg_tools g)))),
                             (''expired'', JBool (kg_expired g now))]),
      (''invocation'', JObj [(''tool'', JStr tool), (''args'', args)])]"

definition kg_check ::
  "string \<Rightarrow> string \<Rightarrow> (string \<Rightarrow> kernel_io) \<Rightarrow> proc \<Rightarrow> kernel_guard \<Rightarrow> string \<Rightarrow> (string \<times> string) list \<Rightarrow>
   (string \<times> string) list \<Rightarrow> time \<Rightarrow> kernel_decision \<times> kernel_guard \<times> proc" where
  "kg_check path nonce io pr g tool args prov now =
     (let jargs = kg_invocation_args g args prov;
          (d, pr') = kernel_decide path nonce io (kg_request g tool jargs now) pr;
          g' = g\<lparr>kg_log := kg_log g @ [\<lparr>kl_time = now, kl_tool = tool, kl_args = jargs,
                   kl_admitted = kd_admitted d, kl_failure = kd_failure d, kl_error = kd_error d\<rparr>]\<rparr>
      in if kg_mode g = OBSERVE \<and> \<not> kd_admitted d
         then (\<lparr>kd_admitted = True, kd_failure = kd_failure d, kd_error = kd_error d, kd_raw = kd_raw d,
                kd_invocation = JNull\<rparr>, g', pr')
         else (d, g', pr'))"

section \<open>The pinned binary\<close>

definition KERNEL_VERSION :: string where "KERNEL_VERSION = ''kernel-v0.4.0''"

definition kernel_dir :: "string option \<Rightarrow> string \<Rightarrow> string" where
  \<comment> \<open>from the environment's \<open>XDG_CACHE_HOME\<close> and the home directory, neither ending with a slash\<close>
  "kernel_dir cache home =
     (case cache of Some c \<Rightarrow> if c \<noteq> [] then c else home @ ''/.cache'' | None \<Rightarrow> home @ ''/.cache'') @
     ''/darm-guard/'' @ KERNEL_VERSION"

definition kernel_path :: "string option \<Rightarrow> string \<Rightarrow> string" where
  "kernel_path cache home = kernel_dir cache home @ ''/darmkernel''"

definition supported_platform :: "string \<Rightarrow> string \<Rightarrow> bool" where
  \<comment> \<open>\<open>sys.platform\<close> and \<open>platform.machine()\<close>\<close>
  "supported_platform sys machine \<longleftrightarrow> startswith sys ''linux'' \<and> machine \<in> {''x86_64'', ''AMD64''}"

definition KERNEL_SHA256 :: string where
  "KERNEL_SHA256 = ''6f6c3a21688047a2dd5111483ba9f25d7f4db83d3562d4da2cc616e00c484d31''"

definition verified_kernel_path ::
  "(string \<Rightarrow> string) \<Rightarrow> string \<Rightarrow> (string \<rightharpoonup> string) \<Rightarrow> string" where
  "verified_kernel_path sha kpath disk =
     (case disk kpath of
        Some content \<Rightarrow> if sha content = KERNEL_SHA256 then kpath else []
      | None \<Rightarrow> [])"

datatype install_error = UnsupportedPlatform | DownloadFailed | HashMismatch string

datatype download = Got string | Aborted string
  \<comment> \<open>the whole answer, or what had been written when the download failed\<close>

fun read_body :: "string \<Rightarrow> string option list \<Rightarrow> download" where
  \<comment> \<open>the loop of \<open>_download\<close>: what each \<open>read\<close> returns, \<open>None\<close> for one that raises; without any more it stalls\<close>
  "read_body written [] = Aborted written"
| "read_body written (None # rs) = Aborted written"
| "read_body written (Some chunk # rs) = (if chunk = [] then Got written else read_body (written @ chunk) rs)"

definition install_kernel ::
  "(string \<Rightarrow> string) \<Rightarrow> bool \<Rightarrow> string \<Rightarrow> string \<Rightarrow> download \<Rightarrow> (string \<rightharpoonup> string) \<Rightarrow>
   (install_error + string) \<times> (string \<rightharpoonup> string)" where
  "install_kernel sha supported kpath tmp dl disk =
     (if \<not> supported then (Inl UnsupportedPlatform, disk)
      else if verified_kernel_path sha kpath disk \<noteq> []
      then (Inr (verified_kernel_path sha kpath disk), disk)
      else let disk1 = disk(tmp \<mapsto> []) in
        (case dl of
           Aborted part \<Rightarrow> (Inl DownloadFailed, (disk1(tmp \<mapsto> part))(tmp := None))
         | Got content \<Rightarrow>
             let disk2 = disk1(tmp \<mapsto> content) in
             if sha content \<noteq> KERNEL_SHA256 then (Inl (HashMismatch (sha content)), disk2(tmp := None))
             else (Inr kpath, (disk2(kpath \<mapsto> content))(tmp := None))))"
  \<comment> \<open>the last step is \<open>os.replace\<close>, after which the clean-up finds no temporary file\<close>

definition install_error_text :: "string \<Rightarrow> install_error \<Rightarrow> string" where
  \<comment> \<open>with the text of the exception a download failed with\<close>
  "install_error_text exc e =
     (case e of
        UnsupportedPlatform \<Rightarrow> ''prebuilt kernel is linux x86_64 only; build darmkernel from darm-monitor instead''
      | DownloadFailed \<Rightarrow> exc
      | HashMismatch got \<Rightarrow> ''kernel hash mismatch: expected '' @ KERNEL_SHA256 @ '', got '' @ got)"

definition install_main ::
  "(string \<Rightarrow> string) \<Rightarrow> string \<Rightarrow> string \<Rightarrow> string \<Rightarrow> string \<Rightarrow> string option list \<Rightarrow> string \<Rightarrow> (string \<rightharpoonup> string) \<Rightarrow>
   nat \<times> string list \<times> (string \<rightharpoonup> string)" where
  \<comment> \<open>\<open>main\<close>: the exit code and the lines it prints\<close>
  "install_main sha sys machine kpath tmp rs exc disk =
     (case install_kernel sha (supported_platform sys machine) kpath tmp (read_body [] rs) disk of
        (Inl e, disk') \<Rightarrow> (1, [''darm-guard: kernel install failed: '' @ install_error_text exc e], disk')
      | (Inr path, disk') \<Rightarrow>
          (0, [''DARM kernel '' @ KERNEL_VERSION @ '' installed and verified: '' @ path, ''sha256: '' @ KERNEL_SHA256], disk'))"

section \<open>Properties\<close>

text \<open>C29: The kernel client admits exactly when the kernel answered this very request: there is a
  kernel, it replied with a line that is a JSON object carrying this request's fresh nonce, and
  the decision in it is \<open>admit\<close>. No kernel, a timeout, an exit, an exception, malformed JSON, a
  value that is no object and a stale reply are all rejections.\<close>

lemma kernel_admits_only_on_its_own_reply:
  "kd_admitted (fst (kernel_decide path nonce io request pr)) \<longleftrightarrow>
   path \<noteq> [] \<and>
   (\<exists>line d. io (dumps (JObj (dset request ''nonce'' (JStr nonce))) @ [CHR 0x0A]) = Line line \<and>
      loads line = Some (JObj d) \<and> jget d ''nonce'' = JStr nonce \<and> jget d ''decision'' = JStr ''admit'')"
  by (rule kernel_decide_admits)

text \<open>The invocation-level guard passes exactly what the kernel admits, unless its mode is
  \<open>OBSERVE\<close>; and in every mode the new entry of its log carries the kernel's own verdict.\<close>

lemma kernel_guard_follows_kernel:
  "(case kg_check path nonce io pr g tool args prov now of (d, g', pr') \<Rightarrow>
     kd_admitted d = (kg_mode g = OBSERVE \<or>
       kd_admitted (fst (kernel_decide path nonce io
         (kg_request g tool (kg_invocation_args g args prov) now) pr))) \<and>
     map kl_admitted (kg_log g') = map kl_admitted (kg_log g) @
       [kd_admitted (fst (kernel_decide path nonce io
         (kg_request g tool (kg_invocation_args g args prov) now) pr))])"
  by (auto simp: kg_check_def Let_def case_prod_beta)

text \<open>Whatever the download brings, the installer reports success only when the file at the
  kernel's path has the pinned hash, and a failed installation leaves the disk as it was.\<close>

lemma installed_kernel_is_pinned:
  assumes "disk tmp = None" and "tmp \<noteq> kpath"
  shows "case install_kernel sha supported kpath tmp dl disk of
           (Inr p, disk') \<Rightarrow> p = kpath \<and> map_option sha (disk' p) = Some KERNEL_SHA256 \<and> disk' tmp = None
         | (Inl e, disk') \<Rightarrow> disk' = disk"
  using assms
  by (auto simp: install_kernel_def verified_kernel_path_def Let_def fun_upd_idem
      split: download.split option.split)

text \<open>When \<open>darm-guard-install-kernel\<close> exits with 0, the file at the kernel's path has the pinned hash, and
  when it does not, the disk is as before: a connection that ends early only brings fewer bytes.\<close>

lemma install_exit:
  assumes "disk tmp = None" and "tmp \<noteq> kpath"
    and "install_main sha sys machine kpath tmp rs exc disk = (code, out, disk')"
  shows "if code = 0 then map_option sha (disk' kpath) = Some KERNEL_SHA256 \<and> disk' tmp = None else code = 1 \<and> disk' = disk"
  using assms
  by (auto simp: install_main_def install_kernel_def verified_kernel_path_def Let_def fun_upd_idem
      split: download.splits option.splits if_splits)

lemma installed_kernel_is_pinned_witness:
  "\<exists>disk'. install_kernel (\<lambda>_. KERNEL_SHA256) True ''darmkernel'' ''tmp1'' (Got ''ELF'') (\<lambda>_. None) =
      (Inr ''darmkernel'', disk') \<and> map_option (\<lambda>_. KERNEL_SHA256) (disk' ''darmkernel'') = Some KERNEL_SHA256"
proof -
  let ?r = "install_kernel (\<lambda>_. KERNEL_SHA256) True ''darmkernel'' ''tmp1'' (Got ''ELF'') (\<lambda>_. None)"
  have "fst ?r = Inr ''darmkernel''"
    by (simp add: install_kernel_def verified_kernel_path_def Let_def)
  then obtain disk' where r: "?r = (Inr ''darmkernel'', disk')" by (metis prod.collapse)
  have "case ?r of
           (Inr p, disk') \<Rightarrow> p = ''darmkernel'' \<and>
              map_option (\<lambda>_. KERNEL_SHA256) (disk' p) = Some KERNEL_SHA256 \<and> disk' ''tmp1'' = None
         | (Inl e, disk') \<Rightarrow> disk' = (\<lambda>_. None)"
    by (rule installed_kernel_is_pinned) simp_all
  then show ?thesis by (simp add: r)
qed

end
