(* ===== verification/Intents.thy ===== *)
theory Intents
  imports Rename AuditLog
begin

text \<open>
  The principal's single-use intents (\<open>darm_guard/broker.py\<close>): the lines they are written as,
  the rule by which one fits a proposal, the premises the broker observes, and the store that
  reserves, spends and returns them, with its two files. A line or file the program refuses is an
  error value. The intents path is never empty.
\<close>

section \<open>Lines\<close>

type_synonym intent = "string \<times> (string \<times> string) list"

datatype intent_error =
    EmptyIntent
  | MalformedConstraint string
  | PathNotNormal string
  | DigestNotHex string
  | UnknownPremise string
  | PremiseNotNormal string
  | PremiseDigest string
  | RepeatedConstraint

definition hex64 :: "string \<Rightarrow> bool" where
  "hex64 v \<longleftrightarrow> length v = 64 \<and> list_all is_lower_hex v"

definition constraint_problem :: "string \<Rightarrow> string \<Rightarrow> intent_error option" where
  "constraint_problem k v =
     (if k \<in> set PATH_KEYS \<and> \<not> path_in_normal_form v then Some (PathNotNormal v)
      else if endswith k ''_sha256'' \<and> \<not> hex64 v then Some (DigestNotHex v)
      else if startswith k ''if_'' \<and> k \<notin> set [''if_present'', ''if_absent'', ''if_digest'']
      then Some (UnknownPremise k)
      else if k \<in> set [''if_present'', ''if_absent''] \<and> \<not> path_in_normal_form v then Some (PremiseNotNormal v)
      else if k = ''if_digest'' then
        (case rpartition_at (CHR ''@'') v of (ppath, found, digest) \<Rightarrow>
           if \<not> found \<or> \<not> path_in_normal_form ppath \<or> \<not> hex64 digest then Some (PremiseDigest v) else None)
      else None)"

fun parse_constraints :: "string list \<Rightarrow> intent_error + (string \<times> string) list" where
  "parse_constraints [] = Inr []"
| "parse_constraints (c # cs) =
     (case partition_at (CHR ''='') c of (k, sep, v) \<Rightarrow>
        if \<not> sep \<or> k = [] \<or> v = [] then Inl (MalformedConstraint c)
        else (case constraint_problem k v of
                Some e \<Rightarrow> Inl e
              | None \<Rightarrow> (case parse_constraints cs of Inl e \<Rightarrow> Inl e | Inr cons \<Rightarrow> Inr ((k, v) # cons))))"

definition parse_intent :: "string \<Rightarrow> intent_error + intent" where
  "parse_intent line =
     (case words_of line of
        [] \<Rightarrow> Inl EmptyIntent
      | tool # parts \<Rightarrow>
          (case parse_constraints parts of
             Inl e \<Rightarrow> Inl e
           | Inr cons \<Rightarrow> if \<not> distinct (map fst cons) then Inl RepeatedConstraint else Inr (tool, cons)))"

definition intent_line :: "intent \<Rightarrow> string" where
  "intent_line i = join_with '' '' (fst i # map (\<lambda>(k, v). k @ ''='' @ v) (snd i))"

definition order_intents :: "intent list \<Rightarrow> intent list" where
  "order_intents = sort_key (\<lambda>i. length (snd i))"

fun parse_intents :: "string list \<Rightarrow> intent_error + intent list" where
  "parse_intents [] = Inr []"
| "parse_intents (l # ls) =
     (case parse_intent l of
        Inl e \<Rightarrow> Inl e
      | Inr i \<Rightarrow> (case parse_intents ls of Inl e \<Rightarrow> Inl e | Inr is \<Rightarrow> Inr (i # is)))"

definition load_intents :: "string \<Rightarrow> intent_error + intent list" where
  "load_intents text =
     (case parse_intents (map strip (lines_of text)) of Inl e \<Rightarrow> Inl e | Inr is \<Rightarrow> Inr (order_intents is))"

section \<open>Fitting\<close>

definition premise_key :: "string \<Rightarrow> bool" where "premise_key k \<longleftrightarrow> startswith k ''if_''"

definition bound_arg :: "(string \<Rightarrow> string) \<Rightarrow> string \<Rightarrow> string \<times> (string \<Rightarrow> string)" where
  \<comment> \<open>the argument a constraint is about, and what is compared of its value\<close>
  "bound_arg hf k = (if endswith k ''_sha256'' then (take (length k - 7) k, hf) else (k, \<lambda>b. b))"

definition constraint_holds :: "(string \<Rightarrow> string) \<Rightarrow> (string \<times> string) list \<Rightarrow> string \<Rightarrow> string \<Rightarrow> bool" where
  "constraint_holds hf args k v =
     (if premise_key k then True
      else (case bound_arg hf k of (name, seen) \<Rightarrow>
              list_ex (\<lambda>(a, b). a = name) args \<and> list_all (\<lambda>(a, b). a = name \<longrightarrow> seen b = v) args))"

definition intent_fits :: "(string \<Rightarrow> string) \<Rightarrow> intent \<Rightarrow> string \<Rightarrow> (string \<times> string) list \<Rightarrow> bool" where
  "intent_fits hf i tool args \<longleftrightarrow>
     fst i = tool \<and> list_all (\<lambda>(k, v). constraint_holds hf args k v) (snd i)"

fun premise_walk :: "crypto \<Rightarrow> (string \<times> string) list \<Rightarrow> (world, string option) state" where
  "premise_walk cr [] = ret None"
| "premise_walk cr ((k, v) # cons) =
     (if k = ''if_present'' then do {
        s \<leftarrow> observe cr v;
        (case s of Present d \<Rightarrow> premise_walk cr cons | _ \<Rightarrow> ret (Some (v @ '' is not present''))) }
      else if k = ''if_absent'' then do {
        s \<leftarrow> observe cr v;
        (if s = Absent then premise_walk cr cons else ret (Some (v @ '' is not absent''))) }
      else if k = ''if_digest'' then
        (case rpartition_at (CHR ''@'') v of (ppath, found, digest) \<Rightarrow> do {
           s \<leftarrow> observe cr ppath;
           (if s = Present digest then premise_walk cr cons
            else ret (Some (ppath @ '' does not have digest '' @ take 12 digest @ ''...''))) })
      else premise_walk cr cons)"

definition premise_problem :: "crypto \<Rightarrow> intent \<Rightarrow> (world, string option) state" where
  "premise_problem cr i = premise_walk cr (snd i)"

section \<open>The store\<close>

record intent_store =
  available :: "intent list option"           \<comment> \<open>\<open>intents\<close>; \<open>None\<close> when intents are off\<close>
  held :: "(string \<times> intent) list"            \<comment> \<open>\<open>_reserved\<close>\<close>
  frozen :: bool
  written :: "string option"                  \<comment> \<open>\<open>_intents_written\<close>\<close>
  intents_path :: "string option"
  revocations_path :: "string option"

definition ints :: "intent_store \<Rightarrow> intent list" where
  "ints st = (case available st of None \<Rightarrow> [] | Some is \<Rightarrow> is)"

fun parse_held :: "jobj \<Rightarrow> (string \<times> intent) list option" where
  "parse_held [] = Some []"
| "parse_held ((r, v) # d) =
     (case v of
        JStr l \<Rightarrow> (case (parse_intent l, parse_held d) of
                    (Inr i, Some h) \<Rightarrow> Some ((r, i) # h) | _ \<Rightarrow> None)
      | _ \<Rightarrow> None)"

definition load_held :: "string \<Rightarrow> (string \<times> intent) list option" where
  "load_held text = (case loads text of Some (JObj d) \<Rightarrow> parse_held d | _ \<Rightarrow> None)"

definition text_at :: "files \<Rightarrow> string \<Rightarrow> string option" where
  \<comment> \<open>\<open>open(p).read()\<close>\<close>
  "text_at disk p = map_option universal_newlines (disk p)"

definition open_store :: "intent list option \<Rightarrow> string option \<Rightarrow> string option \<Rightarrow> files \<Rightarrow> intent_store option" where
  \<comment> \<open>the intents part of \<open>Broker.__init__\<close>; \<open>None\<close> is an exception\<close>
  "open_store is path revs disk =
     (let st = \<lparr>available = map_option order_intents is, held = [], frozen = False,
                written = Option.bind path (text_at disk), intents_path = path, revocations_path = revs\<rparr>
      in (case Option.bind path (\<lambda>p. disk (p @ ''.reserved'')) of
            None \<Rightarrow> Some st
          | Some text \<Rightarrow> map_option (\<lambda>h. st\<lparr>held := h\<rparr>) (load_held text)))"

definition start_store :: "string \<Rightarrow> string option \<Rightarrow> files \<Rightarrow> intent_store option" where
  \<comment> \<open>what \<open>serve\<close> does with an intents path\<close>
  "start_store p revs disk =
     (case disk p of
        None \<Rightarrow> None
      | Some text \<Rightarrow> (case load_intents text of Inl e \<Rightarrow> None | Inr is \<Rightarrow> open_store (Some is) (Some p) revs disk))"

section \<open>Persisting\<close>

datatype disk_op = WriteFile string string | ReplaceFile string string

fun disk_do :: "disk_op \<Rightarrow> files \<Rightarrow> files" where
  "disk_do (WriteFile p text) disk = disk(p \<mapsto> text)"
| "disk_do (ReplaceFile src dst) disk = replace_file src dst disk"

definition intents_text :: "intent list \<Rightarrow> string" where
  "intents_text is = concat (map (\<lambda>i. intent_line i @ [CHR 0x0A]) is)"

definition held_text :: "(string \<times> intent) list \<Rightarrow> string" where
  "held_text h = dumps_sorted (JObj (map (\<lambda>(r, i). (r, JStr (intent_line i))) h))"

definition persist_ops :: "string \<Rightarrow> intent_store \<Rightarrow> disk_op list" where
  "persist_ops p st =
     [WriteFile (p @ ''.tmp'') (intents_text (ints st)), ReplaceFile (p @ ''.tmp'') p,
      WriteFile (p @ ''.reserved.tmp'') (held_text (held st)),
      ReplaceFile (p @ ''.reserved.tmp'') (p @ ''.reserved'')]"

definition crashed :: "nat \<Rightarrow> string \<Rightarrow> intent_store \<Rightarrow> files \<Rightarrow> files" where
  \<comment> \<open>the disk if the machine stops after \<open>n\<close> of the operations\<close>
  "crashed n p st disk = fold disk_do (take n (persist_ops p st)) disk"

definition persist_intents :: "intent_store \<Rightarrow> files \<Rightarrow> intent_store \<times> files" where
  "persist_intents st disk =
     (case intents_path st of
        None \<Rightarrow> (st, disk)
      | Some p \<Rightarrow> (st\<lparr>written := text_at (crashed 2 p st disk) p\<rparr>, crashed 4 p st disk))"

section \<open>Before a decision\<close>

definition INTENTS_CHANGED :: string where
  "INTENTS_CHANGED = ''the intents file changed outside the broker: refusing intent-gated actions; revoke through the revocations file, or restart''"

fun revoke :: "string list \<Rightarrow> intent list \<Rightarrow> intent list" where
  \<comment> \<open>a line that cannot be read revokes everything\<close>
  "revoke [] is = is"
| "revoke (l # ls) is =
     (case words_of (strip l) of
        [t, s] \<Rightarrow> if s = ''*'' then revoke ls (filter (\<lambda>i. fst i \<noteq> t) is)
                 else (case parse_intent (strip l) of Inl e \<Rightarrow> [] | Inr r \<Rightarrow> revoke ls (filter (\<lambda>i. i \<noteq> r) is))
      | _ \<Rightarrow> (case parse_intent (strip l) of Inl e \<Rightarrow> [] | Inr r \<Rightarrow> revoke ls (filter (\<lambda>i. i \<noteq> r) is)))"

definition noticed_edit :: "intent_store \<Rightarrow> files \<Rightarrow> bool" where
  "noticed_edit st disk =
     (case intents_path st of
        None \<Rightarrow> False
      | Some p \<Rightarrow> written st \<noteq> None \<and> \<not> frozen st \<and> text_at disk p \<noteq> written st)"

definition refresh_intents :: "intent_store \<Rightarrow> files \<Rightarrow> string option \<times> intent_store \<times> files" where
  "refresh_intents st0 disk =
     (let st = (if noticed_edit st0 disk then st0\<lparr>frozen := True\<rparr> else st0) in
      if frozen st then (Some INTENTS_CHANGED, st, disk)
      else case Option.bind (revocations_path st) disk of
        None \<Rightarrow> (None, st, disk)
      | Some text \<Rightarrow>
          (let is = revoke (lines_of text) (ints st) in
           if is \<noteq> ints st
           then (case persist_intents (st\<lparr>available := Some is\<rparr>) disk of (st', disk') \<Rightarrow> (None, st', disk'))
           else (None, st, disk)))"

section \<open>Reserving and settling\<close>

definition reserve :: "string \<Rightarrow> intent \<Rightarrow> intent_store \<Rightarrow> intent_store" where
  "reserve rid used st = st\<lparr>available := Some (remove1 used (ints st)), held := dset (held st) rid used\<rparr>"

definition reserve_intent :: "string \<Rightarrow> intent \<Rightarrow> intent_store \<Rightarrow> files \<Rightarrow> intent_store \<times> files" where
  "reserve_intent rid used st disk = persist_intents (reserve rid used st) disk"

definition settled_state :: "json \<Rightarrow> string" where
  "settled_state verdict =
     (if verdict = JStr ''confirmedSuccess'' then ''spent''
      else if verdict = JStr ''confirmedFailure'' then ''returned'' else ''reserved'')"

definition settle :: "string \<Rightarrow> intent \<Rightarrow> string \<Rightarrow> intent_store \<Rightarrow> intent_store" where
  "settle rid used how st =
     (let st1 = st\<lparr>held := AList.delete rid (held st)\<rparr>
      in if how = ''returned'' then st1\<lparr>available := Some (order_intents (ints st @ [used]))\<rparr> else st1)"

definition settlement :: "string \<Rightarrow> json \<Rightarrow> intent \<Rightarrow> jobj" where
  "settlement rid verdict used =
     [(''event'', JStr ''intent_settled''), (''request_id'', JStr rid), (''intent'', JStr (intent_line used)),
      (''verdict'', verdict), (''state'', JStr (settled_state verdict))] @
     (if settled_state verdict = ''spent'' then [(''intent_consumed'', JStr (intent_line used))] else [])"

definition settle_and_record ::
  "crypto \<Rightarrow> append_env \<Rightarrow> string \<Rightarrow> json \<Rightarrow> intent_store \<Rightarrow> files \<Rightarrow> audit_log \<Rightarrow>
   (unit + (string \<times> intent) option) \<times> intent_store \<times> files \<times> audit_log" where
  \<comment> \<open>\<open>Inl\<close>: the record could not be appended, and the intent has not moved; otherwise the state
      and the intent it is the state of\<close>
  "settle_and_record cr env rid verdict st disk al =
     (case map_of (held st) rid of
        None \<Rightarrow> (Inr None, st, disk, al)
      | Some used \<Rightarrow>
          (case log_append cr env (settlement rid verdict used) al of
             (False, al') \<Rightarrow> (Inl (), st, disk, al')
           | (True, al') \<Rightarrow>
               (let how = settled_state verdict in
                if how = ''reserved'' then (Inr (Some (how, used)), st, disk, al')
                else (case persist_intents (settle rid used how st) disk of
                        (st', disk') \<Rightarrow> (Inr (Some (how, used)), st', disk', al')))))"

section \<open>Settling at startup\<close>

definition entry_verdict :: "jobj \<Rightarrow> json" where
  "entry_verdict e =
     (let v = py_or (jget e ''reconciliation'') (jget e ''verdict'');
          v' = (if \<not> truthy v \<and> jget e ''event'' = JStr ''outcome''
                then (if jget e ''effect'' = JStr ''succeeded'' then JStr ''confirmedSuccess''
                      else if jget e ''effect'' = JStr ''failed'' then JStr ''confirmedFailure'' else JNull)
                else v)
      in py_or v' (JStr ''unresolved''))"

fun log_verdicts :: "(string \<times> intent) list \<Rightarrow> json list \<Rightarrow> (string \<times> json) list \<Rightarrow> (string \<times> json) list" where
  "log_verdicts h [] vs = vs"
| "log_verdicts h (v # es) vs =
     (let e = jfields v in
      case jget e ''request_id'' of
        JStr rid \<Rightarrow>
          if map_of h rid \<noteq> None \<and> jget e ''event'' \<in> {JStr ''outcome'', JStr ''reconciled''}
          then log_verdicts h es (dset vs rid (entry_verdict e)) else log_verdicts h es vs
      | _ \<Rightarrow> log_verdicts h es vs)"

fun settle_each ::
  "crypto \<Rightarrow> (nat \<Rightarrow> append_env) \<Rightarrow> (string \<times> json) list \<Rightarrow> string list \<Rightarrow> intent_store \<Rightarrow> files \<Rightarrow> audit_log \<Rightarrow> nat \<Rightarrow>
   nat option \<times> intent_store \<times> files \<times> audit_log" where
  \<comment> \<open>\<open>envs i\<close> is the environment of the \<open>i\<close>th append; \<open>None\<close>: an append raised, and the start fails\<close>
  "settle_each cr envs vs [] st disk al n = (Some n, st, disk, al)"
| "settle_each cr envs vs (rid # rids) st disk al n =
     (let verdict = (case map_of vs rid of None \<Rightarrow> JStr ''unresolved'' | Some v \<Rightarrow> v) in
      case settle_and_record cr (envs 0) rid verdict st disk al of
        (Inl _, st', disk', al') \<Rightarrow> (None, st', disk', al')
      | (Inr r, st', disk', al') \<Rightarrow>
          settle_each cr (\<lambda>i. envs (Suc i)) vs rids st' disk' al' (if map_option fst r \<noteq> Some ''reserved'' then Suc n else n))"

definition settle_reserved ::
  "crypto \<Rightarrow> (nat \<Rightarrow> append_env) \<Rightarrow> intent_store \<Rightarrow> files \<Rightarrow> audit_log \<Rightarrow>
   nat option \<times> intent_store \<times> files \<times> audit_log" where
  "settle_reserved cr envs st disk al =
     (if available st = None \<or> held st = [] then (Some 0, st, disk, al)
      else case al_file al of
        None \<Rightarrow> (Some 0, st, disk, al)
      | Some text \<Rightarrow>
          (case log_entries text of
             None \<Rightarrow> (None, st, disk, al)
           | Some es \<Rightarrow> settle_each cr envs (log_verdicts (held st) es []) (map fst (held st)) st disk al 0))"
section \<open>Reading back a line\<close>

definition valid_word :: "string \<Rightarrow> bool" where
  "valid_word w \<longleftrightarrow> w \<noteq> [] \<and> list_all (\<lambda>c. \<not> py_space c) w"

definition valid_constraint :: "string \<times> string \<Rightarrow> bool" where
  "valid_constraint c \<longleftrightarrow>
     (case c of (k, v) \<Rightarrow> valid_word k \<and> valid_word v \<and> CHR ''='' \<notin> set k \<and> constraint_problem k v = None)"

definition valid_intent :: "intent \<Rightarrow> bool" where
  "valid_intent i \<longleftrightarrow> valid_word (fst i) \<and> list_all valid_constraint (snd i) \<and> distinct (map fst (snd i))"

abbreviation constraint_word :: "string \<times> string \<Rightarrow> string" where
  "constraint_word \<equiv> (\<lambda>(k, v). k @ ''='' @ v)"

lemma parse_constraints_words:
  "list_all valid_constraint cons \<Longrightarrow> parse_constraints (map constraint_word cons) = Inr cons"
  by (induction cons) (auto simp: valid_constraint_def valid_word_def)

lemma parse_constraints_valid:
  "parse_constraints ws = Inr cons \<Longrightarrow> list_all valid_word ws \<Longrightarrow> list_all valid_constraint cons"
proof (induction ws arbitrary: cons)
  case (Cons w ws)
  obtain k sep v where p: "partition_at (CHR ''='') w = (k, sep, v)" by (cases "partition_at (CHR ''='') w") auto
  with Cons.prems(1) have ok: "sep" "k \<noteq> []" "v \<noteq> []" "constraint_problem k v = None"
    by (auto split: if_splits option.splits)
  then obtain cons' where c: "parse_constraints ws = Inr cons'" "cons = (k, v) # cons'"
    using Cons.prems(1) p by (auto split: sum.splits)
  have "w = k @ CHR ''='' # v \<and> CHR ''='' \<notin> set k" using p ok(1) partition_at_eq by simp
  then have "valid_constraint (k, v)"
    using Cons.prems(2) ok by (auto simp: valid_constraint_def valid_word_def)
  with Cons.IH [OF c(1)] Cons.prems(2) c(2) show ?case by simp
qed simp

lemma valid_constraint_word: "valid_constraint c \<Longrightarrow> valid_word (constraint_word c)"
  by (auto simp: valid_constraint_def valid_word_def py_space_def split: prod.splits)

lemma words_of_line:
  assumes "valid_intent i"
  shows "words_of (intent_line i) = fst i # map constraint_word (snd i)"
proof -
  have "list_all valid_word (fst i # map constraint_word (snd i))"
    using assms valid_constraint_word by (auto simp: valid_intent_def list_all_iff)
  then show ?thesis
    unfolding intent_line_def by (intro words_of_join) (auto simp: valid_word_def list_all_iff)
qed

lemma parse_intent_line:
  assumes "valid_intent i"
  shows "parse_intent (intent_line i) = Inr i"
  using assms parse_constraints_words [of "snd i"]
  by (simp add: parse_intent_def words_of_line valid_intent_def)

lemma parse_intent_valid:
  assumes "parse_intent l = Inr i"
  shows "valid_intent i"
proof -
  from assms obtain tool parts cons where w: "words_of l = tool # parts" "parse_constraints parts = Inr cons"
    "distinct (map fst cons)" "i = (tool, cons)"
    by (auto simp: parse_intent_def split: list.splits sum.splits if_splits)
  have "list_all valid_word (tool # parts)"
    using words_of_word [of _ l] w(1) by (simp add: list_all_iff valid_word_def)
  with w parse_constraints_valid show ?thesis by (simp add: valid_intent_def)
qed

lemma valid_line: "valid_intent i \<Longrightarrow> CHR 0x0A \<notin> set (intent_line i) \<and> CHR 0x0D \<notin> set (intent_line i)"
proof -
  assume "valid_intent i"
  then have "list_all valid_word (fst i # map constraint_word (snd i))"
    using valid_constraint_word by (auto simp: valid_intent_def list_all_iff)
  then have "\<not> c \<in> set (join_with '' '' (fst i # map constraint_word (snd i)))"
    if "py_space c" "c \<noteq> CHR '' ''" for c
  proof -
    have "list_all valid_word ws \<Longrightarrow> c \<notin> set (join_with '' '' ws)" for ws
      using that by (induction "'' ''" ws rule: join_with.induct) (auto simp: valid_word_def list_all_iff)
    then show ?thesis using \<open>list_all valid_word _\<close> by blast
  qed
  moreover have "py_space (CHR 0x0A)" "py_space (CHR 0x0D)" by (simp_all add: py_space_def)
  ultimately show ?thesis by (simp add: intent_line_def)
qed

interpretation intent_lines: text_codec intent_line
  "\<lambda>l. case parse_intent l of Inl e \<Rightarrow> None | Inr i \<Rightarrow> Some i" valid_intent
  by unfold_locales (simp_all add: parse_intent_line valid_line)

lemma words_acc_drop: "words_acc [] (dropWhile py_space s) = words_acc [] s"
  by (induction s) auto

lemma words_acc_blank_tail: "\<forall>c\<in>set t. py_space c \<Longrightarrow> words_acc acc (s @ t) = words_acc acc s"
proof (induction s arbitrary: acc)
  case Nil
  then have "words_acc [] t = []" by (induction t) auto
  with Nil show ?case by (cases t) auto
qed auto

lemma words_of_strip [simp]: "words_of (strip s) = words_of s"
proof -
  let ?s = "dropWhile py_space s"
  have "?s = strip s @ rev (takeWhile py_space (rev ?s))"
    unfolding strip_def by (metis rev_append rev_rev_ident takeWhile_dropWhile_id)
  moreover have "\<forall>c\<in>set (rev (takeWhile py_space (rev ?s))). py_space c" by (auto dest: set_takeWhileD)
  ultimately have "words_acc [] (strip s) = words_acc [] ?s" using words_acc_blank_tail by metis
  then show ?thesis by (simp add: words_of_def words_acc_drop)
qed

lemma parse_intent_strip [simp]: "parse_intent (strip l) = parse_intent l"
  by (simp add: parse_intent_def)

lemma valid_not_blank: "valid_intent i \<Longrightarrow> strip (intent_line i) \<noteq> []"
  using words_of_line [of i] words_of_strip [of "intent_line i"] by (auto simp: words_of_def)

section \<open>Reading back the two files\<close>

lemma lines_of_text:
  "list_all valid_intent is \<Longrightarrow> lines_of (intents_text is) = map intent_line is \<and> CHR 0x0D \<notin> set (intents_text is)"
proof (induction "is")
  case (Cons i "is")
  then have "lines_of (intent_line i @ CHR 0x0A # intents_text is) = lines_of (intent_line i) @ lines_of (intents_text is)"
    using valid_line [of i] by (intro lines_of_append) auto
  moreover have "lines_of (intent_line i) = [intent_line i]"
    using Cons.prems valid_line [of i] valid_not_blank [of i] by (intro lines_of_line) auto
  ultimately show ?case using Cons valid_line [of i] by (simp add: intents_text_def)
qed (simp add: intents_text_def)

lemma parse_intents_lines: "list_all valid_intent is \<Longrightarrow> parse_intents (map (strip \<circ> intent_line) is) = Inr is"
  by (induction "is") (simp_all add: parse_intent_line)

lemma load_intents_text: "list_all valid_intent is \<Longrightarrow> load_intents (intents_text is) = Inr (order_intents is)"
  by (simp add: load_intents_def lines_of_text parse_intents_lines)

lemma universal_newlines_text: "list_all valid_intent is \<Longrightarrow> universal_newlines (intents_text is) = intents_text is"
  using lines_of_text universal_newlines_id by blast

lemma parse_held_lines:
  "list_all (valid_intent \<circ> snd) h \<Longrightarrow> parse_held (map (\<lambda>(r, i). (r, JStr (intent_line i))) h) = Some h"
  by (induction h) (auto simp: parse_intent_line)

lemma load_held_text:
  assumes "distinct (map fst h)" and "list_all (valid_intent \<circ> snd) h"
  shows "load_held (held_text h) = Some (sort_key fst h)"
proof -
  let ?j = "map (\<lambda>(r, i). (r, JStr (intent_line i))) h"
  have "wf_json (JObj ?j)" using assms(1) by (auto simp: list_all_iff comp_def case_prod_beta)
  then have "loads (held_text h) = Some (canon (JObj ?j))" by (simp add: held_text_def del: canon.simps)
  also have "canon (JObj ?j) = JObj (map (\<lambda>(r, i). (r, JStr (intent_line i))) (sort_key fst h))"
    using sort_key_map_snd [of "\<lambda>i. JStr (intent_line i)" h] by (simp add: comp_def case_prod_unfold)
  finally show ?thesis
    using parse_held_lines [of "sort_key fst h"] assms(2) by (simp add: load_held_def list_all_iff)
qed
section \<open>What the disk holds\<close>

definition tokens :: "intent_store \<Rightarrow> intent multiset" where
  \<comment> \<open>the intents that are available or reserved\<close>
  "tokens st = mset (ints st) + mset (map snd (held st))"

definition valid_store :: "intent_store \<Rightarrow> bool" where
  "valid_store st \<longleftrightarrow> list_all valid_intent (ints st) \<and> list_all (valid_intent \<circ> snd) (held st) \<and>
     distinct (map fst (held st)) \<and> available st \<noteq> None"

definition on_disk :: "string \<Rightarrow> intent_store \<Rightarrow> files \<Rightarrow> bool" where
  \<comment> \<open>the two files are what the broker last wrote\<close>
  "on_disk p st disk \<longleftrightarrow>
     disk p = Some (intents_text (ints st)) \<and>
     (disk (p @ ''.reserved'') = Some (held_text (held st)) \<or> disk (p @ ''.reserved'') = None \<and> held st = [])"

definition restarted :: "string \<Rightarrow> string option \<Rightarrow> intent list \<Rightarrow> (string \<times> intent) list \<Rightarrow> intent_store" where
  "restarted p revs is h =
     \<lparr>available = Some (order_intents is), held = sort_key fst h, frozen = False,
      written = Some (intents_text is), intents_path = Some p, revocations_path = revs\<rparr>"

lemma order_intents_idem [simp]: "order_intents (order_intents is) = order_intents is"
  unfolding order_intents_def by (rule sort_key_sorted) simp

lemma start_store_files:
  assumes "list_all valid_intent is" and "distinct (map fst h)" and "list_all (valid_intent \<circ> snd) h"
    and "disk p = Some (intents_text is)"
    and "disk (p @ ''.reserved'') = Some (held_text h) \<or> disk (p @ ''.reserved'') = None \<and> h = []"
  shows "start_store p revs disk = Some (restarted p revs is h)"
  using assms(4,5) load_intents_text [OF assms(1)] universal_newlines_text [OF assms(1)] load_held_text [OF assms(2,3)]
  by (auto simp: start_store_def open_store_def restarted_def Let_def text_at_def)

lemma tokens_restarted: "tokens (restarted p revs is h) = mset is + mset (map snd h)"
  by (simp add: tokens_def restarted_def ints_def order_intents_def)

lemma crashed_files:
  "crashed 0 p st disk = disk"
  "crashed (Suc 0) p st disk p = disk p"
  "crashed (Suc 0) p st disk (p @ ''.reserved'') = disk (p @ ''.reserved'')"
  "n \<in> {2, 3} \<Longrightarrow> crashed n p st disk p = Some (intents_text (ints st))"
  "n \<in> {2, 3} \<Longrightarrow> crashed n p st disk (p @ ''.reserved'') = disk (p @ ''.reserved'')"
  "crashed 4 p st disk p = Some (intents_text (ints st))"
  "crashed 4 p st disk (p @ ''.reserved'') = Some (held_text (held st))"
  by (auto simp: crashed_def persist_ops_def replace_file_def numeral_eq_Suc)

lemma crash_cases: "n \<le> 4 \<Longrightarrow> n = 0 \<or> n = Suc 0 \<or> n \<in> {2, 3} \<or> n = (4::nat)"
  by auto

lemma restart_after_crash:
  assumes "valid_store st" and "valid_store st'" and "on_disk p st disk" and "n \<le> 4"
  shows "start_store p revs (crashed n p st' disk) =
    Some (if n < 2 then restarted p revs (ints st) (held st)
          else if n < 4 then restarted p revs (ints st') (held st) else restarted p revs (ints st') (held st'))"
  using crash_cases [OF assms(4)] assms(1-3)
  by (auto simp: crashed_files valid_store_def on_disk_def intro!: start_store_files)

section \<open>How many intents there are\<close>

lemma mset_delete: "map_of h r = Some i \<Longrightarrow> mset (map snd (AList.delete r h)) + {#i#} \<subseteq># mset (map snd h)"
proof (induction h)
  case (Cons x h)
  obtain k v where x: "x = (k, v)" by (cases x)
  show ?case
  proof (cases "k = r")
    case True
    have "mset (map snd (AList.delete r h)) \<subseteq># mset (map snd h)"
      unfolding AList.delete_eq by (simp add: multiset_filter_subset image_mset_subseteq_mono)
    then show ?thesis using Cons.prems True x by simp
  next
    case False
    then show ?thesis using Cons x by simp
  qed
qed simp

lemma mset_dset: "mset (map snd (dset h r i)) \<subseteq># mset (map snd h) + {#i#}"
proof (induction h)
  case (Cons x h)
  then show ?case by (cases x) (auto simp: add_mset_commute [of i])
qed simp

lemma set_dset: "set (dset h r i) \<subseteq> insert (r, i) (set h)"
  by (induction h) auto

lemma mset_dset_fresh: "map_of h r = None \<Longrightarrow> mset (map snd (dset h r i)) = mset (map snd h) + {#i#}"
  by (induction h) (auto split: if_splits)

lemma ints_reserve [simp]: "ints (reserve rid used st) = remove1 used (ints st)"
  by (simp add: reserve_def ints_def)

lemma held_reserve [simp]: "held (reserve rid used st) = dset (held st) rid used"
  by (simp add: reserve_def)

lemma tokens_reserve: "used \<in> set (ints st) \<Longrightarrow> tokens (reserve rid used st) \<subseteq># tokens st"
proof -
  assume used: "used \<in> set (ints st)"
  have "tokens (reserve rid used st) \<subseteq># (mset (ints st) - {#used#}) + (mset (map snd (held st)) + {#used#})"
    unfolding tokens_def using mset_dset [where h = "held st" and r = rid and i = used]
    by (simp only: ints_reserve held_reserve mset_remove1 subset_mset.add_left_mono)
  also have "\<dots> = tokens st" using used by (simp add: tokens_def)
  finally show ?thesis .
qed

lemma settle_parts:
  "held (settle rid used how st) = AList.delete rid (held st)"
  "mset (ints (settle rid used how st)) = mset (ints st) + (if how = ''returned'' then {#used#} else {#})"
  by (simp_all add: settle_def Let_def ints_def order_intents_def split: option.split)

lemma tokens_settle:
  assumes "map_of (held st) rid = Some used"
  shows "tokens (settle rid used how st) + (if how = ''returned'' then {#} else {#used#}) \<subseteq># tokens st"
  using subset_mset.add_left_mono [OF mset_delete [OF assms], of "mset (ints st)"]
  by (simp add: tokens_def settle_parts)

lemma persist_store [simp]: "ints (fst (persist_intents st disk)) = ints st" "held (fst (persist_intents st disk)) = held st"
  by (simp_all add: persist_intents_def ints_def split: option.split)
section \<open>Well-formed stores\<close>

lemma set_ints_settle: "set (ints (settle rid used how st)) \<subseteq> insert used (set (ints st))"
  by (auto simp: settle_def Let_def ints_def order_intents_def split: option.splits if_splits)

lemma valid_reserve: "valid_store st \<Longrightarrow> used \<in> set (ints st) \<Longrightarrow> valid_store (reserve rid used st)"
  using set_dset [where h = "held st" and r = rid and i = used]
  by (auto simp: valid_store_def list_all_iff distinct_update dest: notin_set_remove1) (simp add: reserve_def)

lemma valid_settle: "valid_store st \<Longrightarrow> map_of (held st) rid = Some used \<Longrightarrow> valid_store (settle rid used how st)"
proof -
  assume v: "valid_store st" and "map_of (held st) rid = Some used"
  then have "valid_intent used" by (auto simp: valid_store_def list_all_iff dest: map_of_SomeD)
  moreover have "set (AList.delete rid (held st)) \<subseteq> set (held st)" by (auto simp: AList.delete_eq)
  moreover have "available (settle rid used how st) \<noteq> None"
    using v by (simp add: settle_def Let_def valid_store_def)
  ultimately show ?thesis
    using v set_ints_settle [of rid used how st]
    by (auto simp: valid_store_def list_all_iff settle_parts(1) distinct_delete)
qed

section \<open>Steps of the store\<close>

text \<open>The operations that change the store, with the intents spent so far.\<close>

inductive intent_step :: "intent_store \<times> intent multiset \<Rightarrow> intent_store \<times> intent multiset \<Rightarrow> bool" where
  reserves: "used \<in> set (ints st) \<Longrightarrow> intent_step (st, sp) (fst (reserve_intent rid used st disk), sp)"
| spends: "map_of (held st) rid = Some used \<Longrightarrow>
    intent_step (st, sp) (fst (persist_intents (settle rid used ''spent'' st) disk), sp + {#used#})"
| returns: "map_of (held st) rid = Some used \<Longrightarrow>
    intent_step (st, sp) (fst (persist_intents (settle rid used ''returned'' st) disk), sp)"
| refreshes: "refresh_intents st disk = (r, st', disk') \<Longrightarrow> intent_step (st, sp) (st', sp)"

inductive_cases intent_stepE: "intent_step (st, sp) (st', sp')"

definition spares :: "intent \<Rightarrow> string \<Rightarrow> bool" where
  \<comment> \<open>a line of the revocations file leaves the intent\<close>
  "spares i l \<longleftrightarrow>
     (case words_of l of
        [t, s] \<Rightarrow> if s = ''*'' then fst i \<noteq> t else (case parse_intent l of Inl e \<Rightarrow> False | Inr r \<Rightarrow> i \<noteq> r)
      | _ \<Rightarrow> (case parse_intent l of Inl e \<Rightarrow> False | Inr r \<Rightarrow> i \<noteq> r))"

lemma spares_line:
  "words_of l = [t, ''*''] \<Longrightarrow> spares i l \<longleftrightarrow> fst i \<noteq> t"
  "\<forall>t. words_of l \<noteq> [t, ''*''] \<Longrightarrow> spares i l \<longleftrightarrow> (case parse_intent l of Inl e \<Rightarrow> False | Inr r \<Rightarrow> i \<noteq> r)"
  by (auto simp: spares_def split: list.split)

lemma revoke_line:
  "words_of l = [t, ''*''] \<Longrightarrow> revoke (l # ls) is = revoke ls (filter (\<lambda>i. fst i \<noteq> t) is)"
  "\<forall>t. words_of l \<noteq> [t, ''*''] \<Longrightarrow> revoke (l # ls) is =
     (case parse_intent l of Inl e \<Rightarrow> [] | Inr r \<Rightarrow> revoke ls (filter (\<lambda>i. i \<noteq> r) is))"
  by (auto split: list.split)

lemma revoke_eq: "revoke ls is = filter (\<lambda>i. list_all (spares i) ls) is"
proof (induction ls arbitrary: "is")
  case (Cons l ls)
  show ?case
  proof (cases "\<exists>t. words_of l = [t, ''*'']")
    case True
    then obtain t where t: "words_of l = [t, ''*'']" by blast
    show ?thesis by (simp add: revoke_line(1) [OF t] spares_line(1) [OF t] Cons.IH del: revoke.simps)
  next
    case False
    then have o: "\<forall>t. words_of l \<noteq> [t, ''*'']" by blast
    show ?thesis
      by (cases "parse_intent l") (simp_all add: revoke_line(2) [OF o] spares_line(2) [OF o] Cons.IH del: revoke.simps)
  qed
qed simp

lemma tokens_refresh: "refresh_intents st disk = (r, st', disk') \<Longrightarrow> tokens st' \<subseteq># tokens st"
proof -
  assume r: "refresh_intents st disk = (r, st', disk')"
  have "mset (revoke ls (ints st)) \<subseteq># mset (ints st)" for ls
    by (simp add: revoke_eq multiset_filter_subset)
  moreover have "tokens (fst (persist_intents (st\<lparr>available := Some is\<rparr>) disk)) = mset is + mset (map snd (held st))" for "is"
    by (simp add: tokens_def) (simp add: ints_def)
  moreover have "tokens (st\<lparr>frozen := True\<rparr>) = tokens st" by (simp add: tokens_def ints_def)
  moreover have "st' = st \<or> st' = st\<lparr>frozen := True\<rparr> \<or>
      (\<exists>ls. st' = fst (persist_intents (st\<lparr>available := Some (revoke ls (ints st))\<rparr>) disk))"
    using r by (auto simp: refresh_intents_def Let_def split: if_splits option.splits prod.splits) (metis fst_conv)
  ultimately show ?thesis unfolding tokens_def by (auto simp: subset_mset.add_right_mono)
qed

lemma intent_step_tokens:
  "intent_step s s' \<Longrightarrow> tokens (fst s') + snd s' \<subseteq># tokens (fst s) + snd s"
proof (induction rule: intent_step.induct)
  case (reserves used st sp rid disk)
  have "tokens (fst (reserve_intent rid used st disk)) = tokens (reserve rid used st)"
    unfolding tokens_def reserve_intent_def by (simp only: persist_store)
  then show ?case using tokens_reserve [OF reserves, of rid] by (simp add: subset_mset.add_right_mono)
next
  case (spends st rid used sp disk)
  then show ?case
    using subset_mset.add_right_mono [OF tokens_settle [OF spends, of "''spent''"], of sp]
    by (simp add: tokens_def)
next
  case (returns st rid used sp disk)
  then show ?case using tokens_settle [OF returns, of "''returned''"] by (simp add: tokens_def)
next
  case (refreshes st disk r st' disk' sp)
  then show ?case using tokens_refresh by simp
qed
section \<open>Fitting, argument by argument\<close>

lemma constraint_holds_iff:
  assumes "distinct (map fst args)" and "\<not> premise_key k" and "bound_arg hf k = (n, seen)"
  shows "constraint_holds hf args k v \<longleftrightarrow> (\<exists>b. map_of args n = Some b \<and> seen b = v)"
proof -
  have "map_of args n = Some b \<longleftrightarrow> (n, b) \<in> set args" for b using assms(1) by simp
  moreover have "b = b'" if "(n, b) \<in> set args" "(n, b') \<in> set args" for b b'
    using that assms(1) by (metis map_of_eq_Some_iff option.inject)
  ultimately show ?thesis
    using assms(2,3) by (auto simp: constraint_holds_def list_ex_iff list_all_iff)
qed

definition binds_arg :: "intent \<Rightarrow> string \<Rightarrow> bool" where
  \<comment> \<open>some constraint of the intent is about the argument\<close>
  "binds_arg i n \<longleftrightarrow> list_ex (\<lambda>(k, v). \<not> premise_key k \<and> fst (bound_arg id k) = n) (snd i)"

lemma bound_arg_name: "fst (bound_arg hf k) = fst (bound_arg hf' k)"
  by (simp add: bound_arg_def)

definition demo_intent :: intent where
  "demo_intent = (''delete_file'', [(''path'', ''/workspace/a'')])"

definition demo_store :: intent_store where
  \<comment> \<open>one intent held for request \<open>r\<close>\<close>
  "demo_store = \<lparr>available = Some [demo_intent], held = [(''r'', demo_intent)], frozen = False,
     written = Some (intents_text [demo_intent]), intents_path = Some ''i'', revocations_path = None\<rparr>"

definition demo_disk :: files where
  "demo_disk = (\<lambda>_. None)(''i'' \<mapsto> intents_text [demo_intent], ''i.reserved'' \<mapsto> held_text [(''r'', demo_intent)])"

lemma demo_intent_valid [simp]: "valid_intent demo_intent"
proof -
  have "parse_intent ''delete_file path=/workspace/a'' = Inr demo_intent" by code_simp
  then show ?thesis by (rule parse_intent_valid)
qed

lemma demo_store_valid [simp]: "valid_store demo_store" "on_disk ''i'' demo_store demo_disk"
  by (simp_all add: valid_store_def on_disk_def demo_store_def demo_disk_def ints_def)

section \<open>Properties\<close>

text \<open>C13: A single-use intent is used once: whatever requests reserve, spend and return intents, and
  however often the revocations are applied, the intents spent, those reserved and those still
  available are together never more than the principal gave, intent by intent.\<close>

theorem intents_are_single_use:
  assumes "intent_step\<^sup>*\<^sup>* (st, {#}) (st', spent)"
  shows "spent + mset (map snd (held st')) + mset (ints st') \<subseteq># mset (map snd (held st)) + mset (ints st)"
proof -
  have "tokens (fst (st', spent)) + snd (st', spent) \<subseteq># tokens (fst (st, {#})) + snd (st, {#})"
    using assms
  proof (induction rule: rtranclp_induct)
    case (step y z)
    then show ?case using intent_step_tokens [OF step(2)] subset_mset.order_trans by blast
  qed simp
  then show ?thesis by (simp add: tokens_def union_ac)
qed

theorem intents_are_single_use_witness:
  "{#demo_intent#} + mset (map snd (held (settle ''r'' demo_intent ''spent'' demo_store))) +
     mset (ints (settle ''r'' demo_intent ''spent'' demo_store)) \<subseteq>#
   mset (map snd (held demo_store)) + mset (ints demo_store)"
proof -
  let ?st = "fst (persist_intents (settle ''r'' demo_intent ''spent'' demo_store) demo_disk)"
  have "map_of (held demo_store) ''r'' = Some demo_intent" by (simp add: demo_store_def)
  then have "intent_step (demo_store, {#}) (?st, {#} + {#demo_intent#})" by (rule spends)
  then have "intent_step\<^sup>*\<^sup>* (demo_store, {#}) (?st, {#demo_intent#})" by simp
  from intents_are_single_use [OF this] show ?thesis by simp
qed

text \<open>What the broker writes of its intents is what the next start reads: every available intent
  and every reserved one comes back with its request, and neither the running broker nor the new
  one takes its own file for one edited by somebody else.\<close>

theorem intents_survive_restart:
  assumes "valid_store st" and "intents_path st = Some p" and "persist_intents st disk = (st1, disk1)"
  shows "start_store p (revocations_path st) disk1 =
           Some \<lparr>available = Some (order_intents (ints st)), held = sort_key fst (held st), frozen = False,
                 written = written st1, intents_path = Some p, revocations_path = revocations_path st\<rparr> \<and>
         \<not> noticed_edit st1 disk1"
proof -
  have v: "list_all valid_intent (ints st)" "distinct (map fst (held st))" "list_all (valid_intent \<circ> snd) (held st)"
    using assms(1) by (simp_all add: valid_store_def)
  have st1: "st1 = st\<lparr>written := text_at (crashed 2 p st disk) p\<rparr>" "disk1 = crashed 4 p st disk"
    using assms(2,3) by (auto simp: persist_intents_def)
  have c2: "crashed 2 p st disk p = Some (intents_text (ints st))" by (simp add: crashed_files)
  have w: "written st1 = Some (intents_text (ints st))"
    using c2 universal_newlines_text [OF v(1)] by (simp add: st1 text_at_def)
  have "start_store p (revocations_path st) disk1 = Some (restarted p (revocations_path st) (ints st) (held st))"
    unfolding st1 by (rule start_store_files [OF v crashed_files(6)]) (simp add: crashed_files)
  moreover have "text_at disk1 p = written st1"
    using crashed_files(6) [of p st disk] c2 by (simp add: st1 text_at_def)
  ultimately show ?thesis
    using w assms(2) by (simp add: restarted_def noticed_edit_def st1(1))
qed

theorem intents_survive_restart_witness:
  "held (the (start_store ''i'' None (snd (persist_intents demo_store (\<lambda>_. None))))) = [(''r'', demo_intent)]"
  using intents_survive_restart [OF demo_store_valid(1), of "''i''" "\<lambda>_. None"]
  by (cases "persist_intents demo_store (\<lambda>_. None)") (simp add: demo_store_def)

text \<open>C21: Reserving an intent is safe against a crash: wherever the machine stops while the two files
  are rewritten, the broker starts again and holds no intent more often than before (an intent
  can be lost in the crash, but never gained).\<close>

theorem reservation_crash_safe:
  assumes "valid_store st" and "on_disk p st disk" and "used \<in> set (ints st)" and "n \<le> 4"
  shows "\<exists>st'. start_store p revs (crashed n p (reserve rid used st) disk) = Some st' \<and>
           mset (ints st') + mset (map snd (held st')) \<subseteq># mset (ints st) + mset (map snd (held st))"
proof -
  have "valid_store (reserve rid used st)" using assms(1,3) by (rule valid_reserve)
  from restart_after_crash [OF assms(1) this assms(2,4), of revs] obtain "is" h where
    st': "start_store p revs (crashed n p (reserve rid used st) disk) = Some (restarted p revs is h)"
    "(is, h) \<in> {(ints st, held st), (remove1 used (ints st), held st), (remove1 used (ints st), dset (held st) rid used)}"
    by (cases "n < 2"; cases "n < 4") auto
  have "mset (remove1 used (ints st)) + mset (map snd (held st)) \<subseteq># tokens st"
    unfolding tokens_def by (intro subset_mset.add_right_mono) simp
  then have "mset is + mset (map snd h) \<subseteq># tokens st"
    using st'(2) tokens_reserve [OF assms(3), of rid] by (auto simp: tokens_def)
  then have "tokens (restarted p revs is h) \<subseteq># tokens st" by (simp add: tokens_restarted)
  then show ?thesis using st'(1) unfolding tokens_def by blast
qed

theorem reservation_crash_safe_witness:
  "\<exists>st'. start_store ''i'' None (crashed 2 ''i'' (reserve ''s'' demo_intent demo_store) demo_disk) = Some st' \<and>
     mset (ints st') + mset (map snd (held st')) \<subseteq># {#demo_intent, demo_intent#}"
  using reservation_crash_safe [OF demo_store_valid, of demo_intent 2 None "''s''"]
  by (simp add: demo_store_def ints_def)

text \<open>C40: Returning an intent is not safe against a crash: if the machine stops after the intents file
  was replaced and before the file of reserved intents was, the next start has the intent both
  available and still reserved, and settling it again by the same recorded verdict makes it
  available twice where the principal gave it once.\<close>

theorem return_crash_duplicates:
  assumes "valid_store st" and "on_disk p st disk" and "map_of (held st) rid = Some used"
  shows "\<exists>st'. start_store p revs (crashed 2 p (settle rid used ''returned'' st) disk) = Some st' \<and>
           map_of (held st') rid = Some used \<and>
           count (mset (ints (settle rid used ''returned'' st'))) used = count (mset (ints st)) used + 2"
proof -
  have "valid_store (settle rid used ''returned'' st)" using assms(1,3) by (rule valid_settle)
  from restart_after_crash [OF assms(1) this assms(2), of 2 revs]
  obtain st' where st': "start_store p revs (crashed 2 p (settle rid used ''returned'' st) disk) = Some st'"
    "st' = restarted p revs (ints (settle rid used ''returned'' st)) (held st)" by simp
  have "map_of (held st') rid = Some used"
    using assms(1,3) by (simp add: st'(2) restarted_def map_of_sort_key valid_store_def)
  moreover have "mset (ints st') = mset (ints st) + {#used#}"
    using settle_parts(2) [of rid used "''returned''" st]
    by (simp add: st'(2) ints_def restarted_def order_intents_def)
  ultimately show ?thesis using st'(1) by (simp add: settle_parts(2))
qed

theorem return_crash_duplicates_witness:
  "\<exists>st'. start_store ''i'' None (crashed 2 ''i'' (settle ''r'' demo_intent ''returned'' demo_store) demo_disk) = Some st' \<and>
     count (mset (ints (settle ''r'' demo_intent ''returned'' st'))) demo_intent = 3"
  using return_crash_duplicates [OF demo_store_valid, of "''r''" demo_intent None]
  by (auto simp: demo_store_def ints_def)

text \<open>An intent pins the arguments it names: two proposals that fit the same intent have the same
  tool, and every argument some constraint of the intent is about has the same value in both, as
  far as SHA-256 has no collision (for a constraint on the hash of the value).\<close>

theorem intent_pins_arguments:
  assumes "intent_fits hf i tool args" and "intent_fits hf i tool' args'"
    and "distinct (map fst args)" and "distinct (map fst args')" and "binds_arg i n"
  shows "tool = tool' \<and> (\<exists>b b'. map_of args n = Some b \<and> map_of args' n = Some b' \<and> (b = b' \<or> collision hf))"
proof -
  from assms(5) obtain k v where k: "(k, v) \<in> set (snd i)" "\<not> premise_key k" "fst (bound_arg id k) = n"
    by (auto simp: binds_arg_def list_ex_iff)
  obtain seen where s: "bound_arg hf k = (n, seen)"
    using k(3) bound_arg_name [of id k hf] by (metis prod.collapse)
  then have "seen = hf \<or> seen = (\<lambda>b. b)" by (auto simp: bound_arg_def split: if_splits)
  moreover have "\<exists>b. map_of args n = Some b \<and> seen b = v" "\<exists>b. map_of args' n = Some b \<and> seen b = v"
    using assms(1,2) k(1) constraint_holds_iff [OF assms(3) k(2) s, of v] constraint_holds_iff [OF assms(4) k(2) s, of v]
    by (auto simp: intent_fits_def list_all_iff)
  ultimately show ?thesis
    using assms(1,2) unfolding intent_fits_def collision_def by metis
qed

theorem intent_pins_arguments_witness:
  "\<exists>b. map_of [(''path'', ''/workspace/a'')] ''path'' = Some b \<and> b = ''/workspace/a''"
  using intent_pins_arguments [of "\<lambda>s. s" demo_intent "''delete_file''" "[(''path'', ''/workspace/a'')]"
      "''delete_file''" "[(''path'', ''/workspace/a'')]" "''path''"]
  by (simp add: demo_intent_def intent_fits_def constraint_holds_def bound_arg_def binds_arg_def premise_key_def
      endswith_def)

text \<open>The revocations are applied in full before every decision: when the broker does not refuse,
  the intents it decides with are, in order, exactly those no line of the revocations file takes
  away, where a line \<open>tool *\<close> takes away every intent of the tool, an intent's line every identical
  intent, and a line that cannot be read takes away all of them.\<close>

theorem revocations_applied:
  assumes "refresh_intents st disk = (None, st', disk')"
  shows "ints st' = filter (\<lambda>i. list_all (spares i)
           (case Option.bind (revocations_path st) disk of None \<Rightarrow> [] | Some text \<Rightarrow> lines_of text)) (ints st)"
proof -
  have p: "persist_intents (st\<lparr>available := Some is\<rparr>) disk = (st', disk') \<Longrightarrow> ints st' = is" for "is"
    using persist_store(1) [of "st\<lparr>available := Some is\<rparr>" disk] by (simp add: ints_def)
  show ?thesis
  proof (cases "Option.bind (revocations_path st) disk")
    case None
    then show ?thesis using assms by (auto simp: refresh_intents_def Let_def split: if_splits)
  next
    case (Some t)
    then show ?thesis
      using assms by (auto simp: refresh_intents_def Let_def revoke_eq split: if_splits prod.splits dest: p)
  qed
qed

theorem revocations_applied_witness:
  "\<exists>st' disk'. refresh_intents (demo_store\<lparr>revocations_path := Some ''rev''\<rparr>) (demo_disk(''rev'' \<mapsto> ''delete_file *'')) =
       (None, st', disk') \<and> ints st' = []"
proof -
  let ?st = "demo_store\<lparr>revocations_path := Some ''rev''\<rparr>" and ?d = "demo_disk(''rev'' \<mapsto> ''delete_file *'')"
  have l: "lines_of ''delete_file *'' = [''delete_file *'']" "spares demo_intent ''delete_file *'' = False" by code_simp+
  have "fst (refresh_intents ?st ?d) = None"
    using universal_newlines_text [of "[demo_intent]"]
    by (simp add: refresh_intents_def Let_def noticed_edit_def demo_store_def demo_disk_def text_at_def split: prod.split)
  then obtain st' disk' where r: "refresh_intents ?st ?d = (None, st', disk')" by (metis prod.collapse)
  from revocations_applied [OF r] r l show ?thesis by (simp add: demo_store_def ints_def)
qed

text \<open>The intents file is rewritten even after the broker has noticed that somebody else edited it:
  settling an intent that was reserved before the edit writes the broker's own list over the
  edited file, so an intent the principal took out of the file is back in it, and the next start
  has it again. (Only the decisions are frozen.)\<close>

theorem settlement_overwrites_edited_file:
  assumes "frozen st" and "intents_path st = Some p"
    and "settle_and_record cr env rid verdict st disk al = (Inr (Some (how, used)), st', disk', al')"
    and "how \<noteq> ''reserved''"
  shows "frozen st' \<and> disk' p = Some (intents_text (ints st')) \<and> set (ints st) \<subseteq> set (ints st')"
proof -
  from assms(3,4) have "persist_intents (settle rid used how st) disk = (st', disk')"
    by (auto simp: settle_and_record_def Let_def split: option.splits prod.splits bool.splits if_splits)
  then have p: "st' = fst (persist_intents (settle rid used how st) disk)" "disk' = crashed 4 p (settle rid used how st) disk"
    using assms(2) by (auto simp: persist_intents_def settle_def Let_def)
  have "frozen st'" using assms(1) by (simp add: p(1) persist_intents_def settle_def Let_def split: option.split)
  moreover have "ints st' = ints (settle rid used how st)" by (simp add: p(1))
  moreover have "disk' p = Some (intents_text (ints (settle rid used how st)))" by (simp add: p(2) crashed_files)
  moreover have "set (ints st) \<subseteq> set (ints (settle rid used how st))"
    using settle_parts(2) [of rid used how st] by (metis mset_subset_eq_add_left set_mset_mono set_mset_mset)
  ultimately show ?thesis by simp
qed

theorem settlement_overwrites_edited_file_witness:
  "\<exists>st' disk' al'. settle_and_record demo_crypto demo_env ''r'' (JStr ''confirmedFailure'') (demo_store\<lparr>frozen := True\<rparr>)
       (demo_disk(''i'' := Some [])) (new_log None) = (Inr (Some (''returned'', demo_intent)), st', disk', al') \<and>
     disk' ''i'' = Some (intents_text (ints st')) \<and> demo_intent \<in> set (ints st')"
proof -
  let ?st = "demo_store\<lparr>frozen := True\<rparr>"
  obtain r st' disk' al' where run: "settle_and_record demo_crypto demo_env ''r'' (JStr ''confirmedFailure'') ?st
      (demo_disk(''i'' := Some [])) (new_log None) = (r, st', disk', al')" by (metis prod_cases4)
  moreover from run have r: "r = Inr (Some (''returned'', demo_intent))"
    by (auto simp: settle_and_record_def demo_store_def settled_state_def log_append_def write_line_def run_checkpoint_def
        demo_env_def new_log_def Let_def split: prod.splits)
  moreover have "demo_intent \<in> set (ints ?st)" by (simp add: demo_store_def ints_def)
  ultimately show ?thesis
    using settlement_overwrites_edited_file [of ?st "''i''" demo_crypto demo_env "''r''"] run
    by (fastforce simp: demo_store_def)
qed

end
