(* ===== verification/Http.thy ===== *)
theory Http
  imports Url Registry Attest "HOL-Library.Word"
begin

unbundle bit_operations_syntax

text \<open>
  The network side of the \<open>http_get\<close> tool (\<open>darm_guard/http_get.py\<close> and \<open>_execute_http\<close> of
  \<open>broker.py\<close>): which addresses may be contacted, the governed GET, and what of its outcome reaches
  the agent. An address is its text with its value, a 32- or 128-bit word; the networks of
  \<open>ipaddress\<close> are those of Python 3.13. The network, the credential files and the decoder of
  bodies are the record \<open>net\<close>.
\<close>

section \<open>Addresses\<close>

datatype ip = V4 "32 word" | V6 "128 word"

definition in4 :: "32 word \<times> nat \<Rightarrow> 32 word \<Rightarrow> bool" where
  "in4 net a \<longleftrightarrow> drop_bit (32 - snd net) a = drop_bit (32 - snd net) (fst net)"

definition in6 :: "128 word \<times> nat \<Rightarrow> 128 word \<Rightarrow> bool" where
  "in6 net a \<longleftrightarrow> drop_bit (128 - snd net) a = drop_bit (128 - snd net) (fst net)"

definition private4 :: "(32 word \<times> nat) list" where
  "private4 = [(0x00000000, 8), (0x0A000000, 8), (0x7F000000, 8), (0xA9FE0000, 16), (0xAC100000, 12),
     (0xC0000000, 24), (0xC00000AA, 31), (0xC0000200, 24), (0xC0A80000, 16), (0xC6120000, 15),
     (0xC6336400, 24), (0xCB007100, 24), (0xF0000000, 4), (0xFFFFFFFF, 32)]"

definition public4 :: "(32 word \<times> nat) list" where
  \<comment> \<open>the exceptions\<close>
  "public4 = [(0xC0000009, 32), (0xC000000A, 32)]"

definition private6 :: "(128 word \<times> nat) list" where
  "private6 = [(1, 128), (0, 128), (0xFFFF00000000, 96), (0x0064FF9B000100000000000000000000, 48),
     (0x01000000000000000000000000000000, 64), (0x20010000000000000000000000000000, 23),
     (0x20010DB8000000000000000000000000, 32), (0x20020000000000000000000000000000, 16),
     (0x3FFF0000000000000000000000000000, 20), (0xFC000000000000000000000000000000, 7),
     (0xFE800000000000000000000000000000, 10)]"

definition public6 :: "(128 word \<times> nat) list" where
  "public6 = [(0x20010001000000000000000000000001, 128), (0x20010001000000000000000000000002, 128),
     (0x20010003000000000000000000000000, 32), (0x20010004011200000000000000000000, 48),
     (0x20010020000000000000000000000000, 28), (0x20010030000000000000000000000000, 28)]"

definition reserved6 :: "(128 word \<times> nat) list" where
  "reserved6 = [(0, 8), (0x01000000000000000000000000000000, 8), (0x02000000000000000000000000000000, 7),
     (0x04000000000000000000000000000000, 6), (0x08000000000000000000000000000000, 5),
     (0x10000000000000000000000000000000, 4), (0x40000000000000000000000000000000, 3),
     (0x60000000000000000000000000000000, 3), (0x80000000000000000000000000000000, 3),
     (0xA0000000000000000000000000000000, 3), (0xC0000000000000000000000000000000, 3),
     (0xE0000000000000000000000000000000, 4), (0xF0000000000000000000000000000000, 5),
     (0xF8000000000000000000000000000000, 6), (0xFE000000000000000000000000000000, 9)]"

fun is_loopback :: "ip \<Rightarrow> bool" where
  "is_loopback (V4 a) = in4 (0x7F000000, 8) a"
| "is_loopback (V6 a) = (a = 1)"

fun is_link_local :: "ip \<Rightarrow> bool" where
  "is_link_local (V4 a) = in4 (0xA9FE0000, 16) a"
| "is_link_local (V6 a) = in6 (0xFE800000000000000000000000000000, 10) a"

fun is_private :: "ip \<Rightarrow> bool" where
  "is_private (V4 a) = (list_ex (\<lambda>n. in4 n a) private4 \<and> \<not> list_ex (\<lambda>n. in4 n a) public4)"
| "is_private (V6 a) = (list_ex (\<lambda>n. in6 n a) private6 \<and> \<not> list_ex (\<lambda>n. in6 n a) public6)"

fun is_multicast :: "ip \<Rightarrow> bool" where
  "is_multicast (V4 a) = in4 (0xE0000000, 4) a"
| "is_multicast (V6 a) = in6 (0xFF000000000000000000000000000000, 8) a"

fun is_reserved :: "ip \<Rightarrow> bool" where
  "is_reserved (V4 a) = in4 (0xF0000000, 4) a"
| "is_reserved (V6 a) = list_ex (\<lambda>n. in6 n a) reserved6"

fun is_unspecified :: "ip \<Rightarrow> bool" where
  "is_unspecified (V4 a) = (a = 0)"
| "is_unspecified (V6 a) = (a = 0)"

fun unmapped :: "ip \<Rightarrow> ip" where
  \<comment> \<open>the IPv4 address an IPv4-mapped one stands for\<close>
  "unmapped (V4 a) = V4 a"
| "unmapped (V6 a) = (if drop_bit 32 a = 0xFFFF then V4 (ucast a) else V6 a)"

definition address_kinds :: "((ip \<Rightarrow> bool) \<times> string) list" where
  "address_kinds = [(is_loopback, ''loopback''), (is_link_local, ''link-local (includes cloud metadata)''),
     (is_private, ''private''), (is_multicast, ''multicast''), (is_reserved, ''reserved''), (is_unspecified, ''unspecified'')]"

definition address_refused :: "string \<times> ip \<Rightarrow> string \<Rightarrow> string list \<Rightarrow> string option" where
  \<comment> \<open>\<open>None\<close> if it may be contacted\<close>
  "address_refused addr host allow =
     (if host \<in> set allow \<or> fst addr \<in> set allow then None
      else map_option (\<lambda>(k, why). fst addr @ '' is a '' @ why @ '' address, not allowed by the principal'')
             (find (\<lambda>(k, why). k (unmapped (snd addr))) address_kinds))"

section \<open>The exchange\<close>

record http_response =
  rp_status :: nat
  rp_type :: string
  rp_location :: string
  rp_body :: string

datatype exchange =
    NotSent string            \<comment> \<open>an exception before the end of the headers\<close>
  | NoAnswer string           \<comment> \<open>an exception after it: its class\<close>
  | Response http_response

record net =
  resolve :: "string \<Rightarrow> nat \<Rightarrow> string + (string \<times> ip) list"
  connect :: "string \<Rightarrow> nat \<Rightarrow> string \<Rightarrow> string + string"   \<comment> \<open>address, port, host: the server's certificate\<close>
  exchange :: "string \<Rightarrow> string \<Rightarrow> (string \<times> string) option \<Rightarrow> exchange"   \<comment> \<open>address, target, credential header\<close>
  cred_file :: "string \<Rightarrow> string + string"
  utf8 :: "string \<Rightarrow> string"

definition WITHHELD :: string where "WITHHELD = ''[credential withheld]''"

definition MAX_BODY :: nat where "MAX_BODY = 1048576"

definition credential_for :: "net \<Rightarrow> string \<Rightarrow> http_credential list \<Rightarrow> string + (string \<times> string) option" where
  "credential_for n url cs =
     (case best_credential url None cs of
        None \<Rightarrow> Inr None
      | Some c \<Rightarrow> (case cred_file n (cr_file c) of Inl e \<Rightarrow> Inl e | Inr v \<Rightarrow> Inr (Some (cr_header c, strip v))))"

record plan =
  pl_port :: nat
  pl_host :: string
  pl_target :: string
  pl_ip :: string
  pl_cred :: "(string \<times> string) option"

definition url_host :: "string \<Rightarrow> string" where
  "url_host url = fst (partition_at (CHR '':'') (netloc (urlsplit url)))"

definition url_port :: "string \<Rightarrow> nat" where
  \<comment> \<open>\<open>p.port or 443\<close>\<close>
  "url_port url =
     (let (_, _, port) = partition_at (CHR '':'') (netloc (urlsplit url)) in if port = [] then 443 else dec_val port)"

definition url_target :: "string \<Rightarrow> string" where
  "url_target url =
     (let p = urlsplit url in u_path p @ (if u_query p = [] then [] else CHR ''?'' # u_query p))"

definition plan_fetch :: "net \<Rightarrow> http_credential list \<Rightarrow> string list \<Rightarrow> string \<Rightarrow> string + plan" where
  \<comment> \<open>\<open>fetch\<close> up to the connection\<close>
  "plan_fetch n creds allow url =
     (if \<not> normal_url url then Inl ''url not in normal form''
      else let host = url_host url; port = url_port url in
        case resolve n host port of
          Inl e \<Rightarrow> Inl (''name not resolved: '' @ e)
        | Inr infos \<Rightarrow>
            (case sort_key fst (remdups infos) of
               [] \<Rightarrow> Inl ''name not resolved''
             | addr # addrs \<Rightarrow>
                 (case List.map_filter (\<lambda>a. address_refused a host allow) (addr # addrs) of
                    why # _ \<Rightarrow> Inl why
                  | [] \<Rightarrow>
                      (case credential_for n url creds of
                         Inl e \<Rightarrow> Inl (''credential unavailable: '' @ e)
                       | Inr cred \<Rightarrow> Inr \<lparr>pl_port = port, pl_host = host, pl_target = url_target url,
                                      pl_ip = fst addr, pl_cred = cred\<rparr>))))"

definition withhold :: "(string \<times> string) option \<Rightarrow> string \<Rightarrow> string" where
  "withhold cred text =
     (case cred of None \<Rightarrow> text
      | Some (h, v) \<Rightarrow> if v \<noteq> [] \<and> sublist v text then replace_all v WITHHELD text else text)"

definition REDIRECT :: string where
  "REDIRECT = ''not followed; propose the location as a new request to fetch it''"

definition server_json :: "crypto \<Rightarrow> string \<Rightarrow> string \<Rightarrow> json" where
  "server_json cr ip cert = JObj [(''address'', JStr ip), (''cert_sha256'', JStr (sha cr cert))]"

definition response_fields :: "crypto \<Rightarrow> net \<Rightarrow> nat \<Rightarrow> (string \<times> string) option \<Rightarrow> json \<Rightarrow> http_response \<Rightarrow> jobj" where
  "response_fields cr n limit cred server r =
     (let body = take limit (take (limit + 1) (rp_body r)) in
      [(''status'', JNum (int (rp_status r))), (''content_type'', JStr (rp_type r)),
       (''body'', JStr (withhold cred (utf8 n body))), (''body_sha256'', JStr (sha cr body)),
       (''truncated'', JBool (limit < length (take (limit + 1) (rp_body r)))), (''server'', server)] @
      (if 300 \<le> rp_status r \<and> rp_status r < 400
       then [(''location'', JStr (rp_location r)), (''redirect'', JStr REDIRECT)] else []))"

definition fetch :: "crypto \<Rightarrow> net \<Rightarrow> http_credential list \<Rightarrow> string list \<Rightarrow> nat \<Rightarrow> string \<Rightarrow> jobj" where
  "fetch cr n creds allow limit url =
     (let out = (\<lambda>how. [(''outcome'', JStr how), (''url'', JStr url)]) in
      case plan_fetch n creds allow url of
        Inl e \<Rightarrow> out ''failed'' @ [(''error'', JStr e)]
      | Inr p \<Rightarrow>
          (case connect n (pl_ip p) (pl_port p) (pl_host p) of
             Inl e \<Rightarrow> out ''failed'' @ [(''error'', JStr (''no connection: '' @ e))]
           | Inr cert \<Rightarrow>
               (let server = server_json cr (pl_ip p) cert in
                case exchange n (pl_ip p) (pl_target p) (pl_cred p) of
                  NotSent e \<Rightarrow> out ''failed'' @ [(''error'', JStr (''not sent: '' @ e)), (''server'', server)]
                | NoAnswer cls \<Rightarrow> out ''unknown'' @ [(''server'', server),
                    (''error'', JStr (''sent, but no complete answer ('' @ cls @ ''): what the remote did is unknown''))]
                | Response r \<Rightarrow> out ''succeeded'' @ response_fields cr n limit (pl_cred p) server r)))"

definition execute_http :: "crypto \<Rightarrow> net \<Rightarrow> http_settings option \<Rightarrow> string \<Rightarrow> jobj" where
  "execute_http cr n settings url =
     (let r = (case settings of
          None \<Rightarrow> fetch cr n [] [] MAX_BODY url
        | Some h \<Rightarrow> fetch cr n (hs_credentials h) (allow_private h) (max_body h) url)
      in if jget r ''outcome'' = JStr ''succeeded''
         then filter (\<lambda>(k, v). k \<in> set [''status'', ''content_type'', ''body'', ''body_sha256'', ''truncated'',
                        ''server'', ''location'', ''redirect'']) r
         else [(''error'', if has_key r ''error'' then jget r ''error'' else JStr ''not fetched'')] @
              (if truthy (jget r ''server'') then [(''server'', jget r ''server'')] else []) @
              (if jget r ''outcome'' = JStr ''unknown'' then [(''_effect_unknown'', JBool True)] else []))"

section \<open>IPv4 by octets\<close>

definition octet :: "nat \<Rightarrow> 32 word \<Rightarrow> nat" where
  "octet i a = unat a div 256 ^ (4 - i) mod 256"

lemma in4_div: "in4 (base, n) a \<longleftrightarrow> unat a div 2 ^ (32 - n) = unat base div 2 ^ (32 - n)"
  by (simp add: in4_def word_unat_eq_iff unat_drop_bit_eq drop_bit_eq_div [of _ "unat _"])

lemma octet_less: "octet i a < 256"
  by (simp add: octet_def)

lemma octet_div:
  "unat a div 2 ^ 24 = octet 1 a"
  "unat a div 2 ^ 16 = octet 1 a * 256 + octet 2 a"
  "unat a div 2 ^ 8 = (octet 1 a * 256 + octet 2 a) * 256 + octet 3 a"
  "unat a = ((octet 1 a * 256 + octet 2 a) * 256 + octet 3 a) * 256 + octet 4 a"
proof -
  have "unat a < 2 ^ LENGTH(32)" by (rule unsigned_less)
  then have d: "unat a div 2 ^ 24 mod 256 = unat a div 2 ^ 24" by simp
  have s: "n div 256 * 256 + n mod 256 = n" for n :: nat by simp
  have m: "unat a div 2 ^ 16 = unat a div 2 ^ 8 div 256" "unat a div 2 ^ 24 = unat a div 2 ^ 16 div 256"
    "unat a div 2 ^ 8 = unat a div 256"
    by (simp_all add: div_mult2_eq [symmetric])
  show 1: "unat a div 2 ^ 24 = octet 1 a" using d by (simp add: octet_def)
  show 2: "unat a div 2 ^ 16 = octet 1 a * 256 + octet 2 a"
    using s [of "unat a div 2 ^ 16"] m(2) 1 by (simp add: octet_def)
  show 3: "unat a div 2 ^ 8 = (octet 1 a * 256 + octet 2 a) * 256 + octet 3 a"
    using s [of "unat a div 2 ^ 8"] m(1) 2 by (simp add: octet_def)
  show "unat a = ((octet 1 a * 256 + octet 2 a) * 256 + octet 3 a) * 256 + octet 4 a"
    by (simp only: 3 [symmetric] m(3)) (simp add: octet_def)
qed

definition special4 :: "nat \<Rightarrow> nat \<Rightarrow> nat \<Rightarrow> nat \<Rightarrow> bool" where
  \<comment> \<open>the IPv4 addresses that are refused, by their octets\<close>
  "special4 p q r s \<longleftrightarrow> p = 0 \<or> p = 10 \<or> p = 127 \<or> 224 \<le> p \<or> p = 169 \<and> q = 254 \<or> p = 172 \<and> 16 \<le> q \<and> q < 32 \<or>
     p = 192 \<and> q = 168 \<or> p = 192 \<and> q = 0 \<and> (r = 2 \<or> r = 0 \<and> s \<noteq> 9 \<and> s \<noteq> 10) \<or>
     p = 198 \<and> (q = 18 \<or> q = 19) \<or> p = 198 \<and> q = 51 \<and> r = 100 \<or> p = 203 \<and> q = 0 \<and> r = 113"

lemma digits_eq: "y < k \<Longrightarrow> x * k + y = c \<longleftrightarrow> x = c div k \<and> y = c mod k" for x y k c :: nat
  by (metis add.commute div_mult_mod_eq div_mult_self1 div_less gr_implies_not0 mod_less mod_mult_self1 add_0)

lemma div_range: "0 < k \<Longrightarrow> n div k = m \<longleftrightarrow> m * k \<le> n \<and> n < Suc m * k" for n k m :: nat
proof -
  assume "0 < k"
  moreover have "n div k = m \<longleftrightarrow> m \<le> n div k \<and> n div k < Suc m" by auto
  ultimately show ?thesis by (simp only: less_eq_div_iff_mult_less_eq div_less_iff_less_mult)
qed

lemma in4_octets:
  "in4 (0x7F000000, 8) a \<longleftrightarrow> octet 1 a = 127" "in4 (0, 8) a \<longleftrightarrow> octet 1 a = 0" "in4 (0x0A000000, 8) a \<longleftrightarrow> octet 1 a = 10"
  "in4 (0xA9FE0000, 16) a \<longleftrightarrow> octet 1 a = 169 \<and> octet 2 a = 254"
  "in4 (0xC0A80000, 16) a \<longleftrightarrow> octet 1 a = 192 \<and> octet 2 a = 168"
  "in4 (0xAC100000, 12) a \<longleftrightarrow> octet 1 a = 172 \<and> 16 \<le> octet 2 a \<and> octet 2 a < 32"
  "in4 (0xC6120000, 15) a \<longleftrightarrow> octet 1 a = 198 \<and> (octet 2 a = 18 \<or> octet 2 a = 19)"
  "in4 (0xC0000000, 24) a \<longleftrightarrow> octet 1 a = 192 \<and> octet 2 a = 0 \<and> octet 3 a = 0"
  "in4 (0xC0000200, 24) a \<longleftrightarrow> octet 1 a = 192 \<and> octet 2 a = 0 \<and> octet 3 a = 2"
  "in4 (0xC6336400, 24) a \<longleftrightarrow> octet 1 a = 198 \<and> octet 2 a = 51 \<and> octet 3 a = 100"
  "in4 (0xCB007100, 24) a \<longleftrightarrow> octet 1 a = 203 \<and> octet 2 a = 0 \<and> octet 3 a = 113"
  "in4 (0xF0000000, 4) a \<longleftrightarrow> 240 \<le> octet 1 a" "in4 (0xE0000000, 4) a \<longleftrightarrow> 224 \<le> octet 1 a \<and> octet 1 a < 240"
  "in4 (0xC0000009, 32) a \<longleftrightarrow> octet 1 a = 192 \<and> octet 2 a = 0 \<and> octet 3 a = 0 \<and> octet 4 a = 9"
  "in4 (0xC000000A, 32) a \<longleftrightarrow> octet 1 a = 192 \<and> octet 2 a = 0 \<and> octet 3 a = 0 \<and> octet 4 a = 10"
  "in4 (0xC00000AA, 31) a \<Longrightarrow> octet 1 a = 192 \<and> octet 2 a = 0 \<and> octet 3 a = 0 \<and> octet 4 a div 2 = 85"
  "in4 (0xFFFFFFFF, 32) a \<Longrightarrow> octet 1 a = 255"
proof -
  have o: "octet i a < 256" "octet i a div 16 < 16" "octet i a div 2 < 128" for i
    using octet_less [of i a] by auto
  have e: "unat a div 65536 = c \<longleftrightarrow> octet 1 a = c div 256 \<and> octet 2 a = c mod 256"
    "unat a div 256 = c \<longleftrightarrow> octet 1 a = c div 256 div 256 \<and> octet 2 a = c div 256 mod 256 \<and> octet 3 a = c mod 256"
    "unat a = c \<longleftrightarrow> octet 1 a = c div 256 div 256 div 256 \<and> octet 2 a = c div 256 div 256 mod 256 \<and>
       octet 3 a = c div 256 mod 256 \<and> octet 4 a = c mod 256" for c
  proof -
    have p: "(2::nat) ^ 16 = 65536" "(2::nat) ^ 8 = 256" by simp_all
    show "unat a div 65536 = c \<longleftrightarrow> octet 1 a = c div 256 \<and> octet 2 a = c mod 256"
      by (simp only: octet_div(2) [of a, unfolded p] digits_eq [OF o(1)])
    show "unat a div 256 = c \<longleftrightarrow> octet 1 a = c div 256 div 256 \<and> octet 2 a = c div 256 mod 256 \<and> octet 3 a = c mod 256"
      by (simp only: octet_div(3) [of a, unfolded p] digits_eq [OF o(1)] conj_assoc)
    show "unat a = c \<longleftrightarrow> octet 1 a = c div 256 div 256 div 256 \<and> octet 2 a = c div 256 div 256 mod 256 \<and>
       octet 3 a = c div 256 mod 256 \<and> octet 4 a = c mod 256"
      by (simp only: octet_div(4) [of a] digits_eq [OF o(1)] conj_assoc)
  qed
  have k: "unat a div 2 ^ 20 = octet 1 a * 16 + octet 2 a div 16" "unat a div 2 ^ 17 = octet 1 a * 128 + octet 2 a div 2"
    "unat a div 2 ^ 28 = octet 1 a div 16"
    "unat a div 2 = ((octet 1 a * 256 + octet 2 a) * 256 + octet 3 a) * 128 + octet 4 a div 2"
  proof -
    have d: "(x * 256 + y) div 16 = x * 16 + y div 16" "(x * 256 + y) div 2 = x * 128 + y div 2" for x y :: nat
      by presburger+
    have "unat a div 2 ^ 20 = unat a div 2 ^ 16 div 16" "unat a div 2 ^ 17 = unat a div 2 ^ 16 div 2"
      "unat a div 2 ^ 28 = unat a div 2 ^ 24 div 16" by (simp_all add: div_mult2_eq [symmetric])
    then show "unat a div 2 ^ 20 = octet 1 a * 16 + octet 2 a div 16" "unat a div 2 ^ 17 = octet 1 a * 128 + octet 2 a div 2"
      "unat a div 2 ^ 28 = octet 1 a div 16"
      unfolding octet_div(1,2) d by simp_all
    show "unat a div 2 = ((octet 1 a * 256 + octet 2 a) * 256 + octet 3 a) * 128 + octet 4 a div 2"
      using octet_div(4) [of a] by presburger
  qed
  show "in4 (0x7F000000, 8) a \<longleftrightarrow> octet 1 a = 127" "in4 (0, 8) a \<longleftrightarrow> octet 1 a = 0"
    "in4 (0x0A000000, 8) a \<longleftrightarrow> octet 1 a = 10"
    using octet_div(1) [of a] by (simp_all add: in4_div)
  show "in4 (0xA9FE0000, 16) a \<longleftrightarrow> octet 1 a = 169 \<and> octet 2 a = 254"
    "in4 (0xC0A80000, 16) a \<longleftrightarrow> octet 1 a = 192 \<and> octet 2 a = 168"
    by (simp_all add: in4_div e)
  have d: "n div 16 = 1 \<longleftrightarrow> 16 \<le> n \<and> n < 32" "n div 2 = 9 \<longleftrightarrow> n = 18 \<or> n = 19" "n div 16 = 14 \<longleftrightarrow> 224 \<le> n \<and> n < 240"
    "n < 256 \<Longrightarrow> n div 16 = 15 \<longleftrightarrow> 240 \<le> n" for n :: nat
    by (auto simp: div_range)
  show "in4 (0xAC100000, 12) a \<longleftrightarrow> octet 1 a = 172 \<and> 16 \<le> octet 2 a \<and> octet 2 a < 32"
    using k(1) by (simp add: in4_div digits_eq o d [simplified])
  show "in4 (0xC6120000, 15) a \<longleftrightarrow> octet 1 a = 198 \<and> (octet 2 a = 18 \<or> octet 2 a = 19)"
    using k(2) by (simp add: in4_div digits_eq o d [simplified])
  show "in4 (0xC0000000, 24) a \<longleftrightarrow> octet 1 a = 192 \<and> octet 2 a = 0 \<and> octet 3 a = 0"
    "in4 (0xC0000200, 24) a \<longleftrightarrow> octet 1 a = 192 \<and> octet 2 a = 0 \<and> octet 3 a = 2"
    "in4 (0xC6336400, 24) a \<longleftrightarrow> octet 1 a = 198 \<and> octet 2 a = 51 \<and> octet 3 a = 100"
    "in4 (0xCB007100, 24) a \<longleftrightarrow> octet 1 a = 203 \<and> octet 2 a = 0 \<and> octet 3 a = 113"
    by (simp_all add: in4_div e)
  show "in4 (0xF0000000, 4) a \<longleftrightarrow> 240 \<le> octet 1 a" "in4 (0xE0000000, 4) a \<longleftrightarrow> 224 \<le> octet 1 a \<and> octet 1 a < 240"
    using k(3) by (simp_all add: in4_div o d)
  show "in4 (0xC0000009, 32) a \<longleftrightarrow> octet 1 a = 192 \<and> octet 2 a = 0 \<and> octet 3 a = 0 \<and> octet 4 a = 9"
    "in4 (0xC000000A, 32) a \<longleftrightarrow> octet 1 a = 192 \<and> octet 2 a = 0 \<and> octet 3 a = 0 \<and> octet 4 a = 10"
    by (simp_all add: in4_div e)
  show "in4 (0xC00000AA, 31) a \<Longrightarrow> octet 1 a = 192 \<and> octet 2 a = 0 \<and> octet 3 a = 0 \<and> octet 4 a div 2 = 85"
  proof -
    have "unat a div 2 = c \<longleftrightarrow> octet 1 a = c div 128 div 256 div 256 \<and> octet 2 a = c div 128 div 256 mod 256 \<and>
       octet 3 a = c div 128 mod 256 \<and> octet 4 a div 2 = c mod 128" for c
      by (simp only: k(4) digits_eq [OF o(3)] digits_eq [OF o(1)] conj_assoc)
    then show "in4 (0xC00000AA, 31) a \<Longrightarrow> octet 1 a = 192 \<and> octet 2 a = 0 \<and> octet 3 a = 0 \<and> octet 4 a div 2 = 85"
      by (simp add: in4_div)
  qed
  show "in4 (0xFFFFFFFF, 32) a \<Longrightarrow> octet 1 a = 255"
    by (simp add: in4_div e)
qed

definition admissible :: "ip \<Rightarrow> bool" where
  "admissible x \<longleftrightarrow> \<not> list_ex (\<lambda>(k, why). k x) address_kinds"

lemma address_refused_None:
  "address_refused addr host allow = None \<longleftrightarrow>
   host \<in> set allow \<or> fst addr \<in> set allow \<or> admissible (unmapped (snd addr))"
  by (auto simp: address_refused_def admissible_def find_None_iff list_ex_iff)

lemma admissible_V4: "admissible (V4 a) \<longleftrightarrow> \<not> special4 (octet 1 a) (octet 2 a) (octet 3 a) (octet 4 a)"
proof -
  have z: "a = 0 \<Longrightarrow> octet 1 a = 0" by (simp add: octet_def)
  let ?k = "\<exists>(k, why)\<in>set address_kinds. k (V4 a)"
  note net = address_kinds_def private4_def public4_def in4_octets(1-15)
  have "?k \<Longrightarrow> special4 (octet 1 a) (octet 2 a) (octet 3 a) (octet 4 a)"
    using z in4_octets(16,17) [of a] unfolding special4_def
    by (simp add: net) (elim disjE conjE; simp)
  moreover have "special4 (octet 1 a) (octet 2 a) (octet 3 a) (octet 4 a) \<Longrightarrow> ?k"
    unfolding special4_def by (elim disjE conjE; auto simp add: net)
  ultimately show ?thesis by (auto simp: admissible_def list_ex_iff)
qed

lemma admissible_V6:
  "admissible (V6 a) \<Longrightarrow>
   a \<noteq> 0 \<and> a \<noteq> 1 \<and> drop_bit 121 a \<noteq> 0x7E \<and> drop_bit 118 a \<noteq> 0x3FA \<and> drop_bit 120 a \<noteq> 0xFF"
proof -
  have d: "drop_bit 121 a = drop_bit 25 (drop_bit 96 a)" "drop_bit 121 a = drop_bit 41 (drop_bit 80 a)"
    "drop_bit 121 a = drop_bit 21 (drop_bit 100 a)" by simp_all
  assume "admissible (V6 a)"
  then show ?thesis
    using d by (auto simp: admissible_def address_kinds_def private6_def public6_def in6_def simp del: drop_bit_drop_bit)
qed

section \<open>Withholding\<close>

lemma prefix_replace: "hd r \<notin> set p \<Longrightarrow> r \<noteq> [] \<Longrightarrow> prefix p (replace_all v r s) \<Longrightarrow> prefix p s"
proof (induction v r s arbitrary: p rule: replace_all.induct)
  case (2 v r c s)
  show ?case
  proof (cases p)
    case (Cons x p')
    then have "\<not> (v \<noteq> [] \<and> prefix v (c # s))"
      using 2(3-5) by (cases r) (auto split: if_splits)
    then show ?thesis using 2 Cons by auto
  qed simp
qed simp

lemma sublist_crossing:
  assumes "sublist v (xs @ c # ys)" and "c \<notin> set v"
  shows "sublist v xs \<or> sublist v ys"
  using assms by (auto simp: sublist_append sublist_Cons_right prefix_Cons dest: set_mono_suffix set_mono_prefix)

lemma replaced_gone:
  assumes "v \<noteq> []" and "CHR ''['' \<notin> set v" and "CHR '']'' \<notin> set v" and "\<not> sublist v WITHHELD"
  shows "\<not> sublist v (replace_all v WITHHELD s)"
proof (induction s rule: length_induct)
  case (1 s)
  note IH = 1(1)
  show ?case
  proof (cases s)
    case (Cons c t)
    show ?thesis
    proof (cases "prefix v (c # t)")
      case True
      let ?t = "replace_all v WITHHELD (drop (length v) (c # t))"
      have "length (drop (length v) (c # t)) < length s" using assms(1) Cons by (cases v) auto
      then have "\<not> sublist v ?t" using IH by blast
      moreover have "WITHHELD = butlast WITHHELD @ [CHR '']'']" by (simp add: WITHHELD_def)
      moreover have "\<not> sublist v (butlast WITHHELD)" using assms(4) by (metis calculation(2) sublist_append_rightI sublist_order.order_trans)
      ultimately have "\<not> sublist v (WITHHELD @ ?t)"
        using sublist_crossing [OF _ assms(3), of "butlast WITHHELD" ?t] by (metis append_Cons append_Nil append_assoc)
      then show ?thesis using True assms(1) Cons by simp
    next
      case False
      have "\<not> prefix v (c # replace_all v WITHHELD t)"
      proof
        assume p: "prefix v (c # replace_all v WITHHELD t)"
        then obtain v' where v: "v = c # v'" "prefix v' (replace_all v WITHHELD t)" using assms(1) by (cases v) auto
        then have "prefix v' t" using prefix_replace [of WITHHELD v' v t] assms(2) by (simp add: WITHHELD_def)
        with v False show False by simp
      qed
      moreover have "\<not> sublist v (replace_all v WITHHELD t)" using IH Cons by simp
      ultimately show ?thesis using False Cons by (simp add: sublist_Cons_right)
    qed
  qed (simp add: assms(1))
qed

section \<open>A concrete exchange\<close>

definition demo_net :: net where
  \<comment> \<open>a server that redirects and echoes the credential\<close>
  "demo_net = \<lparr>resolve = (\<lambda>_ _. Inr [(''93.184.216.34'', V4 0x5DB8D822)]), connect = (\<lambda>_ _ _. Inr ''cert''),
     exchange = (\<lambda>_ _ _. Response \<lparr>rp_status = 302, rp_type = ''text/plain'', rp_location = ''https://x.test/?t=Tok1'',
       rp_body = ''see Tok1''\<rparr>), cred_file = (\<lambda>_. Inr ''Tok1''), utf8 = (\<lambda>b. b)\<rparr>"

definition demo_creds :: "http_credential list" where
  "demo_creds = [\<lparr>cr_prefix = ''https://example.test/'', cr_header = ''Authorization'', cr_file = ''/etc/tok''\<rparr>]"

definition demo_plan :: plan where
  "demo_plan = \<lparr>pl_port = 443, pl_host = ''example.test'', pl_target = ''/a'', pl_ip = ''93.184.216.34'',
     pl_cred = Some (''Authorization'', ''Tok1'')\<rparr>"

lemma demo_plans: "plan_fetch demo_net demo_creds [] ''https://example.test/a'' = Inr demo_plan"
proof -
  have u: "normal_url ''https://example.test/a''" "url_host ''https://example.test/a'' = ''example.test''"
    "url_port ''https://example.test/a'' = 443" "url_target ''https://example.test/a'' = ''/a''" by code_simp+
  have "\<not> special4 (octet 1 0x5DB8D822) (octet 2 0x5DB8D822) (octet 3 0x5DB8D822) (octet 4 0x5DB8D822)"
    by (simp add: octet_def special4_def)
  then have "address_refused (''93.184.216.34'', V4 0x5DB8D822) ''example.test'' [] = None"
    by (simp only: address_refused_None) (simp add: admissible_V4)
  moreover have "credential_for demo_net ''https://example.test/a'' demo_creds = Inr (Some (''Authorization'', ''Tok1''))"
    by code_simp
  ultimately show ?thesis
    by (simp add: plan_fetch_def u demo_net_def demo_plan_def map_filter_def)
qed

section \<open>Properties\<close>

text \<open>C26: Which IPv4 addresses are refused, octet by octet: unless the principal allows the host or
  the address by name, exactly those in 0.0.0.0/8, 10.0.0.0/8, 127.0.0.0/8, 169.254.0.0/16,
  172.16.0.0/12, 192.168.0.0/16, 192.0.0.0/24 (but 192.0.0.9 and 192.0.0.10), 192.0.2.0/24,
  198.18.0.0/15, 198.51.100.0/24, 203.0.113.0/24, and everything from 224.0.0.0 on. An IPv4
  address in IPv6 clothing is judged as the address it stands for. The shared address space
  100.64.0.0/10 is not refused.\<close>

theorem ipv4_refused_iff_special:
  "(address_refused (t, V4 a) host allow \<noteq> None \<longleftrightarrow>
      host \<notin> set allow \<and> t \<notin> set allow \<and> special4 (octet 1 a) (octet 2 a) (octet 3 a) (octet 4 a)) \<and>
   (address_refused (t, V6 (push_bit 32 0xFFFF OR ucast a)) host allow = address_refused (t, V4 a) host allow)"
proof -
  define m :: "128 word" where "m = push_bit 32 0xFFFF"
  have m: "\<not> bit m n" if "n < 32" for n
    unfolding m_def bit_push_bit_iff using that by simp
  have d: "drop_bit 32 m = 0xFFFF" by (simp add: m_def)
  have "drop_bit 32 (m OR ucast a) = drop_bit 32 m"
    by (rule bit_word_eqI) (auto simp: bit_simps dest: bit_imp_le_length)
  moreover have "(ucast (m OR ucast a) :: 32 word) = a"
    by (rule bit_word_eqI) (auto simp: bit_simps m)
  ultimately have "unmapped (V6 (m OR ucast a)) = V4 a" using d by simp
  then show ?thesis
    unfolding m_def [symmetric]
    using address_refused_None [of "(t, V4 a)" host allow] admissible_V4 [of a]
    by (auto simp: address_refused_def simp del: unmapped.simps(2))
qed

lemma plan_fetch_checked:
  assumes "plan_fetch n creds allow url = Inr p"
  shows "\<exists>infos. normal_url url \<and> resolve n (url_host url) (url_port url) = Inr infos \<and>
           pl_ip p \<in> fst ` set infos \<and>
           (url_host url \<in> set allow \<or> list_all (\<lambda>(t, a). t \<in> set allow \<or> admissible (unmapped a)) infos) \<and>
           credential_for n url creds = Inr (pl_cred p) \<and>
           pl_port p = url_port url \<and> pl_host p = url_host url \<and> pl_target p = url_target url"
proof -
  have u: "normal_url url" using assms by (auto simp: plan_fetch_def split: if_splits)
  then obtain infos where i: "resolve n (url_host url) (url_port url) = Inr infos"
    using assms by (auto simp: plan_fetch_def Let_def split: sum.splits)
  then obtain a as where s: "sort_key fst (remdups infos) = a # as"
    using assms u by (auto simp: plan_fetch_def Let_def split: list.splits)
  then have infos: "set (a # as) = set infos" by (metis set_remdups set_sort)
  obtain cred where c: "List.map_filter (\<lambda>a. address_refused a (url_host url) allow) (a # as) = []"
    "credential_for n url creds = Inr cred" "pl_ip p = fst a" "pl_cred p = cred" "pl_port p = url_port url" "pl_host p = url_host url" "pl_target p = url_target url"
    using assms u i s by (auto simp: plan_fetch_def Let_def split: list.splits sum.splits)
  have "\<forall>x\<in>set infos. address_refused x (url_host url) allow = None"
    using c(1) unfolding infos [symmetric] map_filter_def by (simp only: map_is_Nil_conv filter_empty_conv) simp
  then have "url_host url \<in> set allow \<or> list_all (\<lambda>(t, a). t \<in> set allow \<or> admissible (unmapped a)) infos"
    by (auto simp: address_refused_None list_all_iff)
  moreover have "fst a \<in> fst ` set infos" using infos by auto
  ultimately show ?thesis using u i c by auto
qed

definition may_contact :: "net \<Rightarrow> string list \<Rightarrow> string \<Rightarrow> string \<Rightarrow> bool" where
  \<comment> \<open>an address the name resolves to, when each one it resolves to is allowed by name or admissible\<close>
  "may_contact n allow url t \<longleftrightarrow>
     normal_url url \<and>
     (\<exists>infos. resolve n (url_host url) (url_port url) = Inr infos \<and> t \<in> fst ` set infos \<and>
        (url_host url \<in> set allow \<or> list_all (\<lambda>(t, a). t \<in> set allow \<or> admissible (unmapped a)) infos))"

definition right_credential :: "net \<Rightarrow> http_credential list \<Rightarrow> string \<Rightarrow> (string \<times> string) option \<Rightarrow> bool" where
  \<comment> \<open>none where no prefix matches, else the header and the file's value of one with a longest matching prefix\<close>
  "right_credential n creds url cred \<longleftrightarrow>
     (case cred of
        None \<Rightarrow> \<forall>c\<in>set creds. \<not> startswith url (cr_prefix c)
      | Some (h, v) \<Rightarrow> \<exists>c\<in>set creds. \<exists>x. startswith url (cr_prefix c) \<and>
          (\<forall>d\<in>set creds. startswith url (cr_prefix d) \<longrightarrow> length (cr_prefix d) \<le> length (cr_prefix c)) \<and>
          cred_file n (cr_file c) = Inr x \<and> h = cr_header c \<and> v = strip x)"

lemma credential_for_right: "credential_for n url creds = Inr cred \<Longrightarrow> right_credential n creds url cred"
  using best_credential_None [of url None creds] best_credential_sound [of None url creds]
  by (fastforce simp: credential_for_def right_credential_def split: option.splits sum.splits)

lemma plan_fetch_cong:
  assumes "resolve n' = resolve n" and "cred_file n' = cred_file n"
  shows "plan_fetch n' creds allow url = plan_fetch n creds allow url"
  unfolding plan_fetch_def credential_for_def assms ..

text \<open>C25: A governed GET has to do with nobody else: its whole outcome is the same for any two networks
  that agree on what the name resolves to and the credential files hold, on the connection - to the
  URL's port, with a certificate for its host - to each address that may be contacted, and on that
  address's answer to the URL's target with the right credential. An address may be contacted when the
  URL is in normal form, the name resolved to it, and every address it resolved to was allowed by
  name (or the host was) or is admissible; so no answer of the resolver can lead elsewhere. The right
  credential is none where no prefix matches, and else the header and the value in the file of the
  longest matching prefix.\<close>

theorem fetch_contacts_checked_address:
  assumes "resolve n' = resolve n" and "cred_file n' = cred_file n" and "utf8 n' = utf8 n"
    and "\<And>t. may_contact n allow url t \<Longrightarrow> connect n' t (url_port url) (url_host url) = connect n t (url_port url) (url_host url)"
    and "\<And>t cred. may_contact n allow url t \<Longrightarrow> right_credential n creds url cred \<Longrightarrow>
           exchange n' t (url_target url) cred = exchange n t (url_target url) cred"
  shows "fetch cr n' creds allow limit url = fetch cr n creds allow limit url"
proof (cases "plan_fetch n creds allow url")
  case (Inl e)
  then show ?thesis by (simp add: fetch_def plan_fetch_cong [OF assms(1,2)])
next
  case (Inr p)
  from plan_fetch_checked [OF Inr] have p: "may_contact n allow url (pl_ip p)" "right_credential n creds url (pl_cred p)"
    "pl_port p = url_port url" "pl_host p = url_host url" "pl_target p = url_target url"
    using credential_for_right by (auto simp: may_contact_def)
  have same: "response_fields cr n' = response_fields cr n" by (intro ext) (simp add: response_fields_def assms(3))
  show ?thesis
    unfolding fetch_def plan_fetch_cong [OF assms(1,2)] Inr sum.case p(3-5) Let_def
      assms(4) [OF p(1)] assms(5) [OF p(1,2)] same by (rule refl)
qed

definition other_net :: net where
  \<comment> \<open>reachable at one address, for one host, target and credential only\<close>
  "other_net = demo_net
     \<lparr>connect := (\<lambda>t port host. if (t, port, host) = (''93.184.216.34'', 443, ''example.test'') then Inr ''cert'' else Inl ''down''),
      exchange := (\<lambda>t target cred. if (t, target, cred) = (''93.184.216.34'', ''/a'', Some (''Authorization'', ''Tok1''))
        then exchange demo_net t target cred else NotSent ''down'')\<rparr>"

theorem fetch_contacts_checked_address_witness:
  "fetch demo_crypto other_net demo_creds [] 100 ''https://example.test/a'' =
   fetch demo_crypto demo_net demo_creds [] 100 ''https://example.test/a'' \<and>
   jget (fetch demo_crypto other_net demo_creds [] 100 ''https://example.test/a'') ''outcome'' = JStr ''succeeded''"
proof -
  let ?u = "''https://example.test/a''"
  have u: "url_host ?u = ''example.test''" "url_port ?u = 443" "url_target ?u = ''/a''" "strip ''Tok1'' = ''Tok1''"
    "startswith ?u ''https://example.test/''" by code_simp+
  have same: "resolve other_net = resolve demo_net" "cred_file other_net = cred_file demo_net" "utf8 other_net = utf8 demo_net"
    by (simp_all add: other_net_def)
  have t: "t = ''93.184.216.34''" if "may_contact demo_net [] ?u t" for t
    using that by (auto simp: may_contact_def demo_net_def)
  have c: "cred = Some (''Authorization'', ''Tok1'')" if "right_credential demo_net demo_creds ?u cred" for cred
    using that u(4,5) by (auto simp: right_credential_def demo_creds_def demo_net_def split: option.splits)
  have "fetch demo_crypto other_net demo_creds [] 100 ?u = fetch demo_crypto demo_net demo_creds [] 100 ?u"
  proof (rule fetch_contacts_checked_address [OF same])
    show "connect other_net t (url_port ?u) (url_host ?u) = connect demo_net t (url_port ?u) (url_host ?u)"
      if "may_contact demo_net [] ?u t" for t
      using t [OF that] u by (simp add: other_net_def) (simp add: demo_net_def)
    show "exchange other_net t (url_target ?u) cred = exchange demo_net t (url_target ?u) cred"
      if "may_contact demo_net [] ?u t" "right_credential demo_net demo_creds ?u cred" for t cred
      using t [OF that(1)] c [OF that(2)] u by (simp add: other_net_def)
  qed
  moreover have "jget (fetch demo_crypto demo_net demo_creds [] 100 ?u) ''outcome'' = JStr ''succeeded''"
    by (simp add: fetch_def demo_plans Let_def response_fields_def) (simp add: demo_net_def response_fields_def Let_def)
  ultimately show ?thesis by simp
qed

text \<open>C27: A credential the remote side echoes in the body does not reach the agent: whatever is answered,
  and however the body is decoded and cut, the body of the result does not contain the credential.
  (For a credential without square brackets that is no part of the text it is replaced by.)\<close>

theorem body_withholds_credential:
  assumes "plan_fetch n creds allow url = Inr p" and "pl_cred p = Some (h, v)" and "v \<noteq> []"
    and "CHR ''['' \<notin> set v" and "CHR '']'' \<notin> set v" and "\<not> sublist v WITHHELD"
    and "jget (fetch cr n creds allow limit url) ''body'' = JStr b"
  shows "\<not> sublist v b"
proof -
  have "\<not> sublist v (withhold (pl_cred p) x)" for x
    using replaced_gone [OF assms(3-6)] assms(3) by (simp add: withhold_def assms(2))
  moreover obtain x where "b = withhold (pl_cred p) x"
    using assms(1,7) by (auto simp: fetch_def Let_def response_fields_def split: sum.splits exchange.splits)
  ultimately show ?thesis by simp
qed

theorem body_withholds_credential_witness:
  "\<exists>b. jget (fetch demo_crypto demo_net demo_creds [] 100 ''https://example.test/a'') ''body'' = JStr b \<and> \<not> sublist ''Tok1'' b"
proof -
  have c: "pl_cred demo_plan = Some (''Authorization'', ''Tok1'')" by (simp add: demo_plan_def)
  have w: "\<not> sublist ''Tok1'' WITHHELD" by code_simp
  obtain b where "jget (fetch demo_crypto demo_net demo_creds [] 100 ''https://example.test/a'') ''body'' = JStr b"
    by (simp add: fetch_def demo_plans Let_def response_fields_def) (simp add: demo_net_def response_fields_def Let_def)
  with body_withholds_credential [OF demo_plans c _ _ _ w] show ?thesis by auto
qed

text \<open>A credential the remote side echoes in the \<open>Location\<close> of a redirect does reach the agent (and
  the audit log, which keeps the location): the header is returned as it came.\<close>

theorem redirect_echoes_credential:
  assumes "plan_fetch n creds allow url = Inr p" and "pl_cred p = Some (h, v)"
    and "connect n (pl_ip p) (pl_port p) (pl_host p) = Inr cert"
    and "exchange n (pl_ip p) (pl_target p) (pl_cred p) = Response r"
    and "300 \<le> rp_status r" and "rp_status r < 400" and "sublist v (rp_location r)"
  shows "\<exists>l. jget (execute_http cr n (Some \<lparr>hs_credentials = creds, allow_private = allow, max_body = limit\<rparr>) url)
               ''location'' = JStr l \<and> sublist v l"
  using assms by (simp add: execute_http_def fetch_def Let_def response_fields_def)

theorem redirect_echoes_credential_witness:
  "\<exists>l. jget (execute_http demo_crypto demo_net
         (Some \<lparr>hs_credentials = demo_creds, allow_private = [], max_body = 100\<rparr>) ''https://example.test/a'') ''location'' = JStr l \<and>
       sublist ''Tok1'' l"
proof -
  have "sublist ''Tok1'' ''https://x.test/?t=Tok1''" by code_simp
  then show ?thesis
    by (intro redirect_echoes_credential [OF demo_plans, where h = "''Authorization''" and cert = "''cert''"
        and r = "\<lparr>rp_status = 302, rp_type = ''text/plain'', rp_location = ''https://x.test/?t=Tok1'', rp_body = ''see Tok1''\<rparr>"])
      (simp_all add: demo_plan_def demo_net_def)
qed

end
