(* ===== verification/Broker.thy ===== *)
theory Broker
  imports Verdict Kernel Intents Http
begin

text \<open>
  The broker (\<open>class Broker\<close> of \<open>darm_guard/broker.py\<close>): the decision on a proposal, the handling
  of a request from the idempotency key to the settled intent, and its records. The file system
  is the world of the state monad; everything else the broker holds is the record \<open>broker\<close>, which
  each operation returns updated. What a request finds around it is the record \<open>req_env\<close>: its
  random identifiers, the clock, the faults of the log, the network. The kernel
  is the function from request lines to its replies.

  \<open>_handle\<close> is three functions, as the source has three parts: \<open>begin_request\<close> up to the durable
  \<open>prepared\<close> record and the reserved intent (everything under the lock), \<open>perform\<close> (the effect and
  the read verdict), \<open>finish_request\<close> (observation, outcome record, settlement, key state). An
  exception is \<open>Inl\<close> with its class.
\<close>

section \<open>State\<close>

record key_entry =
  ke_rid :: string
  ke_hash :: json
  ke_state :: string
  ke_effect :: json

record broker =
  b_cfg :: broker_config
  b_log :: audit_log
  b_store :: intent_store
  b_disk :: files                            \<comment> \<open>the intents files\<close>
  b_keys :: "(string \<times> key_entry) list"
  b_key :: "keys option"
  b_proc :: proc                             \<comment> \<open>the kernel process\<close>

record req_env =
  re_rid :: string
  re_now :: time                             \<comment> \<open>at the clock check\<close>
  re_decided :: time                         \<comment> \<open>at the check of the credential\<close>
  re_nonce :: string
  re_move :: string                          \<comment> \<open>random part of a rename's private name\<close>
  re_tmp :: string                           \<comment> \<open>random part of a temporary name\<close>
  re_append :: "nat \<Rightarrow> append_env"           \<comment> \<open>of the request's first, second and third record\<close>
  re_net :: net                               \<comment> \<open>the network of a governed GET\<close>
  re_manifest :: "string option"             \<comment> \<open>the text of the vouched manifest\<close>

record kernel_env =
  kn_path :: string
  kn_io :: "string \<Rightarrow> kernel_io"

definition open_broker ::
  "broker_config \<Rightarrow> audit_log \<Rightarrow> intent_store \<Rightarrow> files \<Rightarrow> keys option \<Rightarrow> broker option" where
  \<comment> \<open>\<open>Broker.__init__\<close> with the store it opened\<close>
  "open_broker cfg al st disk ks =
     (if (case ks of None \<Rightarrow> False | Some k \<Rightarrow> \<not> can_sign (k_ring k)) then None
      else Some \<lparr>b_cfg = cfg, b_log = al, b_store = st, b_disk = disk, b_keys = [], b_key = ks, b_proc = NoProc\<rparr>)"

section \<open>decide\<close>

definition rejected :: "jobj \<Rightarrow> jobj" where
  "rejected rest = (''decision'', JStr ''reject'') # rest"

definition NOT_MET :: string where "NOT_MET = ''premise not met: ''"

fun arg_problem :: "(string \<times> string) list \<Rightarrow> string option" where
  "arg_problem [] = None"
| "arg_problem ((k, v) # args) =
     (if k \<in> set PATH_KEYS \<and> \<not> path_in_normal_form v then Some ''path not in normal form''
      else if k \<in> set URL_KEYS \<and> \<not> normal_url v then Some ''url not in normal form''
      else arg_problem args)"

definition decide_request :: "broker_config \<Rightarrow> time \<Rightarrow> string \<Rightarrow> (string \<times> string) list \<Rightarrow> jobj" where
  "decide_request cfg now tool args =
     [(''policy'', policy cfg),
      (''credential'', JObj [(''tools'', JList (map JStr (credential_tools cfg))), (''expired'', JBool (expired cfg now))]),
      (''registry'', JObj [(''values'', JList (map JStr (sorted_list_of_fset (fst (registry_for cfg tool))))),
                           (''prefixes'', JList (map JStr (snd (registry_for cfg tool))))]),
      (''proposal'', JObj [(''tool'', JStr tool), (''args'', JList (map (\<lambda>(k, v). JList [JStr k, JStr v]) args))])]"

fun first_met :: "crypto \<Rightarrow> intent list \<Rightarrow> (world, intent option) state" where
  \<comment> \<open>\<open>next((i for i in fitting if _premise_problem(self.cfg, i) is None), None)\<close>\<close>
  "first_met cr [] = ret None"
| "first_met cr (i # is) = do {
     p \<leftarrow> premise_problem cr i;
     (if p = None then ret (Some i) else first_met cr is) }"

fun unmet :: "crypto \<Rightarrow> intent list \<Rightarrow> (world, string option list) state" where
  "unmet cr [] = ret []"
| "unmet cr (i # is) = do { p \<leftarrow> premise_problem cr i; ps \<leftarrow> unmet cr is; ret (p # ps) }"

record decision =
  d_inv :: "invocation option"
  d_tool :: "string option"
  d_resp :: jobj
  d_matched :: "intent option"

definition decision_of :: "invocation option \<Rightarrow> string option \<Rightarrow> jobj \<Rightarrow> intent option \<Rightarrow> decision" where
  "decision_of i t r m = \<lparr>d_inv = i, d_tool = t, d_resp = r, d_matched = m\<rparr>"

definition intent_refusal :: "invocation \<Rightarrow> string \<Rightarrow> json \<Rightarrow> decision" where
  "intent_refusal ivn tool err =
     decision_of (Some ivn) (Some tool) (rejected [(''failure'', JStr ''intent''), (''error'', err)]) None"

definition match_intent ::
  "crypto \<Rightarrow> invocation \<Rightarrow> string \<Rightarrow> (string \<times> string) list \<Rightarrow> broker \<Rightarrow>
   (world, ((string + decision) + intent option) \<times> broker) state" where
  \<comment> \<open>\<open>Inl\<close>: an exception or the final refusal; \<open>Inr\<close>: go on, with the matched intent if intents are on\<close>
  "match_intent cr ivn tool args b =
     (if available (b_store b) = None then ret (Inr None, b)
      else (case refresh_intents (b_store b) (b_disk b) of (refusal, st, disk) \<Rightarrow>
        let b' = b\<lparr>b_store := st, b_disk := disk\<rparr> in
        case refusal of
          Some why \<Rightarrow> ret (Inl (Inr (intent_refusal ivn tool (JStr why))), b')
        | None \<Rightarrow>
            (let fitting = filter (\<lambda>i. intent_fits (sha cr) i tool args) (ints st) in do {
               m \<leftarrow> first_met cr fitting;
               (case m of
                  Some i \<Rightarrow> ret (Inr (Some i), b')
                | None \<Rightarrow> do {
                    ps \<leftarrow> unmet cr fitting;
                    ret (Inl (case ps of
                           [] \<Rightarrow> Inr (intent_refusal ivn tool JNull)
                         | None # _ \<Rightarrow> Inl ''TypeError''
                         | Some p # _ \<Rightarrow> Inr (intent_refusal ivn tool (JStr (NOT_MET @ p)))), b') }) })))"

definition ask_kernel ::
  "kernel_env \<Rightarrow> req_env \<Rightarrow> invocation \<Rightarrow> string \<Rightarrow> (string \<times> string) list \<Rightarrow> intent option \<Rightarrow> broker \<Rightarrow>
   decision \<times> broker" where
  "ask_kernel kn env ivn tool args m b =
     (case kernel_decide (kn_path kn) (re_nonce env) (kn_io kn)
             (decide_request (b_cfg b) (re_decided env) tool args) (b_proc b) of
        (d, pr) \<Rightarrow>
          (if \<not> kd_admitted d
           then decision_of (Some ivn) (Some tool) (rejected [(''failure'', kd_failure d), (''error'', kd_error d)]) m
           else if canon (kd_invocation d) \<noteq> canon (inv_json ivn)
           then decision_of (Some ivn) (Some tool)
                  (rejected [(''failure'', JStr ''semantic''),
                     (''error'', JStr ''the kernel's canonical invocation differs from the broker's'')]) m
           else decision_of (Some ivn) (Some tool) [(''decision'', JStr ''admit'')] m,
           b\<lparr>b_proc := pr\<rparr>))"

definition decide ::
  "crypto \<Rightarrow> kernel_env \<Rightarrow> req_env \<Rightarrow> json \<Rightarrow> broker \<Rightarrow> (world, (string + decision) \<times> broker) state" where
  "decide cr kn env obj b =
     (case parse_proposal obj of
        None \<Rightarrow> ret (Inr (decision_of None None (rejected [(''error'', JStr ''malformed proposal'')]) None), b)
      | Some (tool, args) \<Rightarrow>
          (case arg_problem args of
             Some why \<Rightarrow> ret (Inr (decision_of None (Some tool) (rejected [(''error'', JStr why)]) None), b)
           | None \<Rightarrow>
               if tool = ''http_get'' \<and> map fst args \<noteq> [''url'']
               then ret (Inr (decision_of None (Some tool)
                      (rejected [(''error'', JStr ''http_get takes exactly one argument, url'')]) None), b)
               else (let ivn = canonicalize (b_cfg b) tool args in do {
                 (r, b') \<leftarrow> match_intent cr ivn tool args b;
                 (case r of
                    Inl x \<Rightarrow> ret (x, b')
                  | Inr m \<Rightarrow> (case ask_kernel kn env ivn tool args m b' of (d, b'') \<Rightarrow> ret (Inr d, b''))) })))"

section \<open>Records\<close>

definition dget :: "jobj \<Rightarrow> string \<Rightarrow> json \<Rightarrow> json" where
  \<comment> \<open>\<open>d.get(k, default)\<close>\<close>
  "dget d k v = (case map_of d k of None \<Rightarrow> v | Some x \<Rightarrow> x)"

definition record_entry ::
  "(string \<Rightarrow> string) \<Rightarrow> json \<Rightarrow> string \<Rightarrow> string \<Rightarrow> invocation option \<Rightarrow> string option \<Rightarrow> jobj \<Rightarrow> jobj" where
  "record_entry hf summary rid event ivn tool resp =
     [(''event'', JStr event), (''request_id'', JStr rid), (''tool'', opt_str tool),
      (''invocation_hash'', opt_str (map_option (invocation_hash hf) ivn)),
      (''decision'', jget resp ''decision''), (''effect'', jget resp ''effect''),
      (''executed'', dget resp ''executed'' (JBool False)),
      (''intent_consumed'', jget resp ''intent_consumed''), (''reconciliation'', jget resp ''reconciliation''),
      (''peer'', jget resp ''peer''),
      (''proposal'', if event \<in> set [''decision'', ''duplicate'', ''prepared''] then summary else JNull),
      (''target'', jget resp ''target''), (''url'', jget resp ''url''), (''remote'', jget resp ''remote''),
      (''source'', jget resp ''source''), (''private'', jget resp ''private''),
      (''destination_before'', jget resp ''destination_before''),
      (''source_attestation'', jget resp ''source_attestation''),
      (''read_attestation'', jget resp ''read_attestation''),
      (''idempotency_key'', jget resp ''idempotency_key''), (''before_state'', jget resp ''before_state''),
      (''intended_state'', jget resp ''intended_state''), (''observed_state'', jget resp ''observed_state''),
      (''failure'', jget resp ''failure''), (''error'', jget resp ''error'')]"

definition record_request ::
  "crypto \<Rightarrow> append_env \<Rightarrow> json \<Rightarrow> string \<Rightarrow> string \<Rightarrow> invocation option \<Rightarrow> string option \<Rightarrow> jobj \<Rightarrow> broker \<Rightarrow>
   bool \<times> broker" where
  \<comment> \<open>\<open>_record\<close>; the result is false when it raises\<close>
  "record_request cr env summary rid event ivn tool resp b =
     (case log_append cr env (record_entry (sha cr) summary rid event ivn tool resp) (b_log b) of
        (ok, al) \<Rightarrow> (ok, b\<lparr>b_log := al\<rparr>))"
section \<open>The first part of a request\<close>

definition merge :: "jobj \<Rightarrow> jobj \<Rightarrow> jobj" where
  \<comment> \<open>\<open>dict(d, **new)\<close>\<close>
  "merge d new = fold (\<lambda>(k, v) d. dset d k v) new d"

definition key_of :: "json \<Rightarrow> json option" where
  "key_of obj =
     (case obj of
        JObj d \<Rightarrow> if has_key d ''idempotency_key'' then Some (jget d ''idempotency_key'') else None
      | _ \<Rightarrow> None)"

definition without_key :: "json \<Rightarrow> json" where
  "without_key obj = (case obj of JObj d \<Rightarrow> JObj (without ''idempotency_key'' d) | _ \<Rightarrow> obj)"

definition key_text :: "json \<Rightarrow> string option" where
  \<comment> \<open>the key, if it is well formed\<close>
  "key_text v = (case v of JStr k \<Rightarrow> if k \<noteq> [] \<and> length k \<le> 128 then Some k else None | _ \<Rightarrow> None)"

definition clock_rolled_back :: "audit_log \<Rightarrow> time \<Rightarrow> bool" where
  "clock_rolled_back al now =
     (case al_last_ts al of None \<Rightarrow> False | Some lst \<Rightarrow> now < lst - 5000000)"

definition nothing_done :: "string \<Rightarrow> jobj" where
  "nothing_done rid = [(''request_id'', JStr rid), (''effect'', JStr ''none'')]"

definition CLOCK :: string where
  "CLOCK = ''clock rollback detected: earlier than the audit log's last record''"

definition clock_reply :: "string \<Rightarrow> json \<Rightarrow> jobj" where
  "clock_reply rid peer =
     rejected ((''failure'', JStr ''clock'') # nothing_done rid @ [(''peer'', peer), (''error'', JStr CLOCK)])"

definition KEY_REUSED :: string where
  "KEY_REUSED = ''idempotency key already used for a different invocation''"
definition KEY_FAILED :: string where
  "KEY_FAILED = ''an earlier attempt with this idempotency key failed; nothing was applied''"
definition KEY_PENDING :: string where
  "KEY_PENDING = ''a request with this idempotency key is unresolved''"

definition duplicate_reply ::
  "(string \<Rightarrow> string) \<Rightarrow> string \<Rightarrow> json \<Rightarrow> key_entry \<Rightarrow> invocation option \<Rightarrow> jobj" where
  "duplicate_reply hf rid peer prior ivn =
     (if (case ivn of None \<Rightarrow> True | Some i \<Rightarrow> ke_hash prior \<noteq> JStr (invocation_hash hf i))
      then rejected (nothing_done rid @ [(''error'', JStr KEY_REUSED)])
      else if ke_state prior = ''done''
      then [(''decision'', JStr ''admit''), (''request_id'', JStr rid), (''effect'', JStr ''already_applied''),
            (''original_request_id'', JStr (ke_rid prior)), (''original_effect'', ke_effect prior)]
      else if ke_state prior = ''failed'' then rejected (nothing_done rid @ [(''error'', JStr KEY_FAILED)])
      else rejected (nothing_done rid @ [(''error'', JStr KEY_PENDING)])) @ [(''peer'', peer)]"

record evidence =
  ev_resp :: jobj
  ev_before :: "tstate option"
  ev_intended :: "tstate option"
  ev_target :: string                       \<comment> \<open>\<open>real\<close>, when there is an intended state\<close>
  ev_source :: string
  ev_dest_before :: tstate
  ev_private :: "string option"
  ev_source_att :: "string option"

definition rename_private :: "string \<Rightarrow> string \<Rightarrow> string" where
  "rename_private src uuid = ''.'' @ last (split_on (CHR ''/'') src) @ ''.darm-tmp-mv-'' @ uuid"

definition prepare_rename :: "crypto \<Rightarrow> string \<Rightarrow> (string \<times> string) list \<Rightarrow> jobj \<Rightarrow> (world, evidence) state" where
  "prepare_rename cr uuid args resp =
     (let src = aget args ''path''; dst = aget args ''destination''; private_name = rename_private src uuid in do {
        before \<leftarrow> observe cr src;
        dest_before \<leftarrow> observe cr dst;
        old_att \<leftarrow> read_attestation src;
        (let intended = (case before of Present d \<Rightarrow> Present d
                         | _ \<Rightarrow> Unavailable ''source is not a present regular file'')
         in ret \<lparr>ev_resp = merge resp [(''before_state'', tstate_json before), (''intended_state'', tstate_json intended),
                     (''target'', JStr dst), (''source'', JStr src), (''destination_before'', tstate_json dest_before),
                     (''private'', JStr private_name), (''source_attestation'', opt_str old_att)],
                 ev_before = Some before, ev_intended = Some intended, ev_target = dst, ev_source = src,
                 ev_dest_before = dest_before, ev_private = Some private_name, ev_source_att = old_att\<rparr>) })"

definition prepare :: "crypto \<Rightarrow> string \<Rightarrow> invocation \<Rightarrow> jobj \<Rightarrow> (world, evidence) state" where
  "prepare cr uuid ivn resp =
     (let args = args_of ivn;
          plain = (\<lambda>r. \<lparr>ev_resp = r, ev_before = None, ev_intended = None, ev_target = [], ev_source = [],
                      ev_dest_before = Absent, ev_private = None, ev_source_att = None\<rparr>) in
      case intended_state cr ivn of
        Some intended \<Rightarrow> (let real = aget args ''path'' in do {
          before \<leftarrow> observe cr real;
          ret ((plain (merge resp [(''before_state'', tstate_json before), (''intended_state'', tstate_json intended),
                   (''target'', JStr real)]))
               \<lparr>ev_before := Some before, ev_intended := Some intended, ev_target := real\<rparr>) })
      | None \<Rightarrow>
          if i_tool ivn = ''rename_file'' then prepare_rename cr uuid args resp
          else if i_tool ivn = ''http_get''
          then ret (plain (merge resp [(''url'', opt_str (map_of args ''url''))]))
          else ret (plain resp))"

definition state_value :: "tstate option \<Rightarrow> json" where
  \<comment> \<open>\<open>before[1]\<close>\<close>
  "state_value s = (case s of Some (Present d) \<Rightarrow> JStr d | Some (Unavailable e) \<Rightarrow> JStr e | _ \<Rightarrow> JNull)"

definition source_attested :: "crypto \<Rightarrow> keys option \<Rightarrow> evidence \<Rightarrow> bool" where
  "source_attested cr ks ev =
     (case check_attestation cr ks (ev_source_att ev) of
        None \<Rightarrow> False
      | Some a \<Rightarrow> jget a ''target'' = JStr (ev_source ev) \<and> jget a ''digest'' = state_value (ev_before ev))"

definition UNATTESTED :: string where
  "UNATTESTED = ''the source carries no valid attestation for its path and current content; renaming it would attest content the broker did not write''"

definition unattested_reply :: "string \<Rightarrow> jobj" where
  "unattested_reply rid =
     rejected (nothing_done rid @ [(''failure'', JStr ''attestation''), (''error'', JStr UNATTESTED)])"

record pending =
  p_rid :: string
  p_key :: "string option"
  p_inv :: invocation
  p_resp :: jobj
  p_evidence :: evidence
  p_summary :: json

datatype started = Answered jobj | Started pending

definition no_evidence_reply :: "string \<Rightarrow> jobj" where
  "no_evidence_reply rid =
     rejected (nothing_done rid @ [(''error'', JStr ''evidence unavailable, nothing performed: OSError'')])"

definition commit_request ::
  "crypto \<Rightarrow> req_env \<Rightarrow> string option \<Rightarrow> json \<Rightarrow> invocation \<Rightarrow> intent option \<Rightarrow> evidence \<Rightarrow> broker \<Rightarrow> started \<times> broker" where
  \<comment> \<open>the \<open>prepared\<close> record, the pending key, the reserved intent\<close>
  "commit_request cr env key summary ivn m ev b =
     (case record_request cr (re_append env 0) summary (re_rid env) ''prepared'' (Some ivn) (Some (i_tool ivn)) (ev_resp ev) b of
        (False, b1) \<Rightarrow> (Answered (no_evidence_reply (re_rid env)), b1)
      | (True, b1) \<Rightarrow>
          (let b2 = (case key of
                 None \<Rightarrow> b1
               | Some k \<Rightarrow> b1\<lparr>b_keys := dset (b_keys b1) k
                   \<lparr>ke_rid = re_rid env, ke_hash = JStr (invocation_hash (sha cr) ivn), ke_state = ''pending'', ke_effect = JNull\<rparr>\<rparr>)
           in (case m of
                 None \<Rightarrow> (Started \<lparr>p_rid = re_rid env, p_key = key, p_inv = ivn, p_resp = ev_resp ev,
                            p_evidence = ev, p_summary = summary\<rparr>, b2)
               | Some used \<Rightarrow>
                   (case reserve_intent (re_rid env) used (b_store b2) (b_disk b2) of (st, disk) \<Rightarrow>
                      (Started \<lparr>p_rid = re_rid env, p_key = key, p_inv = ivn,
                          p_resp = merge (ev_resp ev) [(''intent_reserved'', JStr (intent_line used))],
                          p_evidence = ev, p_summary = summary\<rparr>,
                       b2\<lparr>b_store := st, b_disk := disk\<rparr>)))))"

definition answer ::
  "crypto \<Rightarrow> req_env \<Rightarrow> json \<Rightarrow> string \<Rightarrow> invocation option \<Rightarrow> string option \<Rightarrow> jobj \<Rightarrow> broker \<Rightarrow> bool \<times> broker" where
  \<comment> \<open>the record of a refusal; that it fails changes no answer\<close>
  "answer cr env summary event ivn tool resp b =
     record_request cr (re_append env 0) summary (re_rid env) event ivn tool resp b"

definition admitted_request ::
  "crypto \<Rightarrow> req_env \<Rightarrow> string option \<Rightarrow> json \<Rightarrow> invocation \<Rightarrow> intent option \<Rightarrow> jobj \<Rightarrow> broker \<Rightarrow> (world, started \<times> broker) state" where
  "admitted_request cr env key summary ivn m resp b = do {
     ev \<leftarrow> prepare cr (re_move env) ivn resp;
     ret (if i_tool ivn = ''rename_file'' \<and> b_key b \<noteq> None \<and> \<not> source_attested cr (b_key b) ev
          then (let reply = unattested_reply (re_rid env)
                in (Answered reply, snd (answer cr env summary ''decision'' (Some ivn) (Some (i_tool ivn)) reply b)))
          else commit_request cr env key summary ivn m ev b) }"

definition decided_request ::
  "crypto \<Rightarrow> req_env \<Rightarrow> string option \<Rightarrow> json \<Rightarrow> json \<Rightarrow> decision \<Rightarrow> broker \<Rightarrow> (world, started \<times> broker) state" where
  "decided_request cr env key peer summary d b =
     (let rid = re_rid env;
          resp = merge (merge (d_resp d) (if truthy peer then [(''peer'', peer)] else []))
                   (case key of None \<Rightarrow> [] | Some k \<Rightarrow> [(''idempotency_key'', JStr k)])
      in case Option.bind key (map_of (b_keys b)) of
           Some prior \<Rightarrow>
             (let dup = duplicate_reply (sha cr) rid peer prior (d_inv d)
              in ret (Answered dup, snd (answer cr env summary ''duplicate'' (d_inv d) (d_tool d) dup b)))
         | None \<Rightarrow>
             (case (jget resp ''decision'' = JStr ''admit'', d_inv d) of
                (True, Some ivn) \<Rightarrow> admitted_request cr env key summary ivn (d_matched d) resp b
              | _ \<Rightarrow>
                  (let reply = merge resp (nothing_done rid)
                   in case answer cr env summary ''decision'' (d_inv d) (d_tool d) reply b of
                        (ok, b') \<Rightarrow> ret (Answered (merge reply [(''evidence'',
                           JStr (if ok then ''recorded'' else ''unrecorded''))]), b'))))"

definition begin_request ::
  "crypto \<Rightarrow> kernel_env \<Rightarrow> req_env \<Rightarrow> json \<Rightarrow> json \<Rightarrow> broker \<Rightarrow> (world, (string + started) \<times> broker) state" where
  "begin_request cr kn env obj0 peer b =
     (let rid = re_rid env; obj = without_key obj0; summary = proposal_summary (sha cr) obj in
      if (case key_of obj0 of None \<Rightarrow> False | Some v \<Rightarrow> key_text v = None)
      then ret (Inr (Answered (rejected (nothing_done rid @ [(''error'', JStr ''malformed idempotency key'')]))), b)
      else if clock_rolled_back (b_log b) (re_now env)
      then ret (Inr (Answered (clock_reply rid peer)),
                snd (answer cr env summary ''decision'' None None (clock_reply rid peer) b))
      else do {
        (r, b1) \<leftarrow> decide cr kn env obj b;
        (case r of
           Inl e \<Rightarrow> ret (Inl e, b1)
         | Inr d \<Rightarrow> do {
             (s, b2) \<leftarrow> decided_request cr env (Option.bind (key_of obj0) key_text) peer summary d b1;
             ret (Inr s, b2) }) })"
section \<open>The effect\<close>

definition judged_read ::
  "crypto \<Rightarrow> broker \<Rightarrow> string option \<Rightarrow> string \<Rightarrow> string \<Rightarrow> jobj \<Rightarrow> jobj option" where
  \<comment> \<open>the result of a read with its verdict; \<open>None\<close> if the log cannot be read\<close>
  "judged_read cr b manifest path content result =
     (case latest_entries (al_file (b_log b)) of
        None \<Rightarrow> None
      | Some (latest, logged) \<Rightarrow>
          (let verdict = read_verdict cr (b_key b) path content (jstr_of (jget result ''_raw_attestation''))
                           (if vouched_manifest (b_cfg b) = None then None else manifest) (Some (map_of latest path))
           in if read_requires_attestation (b_cfg b) \<and> jget verdict ''attributed'' \<noteq> JBool True
              then Some [(''error'', JStr (''read refused: '' @ (case jget verdict ''reason'' of JStr r \<Rightarrow> r | _ \<Rightarrow> []))),
                         (''failure'', JStr ''attestation''), (''read_attestation'', JObj verdict)]
              else Some (merge (without ''_raw_attestation'' result) [(''read_attestation'', JObj verdict)])))"

definition perform :: "crypto \<Rightarrow> req_env \<Rightarrow> pending \<Rightarrow> broker \<Rightarrow> (world, string + jobj) state" where
  "perform cr env p b =
     (let ev = p_evidence p in do {
        r \<leftarrow> execute cr (re_tmp env) (execute_http cr (re_net env) (http (b_cfg b))) (p_inv p) (ev_before ev)
               (case b_key b of
                  None \<Rightarrow> None
                | Some k \<Rightarrow> if ev_intended ev = None then None else Some (k_ring k, p_rid p, ev_target ev))
               (ev_private ev) (ev_source_att ev);
        ret (case r of
               Inl e \<Rightarrow> Inl (class_name e)
             | Inr result \<Rightarrow>
                 (case (i_tool (p_inv p) = ''read_file'', jget result ''content'') of
                    (True, JStr content) \<Rightarrow>
                      (case judged_read cr b (re_manifest env) (aget (args_of (p_inv p)) ''path'') content result of
                         None \<Rightarrow> Inl ''ValueError'' | Some judged \<Rightarrow> Inr judged)
                  | _ \<Rightarrow> Inr result)) })"

section \<open>The last part of a request\<close>

definition effect_of :: "jobj \<Rightarrow> string" where
  "effect_of result =
     (if \<not> has_key result ''error'' then ''succeeded''
      else if truthy (jget result ''_effect_unknown'') then ''unknown'' else ''failed'')"

definition outcome_fields :: "string \<Rightarrow> string \<Rightarrow> jobj \<Rightarrow> jobj" where
  "outcome_fields rid tool result0 =
     (let result = without ''_effect_unknown'' result0;
          fields = [(''request_id'', JStr rid), (''executed'', JBool (\<not> has_key result ''error'')),
                    (''effect'', JStr (effect_of result0))] @ result
      in if tool = ''http_get''
         then merge fields [(''remote'', JObj (map (\<lambda>k. (k, jget result k))
                [''status'', ''body_sha256'', ''truncated'', ''server'', ''location'']))]
         else fields)"

definition rename_verdict :: "evidence \<Rightarrow> tstate \<Rightarrow> tstate \<Rightarrow> string" where
  "rename_verdict ev observed src_now =
     (if Some observed = ev_intended ev \<and> src_now = Absent then ''confirmedSuccess''
      else if Some src_now = ev_before ev \<and> observed = ev_dest_before ev then ''confirmedFailure''
      else ''unresolved'')"

definition observed_fields :: "crypto \<Rightarrow> string \<Rightarrow> evidence \<Rightarrow> (world, jobj) state" where
  "observed_fields cr tool ev =
     (case (ev_before ev, ev_intended ev) of
        (Some before, Some intended) \<Rightarrow> do {
          observed \<leftarrow> observe cr (ev_target ev);
          (let fields = (\<lambda>v. [(''reconciliation'', JStr v), (''before_state'', tstate_json before),
                              (''intended_state'', tstate_json intended), (''observed_state'', tstate_json observed)]) in
           if tool = ''rename_file'' then do {
             src_now \<leftarrow> observe cr (ev_source ev);
             ret (fields (rename_verdict ev observed src_now) @ [(''source_observed'', tstate_json src_now)]) }
           else ret (fields (reconcile (Some before) (Some intended) observed))) }
      | _ \<Rightarrow> ret [])"

definition intent_verdict :: "evidence \<Rightarrow> jobj \<Rightarrow> jobj \<Rightarrow> json" where
  "intent_verdict ev result resp =
     (if ev_intended ev \<noteq> None then jget resp ''reconciliation''
      else if effect_of result = ''succeeded'' then JStr ''confirmedSuccess''
      else if effect_of result = ''unknown'' then JStr ''unresolved'' else JStr ''confirmedFailure'')"

definition settled_fields :: "unit + (string \<times> intent) option \<Rightarrow> jobj" where
  "settled_fields r =
     (case r of
        Inl _ \<Rightarrow> [(''intent_state'', JStr ''reserved (settlement not recorded: OSError)'')]
      | Inr None \<Rightarrow> []
      | Inr (Some (how, used)) \<Rightarrow>
          (''intent_state'', JStr how) #
          (if how = ''spent'' then [(''intent_consumed'', JStr (intent_line used))]
           else if how = ''returned'' then [(''intent_returned'', JStr (intent_line used))] else []))"

definition settle_outcome :: "crypto \<Rightarrow> append_env \<Rightarrow> string \<Rightarrow> json \<Rightarrow> jobj \<Rightarrow> broker \<Rightarrow> jobj \<times> broker" where
  "settle_outcome cr env rid verdict resp b =
     (if available (b_store b) \<noteq> None \<and> map_of (held (b_store b)) rid \<noteq> None
      then (case settle_and_record cr env rid verdict (b_store b) (b_disk b) (b_log b) of
              (r, st, disk, al) \<Rightarrow>
                (merge resp (settled_fields r), b\<lparr>b_store := st, b_disk := disk, b_log := al\<rparr>))
      else (resp, b))"

definition key_state :: "json \<Rightarrow> string" where
  "key_state eff =
     (if eff = JStr ''succeeded'' then ''done'' else if eff = JStr ''unknown'' then ''pending'' else ''failed'')"

definition close_key :: "string option \<Rightarrow> json \<Rightarrow> broker \<Rightarrow> broker" where
  "close_key key eff b =
     (case key of
        None \<Rightarrow> b
      | Some k \<Rightarrow>
          (case map_of (b_keys b) k of
             None \<Rightarrow> b
           | Some e \<Rightarrow> b\<lparr>b_keys := dset (b_keys b) k (e\<lparr>ke_state := key_state eff, ke_effect := eff\<rparr>)\<rparr>))"

definition finish_request :: "crypto \<Rightarrow> req_env \<Rightarrow> pending \<Rightarrow> jobj \<Rightarrow> broker \<Rightarrow> (world, jobj \<times> broker) state" where
  "finish_request cr env p result b =
     (let ev = p_evidence p; tool = i_tool (p_inv p) in do {
        seen \<leftarrow> observed_fields cr tool ev;
        (let resp = merge (p_resp p) (outcome_fields (p_rid p) tool result @ seen) in
         case record_request cr (re_append env 1) (p_summary p) (p_rid p) ''outcome'' (Some (p_inv p)) (Some tool) resp b of
           (recorded, b1) \<Rightarrow>
             (case (if recorded
                    then settle_outcome cr (re_append env 2) (p_rid p) (intent_verdict ev result resp)
                           (merge resp [(''evidence'', JStr ''recorded'')]) b1
                    else (merge resp [(''evidence'', JStr ''outcome_unrecorded'')], b1)) of
                (reply, b2) \<Rightarrow> ret (reply, close_key (p_key p) (jget reply ''effect'') b2))) })"

definition error_reply :: "string \<Rightarrow> jobj" where
  "error_reply cls = [(''decision'', JStr ''error''), (''effect'', JStr ''unknown''), (''error'', JStr cls)]"

definition respond ::
  "crypto \<Rightarrow> kernel_env \<Rightarrow> req_env \<Rightarrow> json \<Rightarrow> json \<Rightarrow> broker \<Rightarrow> (world, (string + jobj) \<times> broker) state" where
  \<comment> \<open>\<open>_handle\<close>\<close>
  "respond cr kn env obj peer b = do {
     (r, b1) \<leftarrow> begin_request cr kn env obj peer b;
     (case r of
        Inl e \<Rightarrow> ret (Inl e, b1)
      | Inr (Answered reply) \<Rightarrow> ret (Inr reply, b1)
      | Inr (Started p) \<Rightarrow> do {
          x \<leftarrow> perform cr env p b1;
          (case x of
             Inl e \<Rightarrow> ret (Inl e, b1)
           | Inr result \<Rightarrow> do {
               (reply, b2) \<leftarrow> finish_request cr env p result b1;
               ret (Inr reply, b2) }) }) }"

definition handle_request ::
  "crypto \<Rightarrow> kernel_env \<Rightarrow> req_env \<Rightarrow> json \<Rightarrow> json \<Rightarrow> broker \<Rightarrow> (world, jobj \<times> broker) state" where
  \<comment> \<open>\<open>handle\<close>, without the \<open>basis\<close> it attaches to a reply\<close>
  "handle_request cr kn env obj peer b = do {
     (r, b1) \<leftarrow> respond cr kn env obj peer b;
     ret (case r of Inl e \<Rightarrow> error_reply e | Inr reply \<Rightarrow> reply, b1) }"

end
