(* ===== verification/Idle.thy ===== *)
theory Idle
  imports Broker
begin

text \<open>
  Computations that leave the file system alone. A computation is \<open>idle\<close> when, in every world
  (whatever foreign actors do between its system calls, and wherever the machine stops), the only
  changes of the file system while it runs are the foreign ones. Everything a request does before
  its effect is idle.
\<close>

section \<open>The notion\<close>

definition advance :: "nat \<Rightarrow> world \<Rightarrow> world" where
  \<comment> \<open>what \<open>n\<close> system calls that change nothing leave: the foreign actions between them\<close>
  "advance n w = w\<lparr>w_fs := fold (\<lambda>g. g) (take n (foreign w)) (w_fs w), foreign := drop n (foreign w),
                   steps_left := map_option (\<lambda>s. s - n) (steps_left w)\<rparr>"

definition idle :: "(world, 'a) state \<Rightarrow> bool" where
  "idle m \<longleftrightarrow> (\<forall>w. \<exists>n. snd (run_state m w) = advance n w)"

named_theorems idle_rules "computations that leave the file system alone"

lemma advance_0 [simp]: "advance 0 w = w"
  by (cases "steps_left w") (simp_all add: advance_def)

lemma advance_add: "advance l (advance n w) = advance (n + l) w"
proof -
  have "drop (n + l) (foreign w) = drop l (drop n (foreign w))" by (simp add: add.commute)
  then show ?thesis by (simp add: advance_def take_add option.map_comp comp_def del: drop_drop)
qed

lemma advance_quiet [simp]: "advance n (quiet f) = quiet f"
  by (simp add: advance_def quiet_def)

lemma idle_ret [idle_rules]: "idle (ret x)"
  unfolding idle_def by (intro allI exI [of _ 0]) (simp add: State_Monad.return_def)

lemma idle_sys [idle_rules]: "(\<And>f. snd (c f) = f) \<Longrightarrow> idle (sys c)"
  unfolding idle_def
proof
  fix w
  assume c: "\<And>f. snd (c f) = f"
  show "\<exists>n. snd (run_state (sys c) w) = advance n w"
  proof (cases "steps_left w = Some 0")
    case True
    then show ?thesis by (intro exI [of _ 0]) (simp add: sys_def)
  next
    case False
    have "snd (run_state (sys c) w) = w\<lparr>w_fs := (case foreign w of [] \<Rightarrow> w_fs w | g # gs \<Rightarrow> g (w_fs w)),
        foreign := drop 1 (foreign w), steps_left := map_option (\<lambda>n. n - 1) (steps_left w)\<rparr>"
      using False by (simp add: sys_def case_prod_beta c)
    then show ?thesis by (intro exI [of _ 1]) (cases "foreign w"; simp add: advance_def)
  qed
qed

lemma idle_bind [idle_rules]:
  assumes "idle m" and "\<And>x. idle (k x)"
  shows "idle (State_Monad.bind m k)"
  unfolding idle_def
proof
  fix w
  obtain x w1 where m: "run_state m w = (x, w1)" by (cases "run_state m w") auto
  from assms(1) obtain n where n: "w1 = advance n w" unfolding idle_def using m by (metis snd_conv)
  from assms(2) [of x] obtain l where l: "snd (run_state (k x) w1) = advance l w1" unfolding idle_def by blast
  with m n show "\<exists>n. snd (run_state (State_Monad.bind m k) w) = advance n w"
    by (intro exI [of _ "n + l"]) (simp add: run_bind advance_add)
qed

lemma idle_andthen [idle_rules]: "idle m \<Longrightarrow> (\<And>x. idle (k x)) \<Longrightarrow> idle (andthen m k)"
  unfolding andthen_def by (intro idle_bind) (auto intro: idle_ret split: sum.split)

lemma idle_raise [idle_rules]: "idle (raise e)" by (simp add: raise_def idle_ret)
lemma idle_done [idle_rules]: "idle (done_with x)" by (simp add: done_with_def idle_ret)

lemma idle_quiet: "idle m \<Longrightarrow> \<exists>x. run_state m (quiet f) = (x, quiet f)"
  unfolding idle_def by (metis advance_quiet prod.collapse)

text \<open>Branches.\<close>

lemma idle_if [idle_rules]: "idle a \<Longrightarrow> idle b \<Longrightarrow> idle (if c then a else b)"
  by simp

lemma idle_bool [idle_rules]: "idle a \<Longrightarrow> idle b \<Longrightarrow> idle (case c of True \<Rightarrow> a | False \<Rightarrow> b)"
  by (simp split: bool.split)

lemma idle_option [idle_rules]:
  "idle a \<Longrightarrow> (\<And>x. idle (g x)) \<Longrightarrow> idle (case v of None \<Rightarrow> a | Some x \<Rightarrow> g x)"
  by (simp split: option.split)

lemma idle_prod [idle_rules]: "(\<And>x y. idle (h x y)) \<Longrightarrow> idle (case q of (x, y) \<Rightarrow> h x y)"
  by (simp split: prod.split)

lemma idle_sum [idle_rules]:
  "(\<And>x. idle (l x)) \<Longrightarrow> (\<And>x. idle (r x)) \<Longrightarrow> idle (case z of Inl x \<Rightarrow> l x | Inr x \<Rightarrow> r x)"
  by (simp split: sum.split)

lemma idle_tstate [idle_rules]:
  "idle a \<Longrightarrow> (\<And>x. idle (g x)) \<Longrightarrow> (\<And>x. idle (h x)) \<Longrightarrow>
   idle (case t of Absent \<Rightarrow> a | Present x \<Rightarrow> g x | Unavailable x \<Rightarrow> h x)"
  by (simp split: tstate.split)

lemma idle_Let [idle_rules]: "(\<And>x. idle (g x)) \<Longrightarrow> idle (Let y g)"
  by (simp add: Let_def)

section \<open>Observation\<close>

lemma read_calls [simp, idle_rules]:
  "snd (open_dir d n f) = f" "snd (open_read d n f) = f" "snd (stat_at d n f) = f" "snd (fstat i f) = f"
  "snd (fdopen i f) = f" "snd (fd_read i f) = f" "snd (fd_getxattr i f) = f" "snd (lstat_at d n f) = f"
  "snd (list_names d f) = f"
  by (simp_all add: open_dir_def open_read_def stat_at_def fstat_def fdopen_def fd_read_def fd_getxattr_def
      lstat_at_def list_names_def split: option.split kind.split)

lemma idle_walk_dirs [idle_rules]: "idle (walk_dirs d cs)"
  by (induction cs arbitrary: d) (simp_all add: idle_rules)

lemma idle_open_parent [idle_rules]: "idle (open_parent path)"
  unfolding open_parent_def by (intro idle_rules)

lemma idle_problem_walk [idle_rules]: "idle (problem_walk d cs)"
proof (induction cs arbitrary: d)
  case (Cons c cs)
  show ?case unfolding problem_walk.simps by (intro idle_rules Cons.IH)
qed (simp add: idle_rules)

lemma idle_path_problem [idle_rules]: "idle (path_problem path)"
  unfolding path_problem_def by (intro idle_rules)

lemma idle_leaf_state [idle_rules]: "idle (leaf_state cr d n)"
  unfolding leaf_state_def leaf_kind_def digest_at_def by (intro idle_rules)

lemma idle_observe [idle_rules]: "idle (observe cr path)"
  unfolding observe_def by (intro idle_rules)

lemma idle_read_attestation [idle_rules]: "idle (read_attestation path)"
  unfolding read_attestation_def read_att_def by (intro idle_rules)

lemma idle_premise_problem [idle_rules]: "idle (premise_problem cr i)"
proof -
  have "idle (premise_walk cr cons)" for cons
  proof (induction cons)
    case (Cons c cons)
    show ?case by (cases c) (simp only: premise_walk.simps, intro idle_rules Cons.IH)
  qed (simp add: idle_rules)
  then show ?thesis by (simp add: premise_problem_def)
qed

section \<open>The first part of a request\<close>

lemma idle_first_met [idle_rules]: "idle (first_met cr is)"
  by (induction "is") (simp_all only: first_met.simps unmet.simps idle_rules)

lemma idle_unmet [idle_rules]: "idle (unmet cr is)"
  by (induction "is") (simp_all only: first_met.simps unmet.simps idle_rules)

lemma idle_match_intent [idle_rules]: "idle (match_intent cr ivn tool args b)"
  unfolding match_intent_def by (intro idle_rules)

lemma idle_decide [idle_rules]: "idle (decide cr kn env obj b)"
  unfolding decide_def by (intro idle_rules)

lemma idle_prepare [idle_rules]: "idle (prepare cr uuid ivn resp)"
  unfolding prepare_def prepare_rename_def by (intro idle_rules)

lemma idle_decided_request [idle_rules]: "idle (decided_request cr env key peer summary d b)"
  unfolding decided_request_def admitted_request_def by (intro idle_rules)

lemma idle_begin_request: "idle (begin_request cr kn env obj peer b)"
  unfolding begin_request_def by (intro idle_rules)

lemma idle_observed_fields [idle_rules]: "idle (observed_fields cr tool ev)"
  unfolding observed_fields_def by (intro idle_rules)

lemma idle_finish_request: "idle (finish_request cr env p result b)"
  unfolding finish_request_def by (intro idle_rules)

end
