(* ===== verification/Request.thy ===== *)
theory Request
  imports Idle
begin

text \<open>
  What the handling of a request guarantees: no effect without a decision of the kernel on exactly
  the executed invocation, without a durable record of it, and without an unspent intent that fits
  it; nothing changed by a refusal; at most one effect for an idempotency key. The worlds are
  arbitrary: foreign actors may act between any two system calls.
\<close>

section \<open>The log\<close>

lemma write_line_text:
  assumes "write_line hf f now e al = (True, al')"
  shows "al_text al' = al_text al @ entry_line hf (chained (al_prev al) now e)"
  using assms by (auto simp: write_line_def Let_def al_text_def split: write_fault.splits)

lemma write_line_extends: "\<exists>rest. al_text (snd (write_line hf f now e al)) = al_text al @ rest"
  by (auto simp: write_line_def Let_def al_text_def split: write_fault.split)

lemma run_checkpoint_extends: "\<exists>rest. al_text (snd (run_checkpoint cr env force al)) = al_text al @ rest"
proof -
  have t: "al_text (al\<lparr>al_ck := x\<rparr>) = al_text al" for x by (simp add: al_text_def)
  show ?thesis
    using write_line_extends [of "sha cr" "ae_fault2 env" "ae_now2 env" "checkpoint_failed _ (al_count al)" "al\<lparr>al_ck := Some _\<rparr>"]
    by (auto simp: run_checkpoint_def t split: option.split prod.split)
qed

lemma log_append_text:
  assumes "log_append cr env e al = (True, al')"
  shows "\<exists>rest. al_text al' = al_text al @ entry_line (sha cr) (chained (al_prev al) (ae_now env) e) @ rest"
proof -
  obtain ok al1 where w: "write_line (sha cr) (ae_fault env) (ae_now env) e al = (ok, al1)" by fastforce
  have ok: "ok" using assms w by (cases ok) (simp_all add: log_append_def)
  then have "run_checkpoint cr env False al1 = (True, al')" using w assms by (simp add: log_append_def)
  then obtain rest where "al_text al' = al_text al1 @ rest"
    using run_checkpoint_extends [of cr env False al1] by auto
  moreover have "al_text al1 = al_text al @ entry_line (sha cr) (chained (al_prev al) (ae_now env) e)"
    using write_line_text [of "sha cr" _ _ e al al1] w ok by simp
  ultimately show ?thesis by auto
qed

definition logged :: "crypto \<Rightarrow> append_env \<Rightarrow> audit_log \<Rightarrow> jobj \<Rightarrow> audit_log \<Rightarrow> bool" where
  \<comment> \<open>the log file has been extended by the line of the entry (and possibly more)\<close>
  "logged cr env al e al' \<longleftrightarrow>
     (\<exists>rest. al_text al' = al_text al @ entry_line (sha cr) (chained (al_prev al) (ae_now env) e) @ rest)"

lemma record_request_logged:
  "record_request cr env summary rid event ivn tool resp b = (True, b') \<Longrightarrow>
   logged cr env (b_log b) (record_entry (sha cr) summary rid event ivn tool resp) (b_log b')"
  using log_append_text by (auto simp: record_request_def logged_def split: prod.splits)

lemma record_request_other [simp]:
  "b_keys (snd (record_request cr env summary rid event ivn tool resp b)) = b_keys b"
  "b_store (snd (record_request cr env summary rid event ivn tool resp b)) = b_store b"
  "b_disk (snd (record_request cr env summary rid event ivn tool resp b)) = b_disk b"
  "b_cfg (snd (record_request cr env summary rid event ivn tool resp b)) = b_cfg b"
  "b_key (snd (record_request cr env summary rid event ivn tool resp b)) = b_key b"
  by (simp_all add: record_request_def split: prod.split)

section \<open>The decision\<close>

definition kernel_admits :: "kernel_env \<Rightarrow> req_env \<Rightarrow> broker \<Rightarrow> string \<Rightarrow> (string \<times> string) list \<Rightarrow> invocation \<Rightarrow> bool" where
  \<comment> \<open>the kernel admitted the request, and what it admitted is this invocation\<close>
  "kernel_admits kn env b tool args ivn \<longleftrightarrow>
     (let d = fst (kernel_decide (kn_path kn) (re_nonce env) (kn_io kn)
                     (decide_request (b_cfg b) (re_decided env) tool args) (b_proc b))
      in kd_admitted d \<and> canon (kd_invocation d) = canon (inv_json ivn))"

definition intent_gate :: "crypto \<Rightarrow> broker \<Rightarrow> string \<Rightarrow> (string \<times> string) list \<Rightarrow> intent option \<Rightarrow> broker \<Rightarrow> bool" where
  \<comment> \<open>intents are off, or an available intent fits\<close>
  "intent_gate cr b tool args m b' \<longleftrightarrow>
     (case m of
        None \<Rightarrow> available (b_store b) = None \<and> b_store b' = b_store b \<and> b_disk b' = b_disk b
      | Some i \<Rightarrow> available (b_store b) \<noteq> None \<and>
          refresh_intents (b_store b) (b_disk b) = (None, b_store b', b_disk b') \<and>
          i \<in> set (ints (b_store b')) \<and> intent_fits (sha cr) i tool args)"

lemma first_met_in: "fst (run_state (first_met cr is) w) = Some i \<Longrightarrow> i \<in> set is"
  by (induction "is" arbitrary: w) (auto simp: run_bind State_Monad.return_def split: prod.splits if_splits)

lemma held_refresh: "refresh_intents st disk = (r, st', disk') \<Longrightarrow> held st' = held st"
proof -
  assume "refresh_intents st disk = (r, st', disk')"
  then have "st' = st \<or> st' = st\<lparr>frozen := True\<rparr> \<or>
      (\<exists>ls. st' = fst (persist_intents (st\<lparr>available := Some (revoke ls (ints st))\<rparr>) disk))"
    by (auto simp: refresh_intents_def Let_def split: if_splits option.splits prod.splits) (metis fst_conv)
  then show ?thesis by auto
qed

lemma match_intent_cases:
  assumes "run_state (match_intent cr ivn tool args b) w = ((r, b'), w')"
  shows "b_cfg b' = b_cfg b \<and> b_proc b' = b_proc b \<and> b_keys b' = b_keys b \<and> b_log b' = b_log b \<and> b_key b' = b_key b \<and>
         held (b_store b') = held (b_store b) \<and>
         (case r of
            Inl (Inr d) \<Rightarrow> jget (d_resp d) ''decision'' = JStr ''reject''
          | Inl (Inl e) \<Rightarrow> True
          | Inr m \<Rightarrow> intent_gate cr b tool args m b')"
proof (cases "available (b_store b)")
  case None
  then show ?thesis using assms by (auto simp: match_intent_def State_Monad.return_def intent_gate_def)
next
  case (Some "is")
  obtain refusal st disk where rf: "refresh_intents (b_store b) (b_disk b) = (refusal, st, disk)"
    by (cases "refresh_intents (b_store b) (b_disk b)") auto
  let ?fit = "filter (\<lambda>i. intent_fits (sha cr) i tool args) (ints st)"
  let ?b = "b\<lparr>b_store := st, b_disk := disk\<rparr>"
  note h = held_refresh [OF rf]
  note run = match_intent_def Some rf run_bind State_Monad.return_def Let_def intent_refusal_def decision_of_def rejected_def
  show ?thesis
  proof (cases refusal)
    case (Some why)
    then show ?thesis using assms h by (auto simp: run)
  next
    case None
    obtain m w1 where fm: "run_state (first_met cr ?fit) w = (m, w1)" by fastforce
    show ?thesis
    proof (cases m)
      case (Some i)
      then have "i \<in> set ?fit" using first_met_in [of cr ?fit w i] fm by simp
      then show ?thesis
        using assms h \<open>available (b_store b) = Some is\<close> by (auto simp: run fm None Some rf intent_gate_def)
    next
      case none: None
      obtain ps w2 where um: "run_state (unmet cr ?fit) w1 = (ps, w2)" by fastforce
      show ?thesis
        using assms h by (auto simp: run fm um None none split: list.splits option.splits)
    qed
  qed
qed

lemma ask_kernel_cases:
  assumes "ask_kernel kn env ivn tool args m b = (d, b')"
  shows "b' = b\<lparr>b_proc := b_proc b'\<rparr> \<and> d_inv d = Some ivn \<and> d_matched d = m \<and> d_tool d = Some tool \<and>
         (jget (d_resp d) ''decision'' = JStr ''admit'' \<longrightarrow>
            kernel_admits kn env b tool args ivn \<and> d_resp d = [(''decision'', JStr ''admit'')]) \<and>
         (jget (d_resp d) ''decision'' = JStr ''admit'' \<or> jget (d_resp d) ''decision'' = JStr ''reject'')"
  using assms
  by (auto simp: ask_kernel_def decision_of_def rejected_def kernel_admits_def Let_def split: prod.splits if_splits)

definition admitted_decision ::
  "crypto \<Rightarrow> kernel_env \<Rightarrow> req_env \<Rightarrow> json \<Rightarrow> broker \<Rightarrow> invocation \<Rightarrow> intent option \<Rightarrow> broker \<Rightarrow> bool" where
  "admitted_decision cr kn env obj b ivn m b' \<longleftrightarrow>
     (\<exists>tool args. parse_proposal obj = Some (tool, args) \<and> arg_problem args = None \<and>
        ivn = canonicalize (b_cfg b) tool args \<and> kernel_admits kn env b tool args ivn \<and>
        intent_gate cr b tool args m b')"

lemma decide_cases:
  assumes "run_state (decide cr kn env obj b) w = ((r, b'), w')"
  shows "b_cfg b' = b_cfg b \<and> b_keys b' = b_keys b \<and> b_log b' = b_log b \<and> b_key b' = b_key b \<and>
         held (b_store b') = held (b_store b) \<and>
         (case r of
            Inl e \<Rightarrow> True
          | Inr d \<Rightarrow> jget (d_resp d) ''decision'' = JStr ''reject'' \<or>
              d_resp d = [(''decision'', JStr ''admit'')] \<and>
              (\<exists>ivn. d_inv d = Some ivn \<and> admitted_decision cr kn env obj b ivn (d_matched d) b'))"
proof (cases "parse_proposal obj")
  case None
  then show ?thesis
    using assms by (auto simp: decide_def State_Monad.return_def decision_of_def rejected_def)
next
  case (Some p)
  obtain tool args where p: "p = (tool, args)" by (cases p)
  let ?ivn = "canonicalize (b_cfg b) tool args"
  obtain r1 b1 w1 where mi: "run_state (match_intent cr ?ivn tool args b) w = ((r1, b1), w1)"
    by (cases "run_state (match_intent cr ?ivn tool args b) w") auto
  note m = match_intent_cases [OF mi]
  show ?thesis
  proof (cases "arg_problem args \<noteq> None \<or> tool = ''http_get'' \<and> map fst args \<noteq> [''url'']")
    case True
    then show ?thesis
      using assms
      by (auto simp: decide_def Some p State_Monad.return_def decision_of_def rejected_def split: if_splits option.splits)
  next
    case False
    then have run: "run_state (decide cr kn env obj b) w =
        run_state (case r1 of Inl x \<Rightarrow> ret (x, b1)
          | Inr m \<Rightarrow> (case ask_kernel kn env ?ivn tool args m b1 of (d, b'') \<Rightarrow> ret (Inr d, b''))) w1"
      by (auto simp: decide_def Some p run_bind mi Let_def)
    show ?thesis
    proof (cases r1)
      case (Inl x)
      then show ?thesis using assms run m by (auto simp: State_Monad.return_def split: sum.splits)
    next
      case (Inr mt)
      obtain d b2 where ak: "ask_kernel kn env ?ivn tool args mt b1 = (d, b2)" by fastforce
      from ask_kernel_cases [OF ak] have b2: "b_cfg b2 = b_cfg b1" "b_keys b2 = b_keys b1" "b_log b2 = b_log b1"
        "b_key b2 = b_key b1" "b_store b2 = b_store b1" "b_disk b2 = b_disk b1"
        by (metis broker.select_convs broker.surjective broker.update_convs(7))+
      have "kernel_admits kn env b1 tool args ?ivn = kernel_admits kn env b tool args ?ivn"
        using m by (simp add: kernel_admits_def)
      moreover have "intent_gate cr b tool args mt b2 = intent_gate cr b tool args mt b1"
        by (simp add: intent_gate_def b2 split: option.split)
      moreover have "(r, b') = (Inr d, b2)" using assms run Inr ak by (simp add: State_Monad.return_def)
      ultimately show ?thesis
        using ask_kernel_cases [OF ak] m Inr False Some p b2
        by (auto simp: admitted_decision_def)
    qed
  qed
qed

section \<open>Replies\<close>

lemma map_of_merge: "map_of (merge d new) k = (case map_of (rev new) k of None \<Rightarrow> map_of d k | Some v \<Rightarrow> Some v)"
proof (induction new arbitrary: d)
  case (Cons p new)
  obtain k' v where p: "p = (k', v)" by (cases p)
  have "merge d (p # new) = merge (dset d k' v) new" by (simp add: merge_def p)
  then show ?case by (simp add: Cons.IH p map_add_def split: option.split)
qed (simp add: merge_def)

lemma jget_merge: "k \<notin> set (map fst new) \<Longrightarrow> jget (merge d new) k = jget d k"
proof -
  assume "k \<notin> set (map fst new)"
  then have "map_of (rev new) k = None" by (simp add: map_of_eq_None_iff)
  then show ?thesis by (simp add: jget_def map_of_merge)
qed

lemma jget_merge_in:
  assumes "distinct (map fst new)" and "map_of new k = Some v"
  shows "jget (merge d new) k = v"
proof -
  have "(k, v) \<in> set (rev new)" using map_of_SomeD [OF assms(2)] by simp
  moreover have "distinct (map fst (rev new))" using assms(1) by (metis rev_map distinct_rev)
  ultimately have "map_of (rev new) k = Some v" by (metis map_of_is_SomeI)
  then show ?thesis by (simp add: jget_def map_of_merge)
qed

definition idle_reply :: "jobj \<Rightarrow> bool" where
  \<comment> \<open>the reply to a request that was only answered\<close>
  "idle_reply r \<longleftrightarrow> (jget r ''effect'' = JStr ''none'' \<and> jget r ''decision'' \<noteq> JStr ''admit'') \<or>
     jget r ''effect'' = JStr ''already_applied''"

lemma idle_replies:
  "idle_reply (rejected (nothing_done rid @ rest))"
  "idle_reply (clock_reply rid peer)"
  "idle_reply (duplicate_reply hf rid peer prior ivn)"
  "idle_reply (unattested_reply rid)"
  "idle_reply (no_evidence_reply rid)"
  "jget resp ''decision'' \<noteq> JStr ''admit'' \<Longrightarrow> idle_reply (merge (merge resp (nothing_done rid)) [(''evidence'', v)])"
proof -
  have "jget (merge resp (nothing_done rid)) ''effect'' = JStr ''none''"
    by (rule jget_merge_in) (simp_all add: nothing_done_def)
  moreover have "jget (merge resp (nothing_done rid)) ''decision'' = jget resp ''decision''"
    by (rule jget_merge) (simp add: nothing_done_def)
  ultimately show "jget resp ''decision'' \<noteq> JStr ''admit'' \<Longrightarrow> idle_reply (merge (merge resp (nothing_done rid)) [(''evidence'', v)])"
    by (simp add: idle_reply_def jget_merge)
qed (simp_all add: idle_reply_def rejected_def nothing_done_def clock_reply_def duplicate_reply_def
      unattested_reply_def no_evidence_reply_def)

section \<open>Reserving\<close>

definition wf_fields :: "jobj \<Rightarrow> bool" where
  "wf_fields d \<longleftrightarrow> list_all (\<lambda>(k, v). wf_json v) d"

lemma wf_fields_Cons [simp]: "wf_fields [] = True" "wf_fields ((k, v) # d) = (wf_json v \<and> wf_fields d)"
  by (simp_all add: wf_fields_def)

lemma wf_fields_merge: "wf_fields d \<Longrightarrow> wf_fields new \<Longrightarrow> wf_fields (merge d new)"
proof (induction new arbitrary: d)
  case (Cons p new)
  obtain k v where p: "p = (k, v)" by (cases p)
  have "wf_fields (dset d k v)" unfolding wf_fields_def
    by (rule dset_wf) (use Cons.prems p in \<open>simp_all add: wf_fields_def\<close>)
  moreover have "merge d (p # new) = merge (dset d k v) new" by (simp add: merge_def p)
  ultimately show ?case using Cons p by simp
qed (simp add: merge_def)

lemma wf_tstate [simp]: "wf_json (tstate_json t)"
  by (cases t) simp_all

lemma wf_opt_str [simp]: "wf_json (opt_str v)"
  by (cases v) simp_all

lemma prepare_resp:
  assumes "run_state (prepare cr uuid ivn resp) w = (ev, w')"
  shows "jget (ev_resp ev) ''idempotency_key'' = jget resp ''idempotency_key'' \<and>
         jget (ev_resp ev) ''decision'' = jget resp ''decision'' \<and> jget (ev_resp ev) ''error'' = jget resp ''error'' \<and>
         (wf_fields resp \<longrightarrow> wf_fields (ev_resp ev))"
  using assms
  by (auto simp: prepare_def prepare_rename_def run_bind State_Monad.return_def Let_def jget_merge
      split: option.splits if_splits prod.splits intro!: wf_fields_merge)

definition prepared_record ::
  "crypto \<Rightarrow> req_env \<Rightarrow> string option \<Rightarrow> json \<Rightarrow> json \<Rightarrow> invocation \<Rightarrow> broker \<Rightarrow> broker \<Rightarrow> bool" where
  \<comment> \<open>the log has a new line: the \<open>prepared\<close> record of the request, its key and the invocation\<close>
  "prepared_record cr env key peer summary ivn b b' \<longleftrightarrow>
     (\<exists>resp. logged cr (re_append env 0) (b_log b)
        (record_entry (sha cr) summary (re_rid env) ''prepared'' (Some ivn) (Some (i_tool ivn)) resp) (b_log b') \<and>
        fst (log_append cr (re_append env 0)
          (record_entry (sha cr) summary (re_rid env) ''prepared'' (Some ivn) (Some (i_tool ivn)) resp) (b_log b)) \<and>
        b_log b' = snd (log_append cr (re_append env 0)
          (record_entry (sha cr) summary (re_rid env) ''prepared'' (Some ivn) (Some (i_tool ivn)) resp) (b_log b)) \<and>
        jget resp ''idempotency_key'' = opt_str key \<and> (wf_json peer \<longrightarrow> wf_fields resp))"

definition takes_intent :: "string \<Rightarrow> intent option \<Rightarrow> broker \<Rightarrow> broker \<Rightarrow> bool" where
  "takes_intent rid m b b' \<longleftrightarrow>
     (case m of None \<Rightarrow> (b_store b', b_disk b') = (b_store b, b_disk b)
      | Some i \<Rightarrow> (b_store b', b_disk b') = reserve_intent rid i (b_store b) (b_disk b))"

definition takes_key :: "crypto \<Rightarrow> string \<Rightarrow> string option \<Rightarrow> invocation \<Rightarrow> broker \<Rightarrow> broker \<Rightarrow> bool" where
  "takes_key cr rid key ivn b b' \<longleftrightarrow>
     (case key of None \<Rightarrow> b_keys b' = b_keys b
      | Some k \<Rightarrow> map_of (b_keys b) k = None \<and>
          map_of (b_keys b') = (map_of (b_keys b))(k \<mapsto>
            \<lparr>ke_rid = rid, ke_hash = JStr (invocation_hash (sha cr) ivn), ke_state = ''pending'', ke_effect = JNull\<rparr>))"

definition unchanged :: "broker \<Rightarrow> broker \<Rightarrow> bool" where
  \<comment> \<open>but for the log and the kernel process\<close>
  "unchanged b b' \<longleftrightarrow> b_keys b' = b_keys b \<and> b_store b' = b_store b \<and> b_disk b' = b_disk b \<and>
     b_cfg b' = b_cfg b \<and> b_key b' = b_key b"

lemma unchanged_record:
  "record_request cr env summary rid event ivn tool resp b = (ok, b') \<Longrightarrow> unchanged b b'"
  using record_request_other [of cr env summary rid event ivn tool resp b] by (simp add: unchanged_def)

lemma unchanged_answer: "unchanged b (snd (answer cr env summary event ivn tool resp b))"
  by (simp add: answer_def unchanged_def)

definition commits :: "crypto \<Rightarrow> req_env \<Rightarrow> string option \<Rightarrow> json \<Rightarrow> json \<Rightarrow> intent option \<Rightarrow> broker \<Rightarrow> pending \<Rightarrow> broker \<Rightarrow> bool" where
  "commits cr env key peer summary m b p b' \<longleftrightarrow>
     p_rid p = re_rid env \<and> p_key p = key \<and> jget (p_resp p) ''decision'' = JStr ''admit'' \<and>
     jget (p_resp p) ''error'' = JNull \<and>
     prepared_record cr env key peer summary (p_inv p) b b' \<and>
     takes_intent (re_rid env) m b b' \<and> takes_key cr (re_rid env) key (p_inv p) b b'"

lemma commit_request_cases:
  assumes "commit_request cr env key summary ivn m ev b = (s, b')" and "Option.bind key (map_of (b_keys b)) = None"
    and "jget (ev_resp ev) ''idempotency_key'' = opt_str key" and "jget (ev_resp ev) ''decision'' = JStr ''admit''"
    and "jget (ev_resp ev) ''error'' = JNull" and "wf_json peer \<longrightarrow> wf_fields (ev_resp ev)"
  shows "case s of Answered reply \<Rightarrow> idle_reply reply \<and> unchanged b b'
         | Started p \<Rightarrow> p_inv p = ivn \<and> commits cr env key peer summary m b p b'"
proof -
  obtain ok b1 where r: "record_request cr (re_append env 0) summary (re_rid env) ''prepared'' (Some ivn)
      (Some (i_tool ivn)) (ev_resp ev) b = (ok, b1)" by fastforce
  note u = unchanged_record [OF r, unfolded unchanged_def]
  show ?thesis
  proof (cases ok)
    case False
    then show ?thesis using assms r u by (auto simp: commit_request_def idle_replies unchanged_def)
  next
    case True
    then have l: "prepared_record cr env key peer summary ivn b b1"
      using record_request_logged [of cr "re_append env 0" summary "re_rid env" "''prepared''" "Some ivn" "Some (i_tool ivn)"
          "ev_resp ev" b b1] r assms(3,6)
      by (auto simp: prepared_record_def record_request_def split: prod.splits intro!: exI [of _ "ev_resp ev"])
    have pr: "prepared_record cr env key peer summary ivn b x" if "b_log x = b_log b1" for x
      using l that by (simp add: prepared_record_def)
    show ?thesis
      using assms(1,2,4,5) r True u pr
      by (auto simp: commit_request_def commits_def takes_intent_def takes_key_def Let_def update_conv' jget_merge
          split: option.splits prod.splits)
  qed
qed

lemma decided_request_cases:
  assumes "run_state (decided_request cr env key peer summary d b) w = ((s, b'), w')"
    and "jget (d_resp d) ''decision'' = JStr ''reject'' \<or>
      (d_resp d = [(''decision'', JStr ''admit'')] \<and> d_inv d \<noteq> None)"
  shows "case s of Answered reply \<Rightarrow> idle_reply reply \<and> unchanged b b'
         | Started p \<Rightarrow> jget (d_resp d) ''decision'' = JStr ''admit'' \<and> d_inv d = Some (p_inv p) \<and>
             commits cr env key peer summary (d_matched d) b p b'"
proof (cases "Option.bind key (map_of (b_keys b))")
  case (Some prior)
  then show ?thesis
    using assms(1) unchanged_answer [of b cr env summary "''duplicate''" "d_inv d" "d_tool d"]
    by (auto simp: decided_request_def State_Monad.return_def idle_replies Let_def)
next
  case None
  define resp where "resp = merge (merge (d_resp d) (if truthy peer then [(''peer'', peer)] else []))
      (case key of None \<Rightarrow> [] | Some k \<Rightarrow> [(''idempotency_key'', JStr k)])"
  have dec: "jget resp ''decision'' = jget (d_resp d) ''decision''"
    by (simp add: resp_def jget_merge split: option.split)
  show ?thesis
  proof (cases "jget resp ''decision'' = JStr ''admit'' \<and> d_inv d \<noteq> None")
    case True
    then obtain ivn where ivn: "d_inv d = Some ivn" by blast
    obtain ev w1 where pr: "run_state (prepare cr (re_move env) ivn resp) w = (ev, w1)" by fastforce
    have run: "run_state (admitted_request cr env key summary ivn (d_matched d) resp b) w = ((s, b'), w')"
      using assms(1) None True ivn by (simp add: decided_request_def Let_def resp_def [symmetric])
    have d: "d_resp d = [(''decision'', JStr ''admit'')]" using assms(2) True dec by auto
    have "jget resp ''idempotency_key'' = opt_str key" "wf_json peer \<longrightarrow> wf_fields resp" "jget resp ''error'' = JNull"
      by (auto simp: resp_def d jget_merge jget_merge_in split: option.split intro!: wf_fields_merge)
    with prepare_resp [OF pr] have good: "jget (ev_resp ev) ''idempotency_key'' = opt_str key"
      "jget (ev_resp ev) ''decision'' = JStr ''admit''" "jget (ev_resp ev) ''error'' = JNull" "wf_json peer \<longrightarrow> wf_fields (ev_resp ev)"
      using True by auto
    show ?thesis
    proof (cases "i_tool ivn = ''rename_file'' \<and> b_key b \<noteq> None \<and> \<not> source_attested cr (b_key b) ev")
      case bad: True
      then show ?thesis
        using run unchanged_answer [of b cr env summary "''decision''" "Some ivn" "Some (i_tool ivn)"]
        by (auto simp: admitted_request_def run_bind pr State_Monad.return_def idle_replies Let_def)
    next
      case False
      then have "commit_request cr env key summary ivn (d_matched d) ev b = (s, b')"
        using run by (auto simp: admitted_request_def run_bind pr State_Monad.return_def)
      from commit_request_cases [OF this None good] True ivn dec show ?thesis by (auto split: started.splits)
    qed
  next
    case False
    then have "s = Answered (merge (merge resp (nothing_done (re_rid env))) [(''evidence'', JStr (if fst (answer cr env summary ''decision''
          (d_inv d) (d_tool d) (merge resp (nothing_done (re_rid env))) b) then ''recorded'' else ''unrecorded''))]) \<and>
        b' = snd (answer cr env summary ''decision'' (d_inv d) (d_tool d) (merge resp (nothing_done (re_rid env))) b)"
      using assms(1) None
      by (auto simp: decided_request_def Let_def resp_def [symmetric] State_Monad.return_def split: bool.splits option.splits prod.splits)
    moreover have "jget resp ''decision'' \<noteq> JStr ''admit''" using False assms(2) dec by auto
    ultimately show ?thesis using unchanged_answer by (simp add: idle_replies)
  qed
qed
definition request_key :: "json \<Rightarrow> string option" where
  "request_key obj = Option.bind (key_of obj) key_text"

lemma begin_request_cases:
  assumes "run_state (begin_request cr kn env obj peer b) w = ((Inr s, b'), w')"
  shows "case s of Answered reply \<Rightarrow> idle_reply reply \<and> b_keys b' = b_keys b \<and> held (b_store b') = held (b_store b)
         | Started p \<Rightarrow> (\<exists>m b1. b_keys b1 = b_keys b \<and> b_log b1 = b_log b \<and>
             admitted_decision cr kn env (without_key obj) b (p_inv p) m b1 \<and>
             commits cr env (request_key obj) peer (proposal_summary (sha cr) (without_key obj)) m b1 p b')"
proof (cases "(case key_of obj of None \<Rightarrow> False | Some v \<Rightarrow> key_text v = None) \<or> clock_rolled_back (b_log b) (re_now env)")
  case True
  then show ?thesis
    using assms unchanged_answer
    by (auto simp: begin_request_def Let_def State_Monad.return_def idle_replies unchanged_def split: if_splits)
next
  case False
  obtain r b1 w1 where d: "run_state (decide cr kn env (without_key obj) b) w = ((r, b1), w1)"
    by (cases "run_state (decide cr kn env (without_key obj) b) w") auto
  note dc = decide_cases [OF d]
  have "r \<noteq> Inl e" for e
    using assms False d by (auto simp: begin_request_def Let_def run_bind State_Monad.return_def)
  then obtain dec where r: "r = Inr dec" by (cases r) auto
  then have run: "run_state (decided_request cr env (request_key obj) peer
      (proposal_summary (sha cr) (without_key obj)) dec b1) w1 = ((s, b'), w')"
    using assms False d
    by (auto simp: begin_request_def Let_def run_bind State_Monad.return_def request_key_def split: prod.splits)
  show ?thesis
    using decided_request_cases [OF run] dc r by (fastforce simp: unchanged_def split: started.splits)
qed

end
