(* ===== verification/Handling.thy ===== *)
theory Handling
  imports Request
begin

text \<open>
  The handling of a request as a whole: what its effect can return, what a reply says of the
  effect, and the steps of a broker that handles many requests at once. The properties here are
  about every world: foreign actors may act between any two system calls.
\<close>

section \<open>Results of an effect\<close>

definition yields :: "('a \<Rightarrow> bool) \<Rightarrow> 'a io \<Rightarrow> bool" where
  \<comment> \<open>what the computation returns, when it does not raise, satisfies the predicate\<close>
  "yields P m \<longleftrightarrow> (\<forall>w. case fst (run_state m w) of Inl e \<Rightarrow> True | Inr x \<Rightarrow> P x)"

named_theorems yields_rules "what computations return"

lemma yields_done [yields_rules]: "P x \<Longrightarrow> yields P (done_with x)"
  by (simp add: yields_def done_with_def State_Monad.return_def)

lemma yields_raise [yields_rules]: "yields P (raise e)"
  by (simp add: yields_def raise_def State_Monad.return_def)

lemma yields_bind [yields_rules]: "(\<And>x. yields P (k x)) \<Longrightarrow> yields P (State_Monad.bind m k)"
  by (simp add: yields_def run_bind split: prod.split)

lemma yields_andthen [yields_rules]: "(\<And>x. yields P (k x)) \<Longrightarrow> yields P (andthen m k)"
  unfolding andthen_def by (intro yields_bind) (auto simp: yields_def State_Monad.return_def split: sum.split)

lemma yields_if [yields_rules]: "yields P a \<Longrightarrow> yields P b \<Longrightarrow> yields P (if c then a else b)"
  by simp

lemma yields_option [yields_rules]:
  "yields P a \<Longrightarrow> (\<And>x. yields P (g x)) \<Longrightarrow> yields P (case v of None \<Rightarrow> a | Some x \<Rightarrow> g x)"
  by (simp split: option.split)

lemma yields_prod [yields_rules]: "(\<And>x y. yields P (h x y)) \<Longrightarrow> yields P (case q of (x, y) \<Rightarrow> h x y)"
  by (simp split: prod.split)

lemma yields_sum [yields_rules]:
  "(\<And>x. yields P (l x)) \<Longrightarrow> (\<And>x. yields P (r x)) \<Longrightarrow> yields P (case z of Inl x \<Rightarrow> l x | Inr x \<Rightarrow> r x)"
  by (simp split: sum.split)

lemma yields_Let [yields_rules]: "(\<And>x. yields P (g x)) \<Longrightarrow> yields P (Let y g)"
  by (simp add: Let_def)

definition no_effect_key :: "jobj \<Rightarrow> bool" where
  \<comment> \<open>what a tool returns does not name the fields that are the broker's to set\<close>
  "no_effect_key d \<longleftrightarrow> ''effect'' \<notin> set (map fst d) \<and> ''decision'' \<notin> set (map fst d)"

lemma exec_tool_result: "yields no_effect_key (exec_tool cr uuid tool d leaf args expected attest priv att)"
  unfolding exec_tool_def exec_read_def exec_write_def exec_rename_def exec_delete_def exec_list_def
  by (intro yields_rules) (simp_all add: no_effect_key_def failed_with_def conflicted_def)

lemma yields_catch [yields_rules]:
  assumes "yields P m" and "\<And>e. yields P (h e)"
  shows "yields P (State_Monad.bind m (\<lambda>r. case r of Inl e \<Rightarrow> h e | Inr x \<Rightarrow> done_with x))"
  unfolding yields_def
proof
  fix w
  obtain r w1 where m: "run_state m w = (r, w1)" by (cases "run_state m w") auto
  with assms show "case fst (run_state (State_Monad.bind m (\<lambda>r. case r of Inl e \<Rightarrow> h e | Inr x \<Rightarrow> done_with x)) w) of
      Inl e \<Rightarrow> True | Inr x \<Rightarrow> P x"
    by (cases r) (auto simp: yields_def run_bind done_with_def State_Monad.return_def dest: spec [of _ w] spec [of _ w1])
qed

lemma execute_result:
  assumes "\<And>u. no_effect_key (get u)"
  shows "yields no_effect_key (execute cr uuid get ivn expected attest priv att)"
proof -
  have fail: "yields no_effect_key (if e = ENOTIMPL then raise e else done_with (failed_with (error_line e)))" for e
    by (intro yields_rules) (simp add: no_effect_key_def failed_with_def)
  have inner: "yields no_effect_key (do { r \<leftarrow> exec_tool cr uuid tool d leaf args expected attest priv att;
      case r of Inr resp \<Rightarrow> done_with resp
      | Inl e \<Rightarrow> if e = ENOTIMPL then raise e else done_with (failed_with (error_line e)) })" for tool d leaf args
    by (rule yields_catch [OF exec_tool_result fail])
  show ?thesis
    unfolding execute_def Let_def
    apply (rule yields_if)
     apply (rule yields_done, rule assms)
    apply (rule yields_bind, rule yields_option)
     apply (rule yields_bind, rule yields_done, simp add: no_effect_key_def failed_with_def)
    apply (rule yields_prod, rule inner)
    done
qed

lemma no_effect_key_merge: "no_effect_key d \<Longrightarrow> no_effect_key new \<Longrightarrow> no_effect_key (merge d new)"
proof (induction new arbitrary: d)
  case (Cons p new)
  obtain k v where p: "p = (k, v)" by (cases p)
  have "no_effect_key (dset d k v)" using Cons.prems p by (simp add: no_effect_key_def keys_dset)
  moreover have "merge d (p # new) = merge (dset d k v) new" by (simp add: merge_def p)
  ultimately show ?case using Cons p by (simp add: no_effect_key_def)
qed (simp add: merge_def)

lemma no_effect_key_without: "no_effect_key d \<Longrightarrow> no_effect_key (without k d)"
  by (auto simp: no_effect_key_def without_def)

lemma judged_read_result:
  assumes "no_effect_key result" and "judged_read cr b manifest path content result = Some judged"
  shows "no_effect_key judged"
  using assms
  by (auto simp: judged_read_def Let_def no_effect_key_def [of "[]"] split: option.splits prod.splits if_splits
      intro!: no_effect_key_merge no_effect_key_without) (simp_all add: no_effect_key_def)

lemma execute_http_result: "no_effect_key (execute_http cr n settings url)"
  by (auto simp: execute_http_def Let_def no_effect_key_def split: option.split)

lemma perform_result:
  assumes "run_state (perform cr env p b) w = (Inr result, w')"
  shows "no_effect_key result"
proof -
  let ?m = "execute cr (re_tmp env) (execute_http cr (re_net env) (http (b_cfg b))) (p_inv p) (ev_before (p_evidence p))
               (case b_key b of None \<Rightarrow> None
                | Some k \<Rightarrow> if ev_intended (p_evidence p) = None then None else Some (k_ring k, p_rid p, ev_target (p_evidence p)))
               (ev_private (p_evidence p)) (ev_source_att (p_evidence p))"
  obtain r w1 where m: "run_state ?m w = (r, w1)" by (cases "run_state ?m w") auto
  have "yields no_effect_key ?m" by (rule execute_result) (rule execute_http_result)
  then have r: "case r of Inl e \<Rightarrow> True | Inr x \<Rightarrow> no_effect_key x" using m unfolding yields_def by (metis fst_conv)
  show ?thesis
    using assms r judged_read_result
    by (auto simp: perform_def Let_def run_bind m State_Monad.return_def
        split: sum.splits bool.splits json.splits option.splits)
qed

lemma observed_no_effect: "no_effect_key (fst (run_state (observed_fields cr tool ev) w))"
  by (simp add: observed_fields_def run_bind State_Monad.return_def no_effect_key_def split: option.split prod.split)

lemma map_of_rev_other: "k \<notin> set (map fst zs) \<Longrightarrow> map_of (rev (xs @ zs)) k = map_of (rev xs) k"
proof -
  assume "k \<notin> set (map fst zs)"
  then have "map_of (rev zs) k = None" by (simp add: map_of_eq_None_iff)
  then show ?thesis by (simp add: map_add_def)
qed

lemma map_of_rev_dset: "k' \<noteq> k \<Longrightarrow> map_of (rev (dset d k v)) k' = map_of (rev d) k'"
  by (induction d) (auto simp: map_add_def split: option.split)

lemma outcome_effect:
  assumes "no_effect_key result" and "no_effect_key seen"
  shows "jget (merge resp (outcome_fields rid tool result @ seen)) ''effect'' = JStr (effect_of result)"
proof -
  let ?r = "without ''_effect_unknown'' result"
  let ?f = "[(''request_id'', JStr rid), (''executed'', JBool (\<not> has_key ?r ''error'')), (''effect'', JStr (effect_of result))]"
  have r: "''effect'' \<notin> set (map fst ?r)" using assms(1) by (auto simp: no_effect_key_def without_def)
  have f: "map_of (rev (?f @ ?r)) ''effect'' = Some (JStr (effect_of result))"
    unfolding map_of_rev_other [OF r] by simp
  have "map_of (rev (outcome_fields rid tool result)) ''effect'' = Some (JStr (effect_of result))"
    using f unfolding outcome_fields_def Let_def merge_def
    by (simp add: map_of_rev_dset del: rev_append rev.simps append.simps)
  then have "map_of (rev (outcome_fields rid tool result @ seen)) ''effect'' = Some (JStr (effect_of result))"
    using map_of_rev_other assms(2) unfolding no_effect_key_def by metis
  then show ?thesis by (simp add: jget_def map_of_merge del: rev_append)
qed

lemma in_set_keys: "(k, v) \<in> set d \<Longrightarrow> k \<in> set (map fst d)"
  by force

lemma outcome_decision:
  assumes "no_effect_key result" and "no_effect_key seen"
  shows "jget (merge resp (outcome_fields rid tool result @ seen)) ''decision'' = jget resp ''decision''"
proof -
  have "''decision'' \<notin> set (map fst (without ''_effect_unknown'' result))"
    using assms(1) by (auto simp: no_effect_key_def without_def)
  then have "''decision'' \<notin> set (map fst (outcome_fields rid tool result))"
    by (auto simp: outcome_fields_def Let_def merge_def) (auto dest!: in_set_keys simp: keys_dset split: if_splits)
  then show ?thesis by (intro jget_merge) (use assms(2) in \<open>simp add: no_effect_key_def\<close>)
qed

lemma effect_of_cases: "effect_of result = ''succeeded'' \<or> effect_of result = ''unknown'' \<or> effect_of result = ''failed''"
  by (simp add: effect_of_def)

lemma finish_request_run:
  assumes "run_state (finish_request cr env p result b) w = ((reply, b'), w')"
  obtains seen resp ok b2 where
    "seen = fst (run_state (observed_fields cr (i_tool (p_inv p)) (p_evidence p)) w)"
    "resp = merge (p_resp p) (outcome_fields (p_rid p) (i_tool (p_inv p)) result @ seen)"
    "(\<exists>v. reply = merge resp [(''evidence'', v)]) \<or>
     (\<exists>v x. reply = merge (merge resp [(''evidence'', v)]) (settled_fields x))"
    "b_keys b2 = b_keys b" "b' = close_key (p_key p) (jget reply ''effect'') b2"
proof -
  let ?tool = "i_tool (p_inv p)"
  obtain seen w1 where s: "run_state (observed_fields cr ?tool (p_evidence p)) w = (seen, w1)"
    by (cases "run_state (observed_fields cr ?tool (p_evidence p)) w") auto
  define resp where "resp = merge (p_resp p) (outcome_fields (p_rid p) ?tool result @ seen)"
  obtain ok b1 where rec: "record_request cr (re_append env (Suc 0)) (p_summary p) (p_rid p) ''outcome'' (Some (p_inv p))
      (Some ?tool) resp b = (ok, b1)" by fastforce
  have k1: "b_keys b1 = b_keys b" using record_request_other(1) rec by (metis snd_conv)
  obtain fin b2 where se: "(if ok then settle_outcome cr (re_append env 2) (p_rid p)
        (intent_verdict (p_evidence p) result resp) (merge resp [(''evidence'', JStr ''recorded'')]) b1
      else (merge resp [(''evidence'', JStr ''outcome_unrecorded'')], b1)) = (fin, b2)" by fastforce
  have fin: "(\<exists>v. fin = merge resp [(''evidence'', v)]) \<or> (\<exists>v x. fin = merge (merge resp [(''evidence'', v)]) (settled_fields x))"
    and k2: "b_keys b2 = b_keys b1"
    using se by (auto simp: settle_outcome_def split: if_splits prod.splits)
  have r: "reply = fin" "b' = close_key (p_key p) (jget reply ''effect'') b2"
    using assms
    by (auto simp: finish_request_def Let_def run_bind s rec [unfolded resp_def] se [unfolded resp_def] State_Monad.return_def)
  show thesis
    by (rule that [of seen resp b2]) (use s resp_def fin r k1 k2 in auto)
qed

lemma settled_keeps: "k \<in> {''effect'', ''decision'', ''reconciliation'', ''error''} \<Longrightarrow> jget (merge d (settled_fields r)) k = jget d k"
  by (rule jget_merge) (auto simp: settled_fields_def split: sum.splits option.splits if_splits)

lemma finish_request_keeps:
  assumes "k \<in> {''effect'', ''decision'', ''reconciliation'', ''error''}"
    and "(\<exists>v. reply = merge resp [(''evidence'', v)]) \<or>
     (\<exists>v x. reply = merge (merge resp [(''evidence'', v)]) (settled_fields x))"
  shows "jget reply k = jget resp k"
  using assms by (auto simp: settled_keeps jget_merge)

lemma finish_request_effect:
  assumes "no_effect_key result" and "run_state (finish_request cr env p result b) w = ((reply, b'), w')"
  shows "jget reply ''effect'' = JStr (effect_of result)"
proof -
  obtain seen resp b2 where s: "seen = fst (run_state (observed_fields cr (i_tool (p_inv p)) (p_evidence p)) w)"
    "resp = merge (p_resp p) (outcome_fields (p_rid p) (i_tool (p_inv p)) result @ seen)"
    "jget reply ''effect'' = jget resp ''effect''"
    using finish_request_run [OF assms(2)] finish_request_keeps [of "''effect''"] by (metis insertI1)
  have "no_effect_key seen" unfolding s(1) by (rule observed_no_effect)
  then show ?thesis using outcome_effect [OF assms(1)] s by metis
qed

lemma finish_request_decision:
  assumes "no_effect_key result" and "run_state (finish_request cr env p result b) w = ((reply, b'), w')"
  shows "jget reply ''decision'' = jget (p_resp p) ''decision''"
proof -
  obtain seen resp b2 where s: "seen = fst (run_state (observed_fields cr (i_tool (p_inv p)) (p_evidence p)) w)"
    "resp = merge (p_resp p) (outcome_fields (p_rid p) (i_tool (p_inv p)) result @ seen)"
    "jget reply ''decision'' = jget resp ''decision''"
    using finish_request_run [OF assms(2)] finish_request_keeps [of "''decision''"] by (metis insertCI)
  have "no_effect_key seen" unfolding s(1) by (rule observed_no_effect)
  then show ?thesis using outcome_decision [OF assms(1)] s by metis
qed

lemma respond_cases [consumes 1, case_names raised answered finished]:
  assumes "run_state (respond cr kn env obj peer b) w = ((r, b'), w')"
  obtains e where "r = Inl e"
  | reply where "r = Inr reply" "run_state (begin_request cr kn env obj peer b) w = ((Inr (Answered reply), b'), w')"
  | p b1 w1 result w2 reply where "r = Inr reply"
      "run_state (begin_request cr kn env obj peer b) w = ((Inr (Started p), b1), w1)"
      "run_state (perform cr env p b1) w1 = (Inr result, w2)"
      "run_state (finish_request cr env p result b1) w2 = ((reply, b'), w')"
proof -
  obtain x b1 w1 where bg: "run_state (begin_request cr kn env obj peer b) w = ((x, b1), w1)"
    by (cases "run_state (begin_request cr kn env obj peer b) w") auto
  note run = respond_def run_bind bg State_Monad.return_def
  show thesis
  proof (cases x)
    case (Inl e)
    then show thesis using assms that(1) by (auto simp: run)
  next
    case (Inr s)
    show thesis
    proof (cases s)
      case (Answered a)
      then show thesis using assms that(2) Inr bg by (auto simp: run)
    next
      case (Started p)
      obtain y w2 where pf: "run_state (perform cr env p b1) w1 = (y, w2)" by fastforce
      show thesis
      proof (cases y)
        case (Inl e)
        then show thesis using assms that(1) \<open>x = Inr s\<close> Started pf by (auto simp: run)
      next
        case result: (Inr result)
        then show thesis
          using assms that(3) [OF _ _ _] \<open>x = Inr s\<close> Started pf bg
          by (auto simp: run split: prod.splits)
      qed
    qed
  qed
qed

section \<open>A concrete request\<close>

definition demo_config :: broker_config where
  "demo_config = \<lparr>policy = demo_policy, credential_tools = [''delete_file''], registry = {|''/workspace/a''|},
     workspace = ''/srv/ws'', bc_issued_at = None, ttl_seconds = None, patterns = [],
     read_requires_attestation = False, vouched_manifest = None, http = None, tool_registry = []\<rparr>"

definition demo_args :: "(string \<times> string) list" where
  "demo_args = [(''path'', ''/workspace/a'')]"

definition demo_proposal :: json where
  "demo_proposal = JObj [(''tool'', JStr ''delete_file''), (''args'', JList [JList [JStr ''path'', JStr ''/workspace/a'']]),
     (''idempotency_key'', JStr ''k'')]"

definition demo_kernel :: kernel_env where
  \<comment> \<open>a kernel that admits the demonstration's invocation\<close>
  "demo_kernel = \<lparr>kn_path = ''k'', kn_io = (\<lambda>_. Line (dumps (JObj [(''nonce'', JStr ''n''), (''decision'', JStr ''admit''),
     (''invocation'', inv_json (canonicalize demo_config ''delete_file'' demo_args))])))\<rparr>"

definition demo_req :: req_env where
  "demo_req = \<lparr>re_rid = ''s'', re_now = 0, re_decided = 0, re_nonce = ''n'', re_move = ''m'', re_tmp = ''u'',
     re_append = (\<lambda>_. demo_env), re_net = demo_net, re_manifest = None\<rparr>"

definition demo_broker :: broker where
  "demo_broker = \<lparr>b_cfg = demo_config, b_log = new_log None, b_store = demo_store, b_disk = demo_disk, b_keys = [],
     b_key = None, b_proc = NoProc\<rparr>"

lemma demo_parts:
  "without_key demo_proposal = JObj [(''tool'', JStr ''delete_file''), (''args'', JList [JList [JStr ''path'', JStr ''/workspace/a'']])]"
  "request_key demo_proposal = Some ''k''" "parse_proposal (without_key demo_proposal) = Some (''delete_file'', demo_args)"
  "arg_problem demo_args = None" "intent_fits (sha demo_crypto) demo_intent ''delete_file'' demo_args"
  by code_simp+

lemma demo_kernel_admits: "kernel_admits demo_kernel demo_req demo_broker tool args (canonicalize demo_config ''delete_file'' demo_args)"
proof -
  let ?i = "inv_json (canonicalize demo_config ''delete_file'' demo_args)"
  have "wf_json (JObj [(''nonce'', JStr ''n''), (''decision'', JStr ''admit''), (''invocation'', ?i)])"
    by (simp add: inv_json_def canonicalize_def demo_args_def arg_json_def split: prod.split)
  then show ?thesis
    by (simp add: kernel_admits_def kernel_decide_def demo_kernel_def demo_req_def kernel_reply_def Let_def inv_json_def)
qed

lemma demo_refresh: "refresh_intents demo_store demo_disk = (None, demo_store, demo_disk)"
  using universal_newlines_text [of "[demo_intent]"]
  by (simp add: refresh_intents_def Let_def noticed_edit_def demo_store_def demo_disk_def text_at_def)

lemma demo_decides:
  "\<exists>d b1. run_state (decide demo_crypto demo_kernel demo_req (without_key demo_proposal) demo_broker) (quiet demo_fs) =
     ((Inr d, b1), quiet demo_fs) \<and> jget (d_resp d) ''decision'' = JStr ''admit'' \<and> d_inv d \<noteq> None \<and> b1 = demo_broker\<lparr>b_proc := b_proc b1\<rparr>"
proof -
  let ?i = "canonicalize demo_config ''delete_file'' demo_args"
  have cfg: "b_cfg demo_broker = demo_config" by (simp add: demo_broker_def)
  note r = demo_refresh
  have m: "run_state (match_intent demo_crypto ?i ''delete_file'' demo_args demo_broker) w = ((Inr (Some demo_intent), demo_broker), w)" for w
    using demo_parts(5) r
    by (simp add: match_intent_def demo_broker_def Let_def demo_store_def ints_def run_bind State_Monad.return_def
        premise_problem_def) (simp add: demo_intent_def State_Monad.return_def run_bind)
  obtain d b1 where k: "ask_kernel demo_kernel demo_req ?i ''delete_file'' demo_args (Some demo_intent) demo_broker = (d, b1)"
    by fastforce
  from ask_kernel_cases [OF k] have "b1 = demo_broker\<lparr>b_proc := b_proc b1\<rparr>" "d_inv d = Some ?i" by simp_all
  moreover have "jget (d_resp d) ''decision'' = JStr ''admit''"
    using demo_kernel_admits [of "''delete_file''" demo_args] k
    by (auto simp: kernel_admits_def ask_kernel_def Let_def decision_of_def split: prod.splits if_splits)
  moreover have "run_state (decide demo_crypto demo_kernel demo_req (without_key demo_proposal) demo_broker) w = ((Inr d, b1), w)" for w
    using demo_parts(3,4) k
    by (simp add: decide_def Let_def run_bind State_Monad.return_def m cfg)
  ultimately show ?thesis by auto
qed

lemma demo_starts:
  "\<exists>p b'. run_state (begin_request demo_crypto demo_kernel demo_req demo_proposal JNull demo_broker) (quiet demo_fs) =
     ((Inr (Started p), b'), quiet demo_fs) \<and> p_key p = Some ''k''"
proof -
  obtain d b1 ivn where d: "run_state (decide demo_crypto demo_kernel demo_req (without_key demo_proposal) demo_broker) (quiet demo_fs) =
     ((Inr d, b1), quiet demo_fs)" "jget (d_resp d) ''decision'' = JStr ''admit''" "d_inv d = Some ivn"
    "b1 = demo_broker\<lparr>b_proc := b_proc b1\<rparr>"
    using demo_decides by blast
  have b1: "b_keys b1 = []" "b_key b1 = None" "b_log b1 = new_log None"
    using d(4) by (metis (no_types) broker.select_convs broker.update_convs(7) demo_broker_def)+
  let ?s = "proposal_summary (sha demo_crypto) (without_key demo_proposal)"
  obtain s b' w' where run: "run_state (decided_request demo_crypto demo_req (Some ''k'') JNull ?s d b1) (quiet demo_fs) = ((s, b'), w')"
    by (cases "run_state (decided_request demo_crypto demo_req (Some ''k'') JNull ?s d b1) (quiet demo_fs)") auto
  have w': "w' = quiet demo_fs"
    using idle_quiet [OF idle_decided_request] run by (metis snd_conv)
  have ok: "\<exists>b2. record_request demo_crypto demo_env summ rid event i tool resp b1 = (True, b2)" for summ rid event i tool resp
    by (simp add: record_request_def log_append_def write_line_def run_checkpoint_def demo_env_def b1(3) new_log_def Let_def)
  have "\<exists>p. s = Started p"
  proof -
    have "\<exists>p b2. commit_request demo_crypto demo_req (Some ''k'') ?s ivn (d_matched d) ev b1 = (Started p, b2)" for ev
      using ok [of ?s "re_rid demo_req" "''prepared''" "Some ivn" "Some (i_tool ivn)" "ev_resp ev"]
      by (auto simp: commit_request_def demo_req_def Let_def split: option.split prod.split)
    then show ?thesis
      using run d(2,3) b1
      by (auto simp: decided_request_def Let_def admitted_request_def run_bind State_Monad.return_def jget_merge
          split: prod.splits) (metis fst_conv)
  qed
  then obtain p where p: "s = Started p" by blast
  have "p_key p = Some ''k''"
    using decided_request_cases [OF run] decide_cases [OF d(1)] d(2) p by (auto simp: commits_def)
  moreover have "run_state (begin_request demo_crypto demo_kernel demo_req demo_proposal JNull demo_broker) (quiet demo_fs) =
     ((Inr s, b'), quiet demo_fs)"
    using d(1) run w' demo_parts(2)
    by (auto simp: begin_request_def Let_def run_bind State_Monad.return_def request_key_def clock_rolled_back_def
        demo_broker_def new_log_def demo_proposal_def key_of_def has_key_def key_text_def)
  ultimately show ?thesis using p by blast
qed

section \<open>Many requests\<close>

text \<open>
  A step of the broker between two releases of its lock: a request begins (and is answered, or goes
  on to its effect), one that performed its effect finishes, or its effect raises. The state has
  the requests under way and the idempotency keys of all that went on to their effect so far.
\<close>

fun opt_list :: "'a option \<Rightarrow> 'a list" where
  "opt_list None = []"
| "opt_list (Some x) = [x]"

inductive request_step ::
  "crypto \<Rightarrow> kernel_env \<Rightarrow> broker \<times> pending list \<times> string list \<Rightarrow> broker \<times> pending list \<times> string list \<Rightarrow> bool"
  for cr kn where
  starts: "run_state (begin_request cr kn env obj peer b) w = ((Inr (Started p), b'), w') \<Longrightarrow>
    request_step cr kn (b, ps, ks) (b', p # ps, opt_list (p_key p) @ ks)"
| answers: "run_state (begin_request cr kn env obj peer b) w = ((Inr (Answered reply), b'), w') \<Longrightarrow>
    request_step cr kn (b, ps, ks) (b', ps, ks)"
| raises: "run_state (begin_request cr kn env obj peer b) w = ((Inl e, b'), w') \<Longrightarrow>
    request_step cr kn (b, ps, ks) (b', ps, ks)"
| finishes: "p \<in> set ps \<Longrightarrow> run_state (finish_request cr env p result b) w = ((reply, b'), w') \<Longrightarrow>
    request_step cr kn (b, ps, ks) (b', remove1 p ps, ks)"
| fails: "p \<in> set ps \<Longrightarrow> request_step cr kn (b, ps, ks) (b, remove1 p ps, ks)"

definition known_keys :: "broker \<Rightarrow> string set" where "known_keys b = set (map fst (b_keys b))"

lemma known_keys_dom: "known_keys b = dom (map_of (b_keys b))"
  by (simp add: known_keys_def dom_map_of_conv_image_fst)

lemma begin_request_keys:
  assumes "run_state (begin_request cr kn env obj peer b) w = ((r, b'), w')"
  shows "case r of
           Inr (Started p) \<Rightarrow> (case p_key p of None \<Rightarrow> known_keys b' = known_keys b
             | Some k \<Rightarrow> k \<notin> known_keys b \<and> known_keys b' = insert k (known_keys b))
         | _ \<Rightarrow> known_keys b' = known_keys b"
proof (cases r)
  case (Inl e)
  then have "b_keys b' = b_keys b"
    using assms decide_cases [of cr kn env "without_key obj" b w]
    by (auto simp: begin_request_def Let_def run_bind State_Monad.return_def split: if_splits prod.splits sum.splits)
  then show ?thesis by (simp add: Inl known_keys_def)
next
  case (Inr s)
  show ?thesis
  proof (cases s)
    case (Answered reply)
    then show ?thesis using begin_request_cases [OF assms [unfolded Inr]] by (simp add: Inr known_keys_def)
  next
    case (Started p)
    then obtain b1 where "b_keys b1 = b_keys b" "p_key p = request_key obj"
      "takes_key cr (re_rid env) (request_key obj) (p_inv p) b1 b'"
      using begin_request_cases [OF assms [unfolded Inr]] by (auto simp: commits_def)
    then show ?thesis
      by (cases "request_key obj") (simp_all add: Inr Started known_keys_dom takes_key_def domIff)
  qed
qed

lemma known_keys_close [simp]: "known_keys (close_key key eff b) = known_keys b"
  by (auto simp: known_keys_dom close_key_def update_conv' split: option.split)

lemma finish_request_keys:
  assumes "run_state (finish_request cr env p result b) w = ((reply, b'), w')"
  shows "known_keys b' = known_keys b"
  using finish_request_run [OF assms] by (metis known_keys_close known_keys_def)

definition start_ok :: "broker \<times> pending list \<times> string list \<Rightarrow> bool" where
  "start_ok x \<longleftrightarrow> (case x of (b, ps, ks) \<Rightarrow> distinct ks \<and> set ks \<subseteq> known_keys b)"

lemma start_ok_step: "request_step cr kn x y \<Longrightarrow> start_ok x \<Longrightarrow> start_ok y"
proof (induction rule: request_step.induct)
  case (starts env obj peer b w p b' w' ps ks)
  then show ?case
    using begin_request_keys [OF starts(1)] by (cases "p_key p") (auto simp: start_ok_def)
next
  case (answers env obj peer b w reply b' w' ps ks)
  then show ?case using begin_request_keys [OF answers(1)] by (simp add: start_ok_def)
next
  case (raises env obj peer b w e b' w' ps ks)
  then show ?case using begin_request_keys [OF raises(1)] by (simp add: start_ok_def)
next
  case (finishes p ps env result b w reply b' w' ks)
  then show ?case using finish_request_keys [OF finishes(2)] by (simp add: start_ok_def)
qed (simp add: start_ok_def)

section \<open>Properties\<close>

text \<open>C1: Evidence before effect: when a request goes on to its effect, the log has by then been
  extended by its \<open>prepared\<close> record, with the request's identifier and the hash of the very
  invocation that will be executed; and until then the request has not changed the file system:
  the only changes are those of foreign actors.\<close>

theorem evidence_before_effect:
  assumes "run_state (begin_request cr kn env obj peer b) w = ((Inr (Started p), b'), w')"
  shows "\<exists>resp rest n.
           al_text (b_log b') = al_text (b_log b) @
             entry_line (sha cr) (chained (al_prev (b_log b)) (ae_now (re_append env 0))
               (record_entry (sha cr) (proposal_summary (sha cr) (without_key obj)) (re_rid env) ''prepared''
                  (Some (p_inv p)) (Some (i_tool (p_inv p))) resp)) @ rest \<and>
           w' = advance n w"
proof -
  have "\<exists>n. w' = advance n w"
    using idle_begin_request [of cr kn env obj peer b] assms unfolding idle_def by (metis snd_conv)
  moreover obtain b1 where "b_log b1 = b_log b"
    "prepared_record cr env (request_key obj) peer (proposal_summary (sha cr) (without_key obj)) (p_inv p) b1 b'"
    using begin_request_cases [OF assms] by (auto simp: commits_def)
  ultimately show ?thesis unfolding prepared_record_def logged_def by metis
qed

theorem evidence_before_effect_witness:
  "\<exists>p b' resp rest. run_state (begin_request demo_crypto demo_kernel demo_req demo_proposal JNull demo_broker) (quiet demo_fs) =
       ((Inr (Started p), b'), quiet demo_fs) \<and>
     al_text (b_log b') = entry_line (sha demo_crypto) (chained zeros 0
       (record_entry (sha demo_crypto) (proposal_summary (sha demo_crypto) (without_key demo_proposal)) ''s''
          ''prepared'' (Some (p_inv p)) (Some (i_tool (p_inv p))) resp)) @ rest"
proof -
  obtain p b' where run: "run_state (begin_request demo_crypto demo_kernel demo_req demo_proposal JNull demo_broker) (quiet demo_fs) =
       ((Inr (Started p), b'), quiet demo_fs)"
    using demo_starts by blast
  have e: "al_text (b_log demo_broker) = []" "al_prev (b_log demo_broker) = zeros"
    "re_rid demo_req = ''s''" "ae_now (re_append demo_req 0) = 0"
    by (simp_all add: demo_broker_def new_log_def al_text_def demo_req_def demo_env_def)
  from evidence_before_effect [OF run, unfolded e] run show ?thesis by auto
qed

text \<open>C2: What is executed is what was decided: a request that goes on to its effect was a
  well-formed proposal with normal paths and URLs, the invocation it executes is the canonical one
  of that proposal, and the kernel, asked under the request's policy, credential and registry,
  admitted it and returned the same invocation.\<close>

theorem executed_is_admitted:
  assumes "run_state (begin_request cr kn env obj peer b) w = ((Inr (Started p), b'), w')"
  shows "\<exists>tool args. parse_proposal (without_key obj) = Some (tool, args) \<and> arg_problem args = None \<and>
           p_inv p = canonicalize (b_cfg b) tool args \<and> kernel_admits kn env b tool args (p_inv p)"
  using begin_request_cases [OF assms] by (auto simp: admitted_decision_def)

theorem executed_is_admitted_witness:
  "\<exists>p b'. run_state (begin_request demo_crypto demo_kernel demo_req demo_proposal JNull demo_broker) (quiet demo_fs) =
       ((Inr (Started p), b'), quiet demo_fs) \<and>
     p_inv p = canonicalize demo_config ''delete_file'' demo_args \<and>
     kernel_admits demo_kernel demo_req demo_broker ''delete_file'' demo_args (p_inv p)"
proof -
  obtain p b' where run: "run_state (begin_request demo_crypto demo_kernel demo_req demo_proposal JNull demo_broker) (quiet demo_fs) =
       ((Inr (Started p), b'), quiet demo_fs)"
    using demo_starts by blast
  from executed_is_admitted [OF run] run demo_parts(3) show ?thesis by (auto simp: demo_broker_def)
qed

text \<open>C8: With intents on, no request goes on to its effect without one: an intent that was available
  and fits the proposal is reserved for the request and no longer available.\<close>

theorem effect_takes_an_intent:
  assumes "run_state (begin_request cr kn env obj peer b) w = ((Inr (Started p), b'), w')"
    and "available (b_store b) \<noteq> None"
  shows "\<exists>tool args i st disk. parse_proposal (without_key obj) = Some (tool, args) \<and>
           refresh_intents (b_store b) (b_disk b) = (None, st, disk) \<and>
           i \<in> set (ints st) \<and> intent_fits (sha cr) i tool args \<and>
           map_of (held (b_store b')) (re_rid env) = Some i \<and> ints (b_store b') = remove1 i (ints st)"
proof -
  from begin_request_cases [OF assms(1)] obtain m b1 where
    d: "admitted_decision cr kn env (without_key obj) b (p_inv p) m b1" and t: "takes_intent (re_rid env) m b1 b'"
    by (auto simp: commits_def)
  from d assms(2) obtain tool args i where i: "m = Some i" "parse_proposal (without_key obj) = Some (tool, args)"
    "refresh_intents (b_store b) (b_disk b) = (None, b_store b1, b_disk b1)" "i \<in> set (ints (b_store b1))"
    "intent_fits (sha cr) i tool args"
    by (auto simp: admitted_decision_def intent_gate_def split: option.splits)
  from t i(1) have "persist_intents (reserve (re_rid env) i (b_store b1)) (b_disk b1) = (b_store b', b_disk b')"
    by (simp add: takes_intent_def reserve_intent_def)
  then have "b_store b' = fst (persist_intents (reserve (re_rid env) i (b_store b1)) (b_disk b1))" by simp
  then have "map_of (held (b_store b')) (re_rid env) = Some i \<and> ints (b_store b') = remove1 i (ints (b_store b1))"
    by (simp add: reserve_def ints_reserve [unfolded reserve_def])
  with i show ?thesis by blast
qed

theorem effect_takes_an_intent_witness:
  "\<exists>p b'. run_state (begin_request demo_crypto demo_kernel demo_req demo_proposal JNull demo_broker) (quiet demo_fs) =
       ((Inr (Started p), b'), quiet demo_fs) \<and>
     map_of (held (b_store b')) ''s'' = Some demo_intent \<and> ints (b_store b') = []"
proof -
  obtain p b' where run: "run_state (begin_request demo_crypto demo_kernel demo_req demo_proposal JNull demo_broker) (quiet demo_fs) =
       ((Inr (Started p), b'), quiet demo_fs)"
    using demo_starts by blast
  have a: "available (b_store demo_broker) \<noteq> None" by (simp add: demo_broker_def demo_store_def)
  have r: "refresh_intents (b_store demo_broker) (b_disk demo_broker) = (None, demo_store, demo_disk)"
    using demo_refresh by (simp add: demo_broker_def)
  have i: "ints demo_store = [demo_intent]" "re_rid demo_req = ''s''"
    by (simp_all add: demo_store_def ints_def demo_req_def)
  from effect_takes_an_intent [OF run a] run show ?thesis by (auto simp: r i)
qed

text \<open>At most one effect for an idempotency key: however many requests arrive, in whatever order
  they are begun and finished, whichever of them fail and whatever the worlds do, no key is
  that of two requests that went on to their effect, and none is one the broker knew already.\<close>

theorem one_effect_per_key:
  assumes "(request_step cr kn)\<^sup>*\<^sup>* (b, [], []) (b', ps, ks)"
  shows "distinct ks \<and> set ks \<subseteq> set (map fst (b_keys b'))"
proof -
  have "start_ok (b', ps, ks)"
    using assms by (induction rule: rtranclp_induct) (auto simp: start_ok_def [of "(b, [], [])"] intro: start_ok_step)
  then show ?thesis by (simp add: start_ok_def known_keys_def)
qed

theorem one_effect_per_key_witness:
  "\<exists>b' p. (request_step demo_crypto demo_kernel)\<^sup>*\<^sup>* (demo_broker, [], []) (b', [p], [''k'']) \<and>
     ''k'' \<in> set (map fst (b_keys b'))"
proof -
  obtain p b' where run: "run_state (begin_request demo_crypto demo_kernel demo_req demo_proposal JNull demo_broker) (quiet demo_fs) =
       ((Inr (Started p), b'), quiet demo_fs)" "p_key p = Some ''k''"
    using demo_starts by blast
  have "(request_step demo_crypto demo_kernel)\<^sup>*\<^sup>* (demo_broker, [], []) (b', [p], [''k''])"
    using starts [OF run(1), of "[]" "[]"] run(2) by simp
  with one_effect_per_key [OF this] show ?thesis by auto
qed

text \<open>C11: The reply does not understate the effect: when it says that there was none, or that there
  already had been one, nothing but foreign actors changed the file system while the request was
  handled, no reserved intent moved and no idempotency key changed. When the handling raises an
  unexpected exception, the reply says that the effect is unknown.\<close>

theorem no_effect_means_none:
  assumes "run_state (handle_request cr kn env obj peer b) w = ((reply, b'), w')"
  shows "(jget reply ''effect'' = JStr ''none'' \<or> jget reply ''effect'' = JStr ''already_applied'' \<longrightarrow>
           (\<exists>n. w' = advance n w) \<and> held (b_store b') = held (b_store b) \<and> b_keys b' = b_keys b) \<and>
         (\<forall>e b1 w1. run_state (respond cr kn env obj peer b) w = ((Inl e, b1), w1) \<longrightarrow>
           jget reply ''effect'' = JStr ''unknown'')"
proof -
  obtain r where r: "run_state (respond cr kn env obj peer b) w = ((r, b'), w')"
    "reply = (case r of Inl e \<Rightarrow> error_reply e | Inr reply \<Rightarrow> reply)"
    using assms(1) by (auto simp: handle_request_def run_bind State_Monad.return_def split: prod.splits)
  from r(1) show ?thesis
  proof (cases rule: respond_cases)
    case (raised e)
    then show ?thesis using r by (simp add: error_reply_def)
  next
    case (answered a)
    have "\<exists>n. w' = advance n w"
      using idle_begin_request [of cr kn env obj peer b] answered(2) unfolding idle_def by (metis snd_conv)
    then show ?thesis using begin_request_cases [OF answered(2)] r(1) answered(1) by simp
  next
    case (finished p b1 w1 result w2 a)
    have "jget reply ''effect'' = JStr (effect_of result)"
      using finish_request_effect [OF perform_result [OF finished(3)] finished(4)] finished(1) r(2) by simp
    then show ?thesis using effect_of_cases [of result] r(1) finished(1) by auto
  qed
qed

theorem no_effect_means_none_witness:
  "\<exists>reply b' w' n. run_state (handle_request demo_crypto demo_kernel demo_req (JStr ''?'') JNull demo_broker) (quiet demo_fs) =
       ((reply, b'), w') \<and> w' = advance n (quiet demo_fs) \<and> held (b_store b') = held (b_store demo_broker)"
proof -
  let ?m = "handle_request demo_crypto demo_kernel demo_req (JStr ''?'') JNull demo_broker"
  obtain reply b' w' where run: "run_state ?m (quiet demo_fs) = ((reply, b'), w')"
    by (cases "run_state ?m (quiet demo_fs)") auto
  have "jget reply ''effect'' = JStr ''none''"
    using run by (auto simp: handle_request_def respond_def begin_request_def decide_def decided_request_def run_bind
        State_Monad.return_def Let_def key_of_def without_key_def parse_proposal_def decision_of_def rejected_def
        clock_rolled_back_def demo_broker_def new_log_def nothing_done_def merge_def split: prod.splits)
  then have "(\<exists>n. w' = advance n (quiet demo_fs)) \<and> held (b_store b') = held (b_store demo_broker)"
    using no_effect_means_none [OF run] by blast
  then show ?thesis using run by blast
qed

text \<open>C39: An effect that was applied can be remembered as one that was not: if the effect reports an error
  (of the directory's \<open>fsync\<close>, say, after the new file is in place) while the target is in the intended
  state, the reply says \<open>confirmedSuccess\<close> and its idempotency key is closed as failed, so that a
  retry is told that nothing was applied.\<close>

theorem applied_effect_key_says_failed:
  assumes "no_effect_key result" and "has_key result ''error''" and "\<not> truthy (jget result ''_effect_unknown'')"
    and "p_key p = Some k" and "map_of (b_keys b) k \<noteq> None" and "i_tool (p_inv p) \<noteq> ''rename_file''"
    and "ev_before (p_evidence p) = Some before" and "ev_intended (p_evidence p) = Some intended"
    and "fst (run_state (observe cr (ev_target (p_evidence p))) w) = intended" and "\<not> (\<exists>e. intended = Unavailable e)"
    and "run_state (finish_request cr env p result b) w = ((reply, b'), w')"
  shows "jget reply ''reconciliation'' = JStr ''confirmedSuccess'' \<and>
         (\<exists>e. map_of (b_keys b') k = Some e \<and> ke_state e = ''failed'')"
proof -
  obtain seen resp b2 where s: "seen = fst (run_state (observed_fields cr (i_tool (p_inv p)) (p_evidence p)) w)"
    "resp = merge (p_resp p) (outcome_fields (p_rid p) (i_tool (p_inv p)) result @ seen)"
    "jget reply ''reconciliation'' = jget resp ''reconciliation''"
    "b_keys b2 = b_keys b" "b' = close_key (p_key p) (jget reply ''effect'') b2"
    using finish_request_run [OF assms(11)] finish_request_keeps [of "''reconciliation''"] by (metis insertCI)
  have "seen = [(''reconciliation'', JStr (reconcile (Some before) (Some intended) intended)),
      (''before_state'', tstate_json before), (''intended_state'', tstate_json intended), (''observed_state'', tstate_json intended)]"
    using assms(6-9) by (auto simp: s(1) observed_fields_def run_bind Let_def State_Monad.return_def split: prod.split)
  moreover have "reconcile (Some before) (Some intended) intended = ''confirmedSuccess''"
    using assms(10) by (cases intended) (simp_all add: reconcile_def)
  ultimately have "jget resp ''reconciliation'' = JStr ''confirmedSuccess''"
    by (simp add: s(2) jget_def map_of_merge map_add_def)
  moreover have "jget reply ''effect'' = JStr ''failed''"
    using finish_request_effect [OF assms(1,11)] assms(2,3) by (simp add: effect_of_def)
  ultimately show ?thesis
    using assms(4,5) s(3-5) by (auto simp: close_key_def key_state_def)
qed

theorem applied_effect_key_says_failed_witness:
  "\<exists>reply b' w' e. run_state (finish_request demo_crypto demo_req
       \<lparr>p_rid = ''s'', p_key = Some ''k'', p_inv = canonicalize demo_config ''write_file'' [(''path'', ''/workspace/a''), (''content'', ''old'')],
        p_resp = [], p_evidence = \<lparr>ev_resp = [], ev_before = Some Absent, ev_intended = Some (Present ''old''),
          ev_target = ''/workspace/a'', ev_source = [], ev_dest_before = Absent, ev_private = None, ev_source_att = None\<rparr>,
        p_summary = JNull\<rparr> (failed_with ''OSError: Input/output error'')
       (demo_broker\<lparr>b_keys := [(''k'', \<lparr>ke_rid = ''s'', ke_hash = JNull, ke_state = ''pending'', ke_effect = JNull\<rparr>)]\<rparr>))
       (quiet demo_fs) = ((reply, b'), w') \<and>
     jget reply ''reconciliation'' = JStr ''confirmedSuccess'' \<and> map_of (b_keys b') ''k'' = Some e \<and> ke_state e = ''failed''"
proof -
  let ?ev = "\<lparr>ev_resp = [], ev_before = Some Absent, ev_intended = Some (Present ''old''),
          ev_target = ''/workspace/a'', ev_source = [], ev_dest_before = Absent, ev_private = None, ev_source_att = None\<rparr>"
  let ?p = "\<lparr>p_rid = ''s'', p_key = Some ''k'', p_inv = canonicalize demo_config ''write_file'' [(''path'', ''/workspace/a''), (''content'', ''old'')],
        p_resp = [], p_evidence = ?ev, p_summary = JNull\<rparr>"
  let ?b = "demo_broker\<lparr>b_keys := [(''k'', \<lparr>ke_rid = ''s'', ke_hash = JNull, ke_state = ''pending'', ke_effect = JNull\<rparr>)]\<rparr>"
  let ?m = "finish_request demo_crypto demo_req ?p (failed_with ''OSError: Input/output error'') ?b"
  obtain reply b' w' where run: "run_state ?m (quiet demo_fs) = ((reply, b'), w')"
    by (cases "run_state ?m (quiet demo_fs)") auto
  have "path_parts ''/workspace/a'' = Some [''a'']" by code_simp
  then have o: "fst (run_state (observe demo_crypto ''/workspace/a'') (quiet demo_fs)) = Present ''old''"
    by (simp add: observe_def open_parent_def run_bind State_Monad.return_def done_with_def leaf_state_def leaf_kind_def
        run_andthen stat_at_def digest_at_def open_read_def fd_read_def demo_crypto_def)
  have t: "i_tool (p_inv ?p) \<noteq> ''rename_file''" by (simp add: canonicalize_def split: prod.split)
  have f: "no_effect_key (failed_with e)" "has_key (failed_with e) ''error''" "\<not> truthy (jget (failed_with e) ''_effect_unknown'')" for e
    by (simp_all add: no_effect_key_def failed_with_def has_key_def)
  from applied_effect_key_says_failed [OF f, where p = ?p and k = "''k''" and b = ?b and before = Absent
      and intended = "Present ''old''" and cr = demo_crypto and w = "quiet demo_fs", OF _ _ t _ _ _ _ run] o run
  show ?thesis by auto
qed

end
