(* ===== verification/Basis.thy ===== *)
theory Basis
  imports Broker
begin

text \<open>
  The evidence basis of a reply (\<open>_basis\<close> in \<open>darm_guard/broker.py\<close>): the claims a reply makes and
  what each rests on, and \<open>handle\<close> with the basis attached. The texts are the source's. Whether the
  system has \<open>renameat2\<close> is an argument. An error text that is not a string, which only the kernel
  could send, makes the search in it raise, hence the option.
\<close>

definition claim :: "string \<Rightarrow> string list \<Rightarrow> string list \<Rightarrow> json" where
  "claim t theorems assumptions =
     JObj [(''claim'', JStr t), (''theorems'', JList (map JStr theorems)), (''assumptions'', JList (map JStr assumptions))]"

definition certified :: "string list" where
  "certified = [''kernel binary certified against K4 on 1,000 answers, not proved'']"

definition BY_KERNEL :: "string \<Rightarrow> string" where
  "BY_KERNEL failure = ''rejected by the kernel ('' @ failure @ '')''"
definition ADMITTED :: string where
  "ADMITTED = ''admitted by the kernel; the executed invocation is the decided one''"
definition PREPARED :: string where
  "PREPARED = ''a durable prepared record preceded any effect''"
definition CONSUMED :: string where
  "CONSUMED = ''one principal-held intent was consumed''"
definition NOTHING_APPLIED :: string where
  "NOTHING_APPLIED = ''an earlier attempt with this key failed; nothing was applied then or now''"

definition refusal_claims :: "json \<Rightarrow> json list" where
  "refusal_claims fail =
     (case fail of
        JStr f \<Rightarrow>
          (if f \<in> {''temporal'', ''observation'', ''authority'', ''semantic'', ''provenance''}
           then [claim (BY_KERNEL f) [''DARM.Kernel.admit_sound'', ''DARM.Kernel4.k4_conservative_extension'']
                   (''A2'' # certified)]
           else if f = ''intent''
           then [claim ''no principal-held intent for this action'' [''DARM.E24.execution_requires_intent''] [''A2'']]
           else if f = ''clock''
           then [claim ''the clock reads earlier than the audit log's last record'' []
                   [''A6: witnessed by the audit log, not proved'']]
           else [])
      | _ \<Rightarrow> [])"

definition admission_claims :: "jobj \<Rightarrow> json list" where
  "admission_claims resp =
     (let d = jget resp ''decision''; eff = jget resp ''effect'' in
      (if d = JStr ''admit'' \<and> eff \<noteq> JStr ''already_applied''
       then [claim ADMITTED [''DARM.Kernel.admit_sound'', ''DARM.Broker3.executed_is_canonical'']
               ([''A2''] @ certified @
                [''canonicalization computed by the proved kernel (K6) and cross-checked on every request; execution tested, not proved''])]
       else []) @
      (if truthy (jget resp ''intent_consumed'')
       then [claim CONSUMED [''DARM.E24.execution_requires_intent''] [''A2'', ''A5'']] else []) @
      (if d = JStr ''admit'' \<and> eff \<in> {JStr ''succeeded'', JStr ''failed'', JStr ''unknown''}
       then [claim PREPARED [''DARM.Lifecycle.no_silent_effect_ever''] [''A3'']] else []))"

definition file_claims :: "bool \<Rightarrow> jobj \<Rightarrow> json list" where
  "file_claims has resp =
     (let ok = jget resp ''effect'' = JStr ''succeeded'' in
      (if ok \<and> has_key resp ''written''
       then [claim ''the write applied from the recorded before-state'' [''DARM.EffectIntegrity.cas_applies_iff'']
               [''A4'', if has then ''renameat2 available: no window''
                      else ''renameat2 unavailable: compare-then-rename fallback, small window, not covered by B6'']]
       else []) @
      (if ok \<and> truthy (jget resp ''deleted'')
       then [claim ''the target is absent, and verification will not flag this deletion''
               [''DARM.EffectIntegrity2.legitimate_ops_never_flagged''] [''A4''],
             claim ''deleted only from the recorded before-state''
               [''DARM.EffectIntegrity.casOpt_applies_iff'', ''DARM.EffectIntegrity.delete_only_from_recorded'']
               [''A4'', ''the compare-and-delete implementation is tested against the model, not certified'',
                if has then ''renameat2 available: no window''
                else ''renameat2 unavailable: check-then-unlink fallback, small window'']]
       else []) @
      (if ok \<and> truthy (jget resp ''renamed'')
       then [claim ''the file moved to the destination, re-attested under this request; verification will not flag the source or the destination''
               [''DARM.EffectIntegrity2.rename_preserves'', ''DARM.EffectIntegrity2.legitimate_ops_never_flagged''] [''A4''],
             claim ''claimed, inspected, re-attested and placed: at no step was the file lost or duplicated''
               [''DARM.RenameProtocol.our_file_never_lost_or_duplicated'', ''DARM.RenameProtocol.recovery_normal'']
               [''A4'', ''no foreign process guesses the private name'',
                ''the implementation is tested against B9, not certified'']]
       else []))"

definition state_claims :: "jobj \<Rightarrow> json list" where
  "state_claims resp =
     (if truthy (jget resp ''conflict'')
      then [claim ''conflict: the foreign state was left intact'' [''DARM.EffectIntegrity.cas_conflict_preserves''] [''A4'']]
      else []) @
     (if jget resp ''reconciliation'' = JStr ''confirmedSuccess''
      then [claim ''the target is in the intended state (state correspondence, not causation)''
              [''DARM.EffectReconciliation.success_is_state_confirmation''] [''A5'']] else []) @
     (if truthy (jget resp ''attested'')
      then [claim ''the written file attests this request, verifiable later against the log''
              [''DARM.EffectIntegrity.writes_honest'', ''DARM.EffectIntegrity.tamper_detected'',
               ''DARM.EffectIntegrity.truncation_detected'']
              [''A2: the private signing key is secret; verification needs only public keys'']] else [])"

definition retry_claims :: "jobj \<Rightarrow> bool \<Rightarrow> json list" where
  \<comment> \<open>the flag: the error text says that an earlier attempt failed\<close>
  "retry_claims resp earlier =
     (if jget resp ''effect'' = JStr ''already_applied''
      then [claim ''already applied: the original attempt's effect occurred, and this retry performed none''
              [''DARM.Idempotency2.already_applied_sound'', ''DARM.Idempotency2.at_most_once_with_failures'']
              [''A5'', ''reconciliation verdicts map to key states: tested, not modelled; confirmedSuccess is state correspondence, not attribution'']]
      else []) @
     (if earlier then [claim NOTHING_APPLIED [''DARM.Idempotency2.at_most_once_with_failures''] [''A5'']] else [])"

definition remote_claims :: "jobj \<Rightarrow> json list" where
  "remote_claims resp =
     (if jget resp ''effect'' = JStr ''unknown''
      then [claim ''effect unknown: the log shows it started; reconcile before retrying''
              [''DARM.Lifecycle.no_silent_effect_ever''] [''A3'']] else []) @
     (if jget resp ''effect'' = JStr ''succeeded'' \<and> has_key resp ''body_sha256''
      then [claim ''the response is recorded as the broker received it, from the server whose certificate is recorded; the remote system's state is not attested'' []
              [''attributing a remote effect needs a record from the remote side (darm-monitor E31)'',
               ''URL normal form is checked by the broker: tested, not proved'']] else []) @
     (if jget resp ''decision'' = JStr ''admit''
      then [claim ''no other route to this effect exists'' []
              [''A1: evidenced in the reference deployment and monitored by verify_world, not proved'']] else [])"

definition EARLIER :: string where
  "EARLIER = ''earlier attempt with this idempotency key failed''"

definition py_in :: "string \<Rightarrow> json \<Rightarrow> bool option" where
  \<comment> \<open>\<open>s in (v or "")\<close>; \<open>None\<close> when it raises\<close>
  "py_in s v =
     (if \<not> truthy v then Some False
      else case v of
        JStr t \<Rightarrow> Some (sublist s t)
      | JList vs \<Rightarrow> Some (JStr s \<in> set vs)
      | JObj d \<Rightarrow> Some (has_key d s)
      | _ \<Rightarrow> None)"

definition basis :: "bool \<Rightarrow> jobj \<Rightarrow> json list option" where
  "basis has resp =
     map_option (\<lambda>earlier.
        refusal_claims (jget resp ''failure'') @ admission_claims resp @ file_claims has resp @
        state_claims resp @ retry_claims resp earlier @ remote_claims resp)
       (py_in EARLIER (jget resp ''error''))"

definition with_basis :: "bool \<Rightarrow> string + jobj \<Rightarrow> jobj" where
  "with_basis has r =
     (case r of
        Inl e \<Rightarrow> error_reply e
      | Inr reply \<Rightarrow>
          (case basis has reply of
             None \<Rightarrow> error_reply ''TypeError''
           | Some cs \<Rightarrow> merge reply [(''basis'', JList cs)]))"

definition handle :: "crypto \<Rightarrow> kernel_env \<Rightarrow> bool \<Rightarrow> req_env \<Rightarrow> json \<Rightarrow> json \<Rightarrow> broker \<Rightarrow> (world, jobj \<times> broker) state" where
  "handle cr kn has env obj peer b = do {
     (r, b1) \<leftarrow> respond cr kn env obj peer b;
     ret (with_basis has r, b1) }"

end
