(* ===== verification/Startup.thy ===== *)
theory Startup
  imports Handling Basis
begin

text \<open>
  The life of a broker process (\<open>darm_guard/broker.py\<close>): what a start does with the log the last
  process left (\<open>reconcile_pending\<close>, and the idempotency keys it rebuilds), the order of \<open>serve\<close>,
  the upgrade of old attestations (\<open>reattest_legacy\<close>), the lines of a connection, and the agent's
  client. An exception is \<open>Inl\<close> with its class.
\<close>

section \<open>Reading the log\<close>

type_synonym scan = "(json \<times> jobj) list \<times> (json \<times> json) list"
  \<comment> \<open>\<open>prepared\<close> and \<open>closed\<close>, by request\<close>

definition scan_entry :: "scan \<Rightarrow> json \<Rightarrow> scan" where
  "scan_entry s v =
     (let e = jfields v; rid = jget e ''request_id'' in
      if jget e ''event'' = JStr ''prepared'' then (dset (fst s) rid e, snd s)
      else if jget e ''event'' \<in> {JStr ''outcome'', JStr ''reconciled''}
      then (fst s, dset (snd s) rid (py_or (jget e ''effect'') (jget e ''reconciliation'')))
      else s)"

definition scan_log :: "json list \<Rightarrow> scan" where
  "scan_log es = foldl scan_entry ([], []) es"

section \<open>Requests left without an outcome\<close>

definition as_tuple :: "json \<Rightarrow> json option" where
  \<comment> \<open>\<open>tuple(v)\<close> as the list of its elements; what cannot be iterated is a \<open>TypeError\<close>\<close>
  "as_tuple v =
     (case v of
        JList xs \<Rightarrow> Some (JList xs)
      | JStr s \<Rightarrow> Some (JList (map (\<lambda>c. JStr [c]) s))
      | JObj fs \<Rightarrow> Some (JList (map (\<lambda>(k, x). JStr k) fs))
      | _ \<Rightarrow> None)"

definition reconcile_recorded :: "json option \<Rightarrow> json \<Rightarrow> tstate \<Rightarrow> string" where
  \<comment> \<open>\<open>_reconcile\<close> of the recorded states, with \<open>None\<close> for a \<open>before\<close> that was not recorded\<close>
  "reconcile_recorded before intended observed =
     (case observed of
        Unavailable e \<Rightarrow> ''unresolved''
      | _ \<Rightarrow>
          if tstate_json observed = intended then ''confirmedSuccess''
          else if before \<noteq> None \<and> before \<noteq> Some intended \<and> before = Some (tstate_json observed) then ''confirmedFailure''
          else ''unresolved'')"

definition judge_recorded :: "json \<Rightarrow> json \<Rightarrow> tstate \<Rightarrow> string + string \<times> json" where
  \<comment> \<open>the recorded states against the observed one; an exception is its class\<close>
  "judge_recorded before intended seen =
     (case (truthy before, as_tuple before, as_tuple intended) of
        (True, None, _) \<Rightarrow> Inl ''TypeError''
      | (_, _, None) \<Rightarrow> Inl ''TypeError''
      | (has, b, Some i) \<Rightarrow> Inr (reconcile_recorded (if has then b else None) i seen, tstate_json seen))"

definition judge_pending :: "crypto \<Rightarrow> keys option \<Rightarrow> jobj \<Rightarrow> (world, string + string \<times> json) state" where
  \<comment> \<open>the verdict and the observed state, or the class of the exception\<close>
  "judge_pending cr ks e =
     (if jget e ''tool'' = JStr ''rename_file''
      then do {
        r \<leftarrow> recover_rename cr ks e;
        ret (case r of Inl x \<Rightarrow> Inl (class_name x) | Inr v \<Rightarrow> Inr (v, JNull)) }
      else if truthy (jget e ''target'') \<and> truthy (jget e ''intended_state'')
      then (case jget e ''target'' of
              JStr target \<Rightarrow> do {
                seen \<leftarrow> observe cr target;
                ret (judge_recorded (jget e ''before_state'') (jget e ''intended_state'') seen) }
            | _ \<Rightarrow> ret (Inl ''AttributeError''))
      else ret (Inr (''unresolved'', JNull)))"

definition reconciled_record :: "json \<Rightarrow> jobj \<Rightarrow> string \<Rightarrow> json \<Rightarrow> jobj" where
  "reconciled_record rid e verdict observed =
     [(''event'', JStr ''reconciled''), (''request_id'', rid), (''tool'', jget e ''tool''), (''target'', jget e ''target''),
      (''source'', jget e ''source''), (''invocation_hash'', jget e ''invocation_hash''),
      (''reconciliation'', JStr verdict), (''observed_state'', observed)]"

definition recorded_state :: "json \<Rightarrow> string" where
  "recorded_state v =
     (if v \<in> {JStr ''succeeded'', JStr ''confirmedSuccess''} then ''done''
      else if v \<in> {JStr ''failed'', JStr ''confirmedFailure''} then ''failed'' else ''pending'')"

definition rebuilt_key :: "json \<Rightarrow> jobj \<Rightarrow> json \<Rightarrow> broker \<Rightarrow> broker" where
  "rebuilt_key rid e v b =
     (case jget e ''idempotency_key'' of
        JStr k \<Rightarrow>
          (if k = [] then b
           else b\<lparr>b_keys := dset (b_keys b) k
              \<lparr>ke_rid = (case rid of JStr r \<Rightarrow> r | _ \<Rightarrow> []), ke_hash = jget e ''invocation_hash'',
               ke_state = recorded_state v, ke_effect = v\<rparr>\<rparr>)
      | _ \<Rightarrow> b)"

fun reconcile_each ::
  "crypto \<Rightarrow> (nat \<Rightarrow> append_env) \<Rightarrow> (json \<times> jobj) list \<Rightarrow> (json \<times> json) list \<Rightarrow> broker \<Rightarrow> nat \<Rightarrow>
   (world, (string + nat) \<times> broker) state" where
  \<comment> \<open>\<open>envs i\<close> is the environment of the \<open>i\<close>th append\<close>
  "reconcile_each cr envs [] closed b n = ret (Inr n, b)"
| "reconcile_each cr envs ((rid, e) # prs) closed b n =
     (case map_of closed rid of
        Some v \<Rightarrow> reconcile_each cr envs prs closed (rebuilt_key rid e v b) n
      | None \<Rightarrow> do {
          r \<leftarrow> judge_pending cr (b_key b) e;
          (case r of
             Inl x \<Rightarrow> ret (Inl x, b)
           | Inr (verdict, observed) \<Rightarrow>
               (case log_append cr (envs n) (reconciled_record rid e verdict observed) (b_log b) of
                  (False, al) \<Rightarrow> ret (Inl ''OSError'', b\<lparr>b_log := al\<rparr>)
                | (True, al) \<Rightarrow>
                    reconcile_each cr envs prs (dset closed rid (JStr verdict))
                      (rebuilt_key rid e (JStr verdict) (b\<lparr>b_log := al\<rparr>)) (Suc n))) })"

definition reconcile_pending ::
  "crypto \<Rightarrow> (nat \<Rightarrow> append_env) \<Rightarrow> broker \<Rightarrow> (world, (string + nat) \<times> broker) state" where
  "reconcile_pending cr envs b =
     (case al_file (b_log b) of
        None \<Rightarrow> ret (Inr 0, b)
      | Some t \<Rightarrow>
          (case log_entries t of
             None \<Rightarrow> ret (Inl ''ValueError'', b)
           | Some es \<Rightarrow> (case scan_log es of (prs, closed) \<Rightarrow> reconcile_each cr envs prs closed b 0)))"

section \<open>Start\<close>

definition claim :: "string \<Rightarrow> string set \<Rightarrow> string set option" where
  \<comment> \<open>\<open>_claim\<close>: the paths some process holds the lock of\<close>
  "claim path locks = (if path \<in> locks then None else Some (insert path locks))"

definition claim_state :: "string \<Rightarrow> string option \<Rightarrow> string set \<Rightarrow> string set option" where
  \<comment> \<open>the locks of \<open>serve\<close>: both or none\<close>
  "claim_state audit intents locks =
     (case claim audit locks of
        None \<Rightarrow> None
      | Some l \<Rightarrow> (case intents of None \<Rightarrow> Some l | Some p \<Rightarrow> claim p l))"

record serve_env =
  se_seed :: string
  se_audit :: string
  se_intents :: "string option"
  se_revocations :: "string option"
  se_sink :: "(nat \<times> sink) option"          \<comment> \<open>\<open>--checkpoint-every\<close> and the sink\<close>
  se_pending :: "nat \<Rightarrow> append_env"          \<comment> \<open>of the appends of \<open>reconcile_pending\<close>, \<dots>\<close>
  se_settle :: "nat \<Rightarrow> append_env"
  se_final :: append_env

datatype start_error =
    OwnedByAnother          \<comment> \<open>\<open>RuntimeError\<close> of \<open>_claim\<close>\<close>
  | KeysUnreadable
  | StateUnreadable         \<comment> \<open>the log, the intents files or the checkpoint interval\<close>
  | PendingFails string
  | SettlementFails
  | CheckpointFails

definition opened_broker :: "crypto \<Rightarrow> serve_env \<Rightarrow> broker_config \<Rightarrow> files \<Rightarrow> start_error + broker" where
  \<comment> \<open>keys, log, intents, checkpointer\<close>
  "opened_broker cr env cfg disk =
     (case load_or_create_keys cr (se_seed env) (se_audit env) disk of
        (Inl e, disk1) \<Rightarrow> Inl KeysUnreadable
      | (Inr ks, disk1) \<Rightarrow>
          (let log = load_log (sha cr) (disk1 (se_audit env));
               store = (case se_intents env of
                   None \<Rightarrow> open_store None None None disk1
                 | Some p \<Rightarrow> start_store p (se_revocations env) disk1);
               ck = (case se_sink env of None \<Rightarrow> None | Some (every, snk) \<Rightarrow> new_checkpointer (k_ring ks) every snk)
           in case (log, store) of
                (Some al, Some st) \<Rightarrow>
                  (if se_sink env \<noteq> None \<and> ck = None then Inl StateUnreadable
                   else case open_broker cfg (al\<lparr>al_ck := ck\<rparr>) st disk1 (Some ks) of
                          None \<Rightarrow> Inl StateUnreadable | Some b \<Rightarrow> Inr b)
              | _ \<Rightarrow> Inl StateUnreadable))"

definition settle_start :: "crypto \<Rightarrow> serve_env \<Rightarrow> broker \<Rightarrow> start_error + broker" where
  \<comment> \<open>\<open>settle_reserved\<close>, then a checkpoint of everything on disk\<close>
  "settle_start cr env b =
     (case settle_reserved cr (se_settle env) (b_store b) (b_disk b) (b_log b) of
        (None, st, disk, al) \<Rightarrow> Inl SettlementFails
      | (Some n, st, disk, al) \<Rightarrow>
          (let b' = b\<lparr>b_store := st, b_disk := disk, b_log := al\<rparr> in
           if se_sink env = None then Inr b'
           else (case checkpoint_now cr (se_final env) al of
                   (False, al') \<Rightarrow> Inl CheckpointFails | (True, al') \<Rightarrow> Inr (b'\<lparr>b_log := al'\<rparr>))))"

definition serve ::
  "crypto \<Rightarrow> serve_env \<Rightarrow> broker_config \<Rightarrow> files \<Rightarrow> string set \<Rightarrow> (world, (start_error + broker) \<times> string set) state" where
  "serve cr env cfg disk locks =
     (case claim_state (se_audit env) (se_intents env) locks of
        None \<Rightarrow> ret (Inl OwnedByAnother, locks)
      | Some mine \<Rightarrow>
          (case opened_broker cr env cfg disk of
             Inl e \<Rightarrow> ret (Inl e, if e = KeysUnreadable then locks else mine)
           | Inr b \<Rightarrow> do {
               (r, b1) \<leftarrow> reconcile_pending cr (se_pending env) b;
               ret (case r of Inl e \<Rightarrow> Inl (PendingFails e) | Inr n \<Rightarrow> settle_start cr env b1, mine) }))"

section \<open>The upgrade of old attestations\<close>

definition reattest_one :: "crypto \<Rightarrow> keys \<Rightarrow> string \<Rightarrow> (world, errno + jobj option) state" where
  \<comment> \<open>one turn of the loop: the old attestation, if the file was re-signed (the ring of a broker
      can sign)\<close>
  "reattest_one cr ks target = do {
     opened \<leftarrow> open_parent target;
     (case opened of
        None \<Rightarrow> done_with None
      | Some (d, leaf) \<Rightarrow>
          andthen (sys (open_read d leaf)) (\<lambda>i.
          andthen (sys (fd_getxattr i)) (\<lambda>raw.
            case check_attestation cr (Some ks) (Some raw) of
              None \<Rightarrow> done_with None
            | Some a \<Rightarrow>
                if jget a ''scheme'' \<noteq> JStr ''legacy'' then done_with None
                else andthen (digest_at cr d leaf) (\<lambda>h.
                  if JStr h \<noteq> jget a ''digest'' then done_with None
                  else (case sign cr (k_ring ks) (case jget a ''rid'' of JStr r \<Rightarrow> r | _ \<Rightarrow> []) target h of
                          Some new \<Rightarrow> andthen (set_att d leaf (Some new)) (\<lambda>_. done_with (Some a))
                        | None \<Rightarrow> raise ENOTSUP))))) }"

definition reattested_record :: "ring \<Rightarrow> json \<Rightarrow> string \<Rightarrow> jobj" where
  "reattested_record r rid target =
     [(''event'', JStr ''reattested''), (''request_id'', rid), (''target'', JStr target), (''from'', JStr ''v1 (HMAC)''),
      (''to'', JStr (''v2 ('' @ (case active r of None \<Rightarrow> ''None'' | Some k \<Rightarrow> k) @ '')''))]"

record upgrade =
  up_upgraded :: "string list"
  up_refused :: "string list"

fun reattest_each ::
  "crypto \<Rightarrow> keys \<Rightarrow> (nat \<Rightarrow> append_env) \<Rightarrow> string list \<Rightarrow> string list \<Rightarrow> audit_log \<Rightarrow> upgrade \<Rightarrow>
   (world, (string + upgrade) \<times> audit_log) state" where
  "reattest_each cr ks envs flagged [] al u = ret (Inr u, al)"
| "reattest_each cr ks envs flagged (t # ts) al u =
     (if t \<in> set flagged then reattest_each cr ks envs flagged ts al (u\<lparr>up_refused := up_refused u @ [t]\<rparr>)
      else do {
        r \<leftarrow> reattest_one cr ks t;
        (case r of
           Inl x \<Rightarrow> ret (Inl (class_name x), al)
         | Inr None \<Rightarrow> reattest_each cr ks envs flagged ts al (u\<lparr>up_refused := up_refused u @ [t]\<rparr>)
         | Inr (Some a) \<Rightarrow>
             (case log_append cr (envs (length (up_upgraded u))) (reattested_record (k_ring ks) (jget a ''rid'') t) al of
                (False, al') \<Rightarrow> ret (Inl ''OSError'', al')
              | (True, al') \<Rightarrow> reattest_each cr ks envs flagged ts al' (u\<lparr>up_upgraded := up_upgraded u @ [t]\<rparr>))) })"

definition reattest_legacy ::
  "crypto \<Rightarrow> nat \<Rightarrow> keys \<Rightarrow> (nat \<Rightarrow> append_env) \<Rightarrow> audit_log \<Rightarrow> (world, (string + upgrade) \<times> audit_log) state" where
  \<comment> \<open>the verification sees the file system at one moment; foreign actors may act from then on\<close>
  "reattest_legacy cr depth ks envs al = do {
     w \<leftarrow> State_Monad.get;
     (case verify_world cr depth (w_fs w) (al_file al) (Some ks) of
        None \<Rightarrow> ret (Inl ''ValueError'', al)
      | Some rep \<Rightarrow> reattest_each cr ks envs (map fst (wr_findings rep)) (wr_legacy rep) al
                      \<lparr>up_upgraded = [], up_refused = []\<rparr>) }"

section \<open>A connection\<close>

definition MAX_REQUEST :: nat where "MAX_REQUEST = 1048576"

definition TOO_LARGE :: jobj where
  "TOO_LARGE = rejected [(''effect'', JStr ''none''), (''error'', JStr ''request too large'')]"

fun serve_lines ::
  "crypto \<Rightarrow> kernel_env \<Rightarrow> bool \<Rightarrow> (nat \<Rightarrow> req_env) \<Rightarrow> json \<Rightarrow> string list \<Rightarrow> broker \<Rightarrow> (world, jobj list \<times> broker) state" where
  \<comment> \<open>\<open>_Handler.handle\<close> of a connection that sends the lines, with their ends; \<open>envs i\<close> is what the
      \<open>i\<close>th request finds\<close>
  "serve_lines cr kn has envs peer [] b = ret ([], b)"
| "serve_lines cr kn has envs peer (raw # raws) b =
     (if MAX_REQUEST < length raw then ret ([TOO_LARGE], b)
      else do {
        (reply, b1) \<leftarrow> handle cr kn has (envs 0) (case loads raw of None \<Rightarrow> JNull | Some v \<Rightarrow> v) peer b;
        (replies, b2) \<leftarrow> serve_lines cr kn has (\<lambda>i. envs (Suc i)) peer raws b1;
        ret (reply # replies, b2) })"

section \<open>The agent's client\<close>

datatype channel =
    NoConnection string
  | Broken string           \<comment> \<open>an exception after the connection was made\<close>
  | Received string

definition proposal_message :: "string \<Rightarrow> (string \<times> string) list \<Rightarrow> string" where
  "proposal_message tool args =
     dumps (JObj [(''tool'', JStr tool), (''args'', JList (map (\<lambda>(k, v). JList [JStr k, JStr v]) args))]) @ [CHR 0x0A]"

definition propose :: "(string \<Rightarrow> channel) \<Rightarrow> string \<Rightarrow> (string \<times> string) list \<Rightarrow> json" where
  "propose ch tool args =
     (case ch (proposal_message tool args) of
        NoConnection e \<Rightarrow> JObj (rejected [(''effect'', JStr ''none''), (''error'', JStr (''broker unavailable: '' @ e))])
      | Broken e \<Rightarrow> JObj [(''decision'', JStr ''unknown''), (''effect'', JStr ''unknown''),
                         (''error'', JStr (''no valid reply after sending: '' @ e))]
      | Received data \<Rightarrow>
          (case loads data of
             Some v \<Rightarrow> v
           | None \<Rightarrow> JObj [(''decision'', JStr ''unknown''), (''effect'', JStr ''unknown''),
                         (''error'', JStr ''no valid reply after sending: invalid JSON'')]))"

end
