(* ===== verification/Replies.thy ===== *)
theory Replies
  imports Request Basis
begin

text \<open>
  What the broker writes can be read again: every reply of \<open>handle\<close> is a JSON object whose dictionaries have
  each key once, whatever was proposed, so is every record it hands to the log, and therefore the log of a
  broker that has handled any requests loads, with the head, the count and the clock the broker has in memory.
\<close>

section \<open>Results of a computation\<close>

definition ensures :: "('a \<Rightarrow> bool) \<Rightarrow> (world, 'a) state \<Rightarrow> bool" where
  \<comment> \<open>whatever the world does meanwhile\<close>
  "ensures P m \<longleftrightarrow> (\<forall>w. P (fst (run_state m w)))"

abbreviation succeeds_with :: "('a \<Rightarrow> bool) \<Rightarrow> 'a io \<Rightarrow> bool" where
  "succeeds_with P \<equiv> ensures (case_sum (\<lambda>_. True) P)"

named_theorems ensures_rules "results of a computation"

lemma ensuresD: "ensures P m \<Longrightarrow> run_state m w = (x, w') \<Longrightarrow> P x"
  unfolding ensures_def by (metis fst_conv)

lemma ensures_ret [ensures_rules]: "P x \<Longrightarrow> ensures P (ret x)"
  by (simp add: ensures_def State_Monad.return_def)

lemma ensures_after:
  "ensures Q m \<Longrightarrow> (\<And>x. Q x \<Longrightarrow> ensures P (k x)) \<Longrightarrow> ensures P (State_Monad.bind m k)"
  unfolding ensures_def by (simp add: run_bind split: prod.split) (metis fst_conv)

lemma ensures_bind [ensures_rules]: "(\<And>x. ensures P (k x)) \<Longrightarrow> ensures P (State_Monad.bind m k)"
  by (rule ensures_after [where Q = "\<lambda>_. True"]) (simp_all add: ensures_def)

lemma ensures_andthen [ensures_rules]: "(\<And>x. succeeds_with P (k x)) \<Longrightarrow> succeeds_with P (andthen m k)"
  unfolding andthen_def by (rule ensures_bind) (simp add: ensures_ret split: sum.split)

lemma ensures_raise [ensures_rules]: "succeeds_with P (raise e)" by (simp add: raise_def ensures_ret)
lemma ensures_done [ensures_rules]: "P x \<Longrightarrow> succeeds_with P (done_with x)" by (simp add: done_with_def ensures_ret)

lemma ensures_if [ensures_rules]: "(c \<Longrightarrow> ensures P a) \<Longrightarrow> (\<not> c \<Longrightarrow> ensures P b) \<Longrightarrow> ensures P (if c then a else b)"
  by simp

lemma ensures_option [ensures_rules]:
  "(v = None \<Longrightarrow> ensures P a) \<Longrightarrow> (\<And>x. v = Some x \<Longrightarrow> ensures P (g x)) \<Longrightarrow> ensures P (case v of None \<Rightarrow> a | Some x \<Rightarrow> g x)"
  by (simp split: option.split)

lemma ensures_prod [ensures_rules]: "(\<And>x y. q = (x, y) \<Longrightarrow> ensures P (h x y)) \<Longrightarrow> ensures P (case q of (x, y) \<Rightarrow> h x y)"
  by (simp split: prod.split)

lemma ensures_sum [ensures_rules]:
  "(\<And>x. z = Inl x \<Longrightarrow> ensures P (l x)) \<Longrightarrow> (\<And>x. z = Inr x \<Longrightarrow> ensures P (r x)) \<Longrightarrow>
   ensures P (case z of Inl x \<Rightarrow> l x | Inr x \<Rightarrow> r x)"
  by (simp split: sum.split)

lemma ensures_Let [ensures_rules]: "(\<And>x. x = y \<Longrightarrow> ensures P (g x)) \<Longrightarrow> ensures P (Let y g)"
  by (simp add: Let_def)

section \<open>Well-formed fields\<close>

abbreviation wf_reply :: "jobj \<Rightarrow> bool" where
  "wf_reply d \<equiv> wf_json (JObj d)"

lemma wf_reply_fields: "wf_reply d \<Longrightarrow> wf_fields d"
  by (simp add: wf_fields_def)

lemma wf_reply_merge: "wf_reply d \<Longrightarrow> wf_fields new \<Longrightarrow> wf_reply (merge d new)"
proof (induction new arbitrary: d)
  case (Cons p new)
  obtain k v where p: "p = (k, v)" by (cases p)
  have "wf_reply (dset d k v)" by (rule wf_dset) (use Cons.prems p in simp_all)
  moreover have "merge d (p # new) = merge (dset d k v) new" by (simp add: merge_def p)
  ultimately show ?case using Cons p by simp
qed (simp add: merge_def)

lemma wf_jget: "wf_fields d \<Longrightarrow> wf_json (jget d k)"
  by (auto simp: jget_def wf_fields_def list_all_iff split: option.split dest: map_of_SomeD)

lemma wf_dget: "wf_fields d \<Longrightarrow> wf_json v \<Longrightarrow> wf_json (dget d k v)"
  by (auto simp: dget_def wf_fields_def list_all_iff split: option.split dest: map_of_SomeD)

lemma wf_fields_append [simp]: "wf_fields (d @ e) \<longleftrightarrow> wf_fields d \<and> wf_fields e"
  by (simp add: wf_fields_def)

lemma wf_fields_filter: "wf_fields d \<Longrightarrow> wf_fields (filter P d)"
  by (auto simp: wf_fields_def list_all_iff)

lemma wf_fields_without: "wf_fields d \<Longrightarrow> wf_fields (without k d)"
  by (simp add: without_def wf_fields_filter)

lemma wf_summary: "wf_json (proposal_summary hf obj)"
proof (cases obj)
  case (JObj d)
  have "wf_json (summary_arg hf a)" for a by (auto simp: summary_arg_def split: option.split)
  then show ?thesis by (auto simp: JObj proposal_summary_def Let_def list_all_iff split: json.split)
qed (simp_all add: proposal_summary_def)

lemma plain_record:
  assumes "wf_fields resp" and "wf_json summary"
  shows "plain_entry (record_entry hf summary rid event ivn tool resp)"
  using assms(2) wf_jget [OF assms(1)] wf_dget [OF assms(1)]
  by (simp add: plain_entry_def record_entry_def)

section \<open>The effect\<close>

lemma check_attestation_wf: "check_attestation cr ks raw = Some a \<Longrightarrow> wf_fields a"
  by (auto simp: check_attestation_def verify_def check_legacy_def Let_def wf_fields_def
      split: option.splits if_splits json.splits sum.splits why.splits dest!: loads_wf intro!: dset_wf)

lemma read_verdict_wf: "wf_reply (read_verdict cr ks path content raw manifest lat)"
proof -
  have "wf_reply (broker_verdict cr ks path digest raw lat)" for digest
    using wf_jget check_attestation_wf [of cr ks raw]
    by (auto simp: broker_verdict_def not_attributed_def split: option.split)
  from this [of "sha cr content"] show ?thesis
    using wf_jget [OF wf_reply_fields] by (auto simp: read_verdict_def Let_def)
qed

lemma execute_http_wf: "wf_fields (execute_http cr n settings url)"
proof -
  have "wf_fields (fetch cr n creds allow limit url)" for creds allow limit
    by (auto simp: fetch_def response_fields_def server_json_def Let_def split: sum.split exchange.split)
  then show ?thesis
    unfolding execute_http_def Let_def by (auto split: option.split intro!: wf_fields_filter wf_jget)
qed

lemma wf_failed [simp]: "wf_fields (failed_with e)" "wf_fields (conflicted e)"
  by (simp_all add: failed_with_def conflicted_def)

lemma exec_tool_wf: "succeeds_with wf_fields (exec_tool cr uuid tool d leaf args expected attest priv old_att)"
  unfolding exec_tool_def exec_read_def exec_write_def exec_rename_def exec_delete_def exec_list_def Let_def
  by (intro ensures_rules) (simp_all add: list_all_iff split: sum.split)

lemma execute_wf:
  assumes "\<And>url. wf_fields (get url)"
  shows "succeeds_with wf_fields (execute cr uuid get ivn expected attest priv old_att)"
proof -
  have "succeeds_with wf_fields (State_Monad.bind (exec_tool cr uuid tool d leaf args expected attest priv old_att)
      (\<lambda>r. case r of Inr resp \<Rightarrow> done_with resp
         | Inl e \<Rightarrow> if e = ENOTIMPL then raise e else done_with (failed_with (error_line e))))" for tool d leaf args
    by (rule ensures_after [OF exec_tool_wf]) (auto intro!: ensures_rules split: sum.split)
  then show ?thesis unfolding execute_def Let_def
    by (cases "i_tool ivn = ''http_get''") (auto intro!: ensures_done assms ensures_bind split: option.split)
qed

lemma judged_read_wf:
  assumes "wf_fields result" and "judged_read cr b manifest path content result = Some judged"
  shows "wf_fields judged"
  using assms read_verdict_wf
  by (auto simp: judged_read_def Let_def split: option.splits if_splits simp del: wf_json.simps(2)
      intro!: wf_fields_merge wf_fields_without)

lemma perform_wf: "ensures (case_sum (\<lambda>_. True) wf_fields) (perform cr env p b)"
  unfolding perform_def Let_def
  by (rule ensures_after [OF execute_wf [OF execute_http_wf]])
    (auto intro!: ensures_rules dest: judged_read_wf split: sum.splits prod.split bool.split json.split option.split)

section \<open>The decision\<close>

definition decided_wf :: "(string + decision) \<times> broker \<Rightarrow> bool" where
  "decided_wf rb \<longleftrightarrow> (case fst rb of Inl e \<Rightarrow> True | Inr d \<Rightarrow> wf_reply (d_resp d))"

lemma kernel_decide_wf:
  assumes "kernel_decide path nonce io request pr = (d, pr')"
  shows "wf_json (kd_failure d) \<and> wf_json (kd_error d)"
  using assms
  by (auto simp: kernel_decide_def kernel_reply_def rejection_def wf_fields_def
      split: if_splits kernel_io.splits option.splits json.splits dest!: loads_wf intro!: wf_jget)

lemma ask_kernel_wf: "ask_kernel kn env ivn tool args m b = (d, b') \<Longrightarrow> wf_reply (d_resp d)"
  by (auto simp: ask_kernel_def decision_of_def rejected_def split: prod.splits if_splits dest!: kernel_decide_wf)

lemma decision_resp [simp]: "d_resp (decision_of i t r m) = r" "d_resp (intent_refusal ivn tool err) = rejected [(''failure'', JStr ''intent''), (''error'', err)]"
  by (simp_all add: decision_of_def intent_refusal_def)

lemma match_intent_wf: "ensures (\<lambda>(r, b'). case r of Inl x \<Rightarrow> decided_wf (x, b') | Inr m \<Rightarrow> True) (match_intent cr ivn tool args b)"
  unfolding match_intent_def Let_def
  by (intro ensures_rules) (simp_all add: decided_wf_def rejected_def split: list.split option.split)

lemma decide_wf: "ensures decided_wf (decide cr kn env obj b)"
  unfolding decide_def Let_def
  by (intro ensures_rules ensures_after [OF match_intent_wf])
    (auto intro!: ensures_rules dest: ask_kernel_wf simp: decided_wf_def rejected_def split: sum.splits prod.splits)

section \<open>The broker's state\<close>

definition sound :: "crypto \<Rightarrow> bool \<Rightarrow> broker \<Rightarrow> bool" where
  \<comment> \<open>the recorded effects of keys can be replied; the flag: and the log is in step with its file\<close>
  "sound cr disk b \<longleftrightarrow> list_all (\<lambda>(k, e). wf_json (ke_effect e)) (b_keys b) \<and> (disk \<longrightarrow> in_step (sha cr) (b_log b))"

definition disk_works :: "bool \<Rightarrow> req_env \<Rightarrow> bool" where
  "disk_works disk env \<longleftrightarrow> (disk \<longrightarrow> (\<forall>i. faultless (re_append env i)))"

lemma keys_dset_all: "list_all (\<lambda>(k, e). Q e) d \<Longrightarrow> Q v \<Longrightarrow> list_all (\<lambda>(k, e). Q e) (dset d k v)"
  by (induction d) auto

lemma sound_other:
  "b_keys b' = b_keys b \<Longrightarrow> b_log b' = b_log b \<Longrightarrow> sound cr disk b' = sound cr disk b"
  by (simp add: sound_def)

lemma append_sound:
  assumes "sound cr disk b" and "plain_entry e" and "disk_works disk env"
  shows "sound cr disk (b\<lparr>b_log := snd (log_append cr (re_append env i) e (b_log b))\<rparr>)"
  using assms append_in_step [of cr "b_log b" e "re_append env i"] by (auto simp: sound_def disk_works_def)

lemma record_sound:
  assumes "record_request cr (re_append env i) summary rid event ivn tool resp b = (ok, b')"
    and "sound cr disk b" and "disk_works disk env" and "wf_fields resp" and "wf_json summary"
  shows "sound cr disk b'"
proof -
  let ?e = "record_entry (sha cr) summary rid event ivn tool resp"
  have "b' = b\<lparr>b_log := snd (log_append cr (re_append env i) ?e (b_log b))\<rparr>"
    using assms(1) by (auto simp: record_request_def split: prod.splits)
  then show ?thesis using append_sound [OF assms(2) plain_record [OF assms(4,5)] assms(3)] by simp
qed

definition started_wf :: "started \<Rightarrow> bool" where
  "started_wf s \<longleftrightarrow> (case s of Answered reply \<Rightarrow> wf_reply reply | Started p \<Rightarrow> wf_reply (p_resp p) \<and> wf_json (p_summary p))"

section \<open>The first part of a request\<close>

lemma answer_sound:
  assumes "sound cr disk b" and "disk_works disk env" and "wf_fields resp" and "wf_json summary"
  shows "sound cr disk (snd (answer cr env summary event ivn tool resp b))"
  using record_sound [OF _ assms] by (metis answer_def prod.collapse)

lemma prepare_wf: "wf_reply resp \<Longrightarrow> ensures (\<lambda>ev. wf_reply (ev_resp ev)) (prepare cr uuid ivn resp)"
  unfolding prepare_def prepare_rename_def Let_def
  by (intro ensures_rules) (simp_all add: wf_reply_merge del: wf_json.simps(2))

lemma commit_request_sound:
  assumes "commit_request cr env key summary ivn m ev b = (s, b')" and "sound cr disk b" and "disk_works disk env"
    and "wf_reply (ev_resp ev)" and "wf_json summary"
  shows "started_wf s \<and> sound cr disk b'"
proof -
  obtain ok b1 where r: "record_request cr (re_append env 0) summary (re_rid env) ''prepared'' (Some ivn)
      (Some (i_tool ivn)) (ev_resp ev) b = (ok, b1)" by fastforce
  have b1: "sound cr disk b1" by (rule record_sound [OF r assms(2,3) wf_reply_fields [OF assms(4)] assms(5)])
  have keyed: "sound cr disk (b1\<lparr>b_keys := dset (b_keys b1) k \<lparr>ke_rid = x, ke_hash = h, ke_state = st, ke_effect = JNull\<rparr>\<rparr>)" for k x h st
    using b1 keys_dset_all [of "\<lambda>e. wf_json (ke_effect e)" "b_keys b1"] by (simp add: sound_def)
  have "wf_reply (merge (ev_resp ev) [(''intent_reserved'', JStr l)])" for l
    using assms(4) by (intro wf_reply_merge) simp_all
  moreover have "wf_reply (no_evidence_reply rid)" for rid
    by (simp add: no_evidence_reply_def rejected_def nothing_done_def)
  ultimately show ?thesis using assms(1,4,5) b1 keyed
    by (auto simp: commit_request_def r started_wf_def Let_def sound_def simp del: wf_json.simps(2)
        split: bool.splits option.splits prod.splits)
qed

lemma admitted_request_sound:
  assumes "sound cr disk b" and "disk_works disk env" and "wf_reply resp" and "wf_json summary"
  shows "ensures (\<lambda>(s, b'). started_wf s \<and> sound cr disk b') (admitted_request cr env key summary ivn m resp b)"
proof -
  have u: "wf_reply (unattested_reply rid)" for rid by (simp add: unattested_reply_def rejected_def nothing_done_def)
  show ?thesis
    unfolding admitted_request_def Let_def
    by (rule ensures_after [OF prepare_wf [OF assms(3)]], rule ensures_ret)
      (use answer_sound [OF assms(1,2) wf_reply_fields [OF u] assms(4)] u commit_request_sound [OF _ assms(1,2) _ assms(4)] in
        \<open>auto simp: started_wf_def simp del: wf_json.simps(2)\<close>)
qed

lemma duplicate_reply_wf:
  "wf_json peer \<Longrightarrow> wf_json (ke_effect prior) \<Longrightarrow> wf_reply (duplicate_reply hf rid peer prior ivn)"
  by (simp add: duplicate_reply_def rejected_def nothing_done_def)

lemma nothing_done_fields [simp]: "wf_fields (nothing_done rid)"
  by (simp add: nothing_done_def)

lemma decided_request_sound:
  assumes "sound cr disk b" and "disk_works disk env" and "wf_json peer" and "wf_json summary" and "wf_reply (d_resp d)"
  shows "ensures (\<lambda>(s, b'). started_wf s \<and> sound cr disk b') (decided_request cr env key peer summary d b)"
proof -
  let ?resp = "merge (merge (d_resp d) (if truthy peer then [(''peer'', peer)] else []))
                 (case key of None \<Rightarrow> [] | Some k \<Rightarrow> [(''idempotency_key'', JStr k)])"
  have resp: "wf_reply ?resp"
    using assms(3,5) by (intro wf_reply_merge) (auto split: option.split)
  then have reply: "wf_reply (merge ?resp (nothing_done (re_rid env)))" by (rule wf_reply_merge) simp
  have prior: "wf_json (ke_effect e)" if "map_of (b_keys b) k = Some e" for k e
    using assms(1) map_of_SomeD [OF that] by (auto simp: sound_def list_all_iff)
  have dup: "started_wf (Answered (duplicate_reply (sha cr) (re_rid env) peer e (d_inv d))) \<and>
      sound cr disk (snd (answer cr env summary ''duplicate'' (d_inv d) (d_tool d) (duplicate_reply (sha cr) (re_rid env) peer e (d_inv d)) b))"
    if bound: "Option.bind key (map_of (b_keys b)) = Some e" for e
  proof -
    obtain k where "map_of (b_keys b) k = Some e" using bound by (cases key) auto
    from duplicate_reply_wf [OF assms(3) prior [OF this]]
    have "wf_reply (duplicate_reply (sha cr) (re_rid env) peer e (d_inv d))" .
    then show ?thesis using answer_sound [OF assms(1,2) wf_reply_fields assms(4)] by (simp add: started_wf_def del: wf_json.simps(2))
  qed
  have refused: "ensures (\<lambda>(s, b'). started_wf s \<and> sound cr disk b')
     (case answer cr env summary ''decision'' (d_inv d) (d_tool d) (merge ?resp (nothing_done (re_rid env))) b of
        (ok, b') \<Rightarrow> ret (Answered (merge (merge ?resp (nothing_done (re_rid env))) [(''evidence'',
           JStr (if ok then ''recorded'' else ''unrecorded''))]), b'))"
  proof (intro ensures_rules)
    fix ok b'
    assume a: "answer cr env summary ''decision'' (d_inv d) (d_tool d) (merge ?resp (nothing_done (re_rid env))) b = (ok, b')"
    have "sound cr disk b'" using answer_sound [OF assms(1,2) wf_reply_fields [OF reply] assms(4)] a by (metis snd_conv)
    moreover have "wf_reply (merge (merge ?resp (nothing_done (re_rid env))) [(''evidence'', JStr v)])" for v
      using reply by (rule wf_reply_merge) simp
    ultimately show "case (Answered (merge (merge ?resp (nothing_done (re_rid env))) [(''evidence'',
           JStr (if ok then ''recorded'' else ''unrecorded''))]), b') of (s, b') \<Rightarrow> started_wf s \<and> sound cr disk b'"
      by (simp add: started_wf_def del: wf_json.simps(2))
  qed
  show ?thesis
  proof (cases "Option.bind key (map_of (b_keys b))")
    case (Some e)
    then show ?thesis unfolding decided_request_def Let_def using dup [OF Some] by (simp add: ensures_ret)
  next
    case None
    show ?thesis
    proof (cases "jget ?resp ''decision'' = JStr ''admit'' \<and> d_inv d \<noteq> None")
      case True
      then obtain ivn where i: "d_inv d = Some ivn" "jget ?resp ''decision'' = JStr ''admit''" by auto
      show ?thesis unfolding decided_request_def Let_def None i
        using admitted_request_sound [OF assms(1,2) resp assms(4)] by simp
    next
      case False
      then show ?thesis using refused unfolding decided_request_def Let_def None
        by (cases "d_inv d") (auto split: bool.split split del: if_split)
    qed
  qed
qed

section \<open>A request\<close>

lemma begin_request_sound:
  assumes "sound cr disk b" and "disk_works disk env" and "wf_json peer"
  shows "ensures (\<lambda>(r, b'). sound cr disk b' \<and> (case r of Inl e \<Rightarrow> True | Inr s \<Rightarrow> started_wf s)) (begin_request cr kn env obj peer b)"
proof -
  let ?d = "decide cr kn env (without_key obj) b"
  have clock: "wf_reply (clock_reply rid peer)" for rid using assms(3) by (simp add: clock_reply_def rejected_def nothing_done_def)
  have bad: "wf_reply (rejected (nothing_done rid @ [(''error'', JStr e)]))" for rid e by (simp add: rejected_def nothing_done_def)
  have d: "ensures (\<lambda>(r, b'). decided_wf (r, b') \<and> sound cr disk b') ?d"
    unfolding ensures_def
  proof
    fix w
    obtain r b' w' where run: "run_state ?d w = ((r, b'), w')" by (metis surj_pair)
    have "sound cr disk b'" using sound_other [of b' b cr disk] decide_cases [OF run] assms(1) by simp
    then show "case fst (run_state ?d w) of (r, b') \<Rightarrow> decided_wf (r, b') \<and> sound cr disk b'"
      using ensuresD [OF decide_wf run] run by simp
  qed
  show ?thesis
    unfolding begin_request_def Let_def
    apply (intro ensures_if ensures_ret)
      apply (use bad assms(1) in \<open>simp add: started_wf_def del: wf_json.simps(2)\<close>)
     apply (use clock answer_sound [OF assms(1,2) wf_reply_fields [OF clock] wf_summary] in \<open>simp add: started_wf_def del: wf_json.simps(2)\<close>)
    apply (rule ensures_after [OF d])
    apply (intro ensures_prod ensures_sum)
     apply (rule ensures_ret)
     apply simp
    apply (rule ensures_after [OF decided_request_sound])
    apply (auto simp: decided_wf_def assms wf_summary intro!: ensures_rules simp del: wf_json.simps(2))
    done
qed

lemma observed_fields_wf: "ensures wf_fields (observed_fields cr tool ev)"
  unfolding observed_fields_def Let_def by (intro ensures_rules) simp_all

lemma outcome_fields_wf:
  assumes "wf_fields result"
  shows "wf_fields (outcome_fields rid tool result)"
  using wf_jget [OF assms] assms
  by (auto simp: outcome_fields_def Let_def wf_fields_without intro!: wf_fields_merge)

lemma settle_outcome_sound:
  assumes "settle_outcome cr (re_append env i) rid verdict resp b = (reply, b')" and "sound cr disk b" and "disk_works disk env"
    and "wf_reply resp" and "wf_json verdict"
  shows "wf_reply reply \<and> sound cr disk b'"
proof (cases "available (b_store b) \<noteq> None \<and> map_of (held (b_store b)) rid \<noteq> None")
  case True
  obtain r st dk al where s: "settle_and_record cr (re_append env i) rid verdict (b_store b) (b_disk b) (b_log b) = (r, st, dk, al)"
    by (metis surj_pair)
  have reply: "reply = merge resp (settled_fields r)" and b': "b' = b\<lparr>b_store := st, b_disk := dk, b_log := al\<rparr>"
    using assms(1) True by (simp_all add: settle_outcome_def s)
  have "plain_entry (settlement rid verdict used)" for used
    using assms(5) by (simp add: plain_entry_def settlement_def)
  note settled = append_sound [OF assms(2) this assms(3), of i]
  have "sound cr disk (b\<lparr>b_log := al\<rparr>)"
  proof -
    obtain used where used: "map_of (held (b_store b)) rid = Some used" using True by auto
    obtain fine al' where la: "log_append cr (re_append env i) (settlement rid verdict used) (b_log b) = (fine, al')" by fastforce
    have "al = al'" using s by (auto simp: settle_and_record_def used la Let_def split: bool.splits prod.splits if_splits)
    then show ?thesis using settled [of used] by (simp add: la)
  qed
  moreover have "wf_fields (settled_fields r)" by (simp add: settled_fields_def split: sum.split option.split)
  ultimately show ?thesis using wf_reply_merge [OF assms(4)] by (simp add: reply b' sound_def del: wf_json.simps(2))
next
  case False
  then show ?thesis using assms(1,2,4) by (auto simp: settle_outcome_def simp del: wf_json.simps(2))
qed

lemma close_key_sound: "sound cr disk b \<Longrightarrow> wf_json eff \<Longrightarrow> sound cr disk (close_key key eff b)"
  using keys_dset_all [of "\<lambda>e. wf_json (ke_effect e)" "b_keys b"]
  by (simp add: close_key_def sound_def split: option.split)

lemma finish_request_sound:
  assumes "sound cr disk b" and "disk_works disk env" and "wf_reply (p_resp p)" and "wf_json (p_summary p)" and "wf_fields result"
  shows "ensures (\<lambda>(reply, b'). wf_reply reply \<and> sound cr disk b') (finish_request cr env p result b)"
  unfolding finish_request_def Let_def
proof (rule ensures_after [OF observed_fields_wf], intro ensures_rules)
  fix seen ok b1 reply b2
  let ?resp = "merge (p_resp p) (outcome_fields (p_rid p) (i_tool (p_inv p)) result @ seen)"
  assume seen: "wf_fields seen"
    and rec: "record_request cr (re_append env 1) (p_summary p) (p_rid p) ''outcome'' (Some (p_inv p)) (Some (i_tool (p_inv p))) ?resp b = (ok, b1)"
    and fin: "(if ok then settle_outcome cr (re_append env 2) (p_rid p) (intent_verdict (p_evidence p) result ?resp)
                  (merge ?resp [(''evidence'', JStr ''recorded'')]) b1
               else (merge ?resp [(''evidence'', JStr ''outcome_unrecorded'')], b1)) = (reply, b2)"
  have resp: "wf_reply ?resp" using seen outcome_fields_wf [OF assms(5)] by (intro wf_reply_merge [OF assms(3)]) simp
  have b1: "sound cr disk b1" by (rule record_sound [OF rec assms(1,2) wf_reply_fields [OF resp] assms(4)])
  have said: "wf_reply (merge ?resp [(''evidence'', JStr v)])" for v using resp by (rule wf_reply_merge) simp
  have verdict: "wf_json (intent_verdict (p_evidence p) result ?resp)"
    using wf_jget [OF wf_reply_fields [OF resp]] by (simp add: intent_verdict_def)
  have "wf_reply reply \<and> sound cr disk b2"
    using fin settle_outcome_sound [OF _ b1 assms(2) said verdict] said b1 by (cases ok) (auto simp del: wf_json.simps(2))
  then show "case (reply, close_key (p_key p) (jget reply ''effect'') b2) of (reply, b') \<Rightarrow> wf_reply reply \<and> sound cr disk b'"
    using close_key_sound wf_jget [OF wf_reply_fields] by (simp del: wf_json.simps(2))
qed

lemma respond_sound:
  assumes "sound cr disk b" and "disk_works disk env" and "wf_json peer"
  shows "ensures (\<lambda>(r, b'). sound cr disk b' \<and> (case r of Inl e \<Rightarrow> True | Inr reply \<Rightarrow> wf_reply reply)) (respond cr kn env obj peer b)"
  unfolding respond_def
proof (rule ensures_after [OF begin_request_sound [OF assms]], clarify)
  fix r :: "string + started" and b1
  assume b1: "sound cr disk b1" and r: "case r of Inl e \<Rightarrow> True | Inr s \<Rightarrow> started_wf s"
  show "ensures (\<lambda>(r, b'). sound cr disk b' \<and> (case r of Inl e \<Rightarrow> True | Inr reply \<Rightarrow> wf_reply reply))
    (case r of Inl e \<Rightarrow> ret (Inl e, b1) | Inr (Answered reply) \<Rightarrow> ret (Inr reply, b1)
     | Inr (Started p) \<Rightarrow> State_Monad.bind (perform cr env p b1) (\<lambda>x. case x of Inl e \<Rightarrow> ret (Inl e, b1)
         | Inr result \<Rightarrow> State_Monad.bind (finish_request cr env p result b1) (\<lambda>(reply, b2). ret (Inr reply, b2))))"
  proof (cases r)
    case (Inl e)
    then show ?thesis using b1 by (simp add: ensures_ret)
  next
    case (Inr s)
    show ?thesis
    proof (cases s)
      case (Answered reply)
      then show ?thesis using b1 r Inr by (simp add: ensures_ret started_wf_def del: wf_json.simps(2))
    next
      case (Started p)
      then have p: "wf_reply (p_resp p)" "wf_json (p_summary p)" using r Inr by (simp_all add: started_wf_def del: wf_json.simps(2))
      have "ensures (\<lambda>(r, b'). sound cr disk b' \<and> (case r of Inl e \<Rightarrow> True | Inr reply \<Rightarrow> wf_reply reply))
          (State_Monad.bind (finish_request cr env p result b1) (\<lambda>(reply, b2). ret (Inr reply, b2)))" if "wf_fields result" for result
        by (rule ensures_after [OF finish_request_sound [OF b1 assms(2) p that]])
          (auto intro!: ensures_rules simp del: wf_json.simps(2))
      then have "ensures (\<lambda>(r, b'). sound cr disk b' \<and> (case r of Inl e \<Rightarrow> True | Inr reply \<Rightarrow> wf_reply reply))
         (State_Monad.bind (perform cr env p b1) (\<lambda>x. case x of Inl e \<Rightarrow> ret (Inl e, b1)
           | Inr result \<Rightarrow> State_Monad.bind (finish_request cr env p result b1) (\<lambda>(reply, b2). ret (Inr reply, b2))))"
        using b1 by (intro ensures_after [OF perform_wf] ensures_sum) (auto intro!: ensures_ret simp del: wf_json.simps(2))
      then show ?thesis by (simp add: Inr Started)
    qed
  qed
qed

lemma claims_wf:
  "list_all wf_json (refusal_claims f)" "list_all wf_json (admission_claims resp)" "list_all wf_json (file_claims has resp)"
  "list_all wf_json (state_claims resp)" "list_all wf_json (retry_claims resp earlier)" "list_all wf_json (remote_claims resp)"
proof -
  have c: "wf_json (claim t ths as)" for t ths as by (simp add: claim_def list_all_iff)
  show "list_all wf_json (refusal_claims f)" by (simp add: refusal_claims_def c split: json.split)
  show "list_all wf_json (admission_claims resp)" by (simp add: admission_claims_def c Let_def)
  show "list_all wf_json (file_claims has resp)" by (simp add: file_claims_def c Let_def)
  show "list_all wf_json (state_claims resp)" by (simp add: state_claims_def c)
  show "list_all wf_json (retry_claims resp earlier)" by (simp add: retry_claims_def c)
  show "list_all wf_json (remote_claims resp)" by (simp add: remote_claims_def c)
qed

lemma basis_wf: "basis has resp = Some cs \<Longrightarrow> list_all wf_json cs"
  using claims_wf by (auto simp: basis_def)

lemma with_basis_wf: "(case r of Inl e \<Rightarrow> True | Inr reply \<Rightarrow> wf_reply reply) \<Longrightarrow> wf_reply (with_basis has r)"
proof -
  have "wf_reply (error_reply x)" for x by (simp add: error_reply_def)
  then show "(case r of Inl e \<Rightarrow> True | Inr reply \<Rightarrow> wf_reply reply) \<Longrightarrow> wf_reply (with_basis has r)"
    using basis_wf
    by (auto simp: with_basis_def simp del: wf_json.simps(2) split: sum.splits option.split intro!: wf_reply_merge)
qed

lemma handle_sound:
  assumes "sound cr disk b" and "disk_works disk env" and "wf_json peer"
  shows "ensures (\<lambda>(reply, b'). wf_reply reply \<and> sound cr disk b') (handle cr kn has env obj peer b)"
  unfolding handle_def
  by (intro ensures_after [OF respond_sound [OF assms]])
    (use with_basis_wf in \<open>auto intro!: ensures_rules simp del: wf_json.simps(2)\<close>)

end
