(* ===== verification/Restart.thy ===== *)
theory Restart
  imports Startup Replies
begin

text \<open>
  What a start makes of the log a process left, wherever it stopped: every request that was
  prepared is closed, once, and every idempotency key that went on to its effect is known again.
\<close>

section \<open>The entries of the log\<close>

lemma log_entries_written:
  assumes "ends_line t" and "plain_entry e"
  shows "\<exists>d. log_entries (t @ entry_line hf e) = map_option (\<lambda>vs. vs @ [JObj d]) (log_entries t) \<and>
           (\<forall>k. k \<noteq> ''entry_hash'' \<longrightarrow> map_of d k = map_option canon (map_of e k))"
proof -
  from entry_line_loads [OF assms(2)] obtain d where
    d: "loads (signed_line hf e) = Some (JObj d)" "\<And>k. k \<noteq> ''entry_hash'' \<Longrightarrow> map_of d k = map_option canon (map_of e k)"
    by metis
  have "lines_of (t @ entry_line hf e) = lines_of t @ [signed_line hf e]"
    unfolding entry_line_def by (rule lines_of_written(1) [OF assms(1) signed_line_shape])
  then have "log_entries (t @ entry_line hf e) = map_option (\<lambda>vs. vs @ [JObj d]) (log_entries t)"
    using d(1) by (simp add: log_entries_def parse_lines_append split: option.split)
  then show ?thesis using d(2) by blast
qed

definition aside :: "json \<Rightarrow> bool" where
  \<comment> \<open>an entry a start takes no notice of\<close>
  "aside v \<longleftrightarrow> jget (jfields v) ''event'' \<notin> {JStr ''prepared'', JStr ''outcome'', JStr ''reconciled''}"

definition adds_entry :: "jobj \<Rightarrow> json list \<Rightarrow> json list \<Rightarrow> bool" where
  \<comment> \<open>the log's entries before and after an append of the entry\<close>
  "adds_entry e vs vs' \<longleftrightarrow>
     (\<exists>d extra. vs' = vs @ JObj d # extra \<and> list_all aside extra \<and>
        (\<forall>k. k \<notin> {''entry_hash'', ''prev_hash'', ''ts''} \<longrightarrow> map_of d k = map_option canon (map_of e k)))"

lemma chained_other: "k \<notin> {''prev_hash'', ''ts''} \<Longrightarrow> map_of (chained prev now e) k = map_of e k"
  by (simp add: chained_def)

lemma write_line_entries:
  assumes "in_step hf al" and "plain_entry e" and "log_entries (al_text al) = Some vs"
    and "write_line hf WriteOk now e al = (ok, al')"
  shows "\<exists>d. log_entries (al_text al') = Some (vs @ [JObj d]) \<and>
           (\<forall>k. k \<notin> {''entry_hash'', ''prev_hash'', ''ts''} \<longrightarrow> map_of d k = map_option canon (map_of e k))"
proof -
  have "al_text al' = al_text al @ entry_line hf (chained (al_prev al) now e)"
    using assms(4) by (auto simp: write_line_def Let_def al_text_def)
  moreover have "ends_line (al_text al)" using assms(1) by (simp add: in_step_def)
  ultimately show ?thesis
    using log_entries_written [OF _ plain_chained [OF assms(2)], of "al_text al" hf "al_prev al" now] assms(3)
    by (auto simp: chained_other)
qed

lemma run_checkpoint_entries:
  assumes "in_step (sha cr) al" and "faultless env" and "log_entries (al_text al) = Some vs"
  shows "\<exists>extra. log_entries (al_text (snd (run_checkpoint cr env force al))) = Some (vs @ extra) \<and> list_all aside extra"
proof -
  have same: "al_text (al\<lparr>al_ck := x\<rparr>) = al_text al" for x by (simp add: al_text_def)
  show ?thesis
  proof (cases "al_ck al")
    case None
    then show ?thesis using assms(3) by (intro exI [of _ "[]"]) (simp add: run_checkpoint_def)
  next
    case (Some ck)
    show ?thesis
    proof (cases "al_genesis al")
      case None
      then show ?thesis using assms(3) Some by (intro exI [of _ "[]"]) (simp add: run_checkpoint_def)
    next
      case g: (Some g)
      obtain r ck' where m: "maybe_publish cr (ae_sink env) g (al_count al) (al_prev al) force ck = (r, ck')" by fastforce
      show ?thesis
      proof (cases r)
        case None
        then show ?thesis using assms(3) Some g m same by (intro exI [of _ "[]"]) (simp add: run_checkpoint_def)
      next
        case err: (Some err)
        let ?al = "al\<lparr>al_ck := Some ck'\<rparr>"
        obtain ok al' where w: "write_line (sha cr) WriteOk (ae_now2 env) (checkpoint_failed err (al_count al)) ?al = (ok, al')"
          by fastforce
        from write_line_entries [OF _ plain_checkpoint_failed _ w, of vs] assms(1,3) same obtain d where
          d: "log_entries (al_text al') = Some (vs @ [JObj d])"
          "\<forall>k. k \<notin> {''entry_hash'', ''prev_hash'', ''ts''} \<longrightarrow> map_of d k = map_option canon (map_of (checkpoint_failed err (al_count al)) k)"
          by auto
        have "aside (JObj d)" using d(2) by (simp add: aside_def jfields_def jget_def checkpoint_failed_def)
        moreover have "snd (run_checkpoint cr env force al) = al'"
          using assms(2) Some g m err w by (simp add: run_checkpoint_def faultless_def)
        ultimately show ?thesis using d(1) by (intro exI [of _ "[JObj d]"]) simp
      qed
    qed
  qed
qed

lemma append_entries:
  assumes "in_step (sha cr) al" and "plain_entry e" and "faultless env" and "log_entries (al_text al) = Some vs"
  shows "\<exists>vs'. log_entries (al_text (snd (log_append cr env e al))) = Some vs' \<and> adds_entry e vs vs'"
proof -
  obtain ok al1 where w: "write_line (sha cr) WriteOk (ae_now env) e al = (ok, al1)" by fastforce
  then have ok by (auto simp: write_line_def Let_def)
  have s1: "in_step (sha cr) al1"
    using write_ok_in_step [OF assms(1,2), of "ae_now env"] assms(3) w by (simp add: faultless_def)
  from write_line_entries [OF assms(1,2,4) w] obtain d where d: "log_entries (al_text al1) = Some (vs @ [JObj d])"
    "\<forall>k. k \<notin> {''entry_hash'', ''prev_hash'', ''ts''} \<longrightarrow> map_of d k = map_option canon (map_of e k)" by blast
  from run_checkpoint_entries [OF s1 assms(3) d(1)] obtain extra where
    x: "log_entries (al_text (snd (run_checkpoint cr env False al1))) = Some ((vs @ [JObj d]) @ extra)" "list_all aside extra"
    by blast
  moreover have "snd (log_append cr env e al) = snd (run_checkpoint cr env False al1)"
    using assms(3) w \<open>ok\<close> by (simp add: log_append_def faultless_def)
  ultimately show ?thesis using d(2) unfolding adds_entry_def by (intro exI [of _ "(vs @ [JObj d]) @ extra"]) auto
qed

lemma in_step_entries: "in_step hf al \<Longrightarrow> \<exists>vs. log_entries (al_text al) = Some vs"
  using in_step_text [of hf al] by (metis loaded_entries)

section \<open>The scan of an extended log\<close>

lemma scan_append: "scan_log (vs @ ws) = foldl scan_entry (scan_log vs) ws"
  by (simp add: scan_log_def)

lemma scan_aside: "list_all aside extra \<Longrightarrow> foldl scan_entry s extra = s"
  by (induction extra) (auto simp: aside_def scan_entry_def Let_def)

lemma scan_prepared:
  assumes "adds_entry e vs vs'" and "map_of e ''event'' = Some (JStr ''prepared'')"
    and "map_of e ''request_id'' = Some (JStr rid)"
  shows "\<exists>d. scan_log vs' = (dset (fst (scan_log vs)) (JStr rid) d, snd (scan_log vs)) \<and>
           (\<forall>k. k \<notin> {''entry_hash'', ''prev_hash'', ''ts''} \<longrightarrow> map_of d k = map_option canon (map_of e k))"
proof -
  from assms(1) obtain d extra where d: "vs' = vs @ JObj d # extra" "list_all aside extra"
    "\<forall>k. k \<notin> {''entry_hash'', ''prev_hash'', ''ts''} \<longrightarrow> map_of d k = map_option canon (map_of e k)"
    unfolding adds_entry_def by blast
  then have "jget d ''event'' = JStr ''prepared''" "jget d ''request_id'' = JStr rid"
    using assms(2,3) by (simp_all add: jget_def)
  then have "scan_log vs' = (dset (fst (scan_log vs)) (JStr rid) d, snd (scan_log vs))"
    using d(1,2) by (simp add: scan_append scan_aside scan_entry_def Let_def jfields_def)
  with d(3) show ?thesis by blast
qed

lemma scan_reconciled:
  assumes "adds_entry (reconciled_record (JStr rid) e verdict observed) vs vs'"
  shows "scan_log vs' = (fst (scan_log vs), dset (snd (scan_log vs)) (JStr rid) (JStr verdict)) \<or> verdict = []"
proof -
  let ?e = "reconciled_record (JStr rid) e verdict observed"
  from assms obtain d extra where d: "vs' = vs @ JObj d # extra" "list_all aside extra"
    "\<And>k. k \<notin> {''entry_hash'', ''prev_hash'', ''ts''} \<Longrightarrow> map_of d k = map_option canon (map_of ?e k)"
    unfolding adds_entry_def by blast
  have "jget d ''event'' = JStr ''reconciled''" "jget d ''request_id'' = JStr rid" "jget d ''effect'' = JNull"
    "jget d ''reconciliation'' = JStr verdict"
    using d(3) by (simp_all add: jget_def reconciled_record_def)
  then show ?thesis
    using d(1,2) by (simp add: scan_append scan_aside scan_entry_def Let_def jfields_def py_or_def)
qed

section \<open>The keys\<close>

lemma rebuilt_key_other [simp]:
  "b_log (rebuilt_key rid e v b) = b_log b" "b_key (rebuilt_key rid e v b) = b_key b"
  "b_cfg (rebuilt_key rid e v b) = b_cfg b" "b_store (rebuilt_key rid e v b) = b_store b"
  by (simp_all add: rebuilt_key_def split: json.split)

lemma known_rebuilt: "known_keys b \<subseteq> known_keys (rebuilt_key rid e v b)"
  by (auto simp: rebuilt_key_def known_keys_dom update_conv' split: json.split)

lemma known_rebuilt_key: "jget e ''idempotency_key'' = JStr k \<Longrightarrow> k \<noteq> [] \<Longrightarrow> k \<in> known_keys (rebuilt_key rid e v b)"
  by (simp add: rebuilt_key_def known_keys_dom update_conv')

lemma reconcile_each_keys:
  "run_state (reconcile_each cr envs prs closed b n) w = ((Inr m, b'), w') \<Longrightarrow>
   known_keys b \<subseteq> known_keys b' \<and>
   (\<forall>(rid, e)\<in>set prs. \<forall>k. jget e ''idempotency_key'' = JStr k \<longrightarrow> k \<noteq> [] \<longrightarrow> k \<in> known_keys b')"
proof (induction cr envs prs closed b n arbitrary: w rule: reconcile_each.induct)
  case (1 cr envs closed b n)
  then show ?case by (simp add: State_Monad.return_def)
next
  case (2 cr envs rid e prs closed b n)
  show ?case
  proof (cases "map_of closed rid")
    case (Some v)
    then have "run_state (reconcile_each cr envs prs closed (rebuilt_key rid e v b) n) w = ((Inr m, b'), w')"
      using "2.prems" by simp
    from "2.IH"(2) [OF Some this] show ?thesis
      using known_rebuilt [of b rid e v] known_rebuilt_key [of e _ rid v b] by auto
  next
    case None
    obtain r w1 where j: "run_state (judge_pending cr (b_key b) e) w = (r, w1)"
      by (cases "run_state (judge_pending cr (b_key b) e) w") auto
    from "2.prems" None j obtain verdict observed where r: "r = Inr (verdict, observed)"
      by (cases r) (auto simp: run_bind State_Monad.return_def)
    obtain ok al where ap: "log_append cr (envs n) (reconciled_record rid e verdict observed) (b_log b) = (ok, al)" by fastforce
    from "2.prems" None j r ap have ok: ok by (cases ok) (auto simp: run_bind State_Monad.return_def)
    let ?b = "rebuilt_key rid e (JStr verdict) (b\<lparr>b_log := al\<rparr>)"
    have run: "run_state (reconcile_each cr envs prs (dset closed rid (JStr verdict)) ?b (Suc n)) w1 = ((Inr m, b'), w')"
      using "2.prems" None j r ap ok by (simp add: run_bind)
    have "known_keys (b\<lparr>b_log := al\<rparr>) = known_keys b" by (simp add: known_keys_def)
    with "2.IH"(1) [OF None ap [symmetric] _ run] ok show ?thesis
      using known_rebuilt [of "b\<lparr>b_log := al\<rparr>" rid e "JStr verdict"]
        known_rebuilt_key [of e _ rid "JStr verdict" "b\<lparr>b_log := al\<rparr>"] by fastforce
  qed
qed

section \<open>Well-formed records\<close>

lemma plain_reconciled:
  assumes "wf_fields e" and "wf_json observed" and "wf_json rid"
  shows "plain_entry (reconciled_record rid e verdict observed)"
  using assms by (simp add: plain_entry_def reconciled_record_def wf_jget)

section \<open>A key whose request was under way\<close>

lemma key_text_Some: "key_text v = Some k \<Longrightarrow> v = JStr k \<and> k \<noteq> []"
  by (cases v) (auto simp: key_text_def split: if_splits)

lemma started_scan:
  assumes run: "run_state (begin_request cr kn env obj peer b) w = ((Inr (Started p), b'), w')"
    and key: "p_key p = Some k"
    and log: "in_step (sha cr) (b_log b)" "faultless (re_append env 0)" "wf_json peer"
  shows "\<exists>vs t vs' d. log_entries (al_text (b_log b)) = Some vs \<and> al_file (b_log b') = Some t \<and> log_entries t = Some vs' \<and>
           scan_log vs' = (dset (fst (scan_log vs)) (JStr (re_rid env)) d, snd (scan_log vs)) \<and>
           jget d ''idempotency_key'' = JStr k \<and> k \<noteq> [] \<and> jget d ''tool'' = JStr (i_tool (p_inv p))"
proof -
  let ?s = "proposal_summary (sha cr) (without_key obj)"
  from begin_request_cases [OF run] obtain b1 m where b1: "b_log b1 = b_log b"
    "commits cr env (request_key obj) peer ?s m b1 p b'" by auto
  then have k: "request_key obj = Some k" using key by (simp add: commits_def)
  from b1 obtain resp where resp: "jget resp ''idempotency_key'' = JStr k" "wf_fields resp"
    "b_log b' = snd (log_append cr (re_append env 0)
       (record_entry (sha cr) ?s (re_rid env) ''prepared'' (Some (p_inv p)) (Some (i_tool (p_inv p))) resp) (b_log b))"
    using log(3) k by (auto simp: commits_def prepared_record_def)
  let ?e = "record_entry (sha cr) ?s (re_rid env) ''prepared'' (Some (p_inv p)) (Some (i_tool (p_inv p))) resp"
  have plain: "plain_entry ?e" by (rule plain_record) (simp_all add: resp wf_summary)
  obtain vs where vs: "log_entries (al_text (b_log b)) = Some vs" using in_step_entries [OF log(1)] by blast
  from append_entries [OF log(1) plain log(2) vs] obtain vs' where
    vs': "log_entries (al_text (b_log b')) = Some vs'" "adds_entry ?e vs vs'"
    unfolding resp(3) by blast
  have "al_file (b_log b') \<noteq> None"
  proof
    assume "al_file (b_log b') = None"
    then have "vs' = []" using vs'(1) by (simp add: al_text_def log_entries_def)
    then show False using vs'(2) by (simp add: adds_entry_def)
  qed
  then obtain t where t: "al_file (b_log b') = Some t" "log_entries t = Some vs'"
    using vs'(1) by (auto simp: al_text_def)
  obtain d where d: "scan_log vs' = (dset (fst (scan_log vs)) (JStr (re_rid env)) d, snd (scan_log vs))"
    "\<And>k. k \<notin> {''entry_hash'', ''prev_hash'', ''ts''} \<Longrightarrow> map_of d k = map_option canon (map_of ?e k)"
    using scan_prepared [OF vs'(2), of "re_rid env"] by (auto simp: record_entry_def)
  have "jget d ''idempotency_key'' = JStr k" "jget d ''tool'' = JStr (i_tool (p_inv p))"
    using d(2) [of "''idempotency_key''"] d(2) [of "''tool''"] resp(1) by (simp_all add: jget_def record_entry_def)
  moreover have "k \<noteq> []" using k key_text_Some by (auto simp: request_key_def bind_eq_Some_conv)
  ultimately show ?thesis using vs t d(1) by blast
qed

definition prepares :: "json \<Rightarrow> json list \<Rightarrow> bool" where
  \<comment> \<open>some of the entries is a \<open>prepared\<close> record of the request\<close>
  "prepares rid vs \<longleftrightarrow>
     list_ex (\<lambda>v. jget (jfields v) ''event'' = JStr ''prepared'' \<and> jget (jfields v) ''request_id'' = rid) vs"

lemma scan_keeps_prepared:
  "\<not> prepares rid vs \<Longrightarrow> map_of (fst s) rid = Some d \<Longrightarrow> map_of (fst (foldl scan_entry s vs)) rid = Some d"
proof (induction vs arbitrary: s)
  case (Cons v vs)
  have "map_of (fst (scan_entry s v)) rid = Some d"
    using Cons.prems by (auto simp: prepares_def scan_entry_def Let_def update_conv')
  moreover have "\<not> prepares rid vs" using Cons.prems(1) by (simp add: prepares_def)
  ultimately show ?case using Cons.IH by simp
qed simp

lemma begun_ends_line:
  assumes "run_state (begin_request cr kn env obj peer b) w = ((Inr (Started p), b'), w')"
    and "in_step (sha cr) (b_log b)" and "faultless (re_append env 0)" and "wf_json peer"
  shows "ends_line (al_text (b_log b'))"
proof -
  let ?s = "proposal_summary (sha cr) (without_key obj)"
  from begin_request_cases [OF assms(1)] obtain resp where "wf_fields resp"
    "b_log b' = snd (log_append cr (re_append env 0)
       (record_entry (sha cr) ?s (re_rid env) ''prepared'' (Some (p_inv p)) (Some (i_tool (p_inv p))) resp) (b_log b))"
    using assms(4) by (auto simp: commits_def prepared_record_def)
  moreover from this(1) have "plain_entry (record_entry (sha cr) ?s (re_rid env) ''prepared'' (Some (p_inv p)) (Some (i_tool (p_inv p))) resp)"
    by (intro plain_record) (simp_all add: wf_summary)
  ultimately show ?thesis using append_in_step [OF assms(2) _ assms(3)] by (simp add: in_step_def)
qed

lemma started_key_known:
  assumes run: "run_state (begin_request cr kn env obj peer b) w = ((Inr (Started p), b'), w')"
    and key: "p_key p = Some k"
    and log: "in_step (sha cr) (b_log b)" "faultless (re_append env 0)" "wf_json peer"
    and left: "al_file (b_log c) = Some (al_text (b_log b') @ later)"
    and one: "\<forall>vs. log_entries later = Some vs \<longrightarrow> \<not> prepares (JStr (p_rid p)) vs"
    and rec: "run_state (reconcile_pending cr envs c) v = ((Inr n, c'), v')"
  shows "k \<in> known_keys c'"
proof -
  from started_scan [OF run key log] obtain vs t vs' d where t: "al_file (b_log b') = Some t" "log_entries t = Some vs'"
    and d: "scan_log vs' = (dset (fst (scan_log vs)) (JStr (re_rid env)) d, snd (scan_log vs))"
    and k: "jget d ''idempotency_key'' = JStr k" "k \<noteq> []" by blast
  have rid: "p_rid p = re_rid env" using begin_request_cases [OF run] by (auto simp: commits_def)
  have e: "ends_line t" using begun_ends_line [OF run log] t(1) by (simp add: al_text_def)
  have left': "al_file (b_log c) = Some (t @ later)" using left t(1) by (simp add: al_text_def)
  obtain ws where ws: "log_entries later = Some ws"
    using rec left' log_entries_more [OF e t(2), of later]
    by (cases "log_entries later") (auto simp: reconcile_pending_def State_Monad.return_def)
  have "map_of (fst (scan_log vs')) (JStr (p_rid p)) = Some d" by (simp add: d rid)
  then have "map_of (fst (scan_log (vs' @ ws))) (JStr (p_rid p)) = Some d"
    using scan_keeps_prepared one ws by (simp add: scan_append)
  then have "(JStr (p_rid p), d) \<in> set (fst (scan_log (vs' @ ws)))" by (rule map_of_SomeD)
  moreover have "run_state (reconcile_each cr envs (fst (scan_log (vs' @ ws))) (snd (scan_log (vs' @ ws))) c 0) v = ((Inr n, c'), v')"
    using rec left' log_entries_more [OF e t(2), of later] ws by (simp add: reconcile_pending_def case_prod_beta)
  ultimately show ?thesis using reconcile_each_keys k by fastforce
qed

definition readable_states :: "jobj \<Rightarrow> bool" where
  \<comment> \<open>a record, of no rename, whose target and states are of the types a broker writes\<close>
  "readable_states e \<longleftrightarrow> jget e ''tool'' \<noteq> JStr ''rename_file'' \<and>
     (truthy (jget e ''target'') \<longrightarrow> (\<exists>t. jget e ''target'' = JStr t)) \<and>
     (truthy (jget e ''before_state'') \<longrightarrow> as_tuple (jget e ''before_state'') \<noteq> None) \<and>
     (truthy (jget e ''intended_state'') \<longrightarrow> as_tuple (jget e ''intended_state'') \<noteq> None)"

lemma judge_returns:
  "readable_states e \<Longrightarrow> \<exists>x w'. run_state (judge_pending cr ks e) w = (Inr x, w')"
  by (auto simp: judge_pending_def readable_states_def judge_recorded_def run_bind State_Monad.return_def
      split: option.split bool.split prod.split)

lemma reconcile_each_returns:
  assumes "\<And>i. faultless (envs i)" and "\<forall>(rid, e)\<in>set prs. readable_states e"
  shows "\<exists>m b' w'. run_state (reconcile_each cr envs prs closed b n) w = ((Inr m, b'), w')"
  using assms(2)
proof (induction prs arbitrary: closed b n w)
  case (Cons x prs)
  obtain rid e where x: "x = (rid, e)" by (cases x)
  show ?case
  proof (cases "map_of closed rid")
    case None
    obtain verdict observed w1 where j: "run_state (judge_pending cr (b_key b) e) w = (Inr (verdict, observed), w1)"
      using judge_returns [of e cr "b_key b" w] Cons.prems x by auto
    obtain al where "log_append cr (envs n) (reconciled_record rid e verdict observed) (b_log b) = (True, al)"
      using faultless_append [OF assms(1) [of n]] by (metis (full_types) prod.collapse)
    then show ?thesis using Cons x None j by (simp add: run_bind)
  qed (use Cons x in simp)
qed (simp add: State_Monad.return_def)

lemma known_key_answered:
  assumes "run_state (begin_request cr kn env obj peer b) w = ((Inr s, b'), w')"
    and "request_key obj = Some k" and "k \<in> known_keys b"
  shows "\<exists>reply. s = Answered reply"
  using begin_request_keys [OF assms(1)] begin_request_cases [OF assms(1)] assms(2,3)
  by (cases s) (auto simp: commits_def)

section \<open>Every request is closed\<close>

definition named_requests :: "json list \<Rightarrow> bool" where
  \<comment> \<open>the request identifiers of the log are texts\<close>
  "named_requests vs \<longleftrightarrow> list_all (\<lambda>v. jget (jfields v) ''event'' = JStr ''prepared'' \<longrightarrow>
      (\<exists>r. jget (jfields v) ''request_id'' = JStr r)) vs"

lemma parse_lines_wf: "parse_lines ls = Some vs \<Longrightarrow> list_all wf_json vs"
proof (induction ls arbitrary: vs)
  case (Cons l ls)
  then show ?case using loads_wf by (auto split: option.splits if_splits)
qed simp

lemma log_entries_wf: "log_entries t = Some vs \<Longrightarrow> list_all (\<lambda>v. wf_fields (jfields v)) vs"
proof -
  have "wf_json v \<Longrightarrow> wf_fields (jfields v)" for v
    by (cases v) (simp_all add: jfields_def wf_fields_def)
  then show "log_entries t = Some vs \<Longrightarrow> list_all (\<lambda>v. wf_fields (jfields v)) vs"
    using parse_lines_wf unfolding log_entries_def by (metis list_all_iff)
qed

lemma scan_named:
  assumes "named_requests vs" and "list_all (\<lambda>v. wf_fields (jfields v)) vs"
  shows "\<forall>(rid, e)\<in>set (fst (scan_log vs)). (\<exists>r. rid = JStr r) \<and> wf_fields e"
proof -
  have "named_requests vs \<Longrightarrow> list_all (\<lambda>v. wf_fields (jfields v)) vs \<Longrightarrow> \<forall>(rid, e)\<in>set (fst s). (\<exists>r. rid = JStr r) \<and> wf_fields e \<Longrightarrow>
    \<forall>(rid, e)\<in>set (fst (foldl scan_entry s vs)). (\<exists>r. rid = JStr r) \<and> wf_fields e" for s
  proof (induction vs arbitrary: s)
    case (Cons v vs)
    have u: "set (dset d k x) \<subseteq> insert (k, x) (set d)" for d :: "(json \<times> jobj) list" and k x
      by (induction d) auto
    let ?e = "jfields v"
    have "set (fst (scan_entry s v)) \<subseteq> insert (jget ?e ''request_id'', ?e) (set (fst s))"
      "jget ?e ''event'' \<noteq> JStr ''prepared'' \<Longrightarrow> set (fst (scan_entry s v)) = set (fst s)"
      using u by (auto simp: scan_entry_def Let_def)
    moreover have "jget ?e ''event'' = JStr ''prepared'' \<Longrightarrow> (\<exists>r. jget ?e ''request_id'' = JStr r) \<and> wf_fields ?e"
      using Cons.prems(1,2) by (simp add: named_requests_def)
    ultimately have "\<forall>(rid, e)\<in>set (fst (scan_entry s v)). (\<exists>r. rid = JStr r) \<and> wf_fields e"
      using Cons.prems(3) by (cases "jget ?e ''event'' = JStr ''prepared''") auto
    moreover have "named_requests vs" using Cons.prems(1,2) by (simp add: named_requests_def)
    ultimately show ?case using Cons.IH Cons.prems(2) by simp
  qed simp
  from this [of "([], [])"] show ?thesis using assms by (simp add: scan_log_def)
qed

lemma reconciled_not_empty: "reconcile_recorded before intended observed \<noteq> []"
  by (cases observed) (simp_all add: reconcile_recorded_def)

lemma judged_not_empty:
  assumes "run_state (judge_pending cr ks e) w = (Inr (verdict, observed), w')"
  shows "verdict \<noteq> [] \<and> wf_json observed"
proof -
  have r: "yields (\<lambda>v. v \<noteq> []) (recover_rename cr ks e)"
    unfolding recover_rename_def Let_def classify_rename_def
    by (intro yields_bind yields_prod yields_option yields_if yields_done yields_sum yields_raise) simp_all
  have judged: "verdict \<noteq> [] \<and> wf_json observed" if "judge_recorded before intended seen = Inr (verdict, observed)"
    for before intended seen
    using that reconciled_not_empty by (auto simp: judge_recorded_def split: option.splits bool.splits)
  show ?thesis
  proof (cases "jget e ''tool'' = JStr ''rename_file''")
    case True
    obtain x w1 where x: "run_state (recover_rename cr ks e) w = (x, w1)" by fastforce
    then have "case x of Inl _ \<Rightarrow> True | Inr v \<Rightarrow> v \<noteq> []" using r unfolding yields_def by (metis fst_conv)
    then show ?thesis
      using assms True x by (cases x) (auto simp: judge_pending_def run_bind State_Monad.return_def)
  next
    case False
    show ?thesis
    proof (cases "\<exists>t. jget e ''target'' = JStr t")
      case True
      then obtain t where t: "jget e ''target'' = JStr t" by blast
      obtain seen w1 where "run_state (observe cr t) w = (seen, w1)" by fastforce
      then show ?thesis
        using assms False t judged
        by (auto simp: judge_pending_def run_bind State_Monad.return_def split: if_splits)
    next
      case no: False
      then show ?thesis
        using assms False
        by (cases "jget e ''target''") (auto simp: judge_pending_def State_Monad.return_def split: if_splits)
    qed
  qed
qed

lemma reconcile_each_closes:
  "run_state (reconcile_each cr envs prs closed b n) w = ((Inr m, b'), w') \<Longrightarrow>
   in_step (sha cr) (b_log b) \<Longrightarrow> (\<And>i. faultless (envs i)) \<Longrightarrow> log_entries (al_text (b_log b)) = Some vs \<Longrightarrow>
   scan_log vs = (every, closed) \<Longrightarrow> \<forall>(rid, e)\<in>set prs. (\<exists>r. rid = JStr r) \<and> wf_fields e \<Longrightarrow>
   \<exists>vs' closed'. in_step (sha cr) (b_log b') \<and> log_entries (al_text (b_log b')) = Some vs' \<and>
     scan_log vs' = (every, closed') \<and> dom (map_of closed) \<subseteq> dom (map_of closed') \<and>
     (\<forall>(rid, e)\<in>set prs. map_of closed' rid \<noteq> None)"
proof (induction cr envs prs closed b n arbitrary: w vs rule: reconcile_each.induct)
  case (1 cr envs closed b n)
  then show ?case by (intro exI [of _ vs] exI [of _ closed]) (auto simp: State_Monad.return_def)
next
  case (2 cr envs rid e prs closed b n)
  show ?case
  proof (cases "map_of closed rid")
    case (Some v)
    have run: "run_state (reconcile_each cr envs prs closed (rebuilt_key rid e v b) n) w = ((Inr m, b'), w')"
      using "2.prems"(1) Some by simp
    from "2.IH"(2) [OF Some run] "2.prems" obtain vs' closed' where
      "in_step (sha cr) (b_log b')" "log_entries (al_text (b_log b')) = Some vs'" "scan_log vs' = (every, closed')"
      "dom (map_of closed) \<subseteq> dom (map_of closed')" "\<forall>(rid, e)\<in>set prs. map_of closed' rid \<noteq> None" by auto
    then show ?thesis using Some by (intro exI [of _ vs'] exI [of _ closed']) auto
  next
    case None
    obtain r w1 where j: "run_state (judge_pending cr (b_key b) e) w = (r, w1)"
      by (cases "run_state (judge_pending cr (b_key b) e) w") auto
    from "2.prems"(1) None j obtain verdict observed where r: "r = Inr (verdict, observed)"
      by (cases r) (auto simp: run_bind State_Monad.return_def)
    obtain ok al where ap: "log_append cr (envs n) (reconciled_record rid e verdict observed) (b_log b) = (ok, al)" by fastforce
    from "2.prems"(1) None j r ap have ok: ok by (cases ok) (auto simp: run_bind State_Monad.return_def)
    let ?b = "rebuilt_key rid e (JStr verdict) (b\<lparr>b_log := al\<rparr>)"
    have run: "run_state (reconcile_each cr envs prs (dset closed rid (JStr verdict)) ?b (Suc n)) w1 = ((Inr m, b'), w')"
      using "2.prems"(1) None j r ap ok by (simp add: run_bind)
    obtain x where rid: "rid = JStr x" "wf_fields e" using "2.prems"(6) by auto
    have v: "verdict \<noteq> []" "wf_json observed"
      using judged_not_empty j r by blast+
    have plain: "plain_entry (reconciled_record rid e verdict observed)"
      unfolding rid(1) by (rule plain_reconciled [OF rid(2) v(2)]) simp
    have al: "in_step (sha cr) al" using append_in_step [OF "2.prems"(2) plain "2.prems"(3) [of n]] ap by simp
    from append_entries [OF "2.prems"(2) plain "2.prems"(3) [of n] "2.prems"(4)] ap obtain vs1 where
      vs1: "log_entries (al_text al) = Some vs1" "adds_entry (reconciled_record rid e verdict observed) vs vs1" by auto
    have sc: "scan_log vs1 = (every, dset closed rid (JStr verdict))"
      using scan_reconciled [OF vs1(2) [unfolded rid(1)]] v(1) "2.prems"(5) by (simp add: rid(1))
    have "\<exists>vs' closed'. in_step (sha cr) (b_log b') \<and> log_entries (al_text (b_log b')) = Some vs' \<and>
        scan_log vs' = (every, closed') \<and> dom (map_of (dset closed rid (JStr verdict))) \<subseteq> dom (map_of closed') \<and>
        (\<forall>(rid, e)\<in>set prs. map_of closed' rid \<noteq> None)"
      by (rule "2.IH"(1) [OF None ap [symmetric] _ run]) (use ok al "2.prems"(3,6) vs1(1) sc in auto)
    then obtain vs' closed' where "in_step (sha cr) (b_log b')" "log_entries (al_text (b_log b')) = Some vs'"
      "scan_log vs' = (every, closed')" "\<forall>(rid, e)\<in>set prs. map_of closed' rid \<noteq> None"
      "dom (map_of (dset closed rid (JStr verdict))) \<subseteq> dom (map_of closed')" by blast
    moreover from this(5) have "insert rid (dom (map_of closed)) \<subseteq> dom (map_of closed')" by (simp only: update_conv' dom_fun_upd) simp
    ultimately show ?thesis by (intro exI [of _ vs'] exI [of _ closed']) auto
  qed
qed

lemma reconcile_nothing_left:
  "\<forall>(rid, e)\<in>set prs. map_of closed rid \<noteq> None \<Longrightarrow>
   \<exists>b'. run_state (reconcile_each cr envs prs closed b n) w = ((Inr n, b'), w) \<and> b_log b' = b_log b"
proof (induction prs arbitrary: b)
  case (Cons x prs)
  obtain rid e where x: "x = (rid, e)" by (cases x)
  with Cons.prems obtain v where "map_of closed rid = Some v" by auto
  then show ?case using Cons.IH [of "rebuilt_key rid e v b"] Cons.prems x by simp
qed (simp add: State_Monad.return_def)

lemma reconcile_each_keeps:
  "run_state (reconcile_each cr envs prs closed b n) w = ((r, b'), w') \<Longrightarrow>
   b_cfg b' = b_cfg b \<and> b_store b' = b_store b \<and> b_disk b' = b_disk b"
proof (induction cr envs prs closed b n arbitrary: w rule: reconcile_each.induct)
  case (2 cr envs rid e prs closed b n)
  have k: "b_cfg (rebuilt_key rid e v x) = b_cfg x \<and> b_store (rebuilt_key rid e v x) = b_store x \<and>
    b_disk (rebuilt_key rid e v x) = b_disk x" for v x
    by (simp add: rebuilt_key_def split: json.split)
  show ?case
  proof (cases "map_of closed rid")
    case (Some v)
    then show ?thesis using "2.IH"(2) [OF Some] "2.prems" k by simp
  next
    case None
    obtain r1 w1 where j: "run_state (judge_pending cr (b_key b) e) w = (r1, w1)"
      by (cases "run_state (judge_pending cr (b_key b) e) w") auto
    show ?thesis
    proof (cases r1)
      case (Inl x)
      then show ?thesis using "2.prems" None j by (auto simp: run_bind State_Monad.return_def)
    next
      case (Inr vo)
      obtain verdict observed where vo: "vo = (verdict, observed)" by (cases vo)
      obtain ok al where ap: "log_append cr (envs n) (reconciled_record rid e verdict observed) (b_log b) = (ok, al)" by fastforce
      show ?thesis
      proof (cases ok)
        case True
        have run: "run_state (reconcile_each cr envs prs (dset closed rid (JStr verdict))
            (rebuilt_key rid e (JStr verdict) (b\<lparr>b_log := al\<rparr>)) (Suc n)) w1 = ((r, b'), w')"
          using "2.prems" None j Inr vo ap True by (simp add: run_bind)
        show ?thesis using "2.IH"(1) [OF None ap [symmetric] _ run] True k by simp
      qed (use "2.prems" None j Inr vo ap in \<open>auto simp: run_bind State_Monad.return_def\<close>)
    qed
  qed
qed (auto simp: State_Monad.return_def)

lemma reconcile_pending_keeps:
  assumes "run_state (reconcile_pending cr envs b) w = ((r, b'), w')"
  shows "b_cfg b' = b_cfg b \<and> b_store b' = b_store b \<and> b_disk b' = b_disk b"
  using assms reconcile_each_keeps
  by (fastforce simp: reconcile_pending_def State_Monad.return_def split: option.splits prod.splits)

lemma demo_decides_again:
  assumes "b_cfg b = demo_config" and "b_store b = demo_store" and "b_disk b = demo_disk"
  shows "\<exists>d b1. run_state (decide demo_crypto kn env (without_key demo_proposal) b) w = ((Inr d, b1), w)"
proof -
  let ?i = "canonicalize demo_config ''delete_file'' demo_args"
  have m: "run_state (match_intent demo_crypto ?i ''delete_file'' demo_args b) w =
      ((Inr (Some demo_intent), b\<lparr>b_store := demo_store, b_disk := demo_disk\<rparr>), w)"
    using demo_parts(5) demo_refresh assms
    by (simp add: match_intent_def Let_def demo_store_def ints_def run_bind State_Monad.return_def
        premise_problem_def) (simp add: demo_intent_def State_Monad.return_def run_bind)
  obtain d b1 where k: "ask_kernel kn env ?i ''delete_file'' demo_args (Some demo_intent) (b\<lparr>b_store := demo_store, b_disk := demo_disk\<rparr>) = (d, b1)"
    by fastforce
  show ?thesis
    using demo_parts(3,4) k by (simp add: decide_def Let_def run_bind State_Monad.return_def m assms(1))
qed

lemma demo_begins_again:
  assumes "b_cfg b = demo_config" and "b_store b = demo_store" and "b_disk b = demo_disk"
  shows "\<exists>s b'. run_state (begin_request demo_crypto kn env demo_proposal JNull b) (quiet demo_fs) = ((Inr s, b'), quiet demo_fs)"
proof -
  obtain d b1 where d: "run_state (decide demo_crypto kn env (without_key demo_proposal) b) (quiet demo_fs) = ((Inr d, b1), quiet demo_fs)"
    using demo_decides_again [OF assms] by blast
  let ?m = "decided_request demo_crypto env (Option.bind (key_of demo_proposal) key_text) JNull
     (proposal_summary (sha demo_crypto) (without_key demo_proposal)) d b1"
  obtain s b2 w' where r: "run_state ?m (quiet demo_fs) = ((s, b2), w')" by (cases "run_state ?m (quiet demo_fs)") auto
  moreover have "w' = quiet demo_fs" using idle_quiet [OF idle_decided_request] r by (metis snd_conv)
  ultimately show ?thesis using d
    by (simp add: begin_request_def Let_def run_bind State_Monad.return_def split: option.split)
qed

section \<open>Properties\<close>

text \<open>C7: A key survives a crash: once a request with an idempotency key has gone on to its effect, then
  wherever the process stops after it - right away, after the request's outcome record, after any
  later records of any requests, or within one - the start on the log it left, if it succeeds, knows
  the key, so no later request with the key goes on to an effect. No later \<open>prepared\<close> record bears the
  request's fresh identifier. Together with the evidence written before the effect, at most one
  effect for a key holds across restarts.\<close>

theorem started_key_survives_crash:
  assumes "run_state (begin_request cr kn env obj peer b) w = ((Inr (Started p), b'), w')" and "p_key p = Some k"
    and "in_step (sha cr) (b_log b)" and "faultless (re_append env 0)" and "wf_json peer"
    and "al_file (b_log c) = Some (al_text (b_log b') @ later)"
    and "\<forall>vs. log_entries later = Some vs \<longrightarrow> \<not> prepares (JStr (p_rid p)) vs"
    and "run_state (reconcile_pending cr envs c) v = ((Inr n, c'), v')"
    and "run_state (begin_request cr kn' env' obj' peer' c') v'' = ((Inr s, c''), w'')" and "request_key obj' = Some k"
  shows "\<exists>reply. s = Answered reply"
  by (rule known_key_answered [OF assms(9,10) started_key_known [OF assms(1-8)]])

definition closing_entry :: jobj where
  "closing_entry = [(''event'', JStr ''outcome''), (''request_id'', JStr ''s''), (''effect'', JStr ''succeeded'')]"

theorem started_key_survives_crash_witness:
  "\<exists>p b' n c' v' s c''. run_state (begin_request demo_crypto demo_kernel demo_req demo_proposal JNull demo_broker) (quiet demo_fs) =
       ((Inr (Started p), b'), quiet demo_fs) \<and>
     run_state (reconcile_pending demo_crypto (\<lambda>_. demo_env)
       (demo_broker\<lparr>b_log := new_log (Some (al_text (b_log b') @ entry_line (sha demo_crypto) closing_entry))\<rparr>))
       (quiet demo_fs) = ((Inr n, c'), v') \<and>
     run_state (begin_request demo_crypto demo_kernel demo_req demo_proposal JNull c') (quiet demo_fs) =
       ((Inr s, c''), quiet demo_fs) \<and> (\<exists>reply. s = Answered reply)"
proof -
  obtain p b' where run: "run_state (begin_request demo_crypto demo_kernel demo_req demo_proposal JNull demo_broker) (quiet demo_fs) =
       ((Inr (Started p), b'), quiet demo_fs)" "p_key p = Some ''k''"
    using demo_starts by blast
  have log: "in_step (sha demo_crypto) (b_log demo_broker)" "faultless (re_append demo_req 0)" "wf_json JNull"
    "log_entries (al_text (b_log demo_broker)) = Some []"
    by (simp_all add: demo_broker_def demo_req_def faultless_def demo_env_def)
      (simp add: new_log_def al_text_def log_entries_def)
  let ?later = "entry_line (sha demo_crypto) closing_entry"
  let ?c = "demo_broker\<lparr>b_log := new_log (Some (al_text (b_log b') @ ?later))\<rparr>"
  have new: "al_file (new_log f) = f" for f by (simp add: new_log_def)
  have "plain_entry closing_entry" by (simp add: plain_entry_def closing_entry_def)
  from log_entries_written [OF _ this, of "[]" "sha demo_crypto"] obtain e where
    e: "log_entries ?later = Some [JObj e]" "\<And>k. k \<noteq> ''entry_hash'' \<Longrightarrow> map_of e k = map_option canon (map_of closing_entry k)"
    by (auto simp: ends_line_def log_entries_def [of "[]"])
  have ev: "jget e ''event'' = JStr ''outcome''" "jget e ''request_id'' = JStr ''s''" "jget e ''effect'' = JStr ''succeeded''"
    using e(2) by (simp_all add: jget_def closing_entry_def)
  then have one: "\<forall>vs. log_entries ?later = Some vs \<longrightarrow> \<not> prepares (JStr (p_rid p)) vs"
    using e(1) by (simp add: prepares_def jfields_def)
  from started_scan [OF run log(1-3)] log(4) obtain t vs' d where t: "al_file (b_log b') = Some t" "log_entries t = Some vs'"
    "scan_log vs' = ([(JStr ''s'', d)], [])"
    by (auto simp: scan_log_def demo_req_def)
  have later: "log_entries (al_text (b_log b') @ ?later) = Some (vs' @ [JObj e])"
    using log_entries_more [OF begun_ends_line [OF run(1) log(1-3)], of vs' ?later] t(1,2) e(1) by (simp add: al_text_def)
  have "scan_log (vs' @ [JObj e]) = ([(JStr ''s'', d)], [(JStr ''s'', JStr ''succeeded'')])"
    using t(3) ev by (simp add: scan_append scan_entry_def jfields_def py_or_def)
  then obtain c' where rec: "run_state (reconcile_pending demo_crypto (\<lambda>_. demo_env) ?c) (quiet demo_fs) = ((Inr 0, c'), quiet demo_fs)"
    using later reconcile_nothing_left [of "[(JStr ''s'', d)]" "[(JStr ''s'', JStr ''succeeded'')]" demo_crypto "\<lambda>_. demo_env" ?c 0 "quiet demo_fs"]
    by (auto simp: reconcile_pending_def new)
  have k: "request_key demo_proposal = Some ''k''" by (rule demo_parts(2))
  have "b_cfg c' = demo_config" "b_store c' = demo_store" "b_disk c' = demo_disk"
    using reconcile_pending_keeps [OF rec] by (simp_all add: demo_broker_def)
  then obtain s c'' where b2: "run_state (begin_request demo_crypto demo_kernel demo_req demo_proposal JNull c') (quiet demo_fs) =
      ((Inr s, c''), quiet demo_fs)"
    using demo_begins_again by blast
  have "al_file (b_log ?c) = Some (al_text (b_log b') @ ?later)" by (simp add: new)
  from started_key_survives_crash [OF run log(1-3) this one rec b2 k] run(1) rec b2 show ?thesis by auto
qed

text \<open>C9: A start closes every request: after the reconciliation of a log in which every
  \<open>prepared\<close> record names its request, each request that was prepared has an outcome or a reconciled record, the log is still
  one a start accepts, and reconciling again, in whatever world, finds nothing to do and
  leaves the world and the log as they are.\<close>

theorem start_closes_every_request:
  assumes "run_state (reconcile_pending cr envs b) w = ((Inr n, b'), w')"
    and "in_step (sha cr) (b_log b)" and "\<And>i. faultless (envs i)"
    and "log_entries (al_text (b_log b)) = Some vs" and "named_requests vs"
    and "al_file (b_log c) = al_file (b_log b')"
  shows "in_step (sha cr) (b_log b') \<and>
         (\<exists>vs' prs closed. log_entries (al_text (b_log b')) = Some vs' \<and> scan_log vs' = (prs, closed) \<and>
            (\<forall>(rid, e)\<in>set prs. map_of closed rid \<noteq> None)) \<and>
         (\<exists>c'. run_state (reconcile_pending cr envs' c) v = ((Inr 0, c'), v) \<and> b_log c' = b_log c)"
proof (cases "al_file (b_log b)")
  case None
  then have "vs = []" "b' = b" using assms(1,4) by (auto simp: al_text_def log_entries_def reconcile_pending_def State_Monad.return_def)
  then show ?thesis
    using None assms(2,4,6) by (auto simp: scan_log_def reconcile_pending_def State_Monad.return_def)
next
  case (Some t)
  obtain every closed where sc: "scan_log vs = (every, closed)" by fastforce
  have t: "log_entries t = Some vs" using assms(4) Some by (simp add: al_text_def)
  have run: "run_state (reconcile_each cr envs every closed b 0) w = ((Inr n, b'), w')"
    using assms(1) Some t sc by (simp add: reconcile_pending_def)
  have wf: "\<forall>(rid, e)\<in>set every. (\<exists>r. rid = JStr r) \<and> wf_fields e" using scan_named [OF assms(5) log_entries_wf [OF t]] sc by simp
  from reconcile_each_closes [OF run assms(2,3,4) sc wf] obtain vs' closed' where
    x: "in_step (sha cr) (b_log b')" "log_entries (al_text (b_log b')) = Some vs'" "scan_log vs' = (every, closed')"
    "\<forall>(rid, e)\<in>set every. map_of closed' rid \<noteq> None" by blast
  have "\<exists>c'. run_state (reconcile_pending cr envs' c) v = ((Inr 0, c'), v) \<and> b_log c' = b_log c"
  proof (cases "al_file (b_log c)")
    case None
    then show ?thesis by (simp add: reconcile_pending_def State_Monad.return_def)
  next
    case (Some t')
    then have "log_entries t' = Some vs'" using x(2) assms(6) by (simp add: al_text_def)
    then show ?thesis
      using Some x(3) reconcile_nothing_left [OF x(4), of cr envs' c 0 v] by (simp add: reconcile_pending_def)
  qed
  then show ?thesis using x by blast
qed

definition left_entry :: jobj where
  \<comment> \<open>a delete that was recorded and may or may not have happened\<close>
  "left_entry = [(''event'', JStr ''prepared''), (''request_id'', JStr ''s''), (''tool'', JStr ''delete_file''),
     (''target'', JStr ''/workspace/a''), (''intended_state'', JList [JStr ''absent'', JNull])]"

theorem start_closes_every_request_witness:
  "\<exists>n b' w' vs. run_state (reconcile_pending demo_crypto (\<lambda>_. demo_env)
       (demo_broker\<lparr>b_log := snd (log_append demo_crypto demo_env left_entry (new_log None))\<rparr>)) (quiet demo_fs) = ((Inr n, b'), w') \<and>
     log_entries (al_text (snd (log_append demo_crypto demo_env left_entry (new_log None)))) = Some vs \<and>
     fst (scan_log vs) \<noteq> [] \<and> named_requests vs \<and>
     (\<exists>c'. run_state (reconcile_pending demo_crypto (\<lambda>_. demo_env) b') (quiet demo_fs) = ((Inr 0, c'), quiet demo_fs))"
proof -
  let ?l = "snd (log_append demo_crypto demo_env left_entry (new_log None))"
  let ?b = "demo_broker\<lparr>b_log := ?l\<rparr>"
  have f: "faultless demo_env" by (simp add: faultless_def demo_env_def)
  have plain: "plain_entry left_entry" by (simp add: plain_entry_def left_entry_def)
  have step: "in_step (sha demo_crypto) (b_log ?b)" using append_in_step [OF in_step_new plain f] by simp
  have "log_entries (al_text (new_log None)) = Some []" by (simp add: new_log_def al_text_def log_entries_def)
  from append_entries [OF in_step_new plain f this] obtain vs where
    vs: "log_entries (al_text ?l) = Some vs" "adds_entry left_entry [] vs" by blast
  obtain d where d: "scan_log vs = ([(JStr ''s'', d)], [])"
    "\<And>k. k \<notin> {''entry_hash'', ''prev_hash'', ''ts''} \<Longrightarrow> map_of d k = map_option canon (map_of left_entry k)"
    using scan_prepared [OF vs(2), of "''s''"] by (auto simp: left_entry_def scan_log_def)
  have tool: "readable_states d"
    using d(2) [of "''tool''"] d(2) [of "''target''"] d(2) [of "''before_state''"] d(2) [of "''intended_state''"]
    by (simp add: readable_states_def jget_def left_entry_def as_tuple_def)
  obtain e extra where e: "vs = JObj e # extra" "list_all aside extra" "map_of e ''request_id'' = Some (JStr ''s'')"
    using vs(2) unfolding adds_entry_def by (fastforce simp: left_entry_def)
  have named: "named_requests vs"
    using e by (auto simp: named_requests_def list_all_iff aside_def jfields_def jget_def)
  obtain t where t: "al_file ?l = Some t" "log_entries t = Some vs"
    using vs(1) e(1) by (cases "al_file ?l") (auto simp: al_text_def log_entries_def)
  have "\<exists>n b' w'. run_state (reconcile_each demo_crypto (\<lambda>_. demo_env) [(JStr ''s'', d)] [] ?b 0) (quiet demo_fs) = ((Inr n, b'), w')"
    by (rule reconcile_each_returns) (simp_all add: tool f)
  then obtain n b' w' where run: "run_state (reconcile_pending demo_crypto (\<lambda>_. demo_env) ?b) (quiet demo_fs) = ((Inr n, b'), w')"
    using t d(1) by (auto simp: reconcile_pending_def)
  from start_closes_every_request [OF run step f _ named refl, of "\<lambda>_. demo_env" "quiet demo_fs"] vs(1)
  have "\<exists>c'. run_state (reconcile_pending demo_crypto (\<lambda>_. demo_env) b') (quiet demo_fs) = ((Inr 0, c'), quiet demo_fs)" by auto
  then show ?thesis using run vs(1) d(1) named by auto
qed

end
