(* ===== verification/Honest.thy ===== *)
theory Honest
  imports Handling Basis
begin

text \<open>
  Whether the claims a reply makes in its basis are true of the request it answers.
\<close>

definition claimed :: "jobj \<Rightarrow> string \<Rightarrow> bool" where
  \<comment> \<open>the reply's basis has the claim\<close>
  "claimed reply t \<longleftrightarrow>
     list_ex (\<lambda>c. jget (jfields c) ''claim'' = JStr t)
       (case jget reply ''basis'' of JList cs \<Rightarrow> cs | _ \<Rightarrow> [])"

lemma claim_text [simp]: "jget (jfields (claim t ths as)) ''claim'' = JStr t"
  by (simp add: claim_def jfields_def jget_def)

lemma claimed_with_basis:
  "claimed (with_basis has r) t \<Longrightarrow>
   \<exists>reply cs. r = Inr reply \<and> basis has reply = Some cs \<and> list_ex (\<lambda>c. jget (jfields c) ''claim'' = JStr t) cs"
  by (auto simp: claimed_def with_basis_def error_reply_def jget_merge_in split: sum.splits option.splits)

abbreviation says :: "string \<Rightarrow> json list \<Rightarrow> bool" where
  "says t cs \<equiv> list_ex (\<lambda>c. jget (jfields c) ''claim'' = JStr t) cs"

lemma says_if [simp]: "says t (if c then cs else ds) = (if c then says t cs else says t ds)"
  by simp

lemma not_about_admission:
  assumes "t = ADMITTED \<or> t = PREPARED"
  shows "\<not> says t (refusal_claims fail)" and "\<not> says t (file_claims has reply)" and "\<not> says t (state_claims reply)"
    and "\<not> says t (retry_claims reply earlier)" and "\<not> says t (remote_claims reply)"
proof -
  show "\<not> says t (refusal_claims fail)"
    using assms by (cases fail) (auto simp: refusal_claims_def BY_KERNEL_def ADMITTED_def PREPARED_def)
  show "\<not> says t (file_claims has reply)"
    using assms by (elim disjE) (simp_all add: file_claims_def Let_def ADMITTED_def PREPARED_def)
  show "\<not> says t (state_claims reply)"
    using assms by (elim disjE) (simp_all add: state_claims_def ADMITTED_def PREPARED_def)
  show "\<not> says t (retry_claims reply earlier)"
    using assms by (elim disjE) (simp_all add: retry_claims_def NOTHING_APPLIED_def ADMITTED_def PREPARED_def)
  show "\<not> says t (remote_claims reply)"
    using assms by (elim disjE) (simp_all add: remote_claims_def ADMITTED_def PREPARED_def)
qed

lemma about_admission:
  assumes "t = ADMITTED \<or> t = PREPARED" and "says t (admission_claims reply)"
  shows "jget reply ''decision'' = JStr ''admit'' \<and> jget reply ''effect'' \<noteq> JStr ''already_applied''"
  using assms
  by (elim disjE) (auto simp: admission_claims_def CONSUMED_def ADMITTED_def PREPARED_def Let_def split: if_splits)

text \<open>A reply that claims an admission, or a record, is the reply to a request that went on to its effect.\<close>

lemma claim_started:
  assumes "run_state (handle cr kn has env obj peer b) w = ((reply, b'), w')"
    and "claimed reply t" and "t = ADMITTED \<or> t = PREPARED"
  shows "\<exists>p b1 w1. run_state (begin_request cr kn env obj peer b) w = ((Inr (Started p), b1), w1)"
proof -
  obtain r where r: "run_state (respond cr kn env obj peer b) w = ((r, b'), w')" "reply = with_basis has r"
    using assms(1) by (auto simp: handle_def run_bind State_Monad.return_def split: prod.splits)
  from claimed_with_basis assms(2) r(2) obtain a cs where
    a: "r = Inr a" "basis has a = Some cs" "says t cs" by blast
  from a(2,3) not_about_admission [OF assms(3)] have "says t (admission_claims a)"
    by (auto simp: basis_def)
  with about_admission [OF assms(3)] have d: "jget a ''decision'' = JStr ''admit''" "jget a ''effect'' \<noteq> JStr ''already_applied''"
    by simp_all
  from r(1) show ?thesis
  proof (cases rule: respond_cases)
    case (answered a')
    with begin_request_cases [OF answered(2)] d a(1) show ?thesis by (auto simp: idle_reply_def)
  qed (use a(1) in auto)
qed

text \<open>A request that went on to its effect and whose effect returned claims both.\<close>

lemma finished_claims:
  assumes "run_state (begin_request cr kn env obj peer b) w = ((Inr (Started p), b1), w1)"
    and "run_state (perform cr env p b1) w1 = (Inr result, w2)"
    and "basis has (fst (fst (run_state (finish_request cr env p result b1) w2))) \<noteq> None"
  shows "\<exists>reply b' w'. run_state (handle cr kn has env obj peer b) w = ((reply, b'), w') \<and>
           claimed reply ADMITTED \<and> claimed reply PREPARED"
proof -
  obtain a b2 w3 where f: "run_state (finish_request cr env p result b1) w2 = ((a, b2), w3)"
    by (cases "run_state (finish_request cr env p result b1) w2") auto
  obtain cs where cs: "basis has a = Some cs" using assms(3) f by auto
  note n = perform_result [OF assms(2)]
  have "jget a ''decision'' = JStr ''admit''"
    using finish_request_decision [OF n f] begin_request_cases [OF assms(1)] by (auto simp: commits_def)
  moreover have "jget a ''effect'' = JStr (effect_of result)" by (rule finish_request_effect [OF n f])
  ultimately have "says ADMITTED (admission_claims a)" "says PREPARED (admission_claims a)"
    using effect_of_cases [of result] by (auto simp: admission_claims_def Let_def)
  then have "says ADMITTED cs" "says PREPARED cs" using cs by (auto simp: basis_def)
  moreover have "run_state (handle cr kn has env obj peer b) w = ((with_basis has (Inr a), b2), w3)"
    using assms(1,2) f by (simp add: handle_def respond_def run_bind State_Monad.return_def)
  ultimately show ?thesis using cs by (simp add: with_basis_def claimed_def jget_merge_in)
qed

lemma demo_performs:
  assumes "i_tool (p_inv p) = ''delete_file''" and "aget (args_of (p_inv p)) ''path'' = ''/workspace/a''"
  shows "\<exists>result w'. run_state (perform demo_crypto demo_req p b) (quiet demo_fs) = (Inr result, w') \<and>
           (result = [(''deleted'', JBool True)] \<or> (\<exists>e. result = conflicted e))"
proof -
  have "path_parts ''/workspace/a'' = Some [''a'']" by code_simp
  then have o: "run_state (open_parent ''/workspace/a'') (quiet demo_fs) = (Some (0, ''a''), quiet demo_fs)"
    by (simp add: open_parent_def run_bind State_Monad.return_def done_with_def)
  have k: "run_state (leaf_kind 0 ''a'') (quiet demo_fs) = (Inr (Some Reg), quiet demo_fs)"
    by (simp add: leaf_kind_def run_bind State_Monad.return_def done_with_def stat_at_def)
  have can: "can_delete ''u'' 0 ''a'' demo_fs"
    by (simp add: can_delete_def delete_tmp_def) (simp add: demo_fs_def at_def)
  have "\<exists>r w'. run_state (exec_delete demo_crypto ''u'' 0 ''a'' (ev_before (p_evidence p))) (quiet demo_fs) = (Inr r, w') \<and>
      (r = [(''deleted'', JBool True)] \<or> (\<exists>e. r = conflicted e))"
    using cas_delete_run [OF can, of demo_crypto]
    by (cases "ev_before (p_evidence p)"; cases "the (ev_before (p_evidence p))")
      (auto simp: exec_delete_def run_andthen cas_delete_def [where expected = None]
        cas_delete_def [where expected = "Some Absent"] cas_delete_def [where expected = "Some (Unavailable e)" for e]
        done_with_def State_Monad.return_def fd_sync_def)
  then obtain r w' where x: "run_state (exec_delete demo_crypto ''u'' 0 ''a'' (ev_before (p_evidence p))) (quiet demo_fs) = (Inr r, w')"
    "r = [(''deleted'', JBool True)] \<or> (\<exists>e. r = conflicted e)"
    by blast
  show ?thesis
    using assms o k x
    by (simp add: perform_def Let_def execute_def exec_tool_def run_bind run_andthen demo_req_def done_with_def State_Monad.return_def)
qed

lemma basis_of_finished:
  assumes "run_state (finish_request cr env p result b) w = ((reply, b'), w')" and "jget (p_resp p) ''error'' = JNull"
    and "result = [(''deleted'', JBool True)] \<or> (\<exists>e. result = conflicted e)" and "i_tool (p_inv p) = ''delete_file''"
  shows "basis has reply \<noteq> None"
proof -
  obtain seen resp b2 where s: "seen = fst (run_state (observed_fields cr (i_tool (p_inv p)) (p_evidence p)) w)"
    "resp = merge (p_resp p) (outcome_fields (p_rid p) (i_tool (p_inv p)) result @ seen)"
    "jget reply ''error'' = jget resp ''error''"
    using finish_request_run [OF assms(1)] finish_request_keeps [of "''error''"] by (metis insertCI)
  have seen: "map_of (rev seen) ''error'' = None"
    unfolding s(1) by (simp add: observed_fields_def run_bind State_Monad.return_def Let_def split: option.split prod.split)
  have "jget resp ''error'' = JNull \<or> (\<exists>e. jget resp ''error'' = JStr e)"
    unfolding s(2) jget_def
    using assms(2-4) seen
    by (auto simp: map_of_merge outcome_fields_def Let_def without_def conflicted_def map_add_def jget_def split: option.splits)
  then show ?thesis unfolding s(3) [symmetric] by (auto simp: basis_def py_in_def)
qed

section \<open>Properties\<close>

text \<open>C3: The basis of a reply is honest about the decision and the evidence: if the reply claims that
  the kernel admitted the executed invocation, or that a durable record preceded any effect, then
  the proposal was well formed, the kernel did admit its canonical invocation, which is the one
  executed, and by the time of the effect the log had the request's \<open>prepared\<close> record.\<close>

theorem claims_are_backed:
  assumes "run_state (handle cr kn has env obj peer b) w = ((reply, b'), w')"
    and "claimed reply ADMITTED \<or> claimed reply PREPARED"
  shows "\<exists>p b1 w1 tool args resp rest.
           run_state (begin_request cr kn env obj peer b) w = ((Inr (Started p), b1), w1) \<and>
           parse_proposal (without_key obj) = Some (tool, args) \<and> p_inv p = canonicalize (b_cfg b) tool args \<and>
           kernel_admits kn env b tool args (p_inv p) \<and>
           al_text (b_log b1) = al_text (b_log b) @
             entry_line (sha cr) (chained (al_prev (b_log b)) (ae_now (re_append env 0))
               (record_entry (sha cr) (proposal_summary (sha cr) (without_key obj)) (re_rid env) ''prepared''
                  (Some (p_inv p)) (Some (i_tool (p_inv p))) resp)) @ rest"
proof -
  obtain p b1 w1 where run: "run_state (begin_request cr kn env obj peer b) w = ((Inr (Started p), b1), w1)"
    using assms claim_started by blast
  from begin_request_cases [OF run] obtain m b0 where
    d: "admitted_decision cr kn env (without_key obj) b (p_inv p) m b0" and l: "b_log b0 = b_log b"
      "prepared_record cr env (request_key obj) peer (proposal_summary (sha cr) (without_key obj)) (p_inv p) b0 b1"
    by (auto simp: commits_def)
  from l obtain resp rest where "al_text (b_log b1) = al_text (b_log b) @
      entry_line (sha cr) (chained (al_prev (b_log b)) (ae_now (re_append env 0))
        (record_entry (sha cr) (proposal_summary (sha cr) (without_key obj)) (re_rid env) ''prepared''
           (Some (p_inv p)) (Some (i_tool (p_inv p))) resp)) @ rest"
    unfolding prepared_record_def logged_def by metis
  with run d show ?thesis unfolding admitted_decision_def by blast
qed

theorem claims_are_backed_witness:
  "\<exists>reply b' w' p b1 w1. run_state (handle demo_crypto demo_kernel True demo_req demo_proposal JNull demo_broker) (quiet demo_fs) =
       ((reply, b'), w') \<and> claimed reply PREPARED \<and>
     run_state (begin_request demo_crypto demo_kernel demo_req demo_proposal JNull demo_broker) (quiet demo_fs) =
       ((Inr (Started p), b1), w1) \<and>
     kernel_admits demo_kernel demo_req demo_broker ''delete_file'' demo_args (p_inv p)"
proof -
  obtain p b1 where run: "run_state (begin_request demo_crypto demo_kernel demo_req demo_proposal JNull demo_broker) (quiet demo_fs) =
       ((Inr (Started p), b1), quiet demo_fs)"
    using demo_starts by blast
  have "p_inv p = canonicalize demo_config ''delete_file'' demo_args"
    using begin_request_cases [OF run] demo_parts(3) by (auto simp: admitted_decision_def commits_def demo_broker_def)
  moreover have "args_of (canonicalize demo_config ''delete_file'' demo_args) = demo_args"
    by (simp add: args_of_def canonicalize_def demo_args_def split: prod.split)
  ultimately obtain result w2 where pf: "run_state (perform demo_crypto demo_req p b1) (quiet demo_fs) = (Inr result, w2)"
    "result = [(''deleted'', JBool True)] \<or> (\<exists>e. result = conflicted e)" "i_tool (p_inv p) = ''delete_file''"
    using demo_performs [of p b1] by (auto simp: canonicalize_def demo_args_def aget_def split: prod.splits)
  obtain a b2 w3 where f: "run_state (finish_request demo_crypto demo_req p result b1) w2 = ((a, b2), w3)"
    by (cases "run_state (finish_request demo_crypto demo_req p result b1) w2") auto
  have "jget (p_resp p) ''error'' = JNull" using begin_request_cases [OF run] by (auto simp: commits_def)
  then have "basis True a \<noteq> None" using basis_of_finished [OF f] pf(2,3) by auto
  then obtain reply b' w' where h: "run_state (handle demo_crypto demo_kernel True demo_req demo_proposal JNull demo_broker) (quiet demo_fs) =
      ((reply, b'), w')" "claimed reply PREPARED"
    using finished_claims [OF run pf(1), of True] f by auto
  from claims_are_backed [OF h(1)] h run demo_parts(3) show ?thesis by auto
qed

text \<open>The basis can blame the kernel for what the kernel did not do: when the kernel admits a proposal
  but its canonical invocation differs from the broker's, the broker refuses, and the basis of its reply
  says that the kernel rejected the request.\<close>

theorem mismatch_blamed_on_kernel:
  assumes "kernel_decide (kn_path kn) (re_nonce env) (kn_io kn) (decide_request (b_cfg b) (re_decided env) tool args) (b_proc b) = (d, pr)"
    and "kd_admitted d" and "canon (kd_invocation d) \<noteq> canon (inv_json (canonicalize (b_cfg b) tool args))"
  shows "\<exists>dec. fst (ask_kernel kn env (canonicalize (b_cfg b) tool args) tool args m b) = dec \<and>
           jget (d_resp dec) ''decision'' = JStr ''reject'' \<and>
           claimed (with_basis has (Inr (merge (d_resp dec) (nothing_done rid)))) (BY_KERNEL ''semantic'')"
proof -
  let ?r = "rejected [(''failure'', JStr ''semantic''), (''error'', JStr ''the kernel's canonical invocation differs from the broker's'')]"
  let ?reply = "merge ?r (nothing_done rid)"
  have k: "fst (ask_kernel kn env (canonicalize (b_cfg b) tool args) tool args m b) =
      decision_of (Some (canonicalize (b_cfg b) tool args)) (Some tool) ?r m"
    using assms by (simp add: ask_kernel_def)
  have f: "jget ?reply ''failure'' = JStr ''semantic''"
    "jget ?reply ''error'' = JStr ''the kernel's canonical invocation differs from the broker's''"
    by (simp_all add: jget_merge nothing_done_def) (simp_all add: rejected_def jget_def)
  obtain e where e: "py_in EARLIER (jget ?reply ''error'') = Some e"
    unfolding f(2) by (simp add: py_in_def)
  have "says (BY_KERNEL ''semantic'') (refusal_claims (jget ?reply ''failure''))"
    by (simp add: f(1) refusal_claims_def)
  then have "claimed (with_basis has (Inr ?reply)) (BY_KERNEL ''semantic'')"
    by (simp add: with_basis_def basis_def e claimed_def jget_merge_in)
  then show ?thesis unfolding k by (simp add: decision_of_def rejected_def jget_def)
qed


theorem mismatch_blamed_on_kernel_witness:
  "\<exists>dec. fst (ask_kernel demo_kernel demo_req (canonicalize demo_config ''delete_file'' [(''path'', ''/workspace/b'')])
             ''delete_file'' [(''path'', ''/workspace/b'')] None demo_broker) = dec \<and>
     claimed (with_basis True (Inr (merge (d_resp dec) (nothing_done ''s'')))) ''rejected by the kernel (semantic)''"
proof -
  let ?args = "[(''path'', ''/workspace/b'')]"
  have cfg: "b_cfg demo_broker = demo_config" by (simp add: demo_broker_def)
  obtain d pr where d: "kernel_decide (kn_path demo_kernel) (re_nonce demo_req) (kn_io demo_kernel)
      (decide_request (b_cfg demo_broker) (re_decided demo_req) ''delete_file'' ?args) (b_proc demo_broker) = (d, pr)"
    by fastforce
  from demo_kernel_admits [of "''delete_file''" ?args] d
  have "kd_admitted d" "canon (kd_invocation d) = canon (inv_json (canonicalize demo_config ''delete_file'' demo_args))"
    by (simp_all add: kernel_admits_def)
  moreover have "canon (inv_json (canonicalize demo_config ''delete_file'' demo_args)) \<noteq>
      canon (inv_json (canonicalize demo_config ''delete_file'' ?args))"
    by code_simp
  ultimately show ?thesis
    using mismatch_blamed_on_kernel [OF d, of None True "''s''"] by (simp add: cfg BY_KERNEL_def)
qed

end
