(* ===== verification/Evidence.thy ===== *)
theory Evidence
  imports Verdict
begin

text \<open>
  \<open>darm-guard audit\<close> and \<open>darm-guard report\<close> (\<open>darm_guard/evidence.py\<close>): what is printed, line by line,
  and the exit code. \<open>None\<close> is an exception, as on a log that is not readable. Reading the
  configuration and the registry is an argument of the audit. Dictionary keys are compared as JSON
  values.
\<close>

section \<open>The audit\<close>

definition problem_text :: "chain_problem \<Rightarrow> string" where
  "problem_text p =
     (case p of
        DoesNotFollow n \<Rightarrow> ''entry '' @ show_nat n @ '': does not follow the entry before it''
      | HashMismatch n \<Rightarrow> ''entry '' @ show_nat n @ '': its contents do not match its hash'')"

fun finding_text :: "world_finding \<Rightarrow> string" where
  "finding_text NoAttestation = ''the log records a broker write here but the file carries no attestation''"
| "finding_text DeletedButExists = ''the log records a deletion but the file exists''"
| "finding_text UnknownKeyFinding = ''attestation under an unknown key (not in the ring)''"
| "finding_text ForgedOrMoved = ''attestation forged or moved''"
| "finding_text ContentChanged = ''content changed outside the broker''"
| "finding_text RequestNotLogged = ''attested request missing from the log (entries truncated or deleted)''"
| "finding_text NotTheLatest = ''file does not carry the log's latest write for this target''"
| "finding_text FileGone = ''the log records a write but the file is gone''"

definition chain_lines :: "chain_problem list \<Rightarrow> nat \<Rightarrow> string list" where
  "chain_lines problems n =
     (if problems \<noteq> []
      then (''  hash chain: BROKEN ('' @ show_nat (length problems) @ '' problem'' @
              (if length problems \<noteq> 1 then ''s'' else '''') @ '' in '' @ show_nat n @ '' entries)'') #
           map (\<lambda>p. ''    '' @ problem_text p) (take 20 problems)
      else [''  hash chain: intact, '' @ show_nat n @ '' entries''])"

definition world_lines :: "string \<Rightarrow> (string \<times> world_finding) list \<Rightarrow> string list" where
  "world_lines ws findings =
     (if findings = []
      then [''  workspace: every governed file matches the log ('' @ ws @ ''), checked with the public key alone'']
      else (''  workspace: '' @ show_nat (length findings) @ '' findings'') #
           map (\<lambda>(t, f). ''    '' @ t @ '': '' @ finding_text f) (take 50 findings))"

definition result_line :: "bool \<Rightarrow> string" where
  "result_line ok = (if ok then ''RESULT: the evidence holds'' else ''RESULT: the evidence does not hold; see above'')"

definition audit_world ::
  "crypto \<Rightarrow> nat \<Rightarrow> fs \<Rightarrow> files \<Rightarrow> string \<Rightarrow> string \<Rightarrow> (config_error + broker_config) \<Rightarrow>
   (string list \<times> (string \<times> world_finding) list) option" where
  \<comment> \<open>with the public key alone\<close>
  "audit_world cr depth f disk log_path pub conf =
     (case conf of
        Inl e \<Rightarrow> None
      | Inr cfg \<Rightarrow>
          (case load_ring cr [] pub disk of
             None \<Rightarrow> None
           | Some r \<Rightarrow>
               map_option (\<lambda>rep. (world_lines (workspace cfg) (wr_findings rep), wr_findings rep))
                 (verify_world cr depth f (disk log_path) (Some \<lparr>k_ring = r, legacy = None\<rparr>))))"

definition audit ::
  "crypto \<Rightarrow> nat \<Rightarrow> fs \<Rightarrow> files \<Rightarrow> string \<Rightarrow> (config_error + broker_config) option \<Rightarrow> string \<Rightarrow>
   (string list \<times> nat) option" where
  \<comment> \<open>the configuration, if the command names one\<close>
  "audit cr depth f disk log_path given pub_path =
     (case disk log_path of
        None \<Rightarrow> None
      | Some t \<Rightarrow>
          (case (chain_problems (sha cr) t, log_entries t) of
             (Some problems, Some es) \<Rightarrow>
               (let start = (''Auditing '' @ log_path) # chain_lines problems (length es);
                    verdict = (\<lambda>ls findings. let ok = problems = [] \<and> findings = [] in
                                 (start @ ls @ [result_line ok], if ok then 0 else 1)) in
                case given of
                  None \<Rightarrow> Some (verdict [''  workspace: not checked (give --config and --registry to check every governed file)'']
                                  ([] :: (string \<times> world_finding) list))
                | Some conf \<Rightarrow>
                    (let pub = (if pub_path = [] then log_path @ ''.pub.json'' else pub_path) in
                     if disk pub = None
                     then Some (start @ [''  workspace: not checked: no public key at '' @ pub], 1)
                     else map_option (\<lambda>(ls, findings). verdict ls findings)
                            (audit_world cr depth f disk log_path pub conf)))
           | _ \<Rightarrow> None))"

section \<open>The requests of a log\<close>

definition py_iter :: "json \<Rightarrow> json list option" where
  \<comment> \<open>iteration over a value; \<open>None\<close> if it is not iterable\<close>
  "py_iter v =
     (case v of
        JList vs \<Rightarrow> Some vs
      | JStr s \<Rightarrow> Some (map (\<lambda>c. JStr [c]) s)
      | JObj d \<Rightarrow> Some (map (\<lambda>(k, x). JStr k) d)
      | _ \<Rightarrow> None)"

definition unpack2 :: "json \<Rightarrow> (json \<times> json) option" where
  \<comment> \<open>\<open>k, v = x\<close>\<close>
  "unpack2 v = (case py_iter v of Some [a, b] \<Rightarrow> Some (a, b) | _ \<Rightarrow> None)"

fun unpack_all :: "json list \<Rightarrow> (json \<times> json) list option" where
  "unpack_all [] = Some []"
| "unpack_all (v # vs) =
     (case unpack2 v of None \<Rightarrow> None | Some p \<Rightarrow> map_option (\<lambda>ps. p # ps) (unpack_all vs))"

definition is_str :: "json \<Rightarrow> bool" where
  "is_str v = (case v of JStr s \<Rightarrow> True | _ \<Rightarrow> False)"

definition arrow :: "json list \<Rightarrow> string \<Rightarrow> json option" where
  \<comment> \<open>the value with the destination, if there is one\<close>
  "arrow whole v =
     map_option (\<lambda>ps. case filter (\<lambda>(k, d). k = JStr ''destination'' \<and> is_str d) ps of
                        [] \<Rightarrow> JStr v
                      | (k, d) # _ \<Rightarrow> JStr (v @ '' -> '' @ py_str d))
       (unpack_all whole)"

fun first_path :: "json list \<Rightarrow> json list \<Rightarrow> json \<Rightarrow> json option" where
  \<comment> \<open>the loop of \<open>_what\<close>; it reads no argument after the first path or URL\<close>
  "first_path whole [] otherwise = Some otherwise"
| "first_path whole (x # xs) otherwise =
     (case unpack2 x of
        None \<Rightarrow> None
      | Some (k, v) \<Rightarrow>
          (case v of
             JStr s \<Rightarrow> if k = JStr ''path'' \<or> k = JStr ''url'' then arrow whole s
                       else first_path whole xs otherwise
           | _ \<Rightarrow> first_path whole xs otherwise))"

definition recorded_place :: "jobj \<Rightarrow> json" where
  "recorded_place e = py_or (py_or (jget e ''url'') (jget e ''target'')) (JStr [])"

definition what_of :: "jobj \<Rightarrow> jobj \<Rightarrow> json option" where
  \<comment> \<open>\<open>_what\<close>\<close>
  "what_of p e =
     (case map_of p ''args'' of
        None \<Rightarrow> Some (recorded_place e)
      | Some v \<Rightarrow> (case py_iter v of None \<Rightarrow> None | Some xs \<Rightarrow> first_path xs xs (recorded_place e)))"

record row =
  rw_ts :: json
  rw_tool :: json
  rw_what :: json
  rw_decision :: json
  rw_effect :: json
  rw_reason :: json
  rw_extra :: json

definition new_row :: "jobj \<Rightarrow> row" where
  "new_row e = \<lparr>rw_ts = jget e ''ts'', rw_tool = JNull, rw_what = JStr [], rw_decision = JNull,
     rw_effect = JNull, rw_reason = JNull, rw_extra = JNull\<rparr>"

definition with_proposal :: "jobj \<Rightarrow> row \<Rightarrow> row option" where
  \<comment> \<open>the lines under \<open>if p\<close>\<close>
  "with_proposal e r =
     (case jget e ''proposal'' of
        JObj p \<Rightarrow>
          (if p = [] then Some r
           else map_option (\<lambda>w. r\<lparr>rw_tool := py_or (rw_tool r) (jget p ''tool''), rw_what := w,
                                  rw_extra := py_or (rw_extra r) (jget p ''extra_fields'')\<rparr>)
                  (if truthy (rw_what r) then Some (rw_what r) else what_of p e))
      | v \<Rightarrow> if truthy v then None else Some r)"

definition with_record :: "jobj \<Rightarrow> row \<Rightarrow> row" where
  "with_record e r =
     (let r1 = r\<lparr>rw_tool := py_or (rw_tool r) (jget e ''tool''), rw_what := py_or (rw_what r) (recorded_place e)\<rparr> in
      if jget e ''event'' \<in> {JStr ''decision'', JStr ''duplicate'', JStr ''prepared'', JStr ''outcome'', JStr ''reconciled''}
      then r1\<lparr>rw_decision := py_or (jget e ''decision'') (rw_decision r),
              rw_effect := py_or (py_or (jget e ''effect'') (jget e ''verdict'')) (rw_effect r),
              rw_reason := py_or (py_or (jget e ''failure'') (jget e ''error'')) (rw_reason r)\<rparr>
      else r1)"

fun hashable :: "json \<Rightarrow> bool" where
  "hashable (JList vs) = False"
| "hashable (JObj d) = False"
| "hashable v = True"

definition add_request :: "json \<Rightarrow> (json \<times> row) list \<Rightarrow> (json \<times> row) list option" where
  \<comment> \<open>one turn of the loop\<close>
  "add_request v rows =
     (case v of
        JObj e \<Rightarrow>
          (let rid = jget e ''request_id'' in
           if \<not> truthy rid then Some rows
           else if \<not> hashable rid then None
           else (let r = (case map_of rows rid of None \<Rightarrow> new_row e | Some r \<Rightarrow> r) in
                 map_option (\<lambda>r1. dset rows rid (with_record e r1)) (with_proposal e r)))
      | _ \<Rightarrow> None)"

fun add_requests :: "json list \<Rightarrow> (json \<times> row) list \<Rightarrow> (json \<times> row) list option" where
  "add_requests [] rows = Some rows"
| "add_requests (v # vs) rows = (case add_request v rows of None \<Rightarrow> None | Some rows' \<Rightarrow> add_requests vs rows')"

definition report_rows :: "string \<Rightarrow> (json \<times> row) list option" where
  "report_rows text = Option.bind (log_entries text) (\<lambda>es. add_requests es [])"

definition row_json :: "row \<Rightarrow> json" where
  \<comment> \<open>a member of the list \<open>--json\<close> prints\<close>
  "row_json r = JObj [(''ts'', rw_ts r), (''tool'', rw_tool r), (''what'', rw_what r), (''decision'', rw_decision r),
     (''effect'', rw_effect r), (''reason'', rw_reason r), (''extra_fields'', rw_extra r)]"

section \<open>The report\<close>

definition py_first19 :: "json \<Rightarrow> string option" where
  \<comment> \<open>\<open>(v or "")[:19]\<close>\<close>
  "py_first19 v =
     (if \<not> truthy v then Some []
      else case v of JStr s \<Rightarrow> Some (take 19 s) | JList vs \<Rightarrow> Some (py_str (JList (take 19 vs))) | _ \<Rightarrow> None)"

definition py_pad12 :: "json \<Rightarrow> string option" where
  \<comment> \<open>\<open>f"{v or '?':12}"\<close>: text is padded on the right, a number on the left\<close>
  "py_pad12 v =
     (let left = (\<lambda>s. replicate (12 - length s) (CHR '' '') @ s) in
      if \<not> truthy v then Some (''?'' @ replicate 11 (CHR '' ''))
      else case v of
             JStr s \<Rightarrow> Some (s @ replicate (12 - length s) (CHR '' ''))
           | JNum i \<Rightarrow> Some (left (show_int i))
           | JBool b \<Rightarrow> Some (left ''1'')
           | _ \<Rightarrow> None)"

fun str_items :: "json list \<Rightarrow> string list option" where
  "str_items [] = Some []"
| "str_items (v # vs) = (case v of JStr s \<Rightarrow> map_option (\<lambda>ss. s # ss) (str_items vs) | _ \<Rightarrow> None)"

definition extra_text :: "json \<Rightarrow> string option" where
  "extra_text v =
     (if \<not> truthy v then Some []
      else Option.bind (py_iter v) (\<lambda>xs.
        map_option (\<lambda>ss. ''  [sent extra fields: '' @ join_with '', '' ss @ '']'') (str_items xs)))"

definition mark :: "json \<Rightarrow> string" where
  "mark d = (if d = JStr ''admit'' then ''admitted'' else if d = JStr ''reject'' then ''REFUSED ''
             else py_str (py_or d (JStr ''?'')))"

definition row_line :: "row \<Rightarrow> string option" where
  "row_line r =
     (case (extra_text (rw_extra r), py_first19 (rw_ts r), py_pad12 (rw_tool r)) of
        (Some extra, Some ts, Some tool) \<Rightarrow>
          Some (''  '' @ ts @ ''  '' @ mark (rw_decision r) @ ''  '' @ tool @ '' '' @
                py_str (py_or (rw_what r) (JStr ''(no path or URL)'')) @ ''  -> '' @
                py_str (py_or (rw_effect r) (JStr ''?'')) @
                (if truthy (rw_reason r) then ''  ('' @ py_str (rw_reason r) @ '')'' else []) @ extra)
      | _ \<Rightarrow> None)"

fun all_of :: "'a option list \<Rightarrow> 'a list option" where
  "all_of [] = Some []"
| "all_of (x # xs) = (case x of None \<Rightarrow> None | Some y \<Rightarrow> map_option (\<lambda>ys. y # ys) (all_of xs))"

definition tally :: "json list \<Rightarrow> (json \<times> nat) list" where
  \<comment> \<open>\<open>Counter(...)\<close>, in order of first occurrence\<close>
  "tally vs = foldl (\<lambda>d v. dset d v (case map_of d v of None \<Rightarrow> 1 | Some n \<Rightarrow> n + 1)) [] vs"

definition most_common :: "json list \<Rightarrow> (json \<times> nat) list" where
  \<comment> \<open>highest count first, ties in order of first occurrence\<close>
  "most_common vs = sort_key (\<lambda>(v, n). - int n) (tally vs)"

definition refused_reasons :: "row list \<Rightarrow> json list" where
  "refused_reasons rows = map (\<lambda>r. py_or (rw_reason r) (JStr ''?'')) (filter (\<lambda>r. rw_decision r = JStr ''reject'') rows)"

definition totals :: "row list \<Rightarrow> string list option" where
  "totals rows =
     (let reasons = refused_reasons rows in
      if list_ex (\<lambda>v. \<not> hashable v) reasons then None
      else Some ([[], show_nat (length rows - length reasons) @ '' admitted, '' @ show_nat (length reasons) @ '' refused''] @
                 map (\<lambda>(v, n). ''  refused for '' @ py_str v @ '': '' @ show_nat n) (most_common reasons)))"

definition report :: "string \<Rightarrow> string option \<Rightarrow> string list option" where
  \<comment> \<open>the printed report; the exit code is 0\<close>
  "report log_path log =
     Option.bind (Option.bind log report_rows) (\<lambda>rows.
       (let rs = map snd rows in
        case (all_of (map row_line rs), totals rs) of
          (Some ls, Some ts) \<Rightarrow>
            Some ([''What the agent tried, from '' @ log_path @ '': '' @ show_nat (length rs) @ '' requests'', []] @ ls @ ts)
        | _ \<Rightarrow> None))"

end
