(* ===== verification/Report.thy ===== *)
theory Report
  imports Evidence Startup
begin

text \<open>
  What the auditor's tools say of a log the broker wrote, and of any log they can read.
\<close>

section \<open>Rows\<close>

definition firsts :: "'a list \<Rightarrow> 'a list" where
  \<comment> \<open>each element once, in order of first occurrence\<close>
  "firsts xs = rev (remdups (rev xs))"

lemma firsts_simps [simp]: "firsts [] = []" "firsts (xs @ [x]) = (if x \<in> set xs then firsts xs else firsts xs @ [x])"
  by (simp_all add: firsts_def)

lemma set_firsts [simp]: "set (firsts xs) = set xs"
  by (simp add: firsts_def)

definition told :: "json \<Rightarrow> jobj \<Rightarrow> bool" where
  \<comment> \<open>an entry the report takes the decision and the effect of the request from\<close>
  "told rid e \<longleftrightarrow> jget e ''request_id'' = rid \<and>
     jget e ''event'' \<in> {JStr ''decision'', JStr ''duplicate'', JStr ''prepared'', JStr ''outcome'', JStr ''reconciled''}"

definition newest :: "(jobj \<Rightarrow> json) \<Rightarrow> jobj list \<Rightarrow> json" where
  \<comment> \<open>the last value that says something\<close>
  "newest f es = foldl (\<lambda>r e. py_or (f e) r) JNull es"

lemma newest_snoc [simp]: "newest f (es @ [e]) = py_or (f e) (newest f es)"
  by (simp add: newest_def)

definition request_ids :: "json list \<Rightarrow> json list" where
  "request_ids vs = filter truthy (map (\<lambda>v. jget (jfields v) ''request_id'') vs)"

definition summed_up :: "json \<Rightarrow> jobj list \<Rightarrow> row \<Rightarrow> bool" where
  "summed_up rid es r \<longleftrightarrow>
     rw_decision r = newest (\<lambda>e. jget e ''decision'') (filter (told rid) es) \<and>
     rw_effect r = newest (\<lambda>e. py_or (jget e ''effect'') (jget e ''verdict'')) (filter (told rid) es) \<and>
     rw_reason r = newest (\<lambda>e. py_or (jget e ''failure'') (jget e ''error'')) (filter (told rid) es)"

definition reported :: "json list \<Rightarrow> (json \<times> row) list \<Rightarrow> bool" where
  "reported vs rows \<longleftrightarrow>
     map fst rows = firsts (request_ids vs) \<and>
     (\<forall>rid r. map_of rows rid = Some r \<longrightarrow> summed_up rid (map jfields vs) r)"

lemma with_proposal_keeps:
  "with_proposal e r = Some r' \<Longrightarrow> rw_decision r' = rw_decision r \<and> rw_effect r' = rw_effect r \<and> rw_reason r' = rw_reason r"
  by (auto simp: with_proposal_def split: json.splits if_splits)

lemma summed_up_told:
  assumes "summed_up rid es r0" and "with_proposal e r0 = Some r" and "jget e ''request_id'' = rid"
  shows "summed_up rid (es @ [e]) (with_record e r)"
  using assms with_proposal_keeps [OF assms(2)]
  by (simp add: summed_up_def with_record_def told_def Let_def)

lemma summed_up_other: "\<not> told rid e \<Longrightarrow> summed_up rid (es @ [e]) r = summed_up rid es r"
  by (simp add: summed_up_def)

lemma summed_up_new: "rid \<notin> set (map (\<lambda>e. jget e ''request_id'') es) \<Longrightarrow> summed_up rid es (new_row e)"
proof -
  assume "rid \<notin> set (map (\<lambda>e. jget e ''request_id'') es)"
  then have "filter (told rid) es = []" by (auto simp: filter_empty_conv told_def)
  then show ?thesis by (simp add: summed_up_def new_row_def newest_def)
qed

lemma reported_keys: "reported vs rows \<Longrightarrow> set (map fst rows) = set (request_ids vs)"
  by (simp add: reported_def)

lemma reported_step:
  assumes "reported vs rows" and "add_request v rows = Some rows'"
  shows "reported (vs @ [v]) rows'"
proof -
  obtain e where e: "v = JObj e" using assms(2) by (cases v) (auto simp: add_request_def)
  let ?rid = "jget e ''request_id''"
  have f: "jfields v = e" by (simp add: e jfields_def)
  note keys = reported_keys [OF assms(1)]
  show ?thesis
  proof (cases "truthy ?rid")
    case False
    then have "rows' = rows" using assms(2) e by (simp add: add_request_def)
    moreover have "\<not> told rid e" if "map_of rows rid = Some r" for rid r
    proof -
      have "rid \<in> set (request_ids vs)" using map_of_SomeD [OF that] keys by force
      then show ?thesis using False by (auto simp: told_def request_ids_def)
    qed
    ultimately show ?thesis
      using assms(1) False by (auto simp: reported_def f summed_up_other request_ids_def)
  next
    case True
    define r0 where "r0 = (case map_of rows ?rid of None \<Rightarrow> new_row e | Some r \<Rightarrow> r)"
    obtain r1 where r1: "with_proposal e r0 = Some r1" "rows' = dset rows ?rid (with_record e r1)"
      using assms(2) e True by (auto simp: add_request_def Let_def r0_def split: if_splits)
    have "summed_up ?rid (map jfields vs) r0"
    proof (cases "map_of rows ?rid")
      case None
      then have "?rid \<notin> set (request_ids vs)" using keys by (simp add: map_of_eq_None_iff)
      then show ?thesis
        using None True summed_up_new [of ?rid "map jfields vs" e] by (auto simp: r0_def request_ids_def)
    qed (use assms(1) in \<open>simp add: reported_def r0_def\<close>)
    then have here: "summed_up ?rid (map jfields vs @ [e]) (with_record e r1)" by (rule summed_up_told [OF _ r1(1) refl])
    have "map fst rows' = firsts (request_ids (vs @ [v]))"
      using assms(1) True keys by (simp add: r1(2) keys_dset reported_def request_ids_def f)
    moreover have "summed_up rid (map jfields (vs @ [v])) r" if "map_of rows' rid = Some r" for rid r
    proof (cases "rid = ?rid")
      case False
      then have "\<not> told rid e" "map_of rows rid = Some r" using that by (auto simp: r1(2) told_def)
      then show ?thesis using assms(1) by (simp add: reported_def f summed_up_other)
    qed (use that here in \<open>simp add: r1(2) f\<close>)
    ultimately show ?thesis unfolding reported_def by blast
  qed
qed

lemma add_requests_reported:
  "add_requests vs rows = Some rows' \<Longrightarrow> reported us rows \<Longrightarrow> reported (us @ vs) rows'"
proof (induction vs arbitrary: us rows)
  case (Cons v vs)
  then obtain rows1 where "add_request v rows = Some rows1" "add_requests vs rows1 = Some rows'"
    by (auto split: option.splits)
  then show ?case using Cons.IH [of rows1 "us @ [v]"] reported_step [OF Cons.prems(2)] by simp
qed simp

definition refused_entry :: jobj where
  "refused_entry = [(''event'', JStr ''decision''), (''request_id'', JStr ''r''), (''decision'', JStr ''reject''),
     (''effect'', JStr ''none''), (''failure'', JStr ''intent'')]"

definition other_entry :: jobj where
  "other_entry = [(''event'', JStr ''prepared''), (''request_id'', JStr ''q''), (''decision'', JStr ''admit'')]"

definition left_out :: jobj where
  "left_out = [(''event'', JStr ''start'')]"

section \<open>The broker's own log\<close>

lemma in_step_intact:
  assumes "in_step hf al" and "al_file al = Some t"
  shows "chain_problems hf t = Some []"
  using assms load_entries_iff [of hf "lines_of t" "new_log (Some t)" 1]
  by (auto simp: in_step_def load_log_def chain_problems_def log_entries_def new_log_def)

text \<open>A request without any decision, as one that only a \<open>reattested\<close> record names, is counted as admitted.\<close>

lemma undecided_counted_as_admitted:
  "totals [new_row (reattested_record r rid t)] = Some [[], ''1 admitted, 0 refused'']"
proof -
  have "show_nat 0 = ''0''" "show_nat (Suc 0) = ''1''" by code_simp+
  then show ?thesis by (simp add: totals_def refused_reasons_def new_row_def most_common_def tally_def)
qed

section \<open>Properties\<close>

text \<open>C18: The broker's own log passes the audit: of any log the broker is in step with, as a start and
  every append that does not fail leave it, the auditor finds the chain intact and exits with 0; and
  with the configuration and the public key it does so exactly when the workspace has no finding.\<close>

theorem own_log_passes_audit:
  assumes "in_step (sha cr) al" and "al_file al = Some t" and "disk p = Some t"
  shows "(\<exists>ls. audit cr depth f disk p None pub = Some (ls, 0)) \<and>
         (disk (p @ ''.pub.json'') \<noteq> None \<longrightarrow> load_ring cr [] (p @ ''.pub.json'') disk = Some r \<longrightarrow>
          verify_world cr depth f (Some t) (Some \<lparr>k_ring = r, legacy = None\<rparr>) = Some rep \<longrightarrow>
          (\<exists>ls n. audit cr depth f disk p (Some (Inr cfg)) [] = Some (ls, n) \<and> (n = 0 \<longleftrightarrow> wr_findings rep = [])))"
proof -
  have ok: "chain_problems (sha cr) t = Some []" by (rule in_step_intact [OF assms(1,2)])
  then obtain es where es: "log_entries t = Some es" by (auto simp: chain_problems_def split: option.splits)
  show ?thesis by (auto simp: audit_def assms(3) ok es Let_def audit_world_def)
qed

theorem own_log_passes_audit_witness:
  "\<exists>t ls. al_file (snd (log_append demo_crypto demo_env left_out (new_log None))) = Some t \<and>
     audit demo_crypto 1 demo_fs (\<lambda>_. Some t) ''log'' None [] = Some (ls, 0)"
proof -
  let ?al = "snd (log_append demo_crypto demo_env left_out (new_log None))"
  have f: "faultless demo_env" by (simp add: faultless_def demo_env_def)
  have plain: "plain_entry left_out" by (simp add: plain_entry_def left_out_def)
  have step: "in_step (sha demo_crypto) ?al" using append_in_step [OF in_step_new plain f] by simp
  obtain t where t: "al_file ?al = Some t"
    by (auto simp: log_append_def write_line_def run_checkpoint_def demo_env_def new_log_def Let_def)
  from own_log_passes_audit [OF step t, of "\<lambda>_. Some t" "''log''"] t show ?thesis by auto
qed

text \<open>The report leaves no request out and invents none: for any log it can read there is exactly one
  row for each request identifier in it, in order of first appearance, and the row shows the
  newest decision, effect and reason that the request's records state.\<close>

theorem report_has_every_request:
  assumes "report_rows text = Some rows" and "log_entries text = Some vs"
  shows "map fst rows = firsts (request_ids vs) \<and>
         (\<forall>rid r. map_of rows rid = Some r \<longrightarrow> summed_up rid (map jfields vs) r)"
proof -
  have "reported [] []" by (simp add: reported_def request_ids_def)
  with add_requests_reported [of vs "[]" rows "[]"] assms show ?thesis
    by (simp add: report_rows_def reported_def)
qed

theorem report_has_every_request_witness:
  "\<exists>rows r. report_rows (dumps (JObj refused_entry) @ [CHR 0x0A] @ dumps (JObj other_entry) @ [CHR 0x0A]) = Some rows \<and>
     map fst rows = [JStr ''r'', JStr ''q''] \<and> map_of rows (JStr ''r'') = Some r \<and> rw_decision r = JStr ''reject''"
proof -
  let ?t = "dumps (JObj refused_entry) @ [CHR 0x0A] @ dumps (JObj other_entry) @ [CHR 0x0A]"
  have es: "log_entries ?t = Some [JObj refused_entry, JObj other_entry]" by code_simp
  moreover have "report_rows ?t \<noteq> None" by code_simp
  then obtain rows where rows: "report_rows ?t = Some rows" by auto
  have ids: "firsts (request_ids [JObj refused_entry, JObj other_entry]) = [JStr ''r'', JStr ''q'']" by code_simp
  note all = report_has_every_request [OF rows es]
  then have "JStr ''r'' \<in> fst ` set rows" using ids by (metis list.set_intros(1) list.set_map)
  then obtain r where r: "map_of rows (JStr ''r'') = Some r" by (metis map_of_eq_None_iff not_None_eq)
  then have "summed_up (JStr ''r'') [refused_entry, other_entry] r"
    using all by (simp add: jfields_def)
  then have "rw_decision r = JStr ''reject''"
    by (simp add: summed_up_def told_def newest_def refused_entry_def other_entry_def jget_def py_or_def)
  with rows r all ids show ?thesis by auto
qed

text \<open>The report does not show what a start found out: the record of a request that was classified
  at a start carries the verdict under a name the report does not read, so the row's effect is
  what it was before, and a request that was only prepared stays without one.\<close>

theorem report_hides_reconciliation:
  assumes "add_request (JObj (reconciled_record rid e verdict observed)) rows = Some rows'"
    and "map_of rows rid = Some r" and "truthy rid"
  shows "\<exists>r'. map_of rows' rid = Some r' \<and> rw_effect r' = rw_effect r \<and> rw_decision r' = rw_decision r"
proof -
  let ?e = "reconciled_record rid e verdict observed"
  have f: "jget ?e ''request_id'' = rid" "jget ?e ''proposal'' = JNull" "jget ?e ''effect'' = JNull" "jget ?e ''verdict'' = JNull"
    "jget ?e ''decision'' = JNull"
    by (simp_all add: reconciled_record_def jget_def)
  have "with_proposal ?e r = Some r" by (simp add: with_proposal_def f)
  then have "map_of rows' rid = Some (with_record ?e r)"
    using assms by (auto simp: add_request_def f Let_def split: if_splits)
  then show ?thesis by (simp add: with_record_def f Let_def py_or_def)
qed

theorem report_hides_reconciliation_witness:
  "\<exists>rows rows' r'. add_requests [JObj other_entry] [] = Some rows \<and>
     add_request (JObj (reconciled_record (JStr ''q'') other_entry ''confirmedSuccess'' JNull)) rows = Some rows' \<and>
     map_of rows' (JStr ''q'') = Some r' \<and> rw_effect r' = JNull"
proof -
  let ?r = "with_record other_entry (new_row other_entry)"
  have rows: "add_requests [JObj other_entry] [] = Some [(JStr ''q'', ?r)]"
    by (simp add: add_request_def with_proposal_def other_entry_def jget_def Let_def)
  have "add_request (JObj (reconciled_record (JStr ''q'') other_entry ''confirmedSuccess'' JNull)) [(JStr ''q'', ?r)] \<noteq> None"
    by (simp add: add_request_def with_proposal_def reconciled_record_def jget_def Let_def)
  then obtain rows' where rows': "add_request (JObj (reconciled_record (JStr ''q'') other_entry ''confirmedSuccess'' JNull))
      [(JStr ''q'', ?r)] = Some rows'" by auto
  have "rw_effect ?r = JNull"
    by (simp add: with_record_def new_row_def other_entry_def jget_def py_or_def Let_def)
  then show ?thesis using report_hides_reconciliation [OF rows'] rows rows' by auto
qed

end
