(* ===== verification/Daemon.thy ===== *)
theory Daemon
  imports Request
begin

text \<open>
  The broker's process (\<open>main\<close> in \<open>darm_guard/broker.py\<close>) from the installation of its SIGTERM handler to
  its end, as a step relation: the program's own steps, signals that arrive between any two of them,
  and the requests that handler threads complete meanwhile. The handler raises \<open>SystemExit\<close> once
  armed and only notes the signal before. \<open>Ended\<close> is the end of the \<open>finally\<close> block, \<open>Aborted\<close> an
  exception that left \<open>main\<close> from somewhere else.
\<close>

section \<open>The process\<close>

datatype point =
    Opening      \<comment> \<open>the configuration is read and \<open>serve\<close> runs\<close>
  | Recording    \<comment> \<open>about to append the \<open>start\<close> record\<close>
  | Arming       \<comment> \<open>about to enter the \<open>try\<close> block and arm the handler\<close>
  | Checking     \<comment> \<open>about to look for a signal noted before\<close>
  | Serving
  | Stopping     \<comment> \<open>about to append the \<open>stop\<close> record\<close>
  | Covering     \<comment> \<open>about to publish the final checkpoint\<close>
  | Ended
  | Refused      \<comment> \<open>the broker did not start\<close>
  | Aborted

record daemon =
  dm_at :: point
  dm_armed :: bool
  dm_pending :: bool
  dm_served :: bool        \<comment> \<open>there may be handler threads\<close>
  dm_log :: audit_log
  dm_opened :: string      \<comment> \<open>the log's text when \<open>serve\<close> returned, kept for the properties\<close>

definition new_daemon :: daemon where
  "new_daemon = \<lparr>dm_at = Opening, dm_armed = False, dm_pending = False, dm_served = False,
     dm_log = new_log None, dm_opened = []\<rparr>"

definition start_entry :: "string \<Rightarrow> string \<Rightarrow> jobj" where
  "start_entry cfg_hash reg_hash =
     [(''event'', JStr ''start''), (''config_sha256'', JStr cfg_hash), (''registry_sha256'', JStr reg_hash)]"

definition stop_entry :: jobj where
  "stop_entry = [(''event'', JStr ''stop'')]"

fun interrupted :: "point \<Rightarrow> point" where
  \<comment> \<open>where an exception raised at the point leads: from inside the \<open>try\<close> block to its \<open>finally\<close>\<close>
  "interrupted Checking = Stopping"
| "interrupted Serving = Stopping"
| "interrupted Ended = Ended"
| "interrupted Refused = Refused"
| "interrupted p = Aborted"

definition handler :: "daemon \<Rightarrow> daemon" where
  \<comment> \<open>\<open>_stop\<close>\<close>
  "handler d = (if dm_armed d then d\<lparr>dm_at := interrupted (dm_at d)\<rparr> else d\<lparr>dm_pending := True\<rparr>)"

inductive daemon_step :: "crypto \<Rightarrow> string \<Rightarrow> string \<Rightarrow> bool \<Rightarrow> daemon \<Rightarrow> daemon \<Rightarrow> bool"
  for cr cfg_hash reg_hash calm where
  \<comment> \<open>\<open>calm\<close>: no signal arrives and the disk takes every write\<close>
  opens: "dm_at d = Opening \<Longrightarrow> daemon_step cr cfg_hash reg_hash calm d (d\<lparr>dm_at := Recording, dm_log := al, dm_opened := al_text al\<rparr>)"
| refuses: "dm_at d = Opening \<Longrightarrow> daemon_step cr cfg_hash reg_hash calm d (d\<lparr>dm_at := Refused\<rparr>)"
| records: "dm_at d = Recording \<Longrightarrow> (calm \<longrightarrow> faultless env) \<Longrightarrow> log_append cr env (start_entry cfg_hash reg_hash) (dm_log d) = (ok, al) \<Longrightarrow>
    daemon_step cr cfg_hash reg_hash calm d (d\<lparr>dm_at := if ok then Arming else Aborted, dm_log := al\<rparr>)"
| arms: "dm_at d = Arming \<Longrightarrow> daemon_step cr cfg_hash reg_hash calm d (d\<lparr>dm_at := Checking, dm_armed := True\<rparr>)"
| checks: "dm_at d = Checking \<Longrightarrow>
    daemon_step cr cfg_hash reg_hash calm d (if dm_pending d then d\<lparr>dm_at := Stopping\<rparr> else d\<lparr>dm_at := Serving, dm_served := True\<rparr>)"
| stops: "dm_at d = Stopping \<Longrightarrow> (calm \<longrightarrow> faultless env) \<Longrightarrow> log_append cr env stop_entry (dm_log d) = (ok, al) \<Longrightarrow>
    daemon_step cr cfg_hash reg_hash calm d (d\<lparr>dm_at := if ok then Covering else Aborted, dm_log := al\<rparr>)"
| covers: "dm_at d = Covering \<Longrightarrow> (calm \<longrightarrow> faultless env) \<Longrightarrow> checkpoint_now cr env (dm_log d) = (ok, al) \<Longrightarrow>
    daemon_step cr cfg_hash reg_hash calm d (d\<lparr>dm_at := if ok then Ended else Aborted, dm_log := al\<rparr>)"
| request: "dm_served d \<Longrightarrow> dm_at d \<in> {Serving, Stopping, Covering} \<Longrightarrow> (calm \<longrightarrow> faultless env) \<Longrightarrow> log_append cr env e (dm_log d) = (ok, al) \<Longrightarrow>
    daemon_step cr cfg_hash reg_hash calm d (d\<lparr>dm_log := al\<rparr>)"
| sigterm: "\<not> calm \<Longrightarrow> dm_at d \<notin> {Ended, Refused, Aborted} \<Longrightarrow> daemon_step cr cfg_hash reg_hash calm d (handler d)"
| sigint: "\<not> calm \<Longrightarrow> dm_at d \<notin> {Ended, Refused, Aborted} \<Longrightarrow>
    daemon_step cr cfg_hash reg_hash calm d (d\<lparr>dm_at := interrupted (dm_at d)\<rparr>)"

section \<open>What is in the log\<close>

definition has_line :: "crypto \<Rightarrow> jobj \<Rightarrow> string \<Rightarrow> bool" where
  \<comment> \<open>the text has a line the broker wrote for the entry\<close>
  "has_line cr e t \<longleftrightarrow> (\<exists>pre prev now rest. t = pre @ entry_line (sha cr) (chained prev now e) @ rest)"

definition bracketed :: "crypto \<Rightarrow> jobj \<Rightarrow> jobj \<Rightarrow> string \<Rightarrow> bool" where
  \<comment> \<open>a line of the first entry, and one of the second after it\<close>
  "bracketed cr a z t \<longleftrightarrow>
     (\<exists>pre prev now rest. t = pre @ entry_line (sha cr) (chained prev now a) @ rest \<and> has_line cr z rest)"

lemma has_line_append: "has_line cr e t \<Longrightarrow> has_line cr e (t @ u)"
  unfolding has_line_def by (metis append_assoc)

lemma bracketed_append: "bracketed cr a z t \<Longrightarrow> bracketed cr a z (t @ u)"
  unfolding bracketed_def by (metis append_assoc has_line_append)

lemma has_line_here: "has_line cr e (pre @ entry_line (sha cr) (chained prev now e) @ rest)"
  unfolding has_line_def by blast

lemma bracketed_here:
  "has_line cr a t \<Longrightarrow> bracketed cr a z (t @ entry_line (sha cr) (chained prev now z) @ rest)"
  unfolding bracketed_def has_line_def by (metis append_assoc)

lemma log_append_extends: "\<exists>rest. al_text (snd (log_append cr env e al)) = al_text al @ rest"
proof -
  obtain ok al1 where w: "write_line (sha cr) (ae_fault env) (ae_now env) e al = (ok, al1)" by fastforce
  then obtain r1 where "al_text al1 = al_text al @ r1"
    using write_line_extends [of "sha cr" "ae_fault env" "ae_now env" e al] by auto
  moreover obtain r2 where "al_text (snd (run_checkpoint cr env False al1)) = al_text al1 @ r2"
    using run_checkpoint_extends by blast
  ultimately show ?thesis using w by (cases ok) (auto simp: log_append_def)
qed

lemma checkpoint_now_extends: "\<exists>rest. al_text (snd (checkpoint_now cr env al)) = al_text al @ rest"
  using run_checkpoint_extends by (simp add: checkpoint_now_def)

definition added :: "daemon \<Rightarrow> string" where
  \<comment> \<open>what this process has added to the log\<close>
  "added d = drop (length (dm_opened d)) (al_text (dm_log d))"

lemma added_append:
  assumes "prefix (dm_opened d) (al_text (dm_log d))" and "al_text al = al_text (dm_log d) @ rest"
  shows "added (d\<lparr>dm_log := al\<rparr>) = added d @ rest" and "prefix (dm_opened d) (al_text al)"
  using assms by (auto simp: added_def prefix_def)

definition daemon_ok :: "crypto \<Rightarrow> string \<Rightarrow> string \<Rightarrow> daemon \<Rightarrow> bool" where
  "daemon_ok cr ch rh d \<longleftrightarrow>
     prefix (dm_opened d) (al_text (dm_log d)) \<and>
     (dm_at d \<in> {Checking, Serving, Stopping, Covering, Ended} \<longrightarrow> dm_armed d) \<and>
     (dm_at d \<in> {Opening, Recording, Arming} \<longrightarrow> \<not> dm_armed d) \<and>
     (dm_at d = Serving \<longrightarrow> \<not> dm_pending d) \<and>
     (dm_at d \<in> {Arming, Checking, Serving, Stopping} \<longrightarrow> has_line cr (start_entry ch rh) (added d)) \<and>
     (dm_at d \<in> {Covering, Ended} \<longrightarrow> bracketed cr (start_entry ch rh) stop_entry (added d))"

lemma added_at [simp]: "added (d\<lparr>dm_at := p\<rparr>) = added d" "added (d\<lparr>dm_armed := arm\<rparr>) = added d"
  "added (d\<lparr>dm_pending := arm\<rparr>) = added d" "added (d\<lparr>dm_served := arm\<rparr>) = added d"
  "added (d\<lparr>dm_at := p, dm_log := al\<rparr>) = added (d\<lparr>dm_log := al\<rparr>)"
  by (simp_all add: added_def)

lemma daemon_ok_log:
  assumes "daemon_ok cr ch rh d" and "al_text al = al_text (dm_log d) @ rest"
  shows "daemon_ok cr ch rh (d\<lparr>dm_log := al\<rparr>)"
proof -
  have p: "prefix (dm_opened d) (al_text (dm_log d))" using assms(1) by (simp add: daemon_ok_def)
  show ?thesis using assms(1) added_append [OF p assms(2)] has_line_append bracketed_append by (simp add: daemon_ok_def)
qed

lemma daemon_ok_step: "daemon_step cr ch rh calm d d' \<Longrightarrow> daemon_ok cr ch rh d \<Longrightarrow> daemon_ok cr ch rh d'"
proof (induction rule: daemon_step.induct)
  case (records d env ok al)
  have p: "prefix (dm_opened d) (al_text (dm_log d))" using records(4) by (simp add: daemon_ok_def)
  have "has_line cr (start_entry ch rh) (added (d\<lparr>dm_log := al\<rparr>)) \<and> prefix (dm_opened d) (al_text al)" if "ok"
  proof -
    obtain rest where "al_text al = al_text (dm_log d) @ entry_line (sha cr) (chained (al_prev (dm_log d)) (ae_now env) (start_entry ch rh)) @ rest"
      using log_append_text [of cr env "start_entry ch rh" "dm_log d" al] records(3) \<open>ok\<close> by auto
    then show ?thesis using added_append [OF p] has_line_here by simp
  qed
  moreover obtain rest where "al_text al = al_text (dm_log d) @ rest"
    using log_append_extends [of cr env "start_entry ch rh" "dm_log d"] records(3) by auto
  ultimately show ?case using records added_append(2) [OF p] by (cases ok) (simp_all add: daemon_ok_def)
next
  case (stops d env ok al)
  have p: "prefix (dm_opened d) (al_text (dm_log d))" using stops(4) by (simp add: daemon_ok_def)
  have "bracketed cr (start_entry ch rh) stop_entry (added (d\<lparr>dm_log := al\<rparr>))" if "ok"
  proof -
    obtain rest where "al_text al = al_text (dm_log d) @ entry_line (sha cr) (chained (al_prev (dm_log d)) (ae_now env) stop_entry) @ rest"
      using log_append_text [of cr env stop_entry "dm_log d" al] stops(3) \<open>ok\<close> by auto
    then show ?thesis using added_append [OF p] bracketed_here stops(1,4) by (simp add: daemon_ok_def)
  qed
  moreover obtain rest where "al_text al = al_text (dm_log d) @ rest"
    using log_append_extends [of cr env stop_entry "dm_log d"] stops(3) by auto
  ultimately show ?case using stops added_append(2) [OF p] by (cases ok) (simp_all add: daemon_ok_def)
next
  case (covers d env ok al)
  have p: "prefix (dm_opened d) (al_text (dm_log d))" using covers(4) by (simp add: daemon_ok_def)
  obtain rest where "al_text al = al_text (dm_log d) @ rest"
    using checkpoint_now_extends [of cr env "dm_log d"] covers(3) by auto
  note a = added_append [OF p this]
  have "bracketed cr (start_entry ch rh) stop_entry (added (d\<lparr>dm_log := al\<rparr>))"
    using covers(1,4) bracketed_append unfolding a(1) by (simp add: daemon_ok_def)
  then show ?case using covers a(2) by (cases ok) (simp_all add: daemon_ok_def)
next
  case (request d env e ok al)
  then show ?case using daemon_ok_log log_append_extends [of cr env e "dm_log d"] by auto
next
  case (sigterm d)
  then show ?case by (cases "dm_at d") (simp_all add: handler_def daemon_ok_def)
next
  case (sigint d)
  then show ?case by (cases "dm_at d") (simp_all add: daemon_ok_def)
qed (auto simp: daemon_ok_def)

abbreviation daemon_run :: "crypto \<Rightarrow> string \<Rightarrow> string \<Rightarrow> daemon \<Rightarrow> daemon \<Rightarrow> bool" where
  "daemon_run cr ch rh \<equiv> (daemon_step cr ch rh False)\<^sup>*\<^sup>*"

abbreviation calm_run :: "crypto \<Rightarrow> string \<Rightarrow> string \<Rightarrow> daemon \<Rightarrow> daemon \<Rightarrow> bool" where
  \<comment> \<open>no further signal, and a disk that works\<close>
  "calm_run cr ch rh \<equiv> (daemon_step cr ch rh True)\<^sup>*\<^sup>*"

lemma calm_step_is_step: "daemon_step cr ch rh True d d' \<Longrightarrow> daemon_step cr ch rh False d d'"
  by (induction rule: daemon_step.induct) (rule daemon_step.intros; (assumption | simp))+

lemma calm_run_is_run: "calm_run cr ch rh d d' \<Longrightarrow> daemon_run cr ch rh d d'"
  by (induction rule: rtranclp_induct) (blast intro: calm_step_is_step rtranclp.rtrancl_into_rtrancl)+

lemma daemon_ok_reachable: "daemon_run cr ch rh new_daemon d \<Longrightarrow> daemon_ok cr ch rh d"
proof (induction rule: rtranclp_induct)
  case base
  show ?case by (simp add: daemon_ok_def new_daemon_def)
qed (rule daemon_ok_step)

lemma served_reachable: "daemon_run cr ch rh new_daemon d \<Longrightarrow> dm_at d = Serving \<Longrightarrow> dm_served d"
proof (induction rule: rtranclp_induct)
  case (step d d')
  from step(2,3,4) show ?case
    by (induction rule: daemon_step.induct) (auto simp: handler_def elim: interrupted.elims split: if_splits)
qed (simp add: new_daemon_def)

section \<open>A run to its end\<close>

lemma own_step: "daemon_step cr ch rh calm d d' \<Longrightarrow> (daemon_step cr ch rh calm)\<^sup>*\<^sup>* d' e \<Longrightarrow> (daemon_step cr ch rh calm)\<^sup>*\<^sup>* d e"
  by (rule converse_rtranclp_into_rtranclp)

lemma serving_reachable:
  assumes "faultless env"
  shows "\<exists>d. daemon_run cr ch rh new_daemon d \<and> dm_at d = Serving"
proof -
  obtain al where al: "log_append cr env (start_entry ch rh) (new_log None) = (True, al)"
    using faultless_append [OF assms] by (metis (full_types) prod.collapse)
  let ?d = "\<lambda>p arm srv al. \<lparr>dm_at = p, dm_armed = arm, dm_pending = False, dm_served = srv, dm_log = al, dm_opened = []\<rparr>"
  have "daemon_step cr ch rh False new_daemon (?d Recording False False (new_log None))"
    using opens [of new_daemon cr ch rh False "new_log None"] by (simp add: new_daemon_def new_log_def al_text_def)
  moreover have "daemon_step cr ch rh False (?d Recording False False (new_log None)) (?d Arming False False al)"
    using records [of "?d Recording False False (new_log None)" False env cr ch rh True al] al by simp
  moreover have "daemon_step cr ch rh False (?d Arming False False al) (?d Checking True False al)"
    using arms [of "?d Arming False False al" cr ch rh False] by simp
  moreover have "daemon_step cr ch rh False (?d Checking True False al) (?d Serving True True al)"
    using checks [of "?d Checking True False al" cr ch rh False] by simp
  ultimately have "daemon_run cr ch rh new_daemon (?d Serving True True al)"
    by (blast intro: own_step)
  then show ?thesis by (intro exI conjI) auto
qed

lemma checkpoint_returns: "faultless env \<Longrightarrow> fst (checkpoint_now cr env al)"
  by (auto simp: checkpoint_now_def faultless_def run_checkpoint_def write_line_def Let_def split: option.split prod.split)

lemma covering_ends:
  assumes "dm_at d = Covering" and "faultless env"
  shows "\<exists>d'. calm_run cr ch rh d d' \<and> dm_at d' = Ended"
proof -
  obtain al where al: "checkpoint_now cr env (dm_log d) = (True, al)"
    using checkpoint_returns [OF assms(2)] by (metis (full_types) prod.collapse)
  have "daemon_step cr ch rh True d (d\<lparr>dm_at := Ended, dm_log := al\<rparr>)"
    using covers [of d True env cr True al ch rh] al assms by simp
  then show ?thesis by (intro exI conjI r_into_rtranclp) auto
qed

lemma stopping_ends:
  assumes "dm_at d = Stopping" and "faultless env"
  shows "\<exists>d'. calm_run cr ch rh d d' \<and> dm_at d' = Ended"
proof -
  obtain al where al: "log_append cr env stop_entry (dm_log d) = (True, al)"
    using faultless_append [OF assms(2)] by (metis (full_types) prod.collapse)
  let ?d1 = "d\<lparr>dm_at := Covering, dm_log := al\<rparr>"
  have "daemon_step cr ch rh True d ?d1" using stops [of d True env cr True al ch rh] al assms by simp
  then show ?thesis using covering_ends [of ?d1, OF _ assms(2)] own_step by (metis daemon.select_convs(1) daemon.surjective daemon.update_convs(1,5))
qed

text \<open>Handler threads are not waited for: a request that one of them completes after the \<open>stop\<close> record appends its
  own record after it, whatever it says, before the final checkpoint.\<close>

lemma record_after_stop:
  assumes "faultless env"
  shows "\<exists>d. daemon_run cr ch rh new_daemon d \<and> dm_at d = Ended \<and> bracketed cr stop_entry e (al_text (dm_log d))"
proof -
  obtain d where d: "daemon_run cr ch rh new_daemon d" "dm_at d = Serving" using serving_reachable [OF assms] by blast
  let ?d0 = "d\<lparr>dm_at := Stopping\<rparr>"
  obtain al where al: "log_append cr env stop_entry (dm_log d) = (True, al)"
    using faultless_append [OF assms] by (metis (full_types) prod.collapse)
  let ?d1 = "?d0\<lparr>dm_at := Covering, dm_log := al\<rparr>"
  obtain al2 where al2: "log_append cr env e al = (True, al2)"
    using faultless_append [OF assms] by (metis (full_types) prod.collapse)
  let ?d2 = "?d1\<lparr>dm_log := al2\<rparr>"
  have "fst (checkpoint_now cr env al2)" by (rule checkpoint_returns [OF assms])
  then obtain al3 where al3: "checkpoint_now cr env al2 = (True, al3)" by (metis (full_types) prod.collapse)
  let ?d3 = "?d2\<lparr>dm_at := Ended, dm_log := al3\<rparr>"
  have served: "dm_served d" using d served_reachable by blast
  have "daemon_step cr ch rh False d ?d0" using sigint [of False d cr ch rh] d(2) by simp
  moreover have "daemon_step cr ch rh False ?d0 ?d1" using stops [of ?d0 False env cr True al ch rh] al by simp
  moreover have "daemon_step cr ch rh False ?d1 ?d2" using request [of ?d1 False env cr e True al2 ch rh] al2 served by simp
  moreover have "daemon_step cr ch rh False ?d2 ?d3" using covers [of ?d2 False env cr True al3 ch rh] al3 by simp
  ultimately have run: "daemon_run cr ch rh new_daemon ?d3" using d(1) by (meson rtranclp.rtrancl_into_rtrancl)
  obtain r1 where r1: "al_text al = al_text (dm_log d) @ entry_line (sha cr) (chained (al_prev (dm_log d)) (ae_now env) stop_entry) @ r1"
    using log_append_text [OF al] by auto
  obtain r2 where r2: "al_text al2 = al_text al @ entry_line (sha cr) (chained (al_prev al) (ae_now env) e) @ r2"
    using log_append_text [OF al2] by auto
  have "bracketed cr stop_entry e (al_text al2)"
    unfolding r2 by (rule bracketed_here) (simp only: r1 has_line_here)
  moreover obtain r3 where "al_text al3 = al_text al2 @ r3" using checkpoint_now_extends [of cr env al2] al3 by auto
  ultimately have "bracketed cr stop_entry e (al_text al3)" using bracketed_append by metis
  then show ?thesis using run by (intro exI [of _ ?d3]) simp
qed

section \<open>After a signal\<close>

definition doomed :: "daemon \<Rightarrow> bool" where
  \<comment> \<open>the process will not serve from here on\<close>
  "doomed d \<longleftrightarrow> (dm_pending d \<and> dm_at d \<in> {Opening, Recording, Arming, Checking}) \<or>
     dm_at d \<in> {Stopping, Covering, Ended, Refused, Aborted}"

lemma doomed_step: "daemon_step cr ch rh calm d d' \<Longrightarrow> doomed d \<Longrightarrow> doomed d'"
proof (induction rule: daemon_step.induct)
  case (sigterm d)
  then show ?case by (cases "dm_at d") (auto simp: doomed_def handler_def)
next
  case (sigint d)
  then show ?case by (cases "dm_at d") (auto simp: doomed_def)
qed (auto simp: doomed_def)

lemma doomed_run: "daemon_run cr ch rh d d' \<Longrightarrow> doomed d \<Longrightarrow> doomed d'"
  by (induction rule: rtranclp_induct) (blast intro: doomed_step)+

lemma doomed_handler: "daemon_ok cr ch rh d \<Longrightarrow> doomed (handler d)"
  by (cases "dm_at d") (auto simp: daemon_ok_def doomed_def handler_def)

definition winding :: "daemon \<Rightarrow> bool" where
  \<comment> \<open>on the way to the end of \<open>main\<close>'s shutdown, or refused by \<open>serve\<close>\<close>
  "winding d \<longleftrightarrow> (dm_pending d \<and> dm_at d \<in> {Opening, Recording, Arming, Checking}) \<or>
     dm_at d \<in> {Stopping, Covering, Ended, Refused}"

lemma winding_handler:
  "daemon_ok cr ch rh d \<Longrightarrow> dm_at d \<in> {Opening, Recording, Arming, Checking, Serving} \<Longrightarrow> winding (handler d)"
  by (cases "dm_at d") (auto simp: daemon_ok_def winding_def handler_def)

lemma winding_step:
  "daemon_step cr ch rh True d d' \<Longrightarrow> winding d \<Longrightarrow> winding d' \<and> (dm_at d' = Refused \<longrightarrow> dm_at d \<in> {Opening, Refused})"
proof (induction rule: daemon_step.induct)
  case (records d env ok al)
  then have ok using faultless_append [of env cr "start_entry ch rh" "dm_log d"] by simp
  then show ?case using records by (auto simp: winding_def)
next
  case (stops d env ok al)
  then have ok using faultless_append [of env cr stop_entry "dm_log d"] by simp
  then show ?case using stops by (auto simp: winding_def)
next
  case (covers d env ok al)
  then have ok using checkpoint_returns [of env cr "dm_log d"] by simp
  then show ?case using covers by (auto simp: winding_def)
qed (auto simp: winding_def)

lemma winding_not_opening: "daemon_step cr ch rh calm d d' \<Longrightarrow> dm_at d \<noteq> Opening \<Longrightarrow> dm_at d' \<noteq> Opening"
proof (induction rule: daemon_step.induct)
  case (sigterm d)
  then show ?case by (cases "dm_at d") (auto simp: handler_def)
next
  case (sigint d)
  then show ?case by (cases "dm_at d") auto
qed auto

lemma winding_run: "calm_run cr ch rh d d' \<Longrightarrow> winding d \<Longrightarrow> winding d' \<and>
    (dm_at d \<notin> {Opening, Refused} \<longrightarrow> dm_at d' \<notin> {Opening, Refused})"
  by (induction rule: rtranclp_induct) (use winding_step winding_not_opening in blast)+

lemma winding_ends:
  assumes "winding d" and "dm_at d \<noteq> Refused" and "faultless env"
  shows "\<exists>d'. calm_run cr ch rh d d' \<and> dm_at d' = Ended"
proof -
  note stopping = stopping_ends [OF _ assms(3), of _ cr ch rh]
  have at_checking: "\<exists>d'. calm_run cr ch rh e d' \<and> dm_at d' = Ended" if "dm_pending e" "dm_at e = Checking" for e
  proof -
    have "daemon_step cr ch rh True e (e\<lparr>dm_at := Stopping\<rparr>)" using checks [of e cr ch rh True] that by simp
    then show ?thesis using stopping [of "e\<lparr>dm_at := Stopping\<rparr>"] own_step by fastforce
  qed
  have at_arming: "\<exists>d'. calm_run cr ch rh e d' \<and> dm_at d' = Ended" if "dm_pending e" "dm_at e = Arming" for e
  proof -
    have "daemon_step cr ch rh True e (e\<lparr>dm_at := Checking, dm_armed := True\<rparr>)" using arms [of e cr ch rh True] that by simp
    then show ?thesis using at_checking [of "e\<lparr>dm_at := Checking, dm_armed := True\<rparr>"] that own_step by fastforce
  qed
  have at_recording: "\<exists>d'. calm_run cr ch rh e d' \<and> dm_at d' = Ended" if "dm_pending e" "dm_at e = Recording" for e
  proof -
    obtain al where al: "log_append cr env (start_entry ch rh) (dm_log e) = (True, al)"
      using faultless_append [OF assms(3)] by (metis (full_types) prod.collapse)
    have "daemon_step cr ch rh True e (e\<lparr>dm_at := Arming, dm_log := al\<rparr>)"
      using records [of e True env cr ch rh True al] al that assms(3) by simp
    then show ?thesis using at_arming [of "e\<lparr>dm_at := Arming, dm_log := al\<rparr>"] that own_step by fastforce
  qed
  have at_opening: "\<exists>d'. calm_run cr ch rh e d' \<and> dm_at d' = Ended" if "dm_pending e" "dm_at e = Opening" for e
  proof -
    let ?e = "e\<lparr>dm_at := Recording, dm_log := dm_log e, dm_opened := al_text (dm_log e)\<rparr>"
    have "daemon_step cr ch rh True e ?e" using opens [of e cr ch rh True "dm_log e"] that by simp
    then show ?thesis using at_recording [of ?e] that own_step by fastforce
  qed
  show ?thesis
    using assms(1,2) stopping covering_ends [OF _ assms(3)] at_checking at_arming at_recording at_opening
    unfolding winding_def by blast
qed

section \<open>Properties\<close>

text \<open>C12: No SIGTERM before the shutdown is lost: in every reachable state in which \<open>main\<close> has not begun to
  stop (with or without earlier such signals), a process that gets a SIGTERM never serves
  afterwards, whatever signals and steps follow; and while no further signal arrives and the disk
  takes its writes, it is never aborted but can always go on to the end of its shutdown - unless
  it had not opened its state yet and refuses to start - with a \<open>start\<close> record and a \<open>stop\<close>
  record after it added to the log. Whatever signals arrive, a process that reached that end has
  added both. (A second signal may lose the \<open>stop\<close> record: \<open>second_signal_loses_stop\<close>.)\<close>

theorem sigterm_not_lost:
  assumes "daemon_run cr ch rh new_daemon d"
  shows "(dm_at d \<in> {Opening, Recording, Arming, Checking, Serving} \<longrightarrow>
            (\<forall>d'. daemon_run cr ch rh (handler d) d' \<longrightarrow> dm_at d' \<noteq> Serving) \<and>
            (\<forall>d'. calm_run cr ch rh (handler d) d' \<longrightarrow>
               dm_at d' \<noteq> Aborted \<and> (dm_at d' = Refused \<longrightarrow> dm_at d = Opening) \<and>
               (dm_at d' \<noteq> Refused \<longrightarrow>
                  (\<exists>e. calm_run cr ch rh d' e \<and> dm_at e = Ended \<and> bracketed cr (start_entry ch rh) stop_entry (added e))))) \<and>
         (dm_at d = Ended \<longrightarrow> bracketed cr (start_entry ch rh) stop_entry (added d))"
proof -
  have ok: "daemon_ok cr ch rh d" using assms by (rule daemon_ok_reachable)
  have f: "faultless demo_env" by (simp add: faultless_def demo_env_def)
  have brack: "bracketed cr (start_entry ch rh) stop_entry (added e)" if "daemon_ok cr ch rh e" "dm_at e = Ended" for e
    using that by (simp add: daemon_ok_def)
  have late: "dm_at d' \<noteq> Serving" if "daemon_run cr ch rh (handler d) d'" for d'
    using doomed_run [OF that doomed_handler [OF ok]] by (auto simp: doomed_def)
  have calm: "dm_at d' \<noteq> Aborted \<and> (dm_at d' = Refused \<longrightarrow> dm_at d = Opening) \<and> (dm_at d' \<noteq> Refused \<longrightarrow>
      (\<exists>e. calm_run cr ch rh d' e \<and> dm_at e = Ended \<and> bracketed cr (start_entry ch rh) stop_entry (added e)))"
    if at: "dm_at d \<in> {Opening, Recording, Arming, Checking, Serving}" and run: "calm_run cr ch rh (handler d) d'" for d'
  proof -
    have w: "winding d'" "dm_at (handler d) \<notin> {Opening, Refused} \<longrightarrow> dm_at d' \<notin> {Opening, Refused}"
      using winding_run [OF run winding_handler [OF ok at]] by auto
    have same: "dm_at d \<noteq> Opening \<Longrightarrow> dm_at (handler d) \<notin> {Opening, Refused}"
      using at by (cases "dm_at d") (auto simp: handler_def)
    have "daemon_step cr ch rh False d (handler d)" by (rule sigterm) (use at in auto)
    then have reach: "daemon_run cr ch rh new_daemon e" if "calm_run cr ch rh d' e" for e
      using assms calm_run_is_run [OF run] calm_run_is_run [OF that]
      by (meson rtranclp.rtrancl_into_rtrancl rtranclp_trans)
    show ?thesis
      using w same winding_ends [OF w(1) _ f] brack daemon_ok_reachable reach
      by (auto simp: winding_def) blast+
  qed
  show ?thesis using late calm brack [OF ok] by blast
qed

theorem sigterm_not_lost_witness:
  "\<exists>d e. daemon_run demo_crypto ''c'' ''r'' new_daemon d \<and> dm_at d = Serving \<and>
     calm_run demo_crypto ''c'' ''r'' (handler d) e \<and> dm_at e = Ended \<and>
     bracketed demo_crypto (start_entry ''c'' ''r'') stop_entry (added e)"
proof -
  have f: "faultless demo_env" by (simp add: faultless_def demo_env_def)
  obtain d where d: "daemon_run demo_crypto ''c'' ''r'' new_daemon d" "dm_at d = Serving"
    using serving_reachable [OF f] by blast
  then have "dm_at (handler d) \<noteq> Refused" using daemon_ok_reachable [OF d(1)] by (simp add: handler_def daemon_ok_def)
  with sigterm_not_lost [OF d(1)] d show ?thesis by blast
qed

text \<open>A second signal breaks the promise that every log with a start record ends with a stop record:
  from any state in which the broker serves, a SIGTERM followed by another signal before the \<open>stop\<close>
  record is appended ends the process with the log as it was; and so does a Ctrl+C between the
  \<open>start\<close> record and the \<open>try\<close> block.\<close>

theorem second_signal_loses_stop:
  assumes "daemon_run cr ch rh new_daemon d" and "dm_at d = Serving \<or> dm_at d = Arming"
  shows "\<exists>d'. daemon_run cr ch rh new_daemon d' \<and> dm_at d' = Aborted \<and> dm_log d' = dm_log d \<and>
           has_line cr (start_entry ch rh) (added d')"
proof -
  have ok: "daemon_ok cr ch rh d" using assms(1) by (rule daemon_ok_reachable)
  from assms(2) show ?thesis
  proof
    assume s: "dm_at d = Serving"
    let ?d1 = "handler d"
    have h: "?d1 = d\<lparr>dm_at := Stopping\<rparr>" using ok s by (simp add: daemon_ok_def handler_def)
    have "daemon_step cr ch rh False d ?d1" by (rule sigterm) (simp_all add: s)
    moreover have "daemon_step cr ch rh False ?d1 (?d1\<lparr>dm_at := Aborted\<rparr>)" using sigint [of False ?d1 cr ch rh] by (simp add: h)
    ultimately have "daemon_run cr ch rh new_daemon (?d1\<lparr>dm_at := Aborted\<rparr>)"
      using assms(1) by (meson rtranclp.rtrancl_into_rtrancl)
    then show ?thesis using ok s by (intro exI [of _ "?d1\<lparr>dm_at := Aborted\<rparr>"]) (simp add: h daemon_ok_def)
  next
    assume s: "dm_at d = Arming"
    have "daemon_step cr ch rh False d (d\<lparr>dm_at := Aborted\<rparr>)" using sigint [of False d cr ch rh] s by simp
    then have "daemon_run cr ch rh new_daemon (d\<lparr>dm_at := Aborted\<rparr>)"
      using assms(1) by (meson rtranclp.rtrancl_into_rtrancl)
    then show ?thesis using ok s by (intro exI [of _ "d\<lparr>dm_at := Aborted\<rparr>"]) (simp add: daemon_ok_def)
  qed
qed

theorem second_signal_loses_stop_witness:
  "\<exists>d. daemon_run demo_crypto ''c'' ''r'' new_daemon d \<and> dm_at d = Aborted \<and>
     has_line demo_crypto (start_entry ''c'' ''r'') (added d)"
proof -
  have f: "faultless demo_env" by (simp add: faultless_def demo_env_def)
  obtain d where d: "daemon_run demo_crypto ''c'' ''r'' new_daemon d" "dm_at d = Serving"
    using serving_reachable [OF f] by blast
  from second_signal_loses_stop [OF d(1)] d(2) show ?thesis by blast
qed

end
