(* ===== verification/Threads.thy ===== *)
theory Threads
  imports Handling Replies
begin

text \<open>
  Requests handled at the same time (\<open>_Server\<close> is a \<open>ThreadingMixIn\<close>: every connection has its own
  thread). A request begins under the broker's lock; its effect, its outcome and its settlement run outside of it, and
  between any two of these steps other threads may begin, act, record, settle and answer. A thread is a value that
  says what it has left to do; the state has the broker, the threads, and, for the statements, the idempotency
  keys of all requests that went on to their effect and the intents that were spent. The log's own lock makes
  an append one step. What a thread observes of the file system may be any world: other threads are among the
  foreign actors.
\<close>

section \<open>What a thread has left to do\<close>

datatype stage =
    Performing pending
  | Recording pending jobj jobj            \<comment> \<open>\<open>result\<close> and \<open>resp\<close>: the outcome is to be recorded\<close>
  | Settling pending json jobj             \<comment> \<open>the verdict: the settlement is to be recorded\<close>
  | Moving pending string intent jobj      \<comment> \<open>it is recorded, and the intent is to move\<close>
  | Closing pending jobj                   \<comment> \<open>the key is to be closed and the reply sent\<close>

fun request_of :: "stage \<Rightarrow> pending" where
  "request_of (Performing p) = p"
| "request_of (Recording p result resp) = p"
| "request_of (Settling p verdict resp) = p"
| "request_of (Moving p how used resp) = p"
| "request_of (Closing p reply) = p"

definition recorded_response :: "pending \<Rightarrow> jobj \<Rightarrow> jobj \<Rightarrow> jobj" where
  \<comment> \<open>\<open>dict(resp, **response_fields)\<close>, with what was observed after the effect\<close>
  "recorded_response p result seen =
     merge (p_resp p) (outcome_fields (p_rid p) (i_tool (p_inv p)) result @ seen)"

fun thread_step :: "crypto \<Rightarrow> (nat \<Rightarrow> append_env) \<Rightarrow> stage \<Rightarrow> broker \<Rightarrow> (stage + jobj) \<times> broker" where
  \<comment> \<open>the parts of \<open>_handle\<close> after its effect; the result is the reply when nothing is left\<close>
  "thread_step cr appends (Recording p result resp) b =
     (case record_request cr (appends 1) (p_summary p) (p_rid p) ''outcome'' (Some (p_inv p)) (Some (i_tool (p_inv p))) resp b of
        (True, b1) \<Rightarrow>
          (Inl (Settling p (intent_verdict (p_evidence p) result resp) (merge resp [(''evidence'', JStr ''recorded'')])), b1)
      | (False, b1) \<Rightarrow> (Inl (Closing p (merge resp [(''evidence'', JStr ''outcome_unrecorded'')])), b1))"
| "thread_step cr appends (Settling p verdict resp) b =
     (case (available (b_store b), map_of (held (b_store b)) (p_rid p)) of
        (Some _, Some used) \<Rightarrow>
          (case log_append cr (appends 2) (settlement (p_rid p) verdict used) (b_log b) of
             (True, al) \<Rightarrow> (Inl (Moving p (settled_state verdict) used resp), b\<lparr>b_log := al\<rparr>)
           | (False, al) \<Rightarrow> (Inl (Closing p (merge resp (settled_fields (Inl ())))), b\<lparr>b_log := al\<rparr>))
      | _ \<Rightarrow> (Inl (Closing p resp), b))"
| "thread_step cr appends (Moving p how used resp) b =
     (Inl (Closing p (merge resp (settled_fields (Inr (Some (how, used)))))),
      if how = ''reserved'' \<or> map_of (held (b_store b)) (p_rid p) = None then b
      else (case persist_intents (settle (p_rid p) used how (b_store b)) (b_disk b) of
              (st, disk) \<Rightarrow> b\<lparr>b_store := st, b_disk := disk\<rparr>))"
| "thread_step cr appends (Closing p reply) b = (Inr reply, close_key (p_key p) (jget reply ''effect'') b)"
| "thread_step cr appends (Performing p) b = (Inl (Performing p), b)"

fun left :: "stage \<Rightarrow> nat" where
  "left (Performing p) = 0"
| "left (Recording p result resp) = 4"
| "left (Settling p verdict resp) = 3"
| "left (Moving p how used resp) = 2"
| "left (Closing p reply) = 1"

lemma thread_step_left: "thread_step cr appends s b = (Inl s', b') \<Longrightarrow> 0 < left s \<Longrightarrow> 0 < left s' \<and> left s' < left s"
  by (cases s) (auto split: bool.splits prod.splits option.splits)

section \<open>A thread on its own\<close>

function run_thread :: "crypto \<Rightarrow> (nat \<Rightarrow> append_env) \<Rightarrow> stage \<Rightarrow> broker \<Rightarrow> jobj \<times> broker" where
  "run_thread cr appends s b =
     (if left s = 0 then ([], b)
      else case thread_step cr appends s b of (Inl s', b') \<Rightarrow> run_thread cr appends s' b' | (Inr reply, b') \<Rightarrow> (reply, b'))"
  by pat_completeness auto
termination by (relation "measure (\<lambda>(cr, appends, s, b). left s)") (auto dest!: thread_step_left [OF sym])

declare run_thread.simps [simp del]

lemma run_closing: "run_thread cr appends (Closing p reply) b = (reply, close_key (p_key p) (jget reply ''effect'') b)"
  by (subst run_thread.simps) simp

lemma run_moving:
  "run_thread cr appends (Moving p how used resp) b =
     run_thread cr appends (Closing p (merge resp (settled_fields (Inr (Some (how, used))))))
       (snd (thread_step cr appends (Moving p how used resp) b))"
  by (subst run_thread.simps) simp

lemma run_settling:
  "run_thread cr appends (Settling p verdict resp) b =
     (case settle_outcome cr (appends 2) (p_rid p) verdict resp b of
        (reply, b') \<Rightarrow> (reply, close_key (p_key p) (jget reply ''effect'') b'))"
proof (cases "available (b_store b) \<noteq> None \<and> map_of (held (b_store b)) (p_rid p) \<noteq> None")
  case True
  then obtain x used where u: "available (b_store b) = Some x" "map_of (held (b_store b)) (p_rid p) = Some used" by auto
  obtain ok al where l: "log_append cr (appends 2) (settlement (p_rid p) verdict used) (b_log b) = (ok, al)" by fastforce
  have order: "b\<lparr>b_log := al, b_store := st, b_disk := disk\<rparr> = b\<lparr>b_store := st, b_disk := disk, b_log := al\<rparr>" for st disk
    by simp
  show ?thesis
    by (subst run_thread.simps, cases ok)
      (simp_all add: u l order run_closing run_moving settle_outcome_def settle_and_record_def Let_def split: prod.split)
next
  case False
  then show ?thesis
    by (subst run_thread.simps) (auto simp: run_closing settle_outcome_def split: option.split)
qed

text \<open>The steps of a thread are the rest of its request: a thread that no other one interrupts, from the moment
  its effect is done, ends after at most four steps, with the reply and the broker's state of \<open>finish_request\<close>.\<close>

theorem thread_alone_finishes_request:
  "run_state (finish_request cr env p result b) w =
     (run_thread cr (re_append env) (Recording p result (recorded_response p result
        (fst (run_state (observed_fields cr (i_tool (p_inv p)) (p_evidence p)) w)))) b,
      snd (run_state (observed_fields cr (i_tool (p_inv p)) (p_evidence p)) w))"
proof -
  obtain seen w1 where s: "run_state (observed_fields cr (i_tool (p_inv p)) (p_evidence p)) w = (seen, w1)" by fastforce
  let ?resp = "recorded_response p result seen"
  obtain ok b1 where r: "record_request cr (re_append env (Suc 0)) (p_summary p) (p_rid p) ''outcome'' (Some (p_inv p))
      (Some (i_tool (p_inv p))) ?resp b = (ok, b1)" by fastforce
  have "run_thread cr (re_append env) (Recording p result ?resp) b =
      (case (if ok then settle_outcome cr (re_append env 2) (p_rid p) (intent_verdict (p_evidence p) result ?resp)
                     (merge ?resp [(''evidence'', JStr ''recorded'')]) b1
             else (merge ?resp [(''evidence'', JStr ''outcome_unrecorded'')], b1)) of
         (reply, b2) \<Rightarrow> (reply, close_key (p_key p) (jget reply ''effect'') b2))"
    by (subst run_thread.simps) (cases ok; simp add: r run_settling run_closing)
  then show ?thesis
    using r by (simp add: finish_request_def Let_def run_bind s State_Monad.return_def recorded_response_def split: prod.split)
qed

section \<open>Threads together\<close>

type_synonym pool = "broker \<times> stage list \<times> string list \<times> intent multiset"
  \<comment> \<open>the broker, its threads, the keys of all requests that went on to their effect, the intents spent\<close>

fun spends :: "stage \<Rightarrow> broker \<Rightarrow> intent multiset" where
  "spends (Moving p how used resp) b =
     (if how = ''spent'' \<and> map_of (held (b_store b)) (p_rid p) \<noteq> None then {#used#} else {#})"
| "spends s b = {#}"

abbreviation rids :: "stage list \<Rightarrow> string list" where
  "rids ths \<equiv> map (\<lambda>s. p_rid (request_of s)) ths"

inductive pool_step :: "crypto \<Rightarrow> kernel_env \<Rightarrow> bool \<Rightarrow> pool \<Rightarrow> pool \<Rightarrow> bool" for cr kn disk where
  \<comment> \<open>the flag: the disk takes every append. Request identifiers (\<open>uuid4\<close>) do not repeat\<close>
  starts: "run_state (begin_request cr kn env obj peer b) w = ((Inr (Started p), b'), w') \<Longrightarrow>
    disk_works disk env \<Longrightarrow> wf_json peer \<Longrightarrow> re_rid env \<notin> set (rids ths) \<Longrightarrow>
    pool_step cr kn disk (b, ths, ks, sp) (b', Performing p # ths, opt_list (p_key p) @ ks, sp)"
| answers: "run_state (begin_request cr kn env obj peer b) w = ((r, b'), w') \<Longrightarrow> (\<And>p. r \<noteq> Inr (Started p)) \<Longrightarrow>
    disk_works disk env \<Longrightarrow> wf_json peer \<Longrightarrow> pool_step cr kn disk (b, ths, ks, sp) (b', ths, ks, sp)"
| performs: "run_state (perform cr env p b) w = (Inr result, w') \<Longrightarrow>
    run_state (observed_fields cr (i_tool (p_inv p)) (p_evidence p)) w1 = (seen, w2) \<Longrightarrow>
    pool_step cr kn disk (b, xs @ Performing p # ys, ks, sp) (b, xs @ Recording p result (recorded_response p result seen) # ys, ks, sp)"
| fails: "run_state (perform cr env p b) w = (Inl e, w') \<Longrightarrow>
    pool_step cr kn disk (b, xs @ Performing p # ys, ks, sp) (b, xs @ ys, ks, sp)"
| advances: "thread_step cr (re_append env) s b = (Inl s', b') \<Longrightarrow> disk_works disk env \<Longrightarrow>
    pool_step cr kn disk (b, xs @ s # ys, ks, sp) (b', xs @ s' # ys, ks, sp + spends s b)"
| replies: "thread_step cr appends s b = (Inr reply, b') \<Longrightarrow>
    pool_step cr kn disk (b, xs @ s # ys, ks, sp) (b', xs @ ys, ks, sp)"

section \<open>The grain of a beginning\<close>

text \<open>
  \<open>begin_request\<close> is one step although the lock it holds is not the log's: between its clock check and
  the append of its record other threads may append theirs. No behaviour is missing: what the clock
  check found is all that the rest of a beginning has from the log as it was then, and on the log as
  it is later some time gives the same finding.
\<close>

definition begin_checked ::
  "bool \<Rightarrow> crypto \<Rightarrow> kernel_env \<Rightarrow> req_env \<Rightarrow> json \<Rightarrow> json \<Rightarrow> broker \<Rightarrow> (world, (string + started) \<times> broker) state" where
  \<comment> \<open>\<open>begin_request\<close> after a clock check that found what the flag says\<close>
  "begin_checked rolled_back cr kn env obj0 peer b =
     (let rid = re_rid env; obj = without_key obj0; summary = proposal_summary (sha cr) obj in
      if (case key_of obj0 of None \<Rightarrow> False | Some v \<Rightarrow> key_text v = None)
      then ret (Inr (Answered (rejected (nothing_done rid @ [(''error'', JStr ''malformed idempotency key'')]))), b)
      else if rolled_back
      then ret (Inr (Answered (clock_reply rid peer)),
                snd (answer cr env summary ''decision'' None None (clock_reply rid peer) b))
      else do {
        (r, b1) \<leftarrow> decide cr kn env obj b;
        (case r of
           Inl e \<Rightarrow> ret (Inl e, b1)
         | Inr d \<Rightarrow> do {
             (s, b2) \<leftarrow> decided_request cr env (Option.bind (key_of obj0) key_text) peer summary d b1;
             ret (Inr s, b2) }) })"

lemma begin_request_checked:
  "begin_request cr kn env obj peer b = begin_checked (clock_rolled_back (b_log b) (re_now env)) cr kn env obj peer b"
  by (simp only: begin_request_def begin_checked_def)

lemma clock_seen_only_there:
  "decide cr kn (env\<lparr>re_now := t\<rparr>) obj b = decide cr kn env obj b"
  "decided_request cr (env\<lparr>re_now := t\<rparr>) key peer summary d b = decided_request cr env key peer summary d b"
  "answer cr (env\<lparr>re_now := t\<rparr>) summary event ivn tool resp b = answer cr env summary event ivn tool resp b"
proof -
  have same:
    "re_rid (env\<lparr>re_now := t\<rparr>) = re_rid env"
    "re_decided (env\<lparr>re_now := t\<rparr>) = re_decided env"
    "re_nonce (env\<lparr>re_now := t\<rparr>) = re_nonce env"
    "re_move (env\<lparr>re_now := t\<rparr>) = re_move env"
    "re_tmp (env\<lparr>re_now := t\<rparr>) = re_tmp env"
    "re_append (env\<lparr>re_now := t\<rparr>) = re_append env"
    "re_net (env\<lparr>re_now := t\<rparr>) = re_net env"
    "re_manifest (env\<lparr>re_now := t\<rparr>) = re_manifest env"
    by simp_all
  have a: "answer cr (env\<lparr>re_now := t\<rparr>) = answer cr env" by (intro ext) (unfold answer_def same, rule refl)
  have k: "ask_kernel kn (env\<lparr>re_now := t\<rparr>) = ask_kernel kn env" by (intro ext) (unfold ask_kernel_def same, rule refl)
  have c: "commit_request cr (env\<lparr>re_now := t\<rparr>) = commit_request cr env" by (intro ext) (unfold commit_request_def same, rule refl)
  have m: "admitted_request cr (env\<lparr>re_now := t\<rparr>) = admitted_request cr env"
    by (intro ext) (unfold admitted_request_def a c same, rule refl)
  show "decided_request cr (env\<lparr>re_now := t\<rparr>) key peer summary d b = decided_request cr env key peer summary d b"
    by (unfold decided_request_def a m same, rule refl)
  show "answer cr (env\<lparr>re_now := t\<rparr>) summary event ivn tool resp b = answer cr env summary event ivn tool resp b"
    by (simp only: a)
  show "decide cr kn (env\<lparr>re_now := t\<rparr>) obj b = decide cr kn env obj b" by (unfold decide_def k same, rule refl)
qed

lemma late_append_covered:
  assumes "al_last_ts al \<noteq> None \<longrightarrow> al_last_ts (b_log b) \<noteq> None"
  shows "\<exists>t. begin_checked (clock_rolled_back al now) cr kn env obj peer b = begin_request cr kn (env\<lparr>re_now := t\<rparr>) obj peer b"
proof -
  have "\<exists>t. clock_rolled_back (b_log b) t = clock_rolled_back al now"
  proof (cases "al_last_ts (b_log b)")
    case (Some lst)
    then have "clock_rolled_back (b_log b) (if clock_rolled_back al now then lst - 5000001 else lst) = clock_rolled_back al now"
      by (simp add: clock_rolled_back_def)
    then show ?thesis by blast
  qed (use assms in \<open>auto simp: clock_rolled_back_def\<close>)
  then obtain t where t: "clock_rolled_back (b_log b) t = clock_rolled_back al now" by blast
  have now: "re_now (env\<lparr>re_now := t\<rparr>) = t" and rid: "re_rid (env\<lparr>re_now := t\<rparr>) = re_rid env" by simp_all
  have "begin_request cr kn (env\<lparr>re_now := t\<rparr>) obj peer b = begin_checked (clock_rolled_back al now) cr kn env obj peer b"
    unfolding begin_request_checked begin_checked_def clock_seen_only_there now rid t by (rule refl)
  then show ?thesis by metis
qed

section \<open>Beginnings\<close>

lemma match_intent_tokens:
  assumes "run_state (match_intent cr ivn tool args b) w = ((r, b'), w')"
  shows "tokens (b_store b') \<subseteq># tokens (b_store b)"
proof (cases "available (b_store b)")
  case None
  then show ?thesis using assms by (simp add: match_intent_def State_Monad.return_def)
next
  case (Some x)
  obtain refusal st disk where rf: "refresh_intents (b_store b) (b_disk b) = (refusal, st, disk)"
    by (cases "refresh_intents (b_store b) (b_disk b)") auto
  have "b_store b' = st"
    using assms
    by (auto simp: match_intent_def Some rf run_bind State_Monad.return_def Let_def
        split: option.splits prod.splits list.splits)
  then show ?thesis using tokens_refresh [OF rf] by simp
qed

lemma decide_tokens:
  assumes "run_state (decide cr kn env obj b) w = ((r, b'), w')"
  shows "tokens (b_store b') \<subseteq># tokens (b_store b)"
proof (cases "parse_proposal obj")
  case (Some q)
  obtain tool args where q: "q = (tool, args)" by (cases q)
  let ?ivn = "canonicalize (b_cfg b) tool args"
  obtain r1 b1 w1 where mi: "run_state (match_intent cr ?ivn tool args b) w = ((r1, b1), w1)" by (metis surj_pair)
  have asked: "b_store b2 = b_store b1" if "ask_kernel kn env ?ivn tool args m b1 = (d, b2)" for m d b2
    using ask_kernel_cases [OF that] by (metis broker.select_convs(3) broker.surjective broker.update_convs(7))
  have "b_store b' = b_store b \<or> b_store b' = b_store b1"
    using assms mi asked
    by (auto simp: decide_def Some q run_bind State_Monad.return_def Let_def split: if_splits option.splits sum.splits prod.splits)
  then show ?thesis using match_intent_tokens [OF mi] by auto
qed (use assms in \<open>auto simp: decide_def State_Monad.return_def\<close>)

lemma begin_not_started:
  assumes "run_state (begin_request cr kn env obj peer b) w = ((r, b'), w')" and "\<And>p. r \<noteq> Inr (Started p)"
  shows "b_keys b' = b_keys b \<and> held (b_store b') = held (b_store b) \<and> tokens (b_store b') \<subseteq># tokens (b_store b)"
proof (cases "(case key_of obj of None \<Rightarrow> False | Some v \<Rightarrow> key_text v = None) \<or> clock_rolled_back (b_log b) (re_now env)")
  case True
  then show ?thesis
    using assms(1) unchanged_answer
    by (auto simp: begin_request_def Let_def State_Monad.return_def unchanged_def split: if_splits)
next
  case False
  obtain r1 b1 w1 where d: "run_state (decide cr kn env (without_key obj) b) w = ((r1, b1), w1)" by (metis surj_pair)
  note dc = decide_cases [OF d] decide_tokens [OF d]
  show ?thesis
  proof (cases r1)
    case (Inl e)
    then show ?thesis using assms(1) False d dc by (auto simp: begin_request_def Let_def run_bind State_Monad.return_def)
  next
    case (Inr dec)
    obtain s b2 w2 where run: "run_state (decided_request cr env (request_key obj) peer
        (proposal_summary (sha cr) (without_key obj)) dec b1) w1 = ((s, b2), w2)" by (metis surj_pair)
    have r: "r = Inr s" "b' = b2"
      using assms(1) False d Inr run
      by (auto simp: begin_request_def Let_def run_bind State_Monad.return_def request_key_def)
    then obtain reply where "s = Answered reply" using assms(2) by (cases s) auto
    moreover have "jget (d_resp dec) ''decision'' = JStr ''reject'' \<or> d_resp dec = [(''decision'', JStr ''admit'')] \<and> d_inv dec \<noteq> None"
      using dc(1) Inr by auto
    ultimately show ?thesis using decided_request_cases [OF run] dc r by (simp add: unchanged_def)
  qed
qed

lemma begin_started:
  assumes "run_state (begin_request cr kn env obj peer b) w = ((Inr (Started p), b'), w')"
  shows "p_rid p = re_rid env"
    and "k \<noteq> re_rid env \<Longrightarrow> map_of (held (b_store b')) k = map_of (held (b_store b)) k"
    and "tokens (b_store b') \<subseteq># tokens (b_store b)"
    and "case p_key p of None \<Rightarrow> b_keys b' = b_keys b
         | Some k \<Rightarrow> map_of (b_keys b) k = None \<and>
             (\<exists>e. map_of (b_keys b') = (map_of (b_keys b))(k \<mapsto> e) \<and> ke_rid e = p_rid p \<and> ke_state e = ''pending'')"
proof -
  from begin_request_cases [OF assms] obtain m b1 where b1: "b_keys b1 = b_keys b"
    "admitted_decision cr kn env (without_key obj) b (p_inv p) m b1"
    "commits cr env (request_key obj) peer (proposal_summary (sha cr) (without_key obj)) m b1 p b'" by auto
  then show "p_rid p = re_rid env" by (simp add: commits_def)
  show "case p_key p of None \<Rightarrow> b_keys b' = b_keys b
         | Some k \<Rightarrow> map_of (b_keys b) k = None \<and>
             (\<exists>e. map_of (b_keys b') = (map_of (b_keys b))(k \<mapsto> e) \<and> ke_rid e = p_rid p \<and> ke_state e = ''pending'')"
    using b1 by (auto simp: commits_def takes_key_def split: option.splits)
  obtain tool args where gate: "intent_gate cr b tool args m b1" using b1(2) by (auto simp: admitted_decision_def)
  have take: "takes_intent (re_rid env) m b1 b'" using b1(3) by (simp add: commits_def)
  have "(k \<noteq> re_rid env \<longrightarrow> map_of (held (b_store b')) k = map_of (held (b_store b)) k) \<and> tokens (b_store b') \<subseteq># tokens (b_store b)"
  proof (cases m)
    case None
    then show ?thesis using gate take by (simp add: intent_gate_def takes_intent_def)
  next
    case (Some i)
    then have rf: "refresh_intents (b_store b) (b_disk b) = (None, b_store b1, b_disk b1)" "i \<in> set (ints (b_store b1))"
      using gate by (simp_all add: intent_gate_def)
    have st: "b_store b' = fst (persist_intents (reserve (re_rid env) i (b_store b1)) (b_disk b1))"
      using take Some by (simp add: takes_intent_def reserve_intent_def) (metis fst_conv)
    have "tokens (b_store b') = tokens (reserve (re_rid env) i (b_store b1))" unfolding tokens_def st by (simp only: persist_store)
    then have "tokens (b_store b') \<subseteq># tokens (b_store b)"
      using tokens_reserve [OF rf(2), of "re_rid env"] tokens_refresh [OF rf(1)] by (metis subset_mset.order_trans)
    then show ?thesis using held_refresh [OF rf(1)] by (simp add: st update_conv')
  qed
  then show "k \<noteq> re_rid env \<Longrightarrow> map_of (held (b_store b')) k = map_of (held (b_store b)) k"
    and "tokens (b_store b') \<subseteq># tokens (b_store b)" by blast+
qed

section \<open>The invariant\<close>

fun stage_wf :: "stage \<Rightarrow> bool" where
  "stage_wf (Performing p) = (wf_reply (p_resp p) \<and> wf_json (p_summary p))"
| "stage_wf (Recording p result resp) = (wf_reply resp \<and> wf_json (p_summary p))"
| "stage_wf (Settling p verdict resp) = (wf_json verdict \<and> wf_reply resp)"
| "stage_wf (Moving p how used resp) = wf_reply resp"
| "stage_wf (Closing p reply) = wf_reply reply"

definition key_pending :: "broker \<Rightarrow> pending \<Rightarrow> bool" where
  \<comment> \<open>the request's key is known as its own, and as not resolved\<close>
  "key_pending b p \<longleftrightarrow> (case p_key p of None \<Rightarrow> True
     | Some k \<Rightarrow> (\<exists>e. map_of (b_keys b) k = Some e \<and> ke_rid e = p_rid p \<and> ke_state e = ''pending''))"

definition holds_intent :: "broker \<Rightarrow> stage \<Rightarrow> bool" where
  \<comment> \<open>the intent that is to move is still reserved\<close>
  "holds_intent b s \<longleftrightarrow> (case s of Moving p how used resp \<Rightarrow> map_of (held (b_store b)) (p_rid p) = Some used | _ \<Rightarrow> True)"

definition thread_ok :: "broker \<Rightarrow> stage \<Rightarrow> bool" where
  "thread_ok b s \<longleftrightarrow> key_pending b (request_of s) \<and> holds_intent b s"

lemma key_pending_cong: "b_keys b' = b_keys b \<Longrightarrow> key_pending b' p = key_pending b p"
  by (simp add: key_pending_def split: option.split)

lemma thread_ok_cong:
  "b_keys b' = b_keys b \<Longrightarrow> held (b_store b') = held (b_store b) \<Longrightarrow> thread_ok b' s = thread_ok b s"
  by (simp add: thread_ok_def key_pending_def holds_intent_def split: option.split stage.split)

lemma recorded_kept:
  "record_request cr env summary rid event ivn tool resp b = (ok, b') \<Longrightarrow> b_keys b' = b_keys b \<and> b_store b' = b_store b"
  using unchanged_record unfolding unchanged_def by blast

lemma close_key_others:
  assumes "key_pending b p" and "key_pending b q" and "p_rid q \<noteq> p_rid p"
  shows "key_pending (close_key (p_key p) eff b) q"
proof (cases "p_key p")
  case (Some k)
  then obtain e where e: "map_of (b_keys b) k = Some e" "ke_rid e = p_rid p" using assms(1) by (auto simp: key_pending_def)
  have "p_key q \<noteq> Some k" using assms(2,3) e by (auto simp: key_pending_def)
  then show ?thesis using assms(2) Some e by (auto simp: key_pending_def close_key_def update_conv' split: option.split)
qed (use assms(2) in \<open>simp add: close_key_def\<close>)

lemma close_key_store [simp]: "b_store (close_key key eff b) = b_store b" "b_log (close_key key eff b) = b_log b"
  by (simp_all add: close_key_def split: option.split)

lemma thread_step_others:
  assumes "thread_step cr appends s b = (x, b')" and "thread_ok b s" and "thread_ok b t"
    and "p_rid (request_of t) \<noteq> p_rid (request_of s)"
  shows "thread_ok b' t"
proof (cases s)
  case (Recording p result resp)
  then have "b_keys b' = b_keys b" "b_store b' = b_store b"
    using assms(1) by (auto split: prod.splits bool.splits dest: recorded_kept)
  then show ?thesis using assms(3) thread_ok_cong by metis
next
  case (Settling p verdict resp)
  then have "b_keys b' = b_keys b" "b_store b' = b_store b"
    using assms(1) by (auto split: prod.splits bool.splits option.splits)
  then show ?thesis using assms(3) thread_ok_cong by metis
next
  case (Moving p how used resp)
  let ?st = "fst (persist_intents (settle (p_rid p) used how (b_store b)) (b_disk b))"
  have keys: "b_keys b' = b_keys b" using assms(1) Moving by (auto split: prod.splits if_splits)
  have "b_store b' = b_store b \<or> b_store b' = ?st" using assms(1) Moving by (auto split: prod.splits if_splits)
  then have "map_of (held (b_store b')) k = map_of (held (b_store b)) k" if "k \<noteq> p_rid p" for k
    using that by (auto simp: settle_parts(1) delete_conv')
  then show ?thesis
    using assms(3,4) Moving key_pending_cong [OF keys] by (cases t) (simp_all add: thread_ok_def holds_intent_def)
next
  case (Closing p reply)
  then have b': "b' = close_key (p_key p) (jget reply ''effect'') b" using assms(1) by simp
  have "key_pending b' (request_of t)"
    unfolding b' by (rule close_key_others) (use assms(2-4) Closing in \<open>simp_all add: thread_ok_def\<close>)
  then show ?thesis using assms(3) by (simp add: thread_ok_def holds_intent_def b' split: stage.splits)
qed (use assms in simp)

lemma thread_step_own:
  assumes "thread_step cr appends s b = (Inl s', b')" and "thread_ok b s"
  shows "thread_ok b' s' \<and> request_of s' = request_of s"
proof -
  note cases_of = prod.splits bool.splits option.splits if_splits
  have keys: "b_keys b' = b_keys b" using assms(1) by (cases s) (auto dest: recorded_kept split: cases_of)
  have same: "request_of s' = request_of s" using assms(1) by (cases s) (auto split: cases_of)
  have "holds_intent b' s'" using assms(1) by (cases s) (auto simp: holds_intent_def split: cases_of)
  then show ?thesis using assms(2) key_pending_cong [OF keys] same by (simp add: thread_ok_def)
qed

lemma thread_step_sound:
  assumes "thread_step cr (re_append env) s b = (x, b')" and "sound cr disk b" and "disk_works disk env" and "stage_wf s"
  shows "sound cr disk b' \<and> (case x of Inl s' \<Rightarrow> stage_wf s' | Inr reply \<Rightarrow> wf_reply reply)"
proof (cases s)
  case (Recording p result resp)
  obtain ok b1 where r: "record_request cr (re_append env 1) (p_summary p) (p_rid p) ''outcome'' (Some (p_inv p)) (Some (i_tool (p_inv p))) resp b = (ok, b1)"
    by fastforce
  have wf: "wf_reply resp" "wf_json (p_summary p)" using assms(4) Recording by simp_all
  have "sound cr disk b1" by (rule record_sound [OF r assms(2,3) wf_reply_fields [OF wf(1)] wf(2)])
  moreover have "wf_reply (merge resp [(''evidence'', JStr v)])" for v using wf(1) by (rule wf_reply_merge) simp
  moreover have "wf_json (intent_verdict (p_evidence p) result resp)"
    using wf_jget [OF wf_reply_fields [OF wf(1)]] by (simp add: intent_verdict_def)
  ultimately show ?thesis using assms(1) r Recording by (cases ok) (auto simp del: wf_json.simps(2))
next
  case (Settling p verdict resp)
  have wf: "wf_json verdict" "wf_reply resp" using assms(4) Settling by simp_all
  have "plain_entry (settlement (p_rid p) verdict used)" for used using wf(1) by (simp add: plain_entry_def settlement_def)
  from append_sound [OF assms(2) this assms(3)]
  have "sound cr disk (b\<lparr>b_log := snd (log_append cr (re_append env 2) (settlement (p_rid p) verdict used) (b_log b))\<rparr>)" for used .
  moreover have "wf_reply (merge resp (settled_fields (Inl ())))"
    using wf(2) by (rule wf_reply_merge) (simp add: settled_fields_def)
  ultimately show ?thesis
    using assms(1,2) Settling wf(2) by (auto simp del: wf_json.simps(2) split: option.splits prod.splits bool.splits) (metis snd_conv)+
next
  case (Moving p how used resp)
  have "wf_fields (settled_fields (Inr (Some (how, used))))" by (simp add: settled_fields_def)
  then have "wf_reply (merge resp (settled_fields (Inr (Some (how, used)))))" using assms(4) Moving by (intro wf_reply_merge) simp_all
  then show ?thesis using assms(1,2) Moving by (auto simp: sound_def simp del: wf_json.simps(2) split: prod.splits if_splits)
next
  case (Closing p reply)
  then show ?thesis
    using assms(1,4) close_key_sound [OF assms(2)] wf_jget [OF wf_reply_fields] by (auto simp del: wf_json.simps(2))
qed (use assms in auto)

lemma thread_step_known:
  assumes "thread_step cr appends s b = (x, b')"
  shows "known_keys b' = known_keys b"
proof -
  have "b_keys b' = b_keys b \<or> (\<exists>key eff. b' = close_key key eff b)"
    using assms by (cases s) (auto dest: recorded_kept split: prod.splits bool.splits option.splits if_splits)
  then show ?thesis by (elim disjE exE) (simp add: known_keys_def, simp)
qed

lemma thread_step_tokens:
  assumes "thread_step cr appends s b = (x, b')" and "thread_ok b s"
  shows "tokens (b_store b') + spends s b \<subseteq># tokens (b_store b)"
proof (cases s)
  case (Recording p result resp)
  then show ?thesis
    using assms by (auto split: prod.splits bool.splits dest: recorded_kept)
next
  case (Settling p verdict resp)
  then show ?thesis using assms by (auto split: prod.splits bool.splits option.splits)
next
  case (Moving p how used resp)
  then have h: "map_of (held (b_store b)) (p_rid p) = Some used" using assms(2) by (simp add: thread_ok_def holds_intent_def)
  have st: "tokens (fst (persist_intents st d)) = tokens st" for st d by (simp add: tokens_def)
  note t = tokens_settle [OF h, of how]
  show ?thesis
  proof (cases "how = ''reserved''")
    case False
    then have "tokens (b_store b') = tokens (settle (p_rid p) used how (b_store b))"
      using assms(1) Moving h st [of "settle (p_rid p) used how (b_store b)" "b_disk b"] by (auto split: prod.splits)
    moreover have "spends s b \<subseteq># (if how = ''returned'' then {#} else {#used#})" using Moving h by simp
    ultimately show ?thesis using subset_mset.order_trans [OF subset_mset.add_left_mono t] by simp
  qed (use assms(1) Moving in auto)
qed (use assms in auto)

definition pool_ok :: "crypto \<Rightarrow> bool \<Rightarrow> broker \<Rightarrow> pool \<Rightarrow> bool" where
  "pool_ok cr disk b0 x \<longleftrightarrow> (case x of (b, ths, ks, sp) \<Rightarrow>
     sound cr disk b \<and> list_all stage_wf ths \<and> list_all (thread_ok b) ths \<and> distinct (rids ths) \<and>
     distinct ks \<and> known_keys b = known_keys b0 \<union> set ks \<and> known_keys b0 \<inter> set ks = {} \<and>
     tokens (b_store b) + sp \<subseteq># tokens (b_store b0))"

lemma other_rid: "distinct (rids (xs @ s # ys)) \<Longrightarrow> t \<in> set (xs @ ys) \<Longrightarrow> p_rid (request_of t) \<noteq> p_rid (request_of s)"
  by (auto simp: image_iff)

lemma spent_bounded:
  fixes a :: "'a multiset"
  assumes "a + d \<subseteq># t" and "t + sp \<subseteq># t0"
  shows "a + (sp + d) \<subseteq># t0"
  using subset_mset.order_trans [OF subset_mset.add_right_mono [OF assms(1)] assms(2)] by (simp add: ac_simps)

lemma pool_ok_step: "pool_step cr kn disk x y \<Longrightarrow> pool_ok cr disk b0 x \<Longrightarrow> pool_ok cr disk b0 y"
proof (induction rule: pool_step.induct)
  case (starts env obj peer b w p b' w' ths ks sp)
  note st = begin_started [OF starts(1)]
  have s: "sound cr disk b'" "started_wf (Started p)"
    using ensuresD [OF begin_request_sound starts(1)] starts(2,3,5) by (auto simp: pool_ok_def)
  have others: "thread_ok b' t" if "thread_ok b t" "p_rid (request_of t) \<noteq> re_rid env" for t
  proof -
    have "key_pending b' (request_of t)"
      using that(1) st(4) by (auto simp: thread_ok_def key_pending_def split: option.splits)
    then show ?thesis using that st(2) by (cases t) (simp_all add: thread_ok_def holds_intent_def)
  qed
  have new: "thread_ok b' (Performing p)"
    using st(4) by (auto simp: thread_ok_def holds_intent_def key_pending_def split: option.splits)
  have keys: "case p_key p of None \<Rightarrow> known_keys b' = known_keys b | Some k \<Rightarrow> k \<notin> known_keys b \<and> known_keys b' = insert k (known_keys b)"
    using begin_request_keys [OF starts(1)] by simp
  have "p_rid (request_of t) \<noteq> re_rid env" if "t \<in> set ths" for t
    using that starts(4) by (auto simp: image_iff)
  then have "list_all (thread_ok b') ths"
    using starts(5) others by (simp add: pool_ok_def list_all_iff)
  moreover have "stage_wf (Performing p)" using s(2) by (simp add: started_wf_def del: wf_json.simps(2))
  moreover have "tokens (b_store b') + sp \<subseteq># tokens (b_store b0)"
    using st(3) starts(5) by (auto simp: pool_ok_def intro: subset_mset.order_trans subset_mset.add_right_mono)
  moreover have "distinct (opt_list (p_key p) @ ks)" "known_keys b' = known_keys b0 \<union> set (opt_list (p_key p) @ ks)"
    "known_keys b0 \<inter> set (opt_list (p_key p) @ ks) = {}"
    using keys starts(5) by (auto simp: pool_ok_def split: option.splits)
  ultimately show ?case
    using starts(4,5) s(1) new st(1) by (simp add: pool_ok_def del: stage_wf.simps)
next
  case (answers env obj peer b w r b' w' ths ks sp)
  note kept = begin_not_started [OF answers(1,2)]
  have "known_keys b' = known_keys b" using kept by (simp add: known_keys_def)
  moreover have "sound cr disk b'"
    using ensuresD [OF begin_request_sound answers(1)] answers(3-5) by (auto simp: pool_ok_def)
  moreover have "thread_ok b' t = thread_ok b t" for t using kept thread_ok_cong by blast
  moreover have "tokens (b_store b') + sp \<subseteq># tokens (b_store b0)"
    using kept answers(5) by (auto simp: pool_ok_def intro: subset_mset.order_trans subset_mset.add_right_mono)
  ultimately show ?case using answers(5) by (simp add: pool_ok_def list_all_iff)
next
  case (performs env p b w result w' w1 seen w2 xs ys ks sp)
  have "wf_fields result" using ensuresD [OF perform_wf performs(1)] by simp
  then have "wf_fields (outcome_fields (p_rid p) (i_tool (p_inv p)) result @ seen)"
    using outcome_fields_wf ensuresD [OF observed_fields_wf performs(2)] by simp
  then have "stage_wf (Recording p result (recorded_response p result seen))"
    using performs(3) wf_reply_merge by (simp add: pool_ok_def recorded_response_def del: wf_json.simps(2))
  then show ?case using performs(3) by (simp add: pool_ok_def thread_ok_def holds_intent_def del: stage_wf.simps)
next
  case (fails env p b w e w' xs ys ks sp)
  then show ?case by (simp add: pool_ok_def)
next
  case (advances env s b s' b' xs ys ks sp)
  have s: "thread_ok b s" "stage_wf s" using advances(3) by (simp_all add: pool_ok_def)
  note own = thread_step_own [OF advances(1) s(1)] thread_step_tokens [OF advances(1) s(1)]
  have "thread_ok b' t" if "t \<in> set (xs @ ys)" for t
    using that advances(3) by (intro thread_step_others [OF advances(1) s(1)] other_rid [of xs s ys])
      (auto simp: pool_ok_def list_all_iff)
  moreover have "sound cr disk b' \<and> stage_wf s'"
    using thread_step_sound [OF advances(1) _ advances(2) s(2)] advances(3) by (simp add: pool_ok_def)
  moreover have "tokens (b_store b') + (sp + spends s b) \<subseteq># tokens (b_store b0)"
    using advances(3) by (intro spent_bounded [OF own(2)]) (simp add: pool_ok_def)
  ultimately show ?case
    using advances(3) own(1) thread_step_known [OF advances(1)] by (simp add: pool_ok_def list_all_iff)
next
  case (replies appends s b reply b' xs ys ks sp)
  have s: "thread_ok b s" "stage_wf s" using replies(2) by (simp_all add: pool_ok_def)
  have "thread_ok b' t" if "t \<in> set (xs @ ys)" for t
    using that replies(2) by (intro thread_step_others [OF replies(1) s(1)] other_rid [of xs s ys])
      (auto simp: pool_ok_def list_all_iff)
  moreover obtain p where "s = Closing p reply" "b' = close_key (p_key p) (jget reply ''effect'') b"
    using replies(1) by (cases s) (auto split: prod.splits bool.splits option.splits)
  moreover from this have "sound cr disk b'"
    using replies(2) s(2) close_key_sound wf_jget [OF wf_reply_fields] by (simp add: pool_ok_def del: wf_json.simps(2))
  ultimately show ?case using replies(2) by (simp add: pool_ok_def list_all_iff)
qed

lemma pool_ok_reached: "(pool_step cr kn disk)\<^sup>*\<^sup>* (b0, [], [], {#}) x \<Longrightarrow> sound cr disk b0 \<Longrightarrow> pool_ok cr disk b0 x"
  by (induction rule: rtranclp_induct) (auto simp: pool_ok_def [of _ _ _ "(b0, [], [], {#})"] intro: pool_ok_step)

section \<open>Properties\<close>

lemma pending_key_refused:
  assumes "run_state (begin_request cr kn env obj peer b) w = ((Inr s, b'), w')"
    and "request_key obj = Some k" and "map_of (b_keys b) k = Some e" and "ke_state e = ''pending''"
  shows "\<exists>reply. s = Answered reply \<and> jget reply ''decision'' = JStr ''reject''"
proof (cases "clock_rolled_back (b_log b) (re_now env)")
  case True
  then show ?thesis
    using assms(1,2) by (auto simp: begin_request_def Let_def State_Monad.return_def clock_reply_def rejected_def request_key_def
        split: option.splits if_splits)
next
  case False
  have wellformed: "\<not> (case key_of obj of None \<Rightarrow> False | Some v \<Rightarrow> key_text v = None)"
    using assms(2) by (auto simp: request_key_def split: option.splits)
  obtain r b1 w1 where d: "run_state (decide cr kn env (without_key obj) b) w = ((r, b1), w1)" by (metis surj_pair)
  obtain dec where r: "r = Inr dec"
    using assms(1) False wellformed d by (cases r) (auto simp: begin_request_def Let_def run_bind State_Monad.return_def)
  have "b_keys b1 = b_keys b" using decide_cases [OF d] by simp
  then have bound: "Option.bind (request_key obj) (map_of (b_keys b1)) = Some e" using assms(2,3) by simp
  have "s = Answered (duplicate_reply (sha cr) (re_rid env) peer e (d_inv dec))"
    using assms(1) False wellformed d r bound [unfolded request_key_def]
    by (simp add: begin_request_def Let_def run_bind State_Monad.return_def decided_request_def)
  then show ?thesis using assms(4) by (simp add: duplicate_reply_def rejected_def)
qed

text \<open>C5: At most one effect for an idempotency key, with any number of threads. However the steps of the requests
  interleave, whichever of them fail and whatever the worlds do: no key is that of two requests that went on to
  their effect, none is one the broker knew before, and no key is forgotten. The key of a request that is still
  under way is recorded as that request's and as unresolved, whatever other threads close meanwhile, and a
  request with the same key that begins then is answered with a rejection.\<close>

theorem interleaved_requests_share_no_key:
  assumes "(pool_step cr kn disk)\<^sup>*\<^sup>* (b, [], [], {#}) (b', ths, ks, sp)" and "sound cr disk b"
  shows "distinct ks \<and> set (map fst (b_keys b')) = set (map fst (b_keys b)) \<union> set ks \<and>
    set (map fst (b_keys b)) \<inter> set ks = {} \<and>
    (\<forall>s\<in>set ths. \<forall>k. p_key (request_of s) = Some k \<longrightarrow>
       (\<exists>e. map_of (b_keys b') k = Some e \<and> ke_rid e = p_rid (request_of s) \<and> ke_state e = ''pending'') \<and>
       (\<forall>env obj peer w t b'' w'. run_state (begin_request cr kn env obj peer b') w = ((Inr t, b''), w') \<and> request_key obj = Some k \<longrightarrow>
          (\<exists>reply. t = Answered reply \<and> jget reply ''decision'' = JStr ''reject'')))"
proof -
  have ok: "pool_ok cr disk b (b', ths, ks, sp)" by (rule pool_ok_reached [OF assms])
  have pending: "\<exists>e. map_of (b_keys b') k = Some e \<and> ke_rid e = p_rid (request_of s) \<and> ke_state e = ''pending''"
    if "s \<in> set ths" "p_key (request_of s) = Some k" for s k
    using that ok by (auto simp: pool_ok_def list_all_iff thread_ok_def key_pending_def dest!: bspec)
  have refused: "\<exists>reply. t = Answered reply \<and> jget reply ''decision'' = JStr ''reject''"
    if "s \<in> set ths" "p_key (request_of s) = Some k"
      "run_state (begin_request cr kn env obj peer b') w = ((Inr t, b''), w') \<and> request_key obj = Some k"
    for s k env obj peer w t b'' w'
  proof -
    from pending [OF that(1,2)] obtain e where "map_of (b_keys b') k = Some e" "ke_state e = ''pending''" by blast
    then show ?thesis using that(3) by (elim conjE) (rule pending_key_refused)
  qed
  have keys: "distinct ks" "set (map fst (b_keys b')) = set (map fst (b_keys b)) \<union> set ks" "set (map fst (b_keys b)) \<inter> set ks = {}"
    using ok by (simp_all add: pool_ok_def known_keys_def)
  show ?thesis
    by (intro conjI ballI allI impI, rule keys(1), rule keys(2), rule keys(3)) (rule pending, assumption+, rule refused, assumption+)
qed

lemma demo_pool:
  "\<exists>p b'. (pool_step demo_crypto demo_kernel True)\<^sup>*\<^sup>* (demo_broker, [], [], {#}) (b', [Performing p], [''k''], {#}) \<and>
     p_key p = Some ''k'' \<and> sound demo_crypto True demo_broker"
proof -
  obtain p b' where run: "run_state (begin_request demo_crypto demo_kernel demo_req demo_proposal JNull demo_broker) (quiet demo_fs) =
       ((Inr (Started p), b'), quiet demo_fs)" "p_key p = Some ''k''"
    using demo_starts by blast
  have "disk_works True demo_req" by (simp add: disk_works_def demo_req_def faultless_def demo_env_def)
  with starts [OF run(1), of True "[]" "[]" "{#}"] run(2)
  have "pool_step demo_crypto demo_kernel True (demo_broker, [], [], {#}) (b', [Performing p], [''k''], {#})" by simp
  then show ?thesis using run(2) by (auto simp: sound_def demo_broker_def)
qed

theorem interleaved_requests_share_no_key_witness:
  "\<exists>p b' e. (pool_step demo_crypto demo_kernel True)\<^sup>*\<^sup>* (demo_broker, [], [], {#}) (b', [Performing p], [''k''], {#}) \<and>
     map_of (b_keys b') ''k'' = Some e \<and> ke_state e = ''pending''"
proof -
  obtain p b' where r: "(pool_step demo_crypto demo_kernel True)\<^sup>*\<^sup>* (demo_broker, [], [], {#}) (b', [Performing p], [''k''], {#})"
    "p_key p = Some ''k''" "sound demo_crypto True demo_broker"
    using demo_pool by blast
  from interleaved_requests_share_no_key [OF r(1,3)] r(2) have "\<exists>e. map_of (b_keys b') ''k'' = Some e \<and> ke_state e = ''pending''" by auto
  with r(1) show ?thesis by blast
qed

text \<open>C15: Threads share the intents and the log safely. However the steps of the requests interleave, and
  whether or not the disk takes the appends: the intents that are available, reserved or spent are never
  more than the broker started with, so none is spent twice or both spent and returned; and no
  request is under way twice. When the disk takes the appends, the log file is at every moment one a
  start accepts, with the head, count and clock the broker has in memory.\<close>

theorem interleaved_requests_keep_intents_and_log:
  assumes "(pool_step cr kn disk)\<^sup>*\<^sup>* (b, [], [], {#}) (b', ths, ks, sp)" and "sound cr disk b"
  shows "tokens (b_store b') + sp \<subseteq># tokens (b_store b) \<and> distinct (map (\<lambda>s. p_rid (request_of s)) ths) \<and>
    (disk \<longrightarrow> load_log (sha cr) (al_file (b_log b')) = Some ((b_log b')\<lparr>al_ck := None\<rparr>))"
  using pool_ok_reached [OF assms] by (simp add: pool_ok_def sound_def in_step_def)

theorem interleaved_requests_keep_intents_and_log_witness:
  "\<exists>p b'. (pool_step demo_crypto demo_kernel True)\<^sup>*\<^sup>* (demo_broker, [], [], {#}) (b', [Performing p], [''k''], {#}) \<and>
     tokens (b_store b') \<subseteq># tokens (b_store demo_broker) \<and>
     load_log (sha demo_crypto) (al_file (b_log b')) = Some ((b_log b')\<lparr>al_ck := None\<rparr>)"
proof -
  obtain p b' where r: "(pool_step demo_crypto demo_kernel True)\<^sup>*\<^sup>* (demo_broker, [], [], {#}) (b', [Performing p], [''k''], {#})"
    "sound demo_crypto True demo_broker"
    using demo_pool by blast
  from interleaved_requests_keep_intents_and_log [OF r] r(1) show ?thesis by auto
qed

end
