(* ===== verification/Wire.thy ===== *)
theory Wire
  imports Startup Replies "HOL-Library.Sublist"
begin

text \<open>
  The bytes on the socket (\<open>darm_guard/broker.py\<close>): how \<open>_Handler.handle\<close> cuts what a client sends into
  lines, the line \<open>_send\<close> writes, and the loop in which \<open>BrokerClient.propose\<close> collects the reply. The
  client's loop has no bound of its own, so it is a partial function: \<open>None\<close> is a call that never
  returns. What both sides rely on is the interface \<open>line_frames\<close>: a value written as one line is
  cut out as that line and read back, in whatever pieces it arrives. A write that fails because the
  other end has gone is not modelled: it ends the connection.
\<close>

section \<open>The broker's side\<close>

definition line_length :: "string \<Rightarrow> nat" where
  \<comment> \<open>up to and with the first newline\<close>
  "line_length s = (let l = length (takeWhile (\<lambda>c. c \<noteq> CHR 0x0A) s) in if l < length s then Suc l else l)"

definition read_line :: "nat \<Rightarrow> string \<Rightarrow> string \<times> string" where
  \<comment> \<open>\<open>rfile.readline(limit)\<close>\<close>
  "read_line limit s = (take (min limit (line_length s)) s, drop (min limit (line_length s)) s)"

lemma line_length_bounds: "line_length s \<le> length s" "s \<noteq> [] \<Longrightarrow> 0 < line_length s"
  unfolding line_length_def Let_def using length_takeWhile_le [of "\<lambda>c. c \<noteq> CHR 0x0A" s] by (auto split: if_splits)

function connection_lines :: "string \<Rightarrow> string list" where
  \<comment> \<open>the results of \<open>readline\<close> until it returns nothing\<close>
  "connection_lines s =
     (if s = [] then []
      else case read_line (MAX_REQUEST + 1) s of (raw, rest) \<Rightarrow> raw # connection_lines rest)"
  by pat_completeness auto
termination
  by (relation "measure length") (auto simp: read_line_def MAX_REQUEST_def line_length_bounds)

declare connection_lines.simps [simp del]

definition serve_connection ::
  "crypto \<Rightarrow> kernel_env \<Rightarrow> bool \<Rightarrow> (nat \<Rightarrow> req_env) \<Rightarrow> json \<Rightarrow> string \<Rightarrow> broker \<Rightarrow> (world, jobj list \<times> broker) state" where
  \<comment> \<open>\<open>_Handler.handle\<close> of a client that sends the bytes and closes its end\<close>
  "serve_connection cr kn has envs peer s b = serve_lines cr kn has envs peer (connection_lines s) b"

definition reply_line :: "jobj \<Rightarrow> string" where
  \<comment> \<open>\<open>_send\<close>\<close>
  "reply_line reply = dumps (JObj reply) @ [CHR 0x0A]"

section \<open>The client's side\<close>

datatype recv =
    Chunk string      \<comment> \<open>empty: the other end was closed\<close>
  | Fails string      \<comment> \<open>an exception, the timeout of one \<open>recv\<close> included\<close>

datatype dialogue =
    Unreachable string
  | Unsent string     \<comment> \<open>\<open>sendall\<close> raises\<close>
  | Sent "nat \<Rightarrow> recv"

partial_function (option) receive :: "(nat \<Rightarrow> recv) \<Rightarrow> nat \<Rightarrow> string \<Rightarrow> channel option" where
  "receive rs i data =
     (if suffix [CHR 0x0A] data then Some (Received data)
      else case rs i of
             Fails e \<Rightarrow> Some (Broken e)
           | Chunk c \<Rightarrow> if c = [] then Some (Received data) else receive rs (Suc i) (data @ c))"

definition propose_over :: "(string \<Rightarrow> dialogue) \<Rightarrow> string \<Rightarrow> (string \<times> string) list \<Rightarrow> json option" where
  "propose_over dial tool args =
     (case dial (proposal_message tool args) of
        Unreachable e \<Rightarrow> Some (propose (\<lambda>m. NoConnection e) tool args)
      | Unsent e \<Rightarrow> Some (propose (\<lambda>m. Broken e) tool args)
      | Sent rs \<Rightarrow> map_option (\<lambda>ch. propose (\<lambda>m. ch) tool args) (receive rs 0 []))"

section \<open>Lines\<close>

lemma read_line_rest: "fst (read_line n s) @ snd (read_line n s) = s"
  by (simp add: read_line_def)

definition one_line :: "string \<Rightarrow> bool" where
  \<comment> \<open>not empty, within the limit, and with no newline before its last byte\<close>
  "one_line l \<longleftrightarrow> l \<noteq> [] \<and> length l \<le> MAX_REQUEST + 1 \<and> CHR 0x0A \<notin> set (butlast l)"

lemma newline_free: "CHR 0x0A \<notin> set (butlast (take n s))" if "n \<le> line_length s"
proof -
  let ?l = "length (takeWhile (\<lambda>c. c \<noteq> CHR 0x0A) s)"
  have "set (butlast (take n s)) \<subseteq> set (take ?l s)"
  proof (cases "n \<le> length s")
    case True
    then have "butlast (take n s) = take (n - 1) s" by (simp add: butlast_take)
    moreover have "n - 1 \<le> ?l" using that by (auto simp: line_length_def Let_def split: if_splits)
    ultimately show ?thesis by (simp add: set_take_subset_set_take)
  qed (use that line_length_bounds(1) [of s] in simp)
  then show ?thesis by (auto simp: takeWhile_eq_take [symmetric] dest: set_takeWhileD)
qed

lemma connection_lines_split:
  "concat (connection_lines s) = s \<and> list_all one_line (connection_lines s)"
proof (induction s rule: connection_lines.induct)
  case (1 s)
  show ?case
  proof (cases "s = []")
    case False
    obtain raw rest where r: "read_line (MAX_REQUEST + 1) s = (raw, rest)" by fastforce
    from 1 [OF False] r have "concat (connection_lines rest) = rest \<and> list_all one_line (connection_lines rest)" by simp
    moreover have "raw @ rest = s" using read_line_rest [of "MAX_REQUEST + 1" s] r by simp
    moreover have "one_line raw"
      using r line_length_bounds [of s] False newline_free [of "min (MAX_REQUEST + 1) (line_length s)" s]
      by (auto simp: read_line_def one_line_def MAX_REQUEST_def)
    ultimately show ?thesis using False r by (subst (1 2) connection_lines.simps) auto
  qed (simp add: connection_lines.simps)
qed

lemma last_of_line:
  assumes "take (min n (line_length s)) s \<noteq> s"
  shows "last (take (min n (line_length s)) s) = CHR 0x0A \<or> length (take (min n (line_length s)) s) = n"
proof (cases "n \<le> line_length s")
  case True
  then show ?thesis using line_length_bounds(1) [of s] by (simp add: min_def)
next
  case False
  define k where "k = length (takeWhile (\<lambda>c. c \<noteq> CHR 0x0A) s)"
  have l: "k < length s" using assms False by (auto simp: line_length_def Let_def k_def split: if_splits)
  then have "\<not> s ! k \<noteq> CHR 0x0A" unfolding k_def by (rule nth_length_takeWhile)
  moreover have "line_length s = Suc k" using l by (simp add: line_length_def k_def)
  moreover have "last (take (Suc k) s) = s ! k" using l by (simp add: take_Suc_conv_app_nth)
  ultimately show ?thesis using False by (simp add: min_def)
qed

lemma connection_lines_cut:
  "Suc i < length (connection_lines s) \<Longrightarrow>
   last (connection_lines s ! i) = CHR 0x0A \<or> length (connection_lines s ! i) = MAX_REQUEST + 1"
proof (induction s arbitrary: i rule: connection_lines.induct)
  case (1 s)
  have ne: "s \<noteq> []" using "1.prems" by (auto simp: connection_lines.simps)
  obtain raw rest where r: "read_line (MAX_REQUEST + 1) s = (raw, rest)" by fastforce
  have ls: "connection_lines s = raw # connection_lines rest" using ne r by (subst connection_lines.simps) simp
  show ?case
  proof (cases i)
    case 0
    have "rest \<noteq> []" using "1.prems" 0 ls by (auto simp: connection_lines.simps)
    then have ne: "raw \<noteq> s" using r read_line_rest [of "MAX_REQUEST + 1" s] by auto
    have "raw = take (min (MAX_REQUEST + 1) (line_length s)) s" using r by (simp add: read_line_def)
    then show ?thesis using last_of_line [of "MAX_REQUEST + 1" s] ne 0 ls by (metis nth_Cons_0)
  next
    case (Suc j)
    then show ?thesis using "1.IH" [OF ne r [symmetric], of j] "1.prems" ls by simp
  qed
qed

lemma connection_lines_one: "CHR 0x0A \<notin> set l \<Longrightarrow> length l \<le> MAX_REQUEST \<Longrightarrow> connection_lines (l @ [CHR 0x0A]) = [l @ [CHR 0x0A]]"
proof -
  assume a: "CHR 0x0A \<notin> set l" "length l \<le> MAX_REQUEST"
  then have "takeWhile (\<lambda>c. c \<noteq> CHR 0x0A) (l @ [CHR 0x0A]) = l" by (simp add: takeWhile_append)
  then have "read_line (MAX_REQUEST + 1) (l @ [CHR 0x0A]) = (l @ [CHR 0x0A], [])"
    using a(2) by (simp add: read_line_def line_length_def)
  then show ?thesis by (subst connection_lines.simps) (simp add: connection_lines.simps)
qed

fun handle_each ::
  "crypto \<Rightarrow> kernel_env \<Rightarrow> bool \<Rightarrow> (nat \<Rightarrow> req_env) \<Rightarrow> json \<Rightarrow> string list \<Rightarrow> broker \<Rightarrow> (world, jobj list \<times> broker) state" where
  \<comment> \<open>what the lines are promised: each is handled, in order, whatever its size\<close>
  "handle_each cr kn has envs peer [] b = ret ([], b)"
| "handle_each cr kn has envs peer (raw # raws) b = do {
     (reply, b1) \<leftarrow> handle cr kn has (envs 0) (case loads raw of None \<Rightarrow> JNull | Some v \<Rightarrow> v) peer b;
     (replies, b2) \<leftarrow> handle_each cr kn has (\<lambda>i. envs (Suc i)) peer raws b1;
     ret (reply # replies, b2) }"

lemma serve_lines_replies:
  "run_state (serve_lines cr kn has envs peer ls b) w = ((replies, b'), w') \<Longrightarrow>
   (let k = length (takeWhile (\<lambda>l. length l \<le> MAX_REQUEST) ls) in
    \<exists>rs. run_state (handle_each cr kn has envs peer (take k ls) b) w = ((rs, b'), w') \<and> length rs = k \<and>
      replies = rs @ (if k < length ls then [TOO_LARGE] else []))"
proof (induction ls arbitrary: envs b w replies b' w')
  case (Cons l ls)
  show ?case
  proof (cases "MAX_REQUEST < length l")
    case True
    with Cons.prems show ?thesis by (auto simp: State_Monad.return_def)
  next
    case False
    obtain reply b1 w1 where h: "run_state (handle cr kn has (envs 0) (case loads l of None \<Rightarrow> JNull | Some v \<Rightarrow> v) peer b) w = ((reply, b1), w1)"
      by (metis prod.collapse)
    obtain rs b2 w2 where s: "run_state (serve_lines cr kn has (\<lambda>i. envs (Suc i)) peer ls b1) w1 = ((rs, b2), w2)"
      by (metis prod.collapse)
    have "replies = reply # rs" "b' = b2" "w' = w2"
      using Cons.prems False h s by (simp_all add: run_bind State_Monad.return_def)
    then show ?thesis using Cons.IH [OF s] False h by (auto simp: Let_def run_bind State_Monad.return_def)
  qed
qed (simp add: State_Monad.return_def)

text \<open>C20: Every request of a connection is answered, up to the first that is too large. The bytes a client
  sends are cut after every newline, and after 1 MB and one byte where none has come; nothing is lost
  or reordered. The pieces of at most 1 MB before the first larger one are handled one by one, in
  order, each answered by its reply. A larger one is answered \<open>request too large\<close>; neither it nor
  anything after it is handled, so it changes nothing.\<close>

theorem connection_answers_each_request:
  assumes "run_state (serve_connection cr kn has envs peer s b) w = ((replies, b'), w')"
  shows "(let ls = connection_lines s; k = length (takeWhile (\<lambda>l. length l \<le> 1048576) ls) in
    concat ls = s \<and>
    (\<forall>l\<in>set ls. l \<noteq> [] \<and> length l \<le> 1048577 \<and> CHR 0x0A \<notin> set (butlast l)) \<and>
    (\<forall>i. Suc i < length ls \<longrightarrow> last (ls ! i) = CHR 0x0A \<or> length (ls ! i) = 1048577) \<and>
    (\<exists>rs. run_state (handle_each cr kn has envs peer (take k ls) b) w = ((rs, b'), w') \<and> length rs = k \<and>
       replies = rs @ (if k < length ls then [TOO_LARGE] else [])))"
  using serve_lines_replies [OF assms [unfolded serve_connection_def]] connection_lines_split [of s] connection_lines_cut [of _ s]
  by (simp add: Let_def MAX_REQUEST_def one_line_def list_all_iff)

theorem connection_answers_each_request_witness:
  "\<exists>replies b' w'. run_state (serve_connection demo_crypto demo_kernel True (\<lambda>_. demo_req) JNull (''{}'' @ [CHR 0x0A]) demo_broker)
     (quiet demo_fs) = ((replies, b'), w') \<and> length replies = 1"
proof -
  obtain replies b' w' where r: "run_state (serve_connection demo_crypto demo_kernel True (\<lambda>_. demo_req) JNull
      (''{}'' @ [CHR 0x0A]) demo_broker) (quiet demo_fs) = ((replies, b'), w')"
    by (metis prod.collapse)
  have "connection_lines (''{}'' @ [CHR 0x0A]) = [''{}'' @ [CHR 0x0A]]"
    by (rule connection_lines_one) (simp_all add: MAX_REQUEST_def)
  with connection_answers_each_request [OF r] have "length replies = 1" by (auto simp: Let_def)
  with r show ?thesis by blast
qed

section \<open>The client's loop\<close>

fun bytes :: "recv \<Rightarrow> string" where
  "bytes (Chunk c) = c"
| "bytes (Fails e) = []"

definition so_far :: "(nat \<Rightarrow> recv) \<Rightarrow> nat \<Rightarrow> string" where
  \<comment> \<open>what the first \<open>n\<close> receives gave\<close>
  "so_far rs n = concat (map (\<lambda>i. bytes (rs i)) [0..<n])"

lemma so_far_Suc: "so_far rs (Suc n) = so_far rs n @ bytes (rs n)"
  by (simp add: so_far_def)

definition stops_at :: "(nat \<Rightarrow> recv) \<Rightarrow> nat \<Rightarrow> bool" where
  \<comment> \<open>after \<open>n\<close> receives: a newline at the end, a closed end, or an exception\<close>
  "stops_at rs n \<longleftrightarrow> suffix [CHR 0x0A] (so_far rs n) \<or> bytes (rs n) = []"

lemma receive_stops: "stops_at rs (i + d) \<Longrightarrow> \<exists>ch. receive rs i (so_far rs i) = Some ch"
proof (induction d arbitrary: i)
  case 0
  then show ?case by (subst receive.simps) (auto simp: stops_at_def split: recv.split)
next
  case (Suc d)
  then have "\<exists>ch. receive rs (Suc i) (so_far rs (Suc i)) = Some ch" by simp
  then show ?case by (subst receive.simps) (auto simp: so_far_Suc split: recv.split)
qed

lemma receive_returned:
  assumes "receive rs i data = Some ch"
  shows "data = so_far rs i \<longrightarrow> (\<exists>n. stops_at rs n)"
proof (rule receive.raw_induct [OF _ assms], rule impI)
  fix recv rs i data ch
  assume 1: "\<And>rs i data ch. recv rs i data = Some ch \<Longrightarrow> data = so_far rs i \<longrightarrow> (\<exists>n. stops_at rs n)"
    "(if suffix [CHR 0x0A] data then Some (Received data)
      else case rs i of Fails e \<Rightarrow> Some (Broken e)
        | Chunk c \<Rightarrow> if c = [] then Some (Received data) else recv rs (Suc i) (data @ c)) = Some ch"
    "data = so_far rs i"
  show "\<exists>n. stops_at rs n"
  proof (cases "stops_at rs i")
    case False
    then obtain c where "rs i = Chunk c" "c \<noteq> []" "\<not> suffix [CHR 0x0A] data"
      using 1(3) by (cases "rs i") (auto simp: stops_at_def)
    then show ?thesis using 1(1) [of rs "Suc i" "data @ c" ch] 1(2,3) by (simp add: so_far_Suc)
  qed blast
qed

lemma receive_chunks:
  "\<forall>j < length cs. rs (i + j) = Chunk (cs ! j) \<Longrightarrow> [] \<notin> set cs \<Longrightarrow> data @ concat cs = l @ [CHR 0x0A] \<Longrightarrow>
   CHR 0x0A \<notin> set l \<Longrightarrow> receive rs i data = Some (Received (l @ [CHR 0x0A]))"
proof (induction cs arbitrary: i data)
  case Nil
  then show ?case by (subst receive.simps) simp
next
  case (Cons c cs)
  have c: "c \<noteq> []" "rs i = Chunk c" using Cons.prems(1) [rule_format, of 0] Cons.prems(2) by auto
  have "prefix data l"
    using Cons.prems(3) c(1) by (metis append_is_Nil_conv concat.simps(2) prefixI prefix_snoc self_append_conv)
  then have "\<not> suffix [CHR 0x0A] data" using Cons.prems(4) by (auto simp: suffix_def prefix_def)
  moreover have "receive rs (Suc i) (data @ c) = Some (Received (l @ [CHR 0x0A]))"
    using Cons.prems Cons.prems(1) [rule_format, of "Suc j" for j] by (intro Cons.IH) auto
  ultimately show ?case using c by (subst receive.simps) simp
qed

text \<open>C19: When a call of the agent's client returns. Once its message is sent, \<open>propose\<close> returns if and only
  if some \<open>recv\<close> fails, finds the connection closed, or ends what was received so far with a newline.
  The timeout bounds a single \<open>recv\<close>, not the call: a peer that keeps sending without a newline
  holds the agent for ever.\<close>

theorem client_returns_iff:
  "((\<exists>r. propose_over (\<lambda>m. Sent rs) tool args = Some r) \<longleftrightarrow> (\<exists>n. stops_at rs n)) \<and>
   propose_over (\<lambda>m. Sent (\<lambda>n. Chunk ''x'')) tool args = None"
proof -
  have iff: "(\<exists>r. propose_over (\<lambda>m. Sent rs) tool args = Some r) \<longleftrightarrow> (\<exists>n. stops_at rs n)" for rs
  proof -
    have "(\<exists>ch. receive rs 0 [] = Some ch) \<longleftrightarrow> (\<exists>n. stops_at rs n)"
      using receive_stops [of rs 0] receive_returned [of rs 0 "[]"] by (auto simp: so_far_def)
    then show ?thesis by (auto simp: propose_over_def)
  qed
  have "\<not> suffix [CHR 0x0A] (so_far (\<lambda>n. Chunk ''x'') n)" for n
  proof -
    have "set (so_far (\<lambda>n. Chunk ''x'') n) \<subseteq> {CHR ''x''}" by (auto simp: so_far_def)
    then show ?thesis by (auto simp: suffix_def)
  qed
  then have "\<not> (\<exists>n. stops_at (\<lambda>n. Chunk ''x'') n)" by (simp add: stops_at_def)
  with iff [of "\<lambda>n. Chunk ''x''"] have "propose_over (\<lambda>m. Sent (\<lambda>n. Chunk ''x'')) tool args = None"
    using not_None_eq by blast
  with iff show ?thesis by blast
qed

section \<open>Lines as frames\<close>

definition delivers :: "(nat \<Rightarrow> recv) \<Rightarrow> string \<Rightarrow> bool" where
  \<comment> \<open>the receives give the text in pieces of any size\<close>
  "delivers rs s \<longleftrightarrow> (\<exists>cs. concat cs = s \<and> [] \<notin> set cs \<and> (\<forall>j < length cs. rs j = Chunk (cs ! j)))"

locale line_frames =
  fixes enc :: "'a \<Rightarrow> string" and dec :: "string \<Rightarrow> 'a option" and good :: "'a \<Rightarrow> bool"
  assumes one_frame: "CHR 0x0A \<notin> set (enc v)"
    and read_frame: "good v \<Longrightarrow> dec (enc v @ [CHR 0x0A]) = Some v"
begin

lemma cut_out: "length (enc v) < MAX_REQUEST \<Longrightarrow> connection_lines (enc v @ [CHR 0x0A]) = [enc v @ [CHR 0x0A]]"
  using one_frame by (intro connection_lines_one) simp_all

lemma in_pieces: "delivers rs (enc v @ [CHR 0x0A]) \<Longrightarrow> receive rs 0 [] = Some (Received (enc v @ [CHR 0x0A]))"
  unfolding delivers_def using one_frame by (elim exE conjE) (rule receive_chunks, auto)

lemma received: "good v \<Longrightarrow> delivers rs (enc v @ [CHR 0x0A]) \<Longrightarrow> \<exists>l. receive rs 0 [] = Some (Received l) \<and> dec l = Some v"
  using in_pieces read_frame by blast

end

lemma loads_line: "wf_json v \<Longrightarrow> loads (dumps v @ [CHR 0x0A]) = Some v"
proof -
  assume "wf_json v"
  then obtain n where "jval n (dumps v @ [CHR 0x0A]) = Some (v, [CHR 0x0A])"
    using dumps_reads unfolding reads_def by (metis ends_value_simps(5))
  then have "jval (2 * length (dumps v @ [CHR 0x0A]) + 1) (dumps v @ [CHR 0x0A]) = Some (v, [CHR 0x0A])"
    by (rule jval_fuel) simp
  then show ?thesis using skip_ws_dumps [of v "[CHR 0x0A]"] by (simp add: loads_def)
qed

interpretation json_frames: line_frames dumps loads wf_json
  by unfold_locales (use printable_no_newline [OF printable_dumps] loads_line in blast)+

section \<open>From the agent to the broker and back\<close>

definition proposal :: "string \<Rightarrow> (string \<times> string) list \<Rightarrow> json" where
  "proposal tool args = JObj [(''tool'', JStr tool), (''args'', JList (map (\<lambda>(k, v). JList [JStr k, JStr v]) args))]"

lemma proposal_line: "proposal_message tool args = dumps (proposal tool args) @ [CHR 0x0A]"
  by (simp add: proposal_message_def proposal_def)

lemma wf_proposal: "wf_json (proposal tool args)"
  by (auto simp: proposal_def list_all_iff)

lemma parse_own_proposal: "distinct (map fst args) \<Longrightarrow> parse_proposal (proposal tool args) = Some (tool, args)"
  unfolding parse_proposal_iff proposal_def by (intro exI conjI) auto

text \<open>C10: A proposal reaches the broker as it was made, and the agent gets the broker's reply. The message
  \<open>propose\<close> sends, within the limit, is one line for the broker, which reads it as the proposed tool
  and arguments and handles exactly that; and the line it writes, in whatever pieces it arrives, is
  what \<open>propose\<close> returns. All that is asked of the broker is that the effects it has on record for its
  keys are JSON values, which every operation keeps.\<close>

theorem proposal_and_reply_cross_the_wire:
  assumes "distinct (map fst args)" and "length (dumps (proposal tool args)) < MAX_REQUEST"
    and "run_state (handle cr kn has (envs 0) (proposal tool args) peer b) w = ((reply, b'), w')"
    and "sound cr False b" and "wf_json peer" and "delivers rs (reply_line reply)"
  shows "run_state (serve_connection cr kn has envs peer (proposal_message tool args) b) w = (([reply], b'), w') \<and>
    parse_proposal (proposal tool args) = Some (tool, args) \<and>
    propose_over (\<lambda>m. Sent rs) tool args = Some (JObj reply)"
proof -
  have wf: "wf_json (JObj reply)"
    using ensuresD [OF handle_sound [OF assms(4) _ assms(5)] assms(3)] by (simp add: disk_works_def)
  have l: "connection_lines (proposal_message tool args) = [proposal_message tool args]"
    unfolding proposal_line by (rule json_frames.cut_out) (rule assms(2))
  have "run_state (serve_connection cr kn has envs peer (proposal_message tool args) b) w = (([reply], b'), w')"
    using assms(2,3) unfolding serve_connection_def l
    by (simp add: run_bind State_Monad.return_def proposal_line loads_line wf_proposal)
  moreover have "propose_over (\<lambda>m. Sent rs) tool args = Some (JObj reply)"
  proof -
    obtain l where "receive rs 0 [] = Some (Received l)" "loads l = Some (JObj reply)"
      using json_frames.received [OF wf] assms(6) by (auto simp: reply_line_def)
    then show ?thesis by (simp add: propose_over_def propose_def)
  qed
  ultimately show ?thesis using parse_own_proposal [OF assms(1)] by blast
qed

definition late_broker :: broker where
  \<comment> \<open>a broker whose log has a record ten seconds later than the clock\<close>
  "late_broker = demo_broker\<lparr>b_log := (new_log None)\<lparr>al_last_ts := Some 10000000\<rparr>\<rparr>"

lemma late_handle:
  "\<exists>b'. run_state (handle demo_crypto demo_kernel True demo_req (proposal tool args) JNull late_broker) w =
     ((with_basis True (Inr (clock_reply ''s'' JNull)), b'), w)"
  by (simp add: handle_def respond_def begin_request_def Let_def run_bind State_Monad.return_def proposal_def key_of_def
      has_key_def clock_rolled_back_def late_broker_def demo_req_def)

lemma late_sound: "sound demo_crypto False late_broker"
  by (simp add: sound_def late_broker_def demo_broker_def)

theorem proposal_and_reply_cross_the_wire_witness:
  "\<exists>b' rs. run_state (serve_connection demo_crypto demo_kernel True (\<lambda>_. demo_req) JNull
       (proposal_message ''read_file'' [(''path'', ''/workspace/a'')]) late_broker) (quiet demo_fs) =
     (([with_basis True (Inr (clock_reply ''s'' JNull))], b'), quiet demo_fs) \<and>
   propose_over (\<lambda>m. Sent rs) ''read_file'' [(''path'', ''/workspace/a'')] =
     Some (JObj (with_basis True (Inr (clock_reply ''s'' JNull))))"
proof -
  let ?reply = "with_basis True (Inr (clock_reply ''s'' JNull))"
  let ?args = "[(''path'', ''/workspace/a'')]"
  let ?rs = "\<lambda>n. Chunk (reply_line ?reply)"
  obtain b' where h: "run_state (handle demo_crypto demo_kernel True demo_req (proposal ''read_file'' ?args) JNull late_broker)
      (quiet demo_fs) = ((?reply, b'), quiet demo_fs)"
    using late_handle by blast
  have "length (dumps (proposal ''read_file'' ?args)) < 100" by code_simp
  then have l: "length (dumps (proposal ''read_file'' ?args)) < MAX_REQUEST" by (simp add: MAX_REQUEST_def)
  have d: "delivers ?rs (reply_line ?reply)"
    unfolding delivers_def by (intro exI [of _ "[reply_line ?reply]"]) (simp add: reply_line_def)
  from proposal_and_reply_cross_the_wire [OF _ l h late_sound _ d] show ?thesis by (intro exI conjI) auto
qed

end
