(* ===== verification/Life.thy ===== *)
theory Life
  imports Threads Wire Restart
begin

text \<open>
  The life of a broker process as a whole: a start on whatever state the disk has, then the requests of any
  clients, in any interleaving of their threads' steps. Wherever it ends, the log on the disk is one the
  next start accepts, and what is written on the sockets can be read.
\<close>

section \<open>The start\<close>

lemma plain_settlement: "wf_json verdict \<Longrightarrow> plain_entry (settlement rid verdict used)"
  by (simp add: plain_entry_def settlement_def)

lemma entry_verdict_wf: "wf_fields e \<Longrightarrow> wf_json (entry_verdict e)"
  using wf_jget by (simp add: entry_verdict_def Let_def py_or_def)

lemma log_verdicts_wf:
  "list_all (\<lambda>v. wf_fields (jfields v)) es \<Longrightarrow> list_all (\<lambda>(k, v). wf_json v) vs \<Longrightarrow>
   list_all (\<lambda>(k, v). wf_json v) (log_verdicts h es vs)"
proof (induction es arbitrary: vs)
  case (Cons v es)
  have "list_all (\<lambda>(k, v). wf_json v) (dset vs rid (entry_verdict (jfields v)))" for rid
    by (rule keys_dset_all [OF Cons.prems(2)]) (use Cons.prems(1) entry_verdict_wf in simp)
  then show ?case using Cons by (simp add: Let_def split: json.split)
qed simp

lemma settle_and_record_log:
  assumes "in_step (sha cr) al" and "faultless env" and "wf_json verdict"
    and "settle_and_record cr env rid verdict st disk al = (r, st', disk', al')"
  shows "in_step (sha cr) al'"
proof -
  have "in_step (sha cr) (snd (log_append cr env (settlement rid verdict used) al))" for used
    using append_in_step [OF assms(1) plain_settlement [OF assms(3)] assms(2)] by simp
  moreover have "al' = al \<or> (\<exists>used. al' = snd (log_append cr env (settlement rid verdict used) al))"
    using assms(4) by (auto simp: settle_and_record_def Let_def split: option.splits prod.splits bool.splits if_splits) (metis snd_conv)+
  ultimately show ?thesis using assms(1) by auto
qed

lemma settle_each_log:
  "in_step (sha cr) al \<Longrightarrow> \<forall>i. faultless (envs i) \<Longrightarrow> list_all (\<lambda>(k, v). wf_json v) vs \<Longrightarrow>
   in_step (sha cr) (snd (snd (snd (settle_each cr envs vs reqs st disk al n))))"
proof (induction reqs arbitrary: envs st disk al n)
  case (Cons rid reqs)
  let ?v = "case map_of vs rid of None \<Rightarrow> JStr ''unresolved'' | Some v \<Rightarrow> v"
  have v: "wf_json ?v" using Cons.prems(3) by (auto simp: list_all_iff dest: map_of_SomeD split: option.split)
  obtain r st' disk' al' where s: "settle_and_record cr (envs 0) rid ?v st disk al = (r, st', disk', al')" by (metis surj_pair)
  have "in_step (sha cr) al'" by (rule settle_and_record_log [OF Cons.prems(1) _ v s]) (use Cons.prems(2) in simp)
  then show ?case using Cons.IH Cons.prems(2,3) by (simp add: s Let_def split: sum.split)
qed simp

lemma settle_reserved_log:
  assumes "in_step (sha cr) al" and "\<forall>i. faultless (envs i)"
    and "settle_reserved cr envs st disk al = (r, st', disk', al')"
  shows "in_step (sha cr) al'"
proof -
  have "in_step (sha cr) (snd (snd (snd (settle_each cr envs (log_verdicts (held st) es []) reqs st disk al n))))"
    if "log_entries t = Some es" for t es reqs n
    by (rule settle_each_log [OF assms(1,2) log_verdicts_wf [OF log_entries_wf [OF that]]]) simp
  then have "in_step (sha cr) (snd (snd (snd (settle_reserved cr envs st disk al))))"
    using assms(1) by (simp add: settle_reserved_def split: option.split)
  then show ?thesis by (simp add: assms(3))
qed

lemma settle_start_sound:
  assumes "sound cr True b" and "\<forall>i. faultless (se_settle env i)" and "faultless (se_final env)"
    and "settle_start cr env b = Inr b'"
  shows "sound cr True b'"
proof -
  obtain r st disk al where s: "settle_reserved cr (se_settle env) (b_store b) (b_disk b) (b_log b) = (r, st, disk, al)"
    by (metis surj_pair)
  have al: "in_step (sha cr) al" using settle_reserved_log [OF _ assms(2) s] assms(1) by (simp add: sound_def)
  moreover have "in_step (sha cr) (snd (checkpoint_now cr (se_final env) al))"
    using run_checkpoint_in_step [OF al assms(3)] al by (simp add: checkpoint_now_def)
  moreover have "b_keys b' = b_keys b \<and> (b_log b' = al \<or> b_log b' = snd (checkpoint_now cr (se_final env) al))"
    using assms(4) s by (auto simp: settle_start_def Let_def split: option.splits if_splits prod.splits bool.splits)
  ultimately show ?thesis using assms(1) by (auto simp: sound_def)
qed

lemma rebuilt_key_sound: "sound cr disk b \<Longrightarrow> wf_json v \<Longrightarrow> sound cr disk (rebuilt_key rid e v b)"
  using keys_dset_all [of "\<lambda>e. wf_json (ke_effect e)" "b_keys b"]
  by (simp add: rebuilt_key_def sound_def split: json.split)

lemma scan_log_wf:
  assumes "list_all (\<lambda>v. wf_fields (jfields v)) vs" and "scan_log vs = (prs, closed)"
  shows "list_all (\<lambda>(rid, e). wf_json rid \<and> wf_fields e) prs \<and> list_all (\<lambda>(rid, v). wf_json v) closed"
proof -
  let ?ok = "\<lambda>s. list_all (\<lambda>(rid, e). wf_json rid \<and> wf_fields e) (fst s) \<and> list_all (\<lambda>(rid, v). wf_json v) (snd s)"
  have set: "P k \<Longrightarrow> list_all (\<lambda>(k, e). P k \<and> Q e) d \<Longrightarrow> Q v \<Longrightarrow> list_all (\<lambda>(k, e). P k \<and> Q e) (dset d k v)"
    for P and Q :: "'b \<Rightarrow> bool" and d and k :: json and v by (induction d) auto
  have step: "?ok (scan_entry s v)" if "?ok s" "wf_fields (jfields v)" for s v
    using that wf_jget [OF that(2)] by (auto simp: scan_entry_def Let_def py_or_def intro!: set keys_dset_all)
  have "?ok (foldl scan_entry s vs)" if "?ok s" for s
    using that assms(1) by (induction vs arbitrary: s) (use step in auto)
  from this [of "([], [])"] show ?thesis using assms(2) by (simp add: scan_log_def)
qed

lemma reconcile_each_sound:
  "sound cr True b \<Longrightarrow> (\<And>i. faultless (envs i)) \<Longrightarrow> list_all (\<lambda>(rid, e). wf_json rid \<and> wf_fields e) prs \<Longrightarrow>
   list_all (\<lambda>(rid, v). wf_json v) closed \<Longrightarrow> ensures (\<lambda>(r, b'). sound cr True b') (reconcile_each cr envs prs closed b n)"
proof (induction prs arbitrary: closed b n)
  case Nil
  then show ?case by (simp add: ensures_ret)
next
  case (Cons x prs)
  obtain rid e where x: "x = (rid, e)" by (cases x)
  show ?case
  proof (cases "map_of closed rid")
    case (Some v)
    then have "wf_json v" using Cons.prems(4) by (auto simp: list_all_iff dest: map_of_SomeD)
    then show ?thesis using Cons Some x rebuilt_key_sound by simp
  next
    case None
    have judged: "ensures (case_sum (\<lambda>_. True) (\<lambda>(verdict, observed). wf_json observed)) (judge_pending cr (b_key b) e)"
      unfolding ensures_def
    proof
      fix w
      obtain r w1 where "run_state (judge_pending cr (b_key b) e) w = (r, w1)" by fastforce
      then show "case_sum (\<lambda>_. True) (\<lambda>(verdict, observed). wf_json observed) (fst (run_state (judge_pending cr (b_key b) e) w))"
        using judged_not_empty by (cases r) auto
    qed
    have next_one: "ensures (\<lambda>(r, b'). sound cr True b')
        (case log_append cr (envs n) (reconciled_record rid e verdict observed) (b_log b) of
           (False, al) \<Rightarrow> ret (Inl ''OSError'', b\<lparr>b_log := al\<rparr>)
         | (True, al) \<Rightarrow> reconcile_each cr envs prs (dset closed rid (JStr verdict)) (rebuilt_key rid e (JStr verdict) (b\<lparr>b_log := al\<rparr>)) (Suc n))"
      if "wf_json observed" for verdict observed
    proof -
      obtain ok al where al: "log_append cr (envs n) (reconciled_record rid e verdict observed) (b_log b) = (ok, al)" by fastforce
      have "plain_entry (reconciled_record rid e verdict observed)"
        by (rule plain_reconciled) (use that Cons.prems(3) x in simp_all)
      with al have s: "sound cr True (b\<lparr>b_log := al\<rparr>)"
        using append_in_step [of cr "b_log b" "reconciled_record rid e verdict observed" "envs n"] Cons.prems(1,2)
        by (simp add: sound_def)
      have "list_all (\<lambda>(rid, v). wf_json v) (dset closed rid (JStr verdict))" by (rule keys_dset_all [OF Cons.prems(4)]) simp
      then show ?thesis
        using s Cons.IH [OF rebuilt_key_sound [OF s] Cons.prems(2)] Cons.prems(3) x by (cases ok) (simp_all add: al ensures_ret)
    qed
    show ?thesis
      unfolding x using Cons.prems(1)
      by (simp add: None)
        (rule ensures_after [OF judged], rule ensures_sum, simp add: ensures_ret, rule ensures_prod, rule next_one, simp)
  qed
qed

lemma reconcile_pending_sound:
  "sound cr True b \<Longrightarrow> (\<And>i. faultless (envs i)) \<Longrightarrow> ensures (\<lambda>(r, b'). sound cr True b') (reconcile_pending cr envs b)"
  unfolding reconcile_pending_def
  by (intro ensures_rules) (auto simp: ensures_ret dest!: log_entries_wf intro!: reconcile_each_sound dest: scan_log_wf)

lemma replace_file_other: "p \<noteq> src \<Longrightarrow> p \<noteq> dst \<Longrightarrow> replace_file src dst disk p = disk p"
  by (simp add: replace_file_def)

lemma audit_kept: "snd (load_or_create_keys cr seed audit disk) audit = disk audit"
proof -
  have "save_ring r (audit @ ''.key'') (audit @ ''.pub.json'') d audit = d audit" for r d
    by (simp add: save_ring_def save_public_def save_private_def replace_file_other split: option.split)
  then show ?thesis
    by (simp add: load_or_create_keys_def Let_def replace_file_other split: option.split)
qed

lemma opened_sound:
  assumes "opened_broker cr env cfg disk = Inr b"
    and "ends_line (case disk (se_audit env) of None \<Rightarrow> [] | Some t \<Rightarrow> t)"
  shows "sound cr True b"
proof -
  obtain r disk1 where k: "load_or_create_keys cr (se_seed env) (se_audit env) disk = (r, disk1)" by fastforce
  then have d: "disk1 (se_audit env) = disk (se_audit env)" using audit_kept by (metis snd_conv)
  obtain al ck where al: "load_log (sha cr) (disk (se_audit env)) = Some al" "b_log b = al\<lparr>al_ck := ck\<rparr>" "b_keys b = []"
    using assms(1) k d
    by (auto simp: opened_broker_def open_broker_def Let_def split: sum.splits option.splits if_splits prod.splits)
  then show ?thesis using loaded_in_step [OF al(1) assms(2)] by (simp add: sound_def)
qed

lemma serve_sound:
  assumes "run_state (serve cr env cfg disk locks) w = ((Inr b, locks'), w')"
    and "ends_line (case disk (se_audit env) of None \<Rightarrow> [] | Some t \<Rightarrow> t)"
    and "\<And>i. faultless (se_pending env i)" and "\<And>i. faultless (se_settle env i)" and "faultless (se_final env)"
  shows "sound cr True b"
proof -
  obtain b0 where b0: "opened_broker cr env cfg disk = Inr b0"
    using assms(1) by (auto simp: serve_def State_Monad.return_def split: option.splits sum.splits)
  obtain r b1 w1 where p: "run_state (reconcile_pending cr (se_pending env) b0) w = ((r, b1), w1)" by (metis surj_pair)
  have "sound cr True b1"
    using ensuresD [OF reconcile_pending_sound [OF opened_sound [OF b0 assms(2)] assms(3)] p] by simp
  moreover have "settle_start cr env b1 = Inr b"
    using assms(1) b0 p by (auto simp: serve_def run_bind State_Monad.return_def split: option.splits sum.splits)
  ultimately show ?thesis using settle_start_sound assms(4,5) by blast
qed

section \<open>The requests\<close>

lemma reply_line_reads: "wf_reply reply \<Longrightarrow> loads (reply_line reply) = Some (JObj reply)"
  unfolding reply_line_def by (rule loads_line)

lemma thread_reply_wf:
  assumes "stage_wf s" and "thread_step cr appends s b = (Inr reply, b')"
  shows "wf_reply reply"
  using assms by (cases s) (auto split: prod.splits bool.splits option.splits simp del: wf_json.simps(2))

lemma answer_wf:
  assumes "run_state (begin_request cr kn env obj peer b) w = ((Inr (Answered reply), b'), w')"
    and "sound cr disk b" and "disk_works disk env" and "wf_json peer"
  shows "wf_reply reply"
  using ensuresD [OF begin_request_sound [OF assms(2-4)] assms(1)] by (simp add: started_wf_def del: wf_json.simps(2))

text \<open>C14: The log outlives the process. Take any start that succeeds on a disk whose log ends with a complete
  line, and then any requests (of JSON values as the model has them: integers, no floats, and
  characters below code point 256), their threads' steps interleaved in any order: as long as the
  disk takes the appends, the log file is at every moment one a start accepts, with the same head,
  count and clock that the process has in memory; and each reply sent then - of a thread that is
  done, of a request that is answered at once, of one that raises an exception - reads back from
  its line as the reply. No such request can lock the broker out of its own log.\<close>

theorem log_outlives_the_process:
  assumes "run_state (serve cr env cfg disk locks) w = ((Inr b, locks'), w1)"
    and "ends_line (case disk (se_audit env) of None \<Rightarrow> [] | Some t \<Rightarrow> t)"
    and "\<And>i. faultless (se_pending env i)" and "\<And>i. faultless (se_settle env i)" and "faultless (se_final env)"
    and "(pool_step cr kn True)\<^sup>*\<^sup>* (b, [], [], {#}) (b', ths, ks, sp)"
  shows "load_log (sha cr) (al_file (b_log b')) = Some ((b_log b')\<lparr>al_ck := None\<rparr>) \<and>
    (\<forall>s\<in>set ths. \<forall>appends reply b''. thread_step cr appends s b' = (Inr reply, b'') \<longrightarrow>
       loads (reply_line (with_basis has (Inr reply))) = Some (JObj (with_basis has (Inr reply)))) \<and>
    (\<forall>renv obj peer v reply b'' v'. (\<forall>i. faultless (re_append renv i)) \<longrightarrow> wf_json peer \<longrightarrow>
       run_state (begin_request cr kn renv obj peer b') v = ((Inr (Answered reply), b''), v') \<longrightarrow>
       loads (reply_line (with_basis has (Inr reply))) = Some (JObj (with_basis has (Inr reply)))) \<and>
    (\<forall>e. loads (reply_line (with_basis has (Inl e))) = Some (JObj (with_basis has (Inl e))))"
proof -
  have sent: "loads (reply_line (with_basis has r)) = Some (JObj (with_basis has r))"
    if "case r of Inl e \<Rightarrow> True | Inr reply \<Rightarrow> wf_reply reply" for r
    by (rule reply_line_reads [OF with_basis_wf [OF that]])
  have ok: "pool_ok cr True b (b', ths, ks, sp)" by (rule pool_ok_reached [OF assms(6) serve_sound [OF assms(1-5)]])
  then have s: "sound cr True b'" "list_all stage_wf ths" by (simp_all add: pool_ok_def)
  have "loads (reply_line (with_basis has (Inr reply))) = Some (JObj (with_basis has (Inr reply)))"
    if "t \<in> set ths" "thread_step cr appends t b' = (Inr reply, b'')" for t appends reply b''
    using that s(2) thread_reply_wf [OF _ that(2)] by (intro sent) (simp add: list_all_iff del: wf_json.simps(2))
  moreover have "loads (reply_line (with_basis has (Inr reply))) = Some (JObj (with_basis has (Inr reply)))"
    if "\<forall>i. faultless (re_append renv i)" "wf_json peer"
      "run_state (begin_request cr kn renv obj peer b') v = ((Inr (Answered reply), b''), v')" for renv obj peer v reply b'' v'
    using answer_wf [OF that(3) s(1) _ that(2)] that(1) by (intro sent) (simp add: disk_works_def del: wf_json.simps(2))
  moreover have "load_log (sha cr) (al_file (b_log b')) = Some ((b_log b')\<lparr>al_ck := None\<rparr>)"
    using s(1) by (simp add: sound_def in_step_def)
  ultimately show ?thesis using sent [of "Inl _"] by auto
qed

definition demo_serve :: serve_env where
  \<comment> \<open>a start without intents and without checkpoints\<close>
  "demo_serve = \<lparr>se_seed = ''seed'', se_audit = ''a'', se_intents = None, se_revocations = None, se_sink = None,
     se_pending = (\<lambda>_. demo_env), se_settle = (\<lambda>_. demo_env), se_final = demo_env\<rparr>"

lemma demo_served:
  "\<exists>b. run_state (serve demo_crypto demo_serve demo_config (\<lambda>_. None) {}) w = ((Inr b, {''a''}), w)"
proof -
  have no_log: "load_log hf (save_ring r ''a.key'' ''a.pub.json'' (\<lambda>_. None) ''a'') = Some (new_log None)" for hf r
    by (simp add: save_ring_def save_public_def save_private_def replace_file_other load_log_def split: option.split)
  have "\<exists>b. opened_broker demo_crypto demo_serve demo_config (\<lambda>_. None) = Inr b \<and> al_file (b_log b) = None \<and>
      available (b_store b) = None"
    by (simp add: opened_broker_def demo_serve_def load_or_create_keys_def Let_def no_log new_log_def open_store_def
        open_broker_def generate_def new_ring_def can_sign_def)
  then show ?thesis
    by (auto simp: serve_def demo_serve_def claim_state_def claim_def run_bind State_Monad.return_def reconcile_pending_def
        settle_start_def settle_reserved_def)
qed

theorem log_outlives_the_process_witness:
  "\<exists>b b' reply w'. run_state (serve demo_crypto demo_serve demo_config (\<lambda>_. None) {}) (quiet demo_fs) = ((Inr b, {''a''}), quiet demo_fs) \<and>
     run_state (begin_request demo_crypto demo_kernel demo_req (JStr ''?'') JNull b) (quiet demo_fs) = ((Inr (Answered reply), b'), w') \<and>
     load_log (sha demo_crypto) (al_file (b_log b')) = Some ((b_log b')\<lparr>al_ck := None\<rparr>) \<and>
     loads (reply_line (with_basis True (Inr reply))) = Some (JObj (with_basis True (Inr reply)))"
proof -
  obtain b where b: "run_state (serve demo_crypto demo_serve demo_config (\<lambda>_. None) {}) (quiet demo_fs) = ((Inr b, {''a''}), quiet demo_fs)"
    using demo_served by blast
  have f: "faultless demo_env" by (simp add: faultless_def demo_env_def)
  then have k: "disk_works True demo_req" "\<forall>i. faultless (re_append demo_req i)" by (simp_all add: disk_works_def demo_req_def)
  obtain r b' w' where run: "run_state (begin_request demo_crypto demo_kernel demo_req (JStr ''?'') JNull b) (quiet demo_fs) = ((r, b'), w')"
    by (metis surj_pair)
  then obtain reply where reply: "r = Inr (Answered reply)"
    by (auto simp: begin_request_def decide_def decided_request_def run_bind State_Monad.return_def Let_def key_of_def
        without_key_def parse_proposal_def decision_of_def rejected_def nothing_done_def merge_def
        split: prod.splits option.splits if_splits)
  have "pool_step demo_crypto demo_kernel True (b, [], [], {#}) (b', [], [], {#})"
    by (rule answers [OF run _ k(1)]) (simp_all add: reply)
  note run1 = r_into_rtranclp [where r = "pool_step demo_crypto demo_kernel True", OF this]
  note here = log_outlives_the_process [OF b, where has = True, OF _ _ _ _ run1]
    and before = log_outlives_the_process [OF b, where has = True, OF _ _ _ _ rtranclp.rtrancl_refl [of "pool_step demo_crypto demo_kernel True"]]
  have "load_log (sha demo_crypto) (al_file (b_log b')) = Some ((b_log b')\<lparr>al_ck := None\<rparr>)"
    using here f by (simp add: demo_serve_def ends_line_def)
  moreover have "loads (reply_line (with_basis True (Inr reply))) = Some (JObj (with_basis True (Inr reply)))"
    using before f run k(2) reply by (simp add: demo_serve_def ends_line_def) (metis wf_json.simps(3))
  ultimately show ?thesis using b run reply by blast
qed

end
