(* ===== verification/Gates.thy ===== *)
theory Gates
  imports Kernel LegacyGuard Attest "HOL-Library.State_Monad" "HOL-Library.Sublist"
begin

text \<open>
  The comparison of an authorization gate with the kernel (\<open>darm_guard/verify.py\<close>,
  \<open>darm_guard/coverage.py\<close>): random scenarios, their payload variants, the built-in gates, the
  comparison and its report, and the coverage map. A scenario is a record, with its JSON form for
  the kernel. The random generator is the stream of its draws: every draw below \<open>n\<close> takes the next
  number modulo \<open>n\<close>, so that every sequence of results is the one of some stream; a sample without
  replacement draws its elements one after another.
\<close>

section \<open>Scenarios\<close>

record scenario_rule =
  ru_key :: string
  ru_values :: "string list"
  ru_prefixes :: "string list"
  ru_payload :: bool

record scenario_tool =
  sc_tool :: string
  sc_rules :: "scenario_rule list"

record scenario_arg =
  ga_key :: string
  ga_value :: string
  ga_prov :: string

record scenario =
  sn_tools :: "scenario_tool list"
  sn_credential :: "string list"
  sn_expired :: bool
  sn_tool :: string
  sn_args :: "scenario_arg list"

definition rule_obj :: "scenario_rule \<Rightarrow> json" where
  "rule_obj r = JObj ([(''key'', JStr (ru_key r)), (''allowedValues'', JList (map JStr (ru_values r))),
     (''allowedPrefixes'', JList (map JStr (ru_prefixes r)))] @
     (if ru_payload r then [(''payload'', JBool True)] else []))"

definition scenario_obj :: "scenario \<Rightarrow> jobj" where
  "scenario_obj s =
     [(''policy'', JObj [(''tools'', JList (map (\<lambda>t. JObj [(''tool'', JStr (sc_tool t)),
         (''rules'', JList (map rule_obj (sc_rules t)))]) (sn_tools s)))]),
      (''credential'', JObj [(''tools'', JList (map JStr (sn_credential s))), (''expired'', JBool (sn_expired s))]),
      (''invocation'', JObj [(''tool'', JStr (sn_tool s)),
         (''args'', JList (map (\<lambda>a. JObj [(''key'', JStr (ga_key a)), (''value'', JStr (ga_value a)),
            (''prov'', JStr (ga_prov a))]) (sn_args s)))])]"

section \<open>Random draws\<close>

type_synonym rng = "nat \<Rightarrow> nat"

definition below :: "nat \<Rightarrow> (rng, nat) state" where
  "below n = do { f \<leftarrow> State_Monad.get; State_Monad.set (\<lambda>i. f (Suc i)); State_Monad.return (f 0 mod n) }"

definition chance :: "nat \<Rightarrow> (rng, bool) state" where
  \<comment> \<open>\<open>rng.random() < p / 100\<close>\<close>
  "chance p = do { x \<leftarrow> below 100; State_Monad.return (x < p) }"

definition choice :: "'a list \<Rightarrow> (rng, 'a) state" where
  "choice xs = do { i \<leftarrow> below (length xs); State_Monad.return (xs ! i) }"

fun draw_from :: "nat \<Rightarrow> 'a list \<Rightarrow> (rng, 'a list) state" where
  \<comment> \<open>\<open>rng.sample\<close>\<close>
  "draw_from 0 xs = State_Monad.return []"
| "draw_from (Suc k) xs =
     (if xs = [] then State_Monad.return []
      else do {
        i \<leftarrow> below (length xs);
        ys \<leftarrow> draw_from k (take i xs @ drop (Suc i) xs);
        State_Monad.return (xs ! i # ys) })"

definition sample :: "'a list \<Rightarrow> nat \<Rightarrow> nat \<Rightarrow> (rng, 'a list) state" where
  \<comment> \<open>\<open>_sample\<close>\<close>
  "sample xs lo hi = do { k \<leftarrow> below (min hi (length xs) - lo + 1); draw_from (lo + k) xs }"

fun each :: "('a \<Rightarrow> (rng, 'b) state) \<Rightarrow> 'a list \<Rightarrow> (rng, 'b list) state" where
  "each f [] = State_Monad.return []"
| "each f (x # xs) = do { y \<leftarrow> f x; ys \<leftarrow> each f xs; State_Monad.return (y # ys) }"

definition TOOLS :: "string list" where "TOOLS = [''read'', ''send'', ''exec'']"
definition KEYS :: "string list" where "KEYS = [''k1'', ''k2'']"
definition VALUES :: "string list" where "VALUES = [''/w/a'', ''/w/b'', ''/t/x'', ''/etc/p'', ''v1'', ''v2'']"
definition PREFIXES :: "string list" where "PREFIXES = [''/w/'', ''/t/'']"
definition EXACT :: "string list" where "EXACT = [''v1'', ''v2'']"
definition PROVS :: "string list" where "PROVS = [''authoritative'', ''derived'', ''untrusted'']"

section \<open>Generation\<close>

definition gen_rule :: "string \<Rightarrow> (rng, scenario_rule) state" where
  "gen_rule k = do {
     vs \<leftarrow> sample EXACT 0 2;
     ps \<leftarrow> sample PREFIXES 0 2;
     State_Monad.return \<lparr>ru_key = k, ru_values = vs, ru_prefixes = ps, ru_payload = False\<rparr> }"

definition gen_tool :: "string \<Rightarrow> (rng, scenario_tool list) state" where
  "gen_tool t = do {
     c \<leftarrow> chance 80;
     if c then do {
       ks \<leftarrow> sample KEYS 0 2;
       rs \<leftarrow> each gen_rule ks;
       State_Monad.return [\<lparr>sc_tool = t, sc_rules = rs\<rparr>] }
     else State_Monad.return [] }"

definition rule_choices :: "scenario_rule \<Rightarrow> string list" where
  "rule_choices r = ru_values r @ map (\<lambda>x. x @ ''f'') (ru_prefixes r)"

definition rule_of :: "scenario_tool list \<Rightarrow> string \<Rightarrow> string \<Rightarrow> scenario_rule option" where
  \<comment> \<open>\<open>rules.get(k)\<close>: the last rule for the key\<close>
  "rule_of tps t k =
     map_of (rev (map (\<lambda>r. (ru_key r, r)) (concat (map sc_rules (filter (\<lambda>tp. sc_tool tp = t) tps))))) k"

definition gen_arg :: "scenario_tool list \<Rightarrow> string \<Rightarrow> string \<Rightarrow> (rng, scenario_arg) state" where
  "gen_arg tps t k =
     (let choices = (case rule_of tps t k of None \<Rightarrow> [] | Some r \<Rightarrow> rule_choices r) in do {
        within \<leftarrow> (if choices = [] then State_Monad.return False else chance 70);
        v \<leftarrow> (if within then choice choices else choice VALUES);
        p \<leftarrow> choice PROVS;
        State_Monad.return \<lparr>ga_key = k, ga_value = v, ga_prov = p\<rparr> })"

definition gen :: "(rng, scenario) state" where
  \<comment> \<open>\<open>_gen\<close>\<close>
  "gen = do {
     tps \<leftarrow> each gen_tool TOOLS;
     cred \<leftarrow> sample TOOLS 1 3;
     expired \<leftarrow> chance 15;
     known \<leftarrow> chance 85;
     t \<leftarrow> (if known then choice TOOLS else State_Monad.return ''unknown'');
     ks \<leftarrow> sample KEYS 0 2;
     args \<leftarrow> each (gen_arg (concat tps) t) ks;
     State_Monad.return \<lparr>sn_tools = concat tps, sn_credential = cred, sn_expired = expired, sn_tool = t, sn_args = args\<rparr> }"

fun set_payload :: "string \<Rightarrow> nat \<Rightarrow> scenario_tool list \<Rightarrow> scenario_tool list" where
  \<comment> \<open>\<open>r["payload"] = True\<close> for the \<open>i\<close>th rule of the first ruled entry of the tool\<close>
  "set_payload t i [] = []"
| "set_payload t i (tp # tps) =
     (if sc_tool tp = t \<and> sc_rules tp \<noteq> []
      then tp\<lparr>sc_rules := (sc_rules tp)[i := (sc_rules tp ! i)\<lparr>ru_payload := True\<rparr>]\<rparr> # tps
      else tp # set_payload t i tps)"

definition with_payload :: "scenario \<Rightarrow> (rng, scenario) state" where
  \<comment> \<open>\<open>_with_payload\<close>\<close>
  "with_payload s =
     (case filter (\<lambda>tp. sc_tool tp = sn_tool s \<and> sc_rules tp \<noteq> []) (sn_tools s) of
        [] \<Rightarrow> State_Monad.return s
      | tp # _ \<Rightarrow> do {
          skip \<leftarrow> chance 50;
          if skip then State_Monad.return s
          else do {
            i \<leftarrow> below (length (sc_rules tp));
            (let r = sc_rules tp ! i; choices = rule_choices r in
             if choices = [] then State_Monad.return s
             else do {
               v \<leftarrow> choice choices;
               State_Monad.return (s\<lparr>sn_tools := set_payload (sn_tool s) i (sn_tools s),
                 sn_args := filter (\<lambda>a. ga_key a \<noteq> ru_key r) (sn_args s) @
                            [\<lparr>ga_key = ru_key r, ga_value = v, ga_prov = ''untrusted''\<rparr>]\<rparr>) }) } })"

fun repeated :: "nat \<Rightarrow> (rng, 'a) state \<Rightarrow> (rng, 'a list) state" where
  "repeated 0 m = State_Monad.return []"
| "repeated (Suc n) m = do { x \<leftarrow> m; xs \<leftarrow> repeated n m; State_Monad.return (x # xs) }"

definition scenarios :: "nat \<Rightarrow> rng \<Rightarrow> rng \<Rightarrow> bool \<Rightarrow> scenario list" where
  \<comment> \<open>the streams of the seed and of the seed after it\<close>
  "scenarios n f g payload =
     (let base = fst (run_state (repeated n gen) f) in
      if payload then fst (run_state (each with_payload base) g) else base)"

section \<open>Gates\<close>

record gate_verdict =
  gv_admitted :: bool
  gv_reason :: string       \<comment> \<open>empty for \<open>None\<close>\<close>
  gv_supported :: bool

definition allow_all :: "scenario \<Rightarrow> gate_verdict" where
  "allow_all s = \<lparr>gv_admitted = True, gv_reason = [], gv_supported = True\<rparr>"

fun kind_name :: "failure_kind \<Rightarrow> string" where
  "kind_name OBSERVATION = ''observation''"
| "kind_name DOMAIN_COMPLETENESS = ''domain_completeness''"
| "kind_name AUTHORITY = ''authority''"
| "kind_name TEMPORAL_FRESHNESS = ''temporal_freshness''"
| "kind_name SEMANTIC_BOUNDARY = ''semantic_boundary''"

definition v01_guard :: "scenario \<Rightarrow> guard" where
  \<comment> \<open>expiry is emulated: issued in the year 2000, for a second\<close>
  "v01_guard s =
     (new_guard \<lparr>authorized_tools = fset_of_list (map sc_tool (sn_tools s)), pol_boundary = ''default''\<rparr>
        \<lparr>tools = fset_of_list (sn_credential s), actor = [], boundary = ''default'',
         issued_at = if sn_expired s then Some 946684800000000 else None,
         ttl = if sn_expired s then Some 1000000 else None\<rparr>
        GOVERN [] False)\<lparr>stderr_alerts := False\<rparr>"

definition darmguard_v01 :: "time \<Rightarrow> scenario \<Rightarrow> gate_verdict" where
  "darmguard_v01 now s =
     (let r = fst (guard_check (v01_guard s) {|sn_tool s|} now False)
      in \<lparr>gv_admitted = admitted r,
          gv_reason = (case failures r of [] \<Rightarrow> [] | f # _ \<Rightarrow> kind_name (fw_kind f)), gv_supported = True\<rparr>)"

section \<open>The comparison\<close>

datatype divergence_kind = FalseAdmit | FalseReject

record divergence =
  dv_index :: nat
  dv_kind :: divergence_kind
  dv_kernel :: string
  dv_gate :: string
  dv_scenario :: scenario

record comparison =
  cp_agree :: nat
  cp_unsupported :: "(string \<times> nat) list"
  cp_divergences :: "divergence list"

definition no_comparison :: comparison where
  "no_comparison = \<lparr>cp_agree = 0, cp_unsupported = [], cp_divergences = []\<rparr>"

definition count_one :: "string \<Rightarrow> (string \<times> nat) list \<Rightarrow> (string \<times> nat) list" where
  "count_one k d = dset d k (case map_of d k of None \<Rightarrow> 1 | Some n \<Rightarrow> n + 1)"

definition or_else :: "string \<Rightarrow> string \<Rightarrow> string" where
  "or_else s t = (if s = [] then t else s)"

definition compare_one ::
  "nat \<Rightarrow> scenario \<Rightarrow> gate_verdict \<Rightarrow> kernel_decision \<Rightarrow> comparison \<Rightarrow> comparison" where
  \<comment> \<open>a scenario the gate can express and the kernel has decided\<close>
  "compare_one i s g k c =
     (if gv_admitted g = kd_admitted k then c\<lparr>cp_agree := cp_agree c + 1\<rparr>
      else c\<lparr>cp_divergences := cp_divergences c @
        [\<lparr>dv_index = i, dv_kind = if gv_admitted g then FalseAdmit else FalseReject,
          dv_kernel = if kd_admitted k then ''admit'' else py_str (py_or (kd_failure k) (JStr ''reject'')),
          dv_gate = if gv_admitted g then ''admit'' else or_else (gv_reason g) ''reject'', dv_scenario = s\<rparr>]\<rparr>)"

fun compare ::
  "(scenario \<Rightarrow> gate_verdict) \<Rightarrow> (nat \<Rightarrow> jobj \<Rightarrow> proc \<Rightarrow> kernel_decision \<times> proc) \<Rightarrow> nat \<Rightarrow> scenario list \<Rightarrow> proc \<Rightarrow>
   comparison \<Rightarrow> (nat \<times> json) + comparison" where
  \<comment> \<open>the loop of \<open>verify\<close>; without a referee (a kernel error) there is no report\<close>
  "compare gate ask i [] pr c = Inr c"
| "compare gate ask i (s # ss) pr c =
     (let g = gate s in
      if \<not> gv_supported g
      then compare gate ask (Suc i) ss pr
             (c\<lparr>cp_unsupported := count_one (or_else (gv_reason g) ''unspecified'') (cp_unsupported c)\<rparr>)
      else (case ask i (scenario_obj s) pr of
              (k, pr') \<Rightarrow>
                if truthy (kd_error k) then Inl (i, kd_error k)
                else compare gate ask (Suc i) ss pr' (compare_one i s g k c)))"

definition verify_gate ::
  "(scenario \<Rightarrow> gate_verdict) \<Rightarrow> string \<Rightarrow> (nat \<Rightarrow> string) \<Rightarrow> (string \<Rightarrow> kernel_io) \<Rightarrow> nat \<Rightarrow> rng \<Rightarrow>
   (nat \<times> json) + comparison" where
  \<comment> \<open>\<open>verify\<close> with the default generator\<close>
  "verify_gate gate path nonces io n f =
     compare gate (\<lambda>i. kernel_decide path (nonces i) io) 0 (scenarios n f f False) NoProc no_comparison"

definition verify_exit :: "bool \<Rightarrow> (nat \<times> json) + comparison \<Rightarrow> nat" where
  \<comment> \<open>the exit code of \<open>darm-verify\<close>, with or without \<open>--fail-on-false-admit\<close>\<close>
  "verify_exit strict r =
     (case r of
        Inl e \<Rightarrow> 2
      | Inr c \<Rightarrow> if strict \<and> list_ex (\<lambda>d. dv_kind d = FalseAdmit) (cp_divergences c) then 1 else 0)"

definition tally_of :: "(divergence \<Rightarrow> string) \<Rightarrow> divergence_kind \<Rightarrow> comparison \<Rightarrow> (string \<times> nat) list" where
  "tally_of f k c = foldl (\<lambda>d v. count_one (f v) d) [] (filter (\<lambda>d. dv_kind d = k) (cp_divergences c))"

definition pad12 :: "string \<Rightarrow> string" where
  "pad12 s = s @ replicate (12 - length s) (CHR '' '')"

definition by_name :: "(string \<times> nat) list \<Rightarrow> (string \<times> nat) list" where
  "by_name d = sort_key (\<lambda>(k, n). map (of_char :: char \<Rightarrow> nat) k) d"

definition summary :: "string \<Rightarrow> nat \<Rightarrow> string \<Rightarrow> comparison \<Rightarrow> string list" where
  \<comment> \<open>\<open>Report.summary\<close>, line by line; the seed is given as text\<close>
  "summary name n seed c =
     (let total = (\<lambda>d :: (string \<times> nat) list. show_nat (sum_list (map snd d)));
          fa = tally_of dv_kernel FalseAdmit c; fr = tally_of dv_gate FalseReject c in
      [''DARM Verify: '' @ name @ '' vs DARM kernel ('' @ show_nat n @ '' scenarios, seed '' @ seed @ '')'',
       ''  agree           '' @ show_nat (cp_agree c),
       ''  not expressible '' @ total (cp_unsupported c) @ ''   (excluded from comparison)''] @
      map (\<lambda>(k, v). ''      reason: '' @ k @ ''  '' @ show_nat v) (by_name (cp_unsupported c)) @
      [''  false admits    '' @ total fa @ ''   (gate admits, kernel rejects)''] @
      map (\<lambda>(k, v). ''      kernel: '' @ pad12 k @ '' '' @ show_nat v) (by_name fa) @
      [''  false rejects   '' @ total fr @ ''   (gate rejects, kernel admits)''] @
      map (\<lambda>(k, v). ''      gate:   '' @ pad12 k @ '' '' @ show_nat v) (by_name fr))"

definition report_json :: "string \<Rightarrow> nat \<Rightarrow> int \<Rightarrow> comparison \<Rightarrow> json" where
  \<comment> \<open>\<open>Report.to_json\<close>, before \<open>json.dumps\<close>\<close>
  "report_json name n seed c =
     JObj [(''adapter'', JStr name), (''n'', JNum (int n)), (''seed'', JNum seed), (''agree'', JNum (int (cp_agree c))),
       (''not_expressible'', JObj (map (\<lambda>(k, v). (k, JNum (int v))) (cp_unsupported c))),
       (''divergences'', JList (map (\<lambda>d. JObj
          [(''index'', JNum (int (dv_index d))),
           (''kind'', JStr (case dv_kind d of FalseAdmit \<Rightarrow> ''false_admit'' | FalseReject \<Rightarrow> ''false_reject'')),
           (''kernel'', JStr (dv_kernel d)), (''gate'', JStr (dv_gate d)), (''request'', JObj (scenario_obj (dv_scenario d)))])
          (cp_divergences c)))]"

section \<open>The coverage map\<close>

definition base_case :: scenario where
  "base_case =
     \<lparr>sn_tools = [\<lparr>sc_tool = ''send'', sc_rules =
         [\<lparr>ru_key = ''to'', ru_values = [''alice''], ru_prefixes = [], ru_payload = False\<rparr>,
          \<lparr>ru_key = ''body'', ru_values = [], ru_prefixes = [[]], ru_payload = True\<rparr>]\<rparr>],
      sn_credential = [''send''], sn_expired = False, sn_tool = ''send'',
      sn_args = [\<lparr>ga_key = ''to'', ga_value = ''alice'', ga_prov = ''authoritative''\<rparr>,
                 \<lparr>ga_key = ''body'', ga_value = ''hi'', ga_prov = ''authoritative''\<rparr>]\<rparr>"

definition edit_arg :: "string \<Rightarrow> (scenario_arg \<Rightarrow> scenario_arg) \<Rightarrow> scenario \<Rightarrow> scenario" where
  \<comment> \<open>the first argument with the key\<close>
  "edit_arg k f s =
     s\<lparr>sn_args := takeWhile (\<lambda>a. ga_key a \<noteq> k) (sn_args s) @
        (case dropWhile (\<lambda>a. ga_key a \<noteq> k) (sn_args s) of [] \<Rightarrow> [] | a # as \<Rightarrow> f a # as)\<rparr>"

definition unknown_tool :: "scenario \<Rightarrow> scenario" where
  "unknown_tool s = s\<lparr>sn_tool := ''exfiltrate'', sn_credential := sn_credential s @ [''exfiltrate'']\<rparr>"

definition coverage_cases :: "(string \<times> scenario \<times> string) list" where
  \<comment> \<open>\<open>cases\<close>: name, request, expected kernel outcome\<close>
  "coverage_cases =
     [(''control (every check passes)'', base_case, ''admit''),
      (''authority'', base_case\<lparr>sn_credential := []\<rparr>, ''authority''),
      (''temporal'', base_case\<lparr>sn_expired := True\<rparr>, ''temporal''),
      (''observation'', unknown_tool base_case, ''observation''),
      (''semantic: unruled argument'', base_case\<lparr>sn_args := sn_args base_case @
         [\<lparr>ga_key = ''cc'', ga_value = ''alice'', ga_prov = ''authoritative''\<rparr>]\<rparr>, ''semantic''),
      (''semantic: value outside its rule'', edit_arg ''to'' (\<lambda>a. a\<lparr>ga_value := ''mallory''\<rparr>) base_case, ''semantic''),
      (''provenance'', edit_arg ''to'' (\<lambda>a. a\<lparr>ga_prov := ''untrusted''\<rparr>) base_case, ''provenance''),
      (''payload role (untrusted payload)'', edit_arg ''body'' (\<lambda>a. a\<lparr>ga_prov := ''untrusted''\<rparr>) base_case, ''admit'')]"

record coverage_row =
  cv_case :: string
  cv_expected :: string
  cv_kernel :: string
  cv_gate :: string

definition self_check :: "string \<Rightarrow> kernel_decision \<Rightarrow> bool" where
  "self_check expected k =
     (if expected = ''admit'' then kd_admitted k else \<not> kd_admitted k \<and> kd_failure k = JStr expected)"

definition gate_word :: "string \<Rightarrow> gate_verdict \<Rightarrow> string" where
  "gate_word name g =
     (if \<not> gv_supported g then ''not expressible''
      else if startswith name ''control'' then (if gv_admitted g then ''admits'' else ''REFUSES (coverage inconclusive)'')
      else if startswith name ''payload''
      then (if gv_admitted g then ''argument-aware (admits)'' else ''per-call (refuses)'')
      else (if gv_admitted g then ''MISSES'' else ''covers''))"

definition coverage_row_of :: "string \<Rightarrow> string \<Rightarrow> kernel_decision \<Rightarrow> gate_verdict \<Rightarrow> coverage_row" where
  "coverage_row_of name expected k g =
     \<lparr>cv_case = name, cv_expected = expected,
      cv_kernel = (if self_check expected k then ''ok''
        else ''SELF-CHECK FAILED ('' @ py_repr (JBool (kd_admitted k)) @ '', '' @ py_str (kd_failure k) @ '')''),
      cv_gate = gate_word name g\<rparr>"

fun coverage_rows ::
  "(scenario \<Rightarrow> gate_verdict) \<Rightarrow> (nat \<Rightarrow> jobj \<Rightarrow> proc \<Rightarrow> kernel_decision \<times> proc) \<Rightarrow> nat \<Rightarrow>
   (string \<times> scenario \<times> string) list \<Rightarrow> proc \<Rightarrow> coverage_row list" where
  "coverage_rows gate ask i [] pr = []"
| "coverage_rows gate ask i ((name, s, expected) # cs) pr =
     (case ask i (scenario_obj s) pr of
        (k, pr') \<Rightarrow> coverage_row_of name expected k (gate s) # coverage_rows gate ask (Suc i) cs pr')"

definition coverage ::
  "(scenario \<Rightarrow> gate_verdict) \<Rightarrow> (nat \<Rightarrow> jobj \<Rightarrow> proc \<Rightarrow> kernel_decision \<times> proc) \<Rightarrow> coverage_row list" where
  "coverage gate ask = coverage_rows gate ask 0 coverage_cases NoProc"

definition coverage_exit :: "coverage_row list \<Rightarrow> nat" where
  "coverage_exit rows = (if list_ex (\<lambda>r. cv_kernel r \<noteq> ''ok'') rows then 1 else 0)"

definition pad_to :: "nat \<Rightarrow> string \<Rightarrow> string" where
  "pad_to n s = s @ replicate (n - length s) (CHR '' '')"

definition coverage_lines :: "coverage_row list \<Rightarrow> string list" where
  \<comment> \<open>what \<open>main\<close> prints\<close>
  "coverage_lines rows =
     (let cases = \<lambda>w. map cv_case (filter (\<lambda>r. cv_gate r = w) rows) in
      [pad_to 36 ''case'' @ '' '' @ pad_to 8 ''kernel'' @ '' gate''] @
      map (\<lambda>r. pad_to 36 (cv_case r) @ '' '' @ pad_to 8 (take 8 (cv_kernel r)) @ '' '' @ cv_gate r) rows @
      [CHR 0x0A # ''covers: '' @ or_else (join_with '', '' (cases ''covers'')) ''nothing'',
       ''misses: '' @ or_else (join_with '', '' (cases ''MISSES'')) ''nothing'' @ ''  (these rest on DARM alone)''])"

definition kernel_gate :: "kernel_decision \<Rightarrow> gate_verdict" where
  \<comment> \<open>\<open>kernel_adapter\<close>, given what a kernel of its own decided\<close>
  "kernel_gate k = \<lparr>gv_admitted = kd_admitted k,
     gv_reason = (if kd_admitted k then [] else ''kernel: '' @ py_str (kd_failure k)), gv_supported = True\<rparr>"

end
