(* ===== verification/Compared.thy ===== *)
theory Compared
  imports Gates
begin

text \<open>
  What the comparison of a gate with the kernel reports, and what the random scenarios look like.
\<close>

section \<open>Random computations\<close>

definition gives :: "('a \<Rightarrow> bool) \<Rightarrow> (rng, 'a) state \<Rightarrow> bool" where
  \<comment> \<open>every stream of draws gives a result with the property\<close>
  "gives P m \<longleftrightarrow> (\<forall>f. P (fst (run_state m f)))"

named_theorems gives_rules "what random computations give"

lemma run_bind_rng: "run_state (State_Monad.bind m k) f = (case run_state m f of (x, g) \<Rightarrow> run_state (k x) g)"
  by (simp add: State_Monad.bind_def)

lemma gives_return [gives_rules]: "P x \<Longrightarrow> gives P (State_Monad.return x)"
  by (simp add: gives_def State_Monad.return_def)

lemma gives_bind:
  assumes "gives Q m" and "\<And>x. Q x \<Longrightarrow> gives P (k x)"
  shows "gives P (State_Monad.bind m k)"
  using assms by (auto simp: gives_def run_bind_rng split: prod.split) (metis fst_conv)

lemma gives_any [gives_rules]: "gives (\<lambda>x. True) m"
  by (simp add: gives_def)

lemma gives_below: "0 < n \<Longrightarrow> gives (\<lambda>i. i < n) (below n)"
  by (simp add: gives_def below_def run_bind_rng State_Monad.get_def State_Monad.set_def State_Monad.return_def)

lemma gives_choice: "xs \<noteq> [] \<Longrightarrow> gives (\<lambda>x. x \<in> set xs) (choice xs)"
  unfolding choice_def by (rule gives_bind [OF gives_below]) (simp_all add: gives_return)

lemma gives_weaken: "gives P m \<Longrightarrow> (\<And>x. P x \<Longrightarrow> Q x) \<Longrightarrow> gives Q m"
  by (simp add: gives_def)

lemma gives_if: "(c \<Longrightarrow> gives P a) \<Longrightarrow> (\<not> c \<Longrightarrow> gives P b) \<Longrightarrow> gives P (if c then a else b)"
  by simp

lemma gives_draw:
  "k \<le> length xs \<Longrightarrow> distinct xs \<Longrightarrow> gives (\<lambda>ys. length ys = k \<and> distinct ys \<and> set ys \<subseteq> set xs) (draw_from k xs)"
proof (induction k arbitrary: xs)
  case (Suc k)
  then have ne: "xs \<noteq> []" by auto
  have rest: "gives (\<lambda>ys. length ys = k \<and> distinct ys \<and> set ys \<subseteq> set (take i xs @ drop (Suc i) xs))
      (draw_from k (take i xs @ drop (Suc i) xs))" if "i < length xs" for i
    using Suc that by (intro Suc.IH) (auto simp: distinct_append set_take_disj_set_drop_if_distinct)
  have del: "xs ! i \<notin> set (take i xs @ drop (Suc i) xs)" "set (take i xs @ drop (Suc i) xs) \<subseteq> set xs" if "i < length xs" for i
  proof -
    have "xs = take i xs @ xs ! i # drop (Suc i) xs" using that by (rule id_take_nth_drop)
    then have "distinct (take i xs @ xs ! i # drop (Suc i) xs)" using Suc.prems(2) by simp
    then show "xs ! i \<notin> set (take i xs @ drop (Suc i) xs)" by simp
    show "set (take i xs @ drop (Suc i) xs) \<subseteq> set xs" by (auto dest: in_set_takeD in_set_dropD)
  qed
  let ?P = "\<lambda>ys. length ys = Suc k \<and> distinct ys \<and> set ys \<subseteq> set xs"
  have "gives ?P (State_Monad.bind (below (length xs)) (\<lambda>i. State_Monad.bind (draw_from k (take i xs @ drop (Suc i) xs))
      (\<lambda>ys. State_Monad.return (xs ! i # ys))))"
  proof (rule gives_bind [OF gives_below])
    fix i
    assume i: "i < length xs"
    show "gives ?P (State_Monad.bind (draw_from k (take i xs @ drop (Suc i) xs)) (\<lambda>ys. State_Monad.return (xs ! i # ys)))"
    proof (rule gives_bind [OF rest [OF i]])
      fix ys
      assume "length ys = k \<and> distinct ys \<and> set ys \<subseteq> set (take i xs @ drop (Suc i) xs)"
      then have "?P (xs ! i # ys)" using del [OF i] i by auto
      then show "gives ?P (State_Monad.return (xs ! i # ys))" by (rule gives_return)
    qed
  qed (use ne in simp)
  then show ?case using ne by simp
qed (simp add: gives_return)

lemma gives_sample:
  assumes "lo \<le> length xs" and "distinct xs" and "lo \<le> hi"
  shows "gives (\<lambda>ys. lo \<le> length ys \<and> distinct ys \<and> set ys \<subseteq> set xs) (sample xs lo hi)"
  unfolding sample_def
proof (rule gives_bind [OF gives_below])
  fix k
  assume "k < min hi (length xs) - lo + 1"
  then have "lo + k \<le> length xs" using assms(1) by auto
  from gives_draw [OF this assms(2)] show "gives (\<lambda>ys. lo \<le> length ys \<and> distinct ys \<and> set ys \<subseteq> set xs) (draw_from (lo + k) xs)"
    by (rule gives_weaken) auto
qed simp

lemma gives_each:
  assumes "\<And>x. x \<in> set xs \<Longrightarrow> gives (P x) (f x)"
  shows "gives (\<lambda>ys. list_all2 P xs ys) (each f xs)"
  using assms
proof (induction xs)
  case (Cons x xs)
  have h: "gives (P x) (f x)" "gives (\<lambda>ys. list_all2 P xs ys) (each f xs)" using Cons by simp_all
  show ?case
    unfolding each.simps
  proof (rule gives_bind [OF h(1)])
    fix y
    assume y: "P x y"
    show "gives (\<lambda>ys. list_all2 P (x # xs) ys) (State_Monad.bind (each f xs) (\<lambda>ys. State_Monad.return (y # ys)))"
      by (rule gives_bind [OF h(2)]) (simp add: gives_return y)
  qed
qed (simp add: gives_return)

lemma gives_repeated: "gives P m \<Longrightarrow> gives (\<lambda>xs. length xs = n \<and> list_all P xs) (repeated n m)"
proof (induction n)
  case (Suc n)
  have rest: "gives (\<lambda>ys. length ys = Suc n \<and> list_all P ys)
      (State_Monad.bind (repeated n m) (\<lambda>xs. State_Monad.return (x # xs)))" if "P x" for x
    by (rule gives_bind [OF Suc.IH [OF Suc.prems]]) (simp add: gives_return that)
  show ?case unfolding repeated.simps by (rule gives_bind [OF Suc.prems]) (rule rest)
qed (simp add: gives_return)

section \<open>Well-formed scenarios\<close>

definition wf_rule :: "scenario_rule \<Rightarrow> bool" where
  "wf_rule r \<longleftrightarrow> ru_key r \<in> set KEYS \<and> set (ru_values r) \<subseteq> set EXACT \<and> distinct (ru_values r) \<and>
     set (ru_prefixes r) \<subseteq> set PREFIXES \<and> distinct (ru_prefixes r)"

definition wf_tool :: "scenario_tool \<Rightarrow> bool" where
  "wf_tool t \<longleftrightarrow> sc_tool t \<in> set TOOLS \<and> distinct (map ru_key (sc_rules t)) \<and> list_all wf_rule (sc_rules t)"

definition wf_arg :: "scenario_arg \<Rightarrow> bool" where
  "wf_arg a \<longleftrightarrow> ga_key a \<in> set KEYS \<and> ga_prov a \<in> set PROVS"

definition wf_scenario :: "scenario \<Rightarrow> bool" where
  "wf_scenario s \<longleftrightarrow>
     distinct (map sc_tool (sn_tools s)) \<and> list_all wf_tool (sn_tools s) \<and>
     sn_credential s \<noteq> [] \<and> distinct (sn_credential s) \<and> set (sn_credential s) \<subseteq> set TOOLS \<and>
     sn_tool s \<in> set TOOLS \<union> {''unknown''} \<and>
     distinct (map ga_key (sn_args s)) \<and> list_all wf_arg (sn_args s)"

lemma lists_distinct [simp]: "distinct TOOLS" "distinct KEYS" "distinct PREFIXES" "distinct EXACT"
  "TOOLS \<noteq> []" "VALUES \<noteq> []" "PROVS \<noteq> []"
  by code_simp+

lemma gives_gen_rule: "k \<in> set KEYS \<Longrightarrow> gives (\<lambda>r. wf_rule r \<and> ru_key r = k) (gen_rule k)"
  unfolding gen_rule_def
proof (rule gives_bind [OF gives_sample])
  fix vs
  assume k: "k \<in> set KEYS" and vs: "0 \<le> length vs \<and> distinct vs \<and> set vs \<subseteq> set EXACT"
  show "gives (\<lambda>r. wf_rule r \<and> ru_key r = k) (State_Monad.bind (sample PREFIXES 0 2)
      (\<lambda>ps. State_Monad.return \<lparr>ru_key = k, ru_values = vs, ru_prefixes = ps, ru_payload = False\<rparr>))"
    by (rule gives_bind [OF gives_sample]) (use k vs in \<open>simp_all add: gives_return wf_rule_def\<close>)
qed simp_all

lemma gives_gen_tool:
  assumes "t \<in> set TOOLS"
  shows "gives (\<lambda>tps. list_all wf_tool tps \<and> (map sc_tool tps = [] \<or> map sc_tool tps = [t])) (gen_tool t)"
  (is "gives ?P _")
proof -
  have rules: "gives ?P (State_Monad.bind (each gen_rule ks) (\<lambda>rs. State_Monad.return [\<lparr>sc_tool = t, sc_rules = rs\<rparr>]))"
    if ks: "distinct ks" "set ks \<subseteq> set KEYS" for ks
  proof (rule gives_bind [OF gives_each])
    fix rs
    assume "list_all2 (\<lambda>k r. wf_rule r \<and> ru_key r = k) ks rs"
    then have "map ru_key rs = ks" "list_all wf_rule rs"
      by (auto simp: list_all2_conv_all_nth list_all_length intro: nth_equalityI)
    then show "gives ?P (State_Monad.return [\<lparr>sc_tool = t, sc_rules = rs\<rparr>])"
      using assms ks by (intro gives_return) (simp add: wf_tool_def)
  qed (use ks gives_gen_rule in blast)
  show ?thesis
    unfolding gen_tool_def
  proof (rule gives_bind [OF gives_any], rule gives_if)
    show "gives ?P (State_Monad.bind (sample KEYS 0 2) (\<lambda>ks. State_Monad.bind (each gen_rule ks)
        (\<lambda>rs. State_Monad.return [\<lparr>sc_tool = t, sc_rules = rs\<rparr>])))"
      by (rule gives_bind [OF gives_sample]) (use rules in simp_all)
  qed (simp add: gives_return)
qed

lemma gives_gen_arg: "k \<in> set KEYS \<Longrightarrow> gives (\<lambda>a. wf_arg a \<and> ga_key a = k) (gen_arg tps t k)"
  unfolding gen_arg_def Let_def
  by (intro gives_bind [OF gives_any] gives_bind [OF gives_choice [of PROVS]] gives_return) (simp_all add: wf_arg_def)

lemma concat_tools:
  "list_all2 (\<lambda>t tps. list_all wf_tool tps \<and> (map sc_tool tps = [] \<or> map sc_tool tps = [t])) ts tpss \<Longrightarrow> distinct ts \<Longrightarrow>
   list_all wf_tool (concat tpss) \<and> distinct (map sc_tool (concat tpss)) \<and> set (map sc_tool (concat tpss)) \<subseteq> set ts"
proof (induction rule: list_all2_induct)
  case (Cons t ts tps tpss)
  then have rest: "set (map sc_tool (concat tpss)) \<subseteq> set ts" "distinct (map sc_tool (concat tpss))" "list_all wf_tool (concat tpss)"
    and new: "t \<notin> set ts" "list_all wf_tool tps" "map sc_tool tps = [] \<or> map sc_tool tps = [t]"
    by simp_all
  have split: "map sc_tool (concat (tps # tpss)) = map sc_tool tps @ map sc_tool (concat tpss)" by simp
  have "distinct (map sc_tool tps @ map sc_tool (concat tpss)) \<and> set (map sc_tool tps @ map sc_tool (concat tpss)) \<subseteq> set (t # ts)"
    using new(3) rest(1,2) new(1) by (elim disjE) (simp_all only: append.simps distinct.simps list.set, blast+)
  then show ?case using rest(3) new(2) by (simp only: split) (auto simp: list_all_iff)
qed simp

lemma gives_gen: "gives wf_scenario gen"
  unfolding gen_def
proof (rule gives_bind [OF gives_each [OF gives_gen_tool]])
  fix tpss
  assume "list_all2 (\<lambda>t tps. list_all wf_tool tps \<and> (map sc_tool tps = [] \<or> map sc_tool tps = [t])) TOOLS tpss"
  then have tps: "list_all wf_tool (concat tpss)" "distinct (map sc_tool (concat tpss))"
    using concat_tools by auto
  have args: "gives wf_scenario (State_Monad.bind (each (gen_arg (concat tpss) t) ks) (\<lambda>args. State_Monad.return
      \<lparr>sn_tools = concat tpss, sn_credential = cred, sn_expired = expired, sn_tool = t, sn_args = args\<rparr>))"
    if "distinct cred" "set cred \<subseteq> set TOOLS" "cred \<noteq> []" "t \<in> set TOOLS \<union> {''unknown''}" "distinct ks" "set ks \<subseteq> set KEYS"
    for cred expired t ks
  proof (rule gives_bind [OF gives_each])
    fix as
    assume "list_all2 (\<lambda>k a. wf_arg a \<and> ga_key a = k) ks as"
    then have "map ga_key as = ks" "list_all wf_arg as"
      by (auto simp: list_all2_conv_all_nth list_all_length intro: nth_equalityI)
    then show "gives wf_scenario (State_Monad.return
        \<lparr>sn_tools = concat tpss, sn_credential = cred, sn_expired = expired, sn_tool = t, sn_args = as\<rparr>)"
      using that tps by (intro gives_return) (simp add: wf_scenario_def)
  qed (use that gives_gen_arg in blast)
  have tool: "gives (\<lambda>t. t \<in> set TOOLS \<union> {''unknown''}) (if known then choice TOOLS else State_Monad.return ''unknown'')" for known
    by (rule gives_if) (auto intro: gives_weaken [OF gives_choice] gives_return)
  have one: "1 \<le> length TOOLS" by code_simp
  show "gives wf_scenario (State_Monad.bind (sample TOOLS 1 3) (\<lambda>cred. State_Monad.bind (chance 15) (\<lambda>expired.
      State_Monad.bind (chance 85) (\<lambda>known. State_Monad.bind (if known then choice TOOLS else State_Monad.return ''unknown'') (\<lambda>t.
      State_Monad.bind (sample KEYS 0 2) (\<lambda>ks. State_Monad.bind (each (gen_arg (concat tpss) t) ks) (\<lambda>args. State_Monad.return
      \<lparr>sn_tools = concat tpss, sn_credential = cred, sn_expired = expired, sn_tool = t, sn_args = args\<rparr>)))))))"
    apply (rule gives_bind [OF gives_sample [OF one]], simp, simp)
    apply (rule gives_bind [OF gives_any], rule gives_bind [OF gives_any])
    apply (rule gives_bind [OF tool])
    apply (rule gives_bind [OF gives_sample], simp, simp, simp)
    apply (rule args; auto)
    done
qed simp


lemma set_payload_tools [simp]: "map sc_tool (set_payload t i tps) = map sc_tool tps"
  by (induction t i tps rule: set_payload.induct) auto

lemma set_payload_others: "filter (\<lambda>tp. sc_tool tp \<noteq> t) (set_payload t i tps) = filter (\<lambda>tp. sc_tool tp \<noteq> t) tps"
  by (induction t i tps rule: set_payload.induct) auto

lemma marked_keys: "map ru_key (rs[i := (rs ! i)\<lparr>ru_payload := True\<rparr>]) = map ru_key rs"
proof (cases "i < length rs")
  case True
  show ?thesis by (rule nth_equalityI) (use True in \<open>simp_all add: nth_list_update\<close>)
qed (simp add: list_update_beyond)

lemma wf_marked_rule [simp]: "wf_rule (r\<lparr>ru_payload := b\<rparr>) = wf_rule r"
  by (simp add: wf_rule_def)

lemma wf_marked_rules: "list_all wf_rule rs \<Longrightarrow> list_all wf_rule (rs[i := (rs ! i)\<lparr>ru_payload := True\<rparr>])"
  by (cases "i < length rs") (auto simp: list_all_length nth_list_update)

lemma set_payload_wf: "list_all wf_tool tps \<Longrightarrow> list_all wf_tool (set_payload t i tps)"
proof (induction t i tps rule: set_payload.induct)
  case (2 t i tp tps)
  then have "wf_tool (tp\<lparr>sc_rules := (sc_rules tp)[i := (sc_rules tp ! i)\<lparr>ru_payload := True\<rparr>]\<rparr>)"
    by (simp add: wf_tool_def wf_marked_rules marked_keys)
  with 2 show ?case by simp
qed simp

lemma set_payload_marks:
  "filter (\<lambda>tp. sc_tool tp = t \<and> sc_rules tp \<noteq> []) tps = tp # rest \<Longrightarrow> i < length (sc_rules tp) \<Longrightarrow>
   \<exists>tp' \<in> set (set_payload t i tps). sc_tool tp' = t \<and> (sc_rules tp ! i)\<lparr>ru_payload := True\<rparr> \<in> set (sc_rules tp')"
proof (induction t i tps rule: set_payload.induct)
  case (2 t i tp' tps)
  show ?case
  proof (cases "sc_tool tp' = t \<and> sc_rules tp' \<noteq> []")
    case True
    with 2 show ?thesis by (auto intro!: bexI [of _ "tp'\<lparr>sc_rules := (sc_rules tp')[i := (sc_rules tp' ! i)\<lparr>ru_payload := True\<rparr>]\<rparr>"]
        simp: set_update_memI)
  next
    case False
    with 2 show ?thesis by auto
  qed
qed simp

definition within_rule :: "scenario_rule \<Rightarrow> string \<Rightarrow> bool" where
  "within_rule r v \<longleftrightarrow> v \<in> set (ru_values r) \<or> (\<exists>p \<in> set (ru_prefixes r). prefix p v)"

lemma choice_within: "v \<in> set (rule_choices r) \<Longrightarrow> within_rule r v"
  by (auto simp: rule_choices_def within_rule_def)

definition payload_of :: "scenario \<Rightarrow> scenario \<Rightarrow> bool" where
  \<comment> \<open>the second is the first, or its paired payload variant\<close>
  "payload_of s s' \<longleftrightarrow> s' = s \<or>
     (\<exists>r v. (\<exists>tp \<in> set (sn_tools s). sc_tool tp = sn_tool s \<and> r \<in> set (sc_rules tp)) \<and>
        (\<exists>tp \<in> set (sn_tools s'). sc_tool tp = sn_tool s \<and> r\<lparr>ru_payload := True\<rparr> \<in> set (sc_rules tp)) \<and>
        filter (\<lambda>tp. sc_tool tp \<noteq> sn_tool s) (sn_tools s') = filter (\<lambda>tp. sc_tool tp \<noteq> sn_tool s) (sn_tools s) \<and>
        within_rule r v \<and>
        filter (\<lambda>a. ga_key a = ru_key r) (sn_args s') = [\<lparr>ga_key = ru_key r, ga_value = v, ga_prov = ''untrusted''\<rparr>] \<and>
        filter (\<lambda>a. ga_key a \<noteq> ru_key r) (sn_args s') = filter (\<lambda>a. ga_key a \<noteq> ru_key r) (sn_args s) \<and>
        sn_tool s' = sn_tool s \<and> sn_credential s' = sn_credential s \<and> sn_expired s' = sn_expired s)"

lemma wf_args_replaced:
  assumes "distinct (map ga_key as)" and "list_all wf_arg as" and "k \<in> set KEYS"
  shows "distinct (map ga_key (filter (\<lambda>a. ga_key a \<noteq> k) as @ [\<lparr>ga_key = k, ga_value = v, ga_prov = ''untrusted''\<rparr>])) \<and>
    list_all wf_arg (filter (\<lambda>a. ga_key a \<noteq> k) as @ [\<lparr>ga_key = k, ga_value = v, ga_prov = ''untrusted''\<rparr>])"
proof -
  have "distinct (map ga_key (filter (\<lambda>a. ga_key a \<noteq> k) as))" using assms(1) by (simp add: distinct_map inj_on_def)
  moreover have "''untrusted'' \<in> set PROVS" by (simp add: PROVS_def)
  ultimately show ?thesis using assms(2,3) by (auto simp: list_all_iff wf_arg_def)
qed

lemma gives_with_payload: "gives (\<lambda>s'. payload_of s s' \<and> (wf_scenario s \<longrightarrow> wf_scenario s')) (with_payload s)"
  (is "gives ?P _")
proof (cases "filter (\<lambda>tp. sc_tool tp = sn_tool s \<and> sc_rules tp \<noteq> []) (sn_tools s)")
  case Nil
  then show ?thesis by (simp add: with_payload_def gives_return payload_of_def)
next
  case (Cons tp rest)
  then have "tp \<in> set (filter (\<lambda>tp. sc_tool tp = sn_tool s \<and> sc_rules tp \<noteq> []) (sn_tools s))" by simp
  then have tp: "tp \<in> set (sn_tools s)" "sc_tool tp = sn_tool s" "sc_rules tp \<noteq> []" by auto
  have same: "?P s" by (simp add: payload_of_def)
  let ?s = "\<lambda>i v. s\<lparr>sn_tools := set_payload (sn_tool s) i (sn_tools s),
      sn_args := filter (\<lambda>a. ga_key a \<noteq> ru_key (sc_rules tp ! i)) (sn_args s) @
        [\<lparr>ga_key = ru_key (sc_rules tp ! i), ga_value = v, ga_prov = ''untrusted''\<rparr>]\<rparr>"
  have variant: "?P (?s i v)" if i: "i < length (sc_rules tp)" and v: "v \<in> set (rule_choices (sc_rules tp ! i))" for i v
  proof
    let ?r = "sc_rules tp ! i"
    have "\<exists>tp \<in> set (sn_tools s). sc_tool tp = sn_tool s \<and> ?r \<in> set (sc_rules tp)" using tp i by auto
    then show "payload_of s (?s i v)"
      unfolding payload_of_def using set_payload_marks [OF Cons i] choice_within [OF v]
      by (intro disjI2 exI [of _ ?r] exI [of _ v]) (simp add: set_payload_others filter_empty_conv)
    show "wf_scenario s \<longrightarrow> wf_scenario (?s i v)"
    proof
      assume s: "wf_scenario s"
      then have "wf_tool tp" using tp by (simp add: wf_scenario_def list_all_iff)
      then have "ru_key ?r \<in> set KEYS" using i by (simp add: wf_tool_def wf_rule_def list_all_length)
      then have "distinct (map ga_key (sn_args (?s i v))) \<and> list_all wf_arg (sn_args (?s i v))"
        using s wf_args_replaced [of "sn_args s" "ru_key ?r" v] unfolding wf_scenario_def
        by simp
      then show "wf_scenario (?s i v)" using s set_payload_wf unfolding wf_scenario_def by simp
    qed
  qed
  have chosen: "gives ?P (if rule_choices (sc_rules tp ! i) = [] then State_Monad.return s
      else State_Monad.bind (choice (rule_choices (sc_rules tp ! i))) (\<lambda>v. State_Monad.return (?s i v)))"
    if "i < length (sc_rules tp)" for i
    by (rule gives_if) (auto intro!: gives_return same variant [OF that] gives_bind [OF gives_choice])
  have "gives ?P (State_Monad.bind (chance 50) (\<lambda>skip. if skip then State_Monad.return s
      else State_Monad.bind (below (length (sc_rules tp))) (\<lambda>i. if rule_choices (sc_rules tp ! i) = [] then State_Monad.return s
      else State_Monad.bind (choice (rule_choices (sc_rules tp ! i))) (\<lambda>v. State_Monad.return (?s i v)))))"
    by (rule gives_bind [OF gives_any], rule gives_if, rule gives_return [of ?P, OF same], rule gives_bind [OF gives_below])
      (use tp chosen in auto)
  then show ?thesis by (simp only: with_payload_def Cons list.case Let_def)
qed

text \<open>C34: the scenario generator is well-typed. Whatever the random draws, \<open>scenarios\<close> yields as many
  scenarios as were asked for, with or without payload variants, and each is well formed: one entry
  per tool, one rule per key, every key, value, prefix and provenance from the declared lists, a
  non-empty credential over the declared tools, and at most one argument per key.\<close>

theorem scenarios_well_formed:
  "length (scenarios n f g payload) = n \<and> list_all wf_scenario (scenarios n f g payload)"
proof -
  let ?base = "fst (run_state (repeated n gen) f)"
  have base: "length ?base = n" "list_all wf_scenario ?base"
    using gives_repeated [OF gives_gen, of n] by (simp_all add: gives_def)
  have "gives (\<lambda>ys. list_all2 (\<lambda>s s'. payload_of s s' \<and> (wf_scenario s \<longrightarrow> wf_scenario s')) ?base ys) (each with_payload ?base)"
    by (rule gives_each) (rule gives_with_payload)
  then have "list_all2 (\<lambda>s s'. payload_of s s' \<and> (wf_scenario s \<longrightarrow> wf_scenario s')) ?base
      (fst (run_state (each with_payload ?base) g))"
    by (simp add: gives_def)
  then show ?thesis using base
    by (auto simp: scenarios_def Let_def list_all2_conv_all_nth list_all_length)
qed

text \<open>payload variants are paired. Asked for variants, \<open>scenarios\<close> yields for every default scenario
  either that scenario or one that differs in a single rule of the invoked tool: the rule is marked
  as a payload rule, its argument is replaced by an untrusted one whose value is within the rule,
  and every other tool, argument, the credential and its expiry are the same.\<close>

theorem payload_variants_are_paired:
  "list_all2 payload_of (scenarios n f g False) (scenarios n f g True)"
proof -
  let ?base = "fst (run_state (repeated n gen) f)"
  have "gives (\<lambda>ys. list_all2 payload_of ?base ys) (each with_payload ?base)"
    by (rule gives_each, rule gives_weaken [OF gives_with_payload]) simp
  then show ?thesis by (simp add: scenarios_def gives_def)
qed

section \<open>The comparison\<close>

type_synonym ask = "nat \<Rightarrow> jobj \<Rightarrow> proc \<Rightarrow> kernel_decision \<times> proc"

fun judged :: "(scenario \<Rightarrow> gate_verdict) \<Rightarrow> ask \<Rightarrow> nat \<Rightarrow> scenario list \<Rightarrow> proc \<Rightarrow> (scenario \<times> kernel_decision) list" where
  \<comment> \<open>what the kernel decides on each scenario the gate can express\<close>
  "judged gate ask i [] pr = []"
| "judged gate ask i (s # ss) pr =
     (if gv_supported (gate s)
      then (s, fst (ask i (scenario_obj s) pr)) # judged gate ask (Suc i) ss (snd (ask i (scenario_obj s) pr))
      else judged gate ask (Suc i) ss pr)"

definition unsupported_count :: "comparison \<Rightarrow> nat" where
  "unsupported_count c = sum_list (map snd (cp_unsupported c))"

lemma count_one_sum: "sum_list (map snd (count_one k d)) = Suc (sum_list (map snd d))"
  unfolding count_one_def by (induction d) (auto split: option.splits)

lemma compare_one_fields:
  "cp_unsupported (compare_one i s g k c) = cp_unsupported c"
  "cp_agree (compare_one i s g k c) = cp_agree c + (if gv_admitted g = kd_admitted k then 1 else 0)"
  "length (cp_divergences (compare_one i s g k c)) = length (cp_divergences c) + (if gv_admitted g = kd_admitted k then 0 else 1)"
  "(\<exists>d \<in> set (cp_divergences (compare_one i s g k c)). dv_kind d = FalseAdmit) \<longleftrightarrow>
     (\<exists>d \<in> set (cp_divergences c). dv_kind d = FalseAdmit) \<or> gv_admitted g \<and> \<not> kd_admitted k"
  by (auto simp: compare_one_def)

lemma compare_counts:
  "compare gate ask i ss pr c = Inr c' \<Longrightarrow>
   cp_agree c' + unsupported_count c' + length (cp_divergences c') =
   cp_agree c + unsupported_count c + length (cp_divergences c) + length ss"
proof (induction gate ask i ss pr c rule: compare.induct)
  case (2 gate ask i s ss pr c)
  then show ?case
    by (auto simp: Let_def unsupported_count_def count_one_sum compare_one_fields split: if_splits prod.splits)
qed simp

lemma compare_false_admits:
  "compare gate ask i ss pr c = Inr c' \<Longrightarrow>
   (\<exists>d \<in> set (cp_divergences c'). dv_kind d = FalseAdmit) \<longleftrightarrow>
   (\<exists>d \<in> set (cp_divergences c). dv_kind d = FalseAdmit) \<or>
   (\<exists>(s, k) \<in> set (judged gate ask i ss pr). gv_admitted (gate s) \<and> \<not> kd_admitted k)"
proof (induction gate ask i ss pr c rule: compare.induct)
  case (2 gate ask i s ss pr c)
  then show ?case
    by (auto simp: Let_def compare_one_fields split: if_splits prod.splits)
qed simp

lemma compare_errors:
  "\<exists>(s, k) \<in> set (judged gate ask i ss pr). truthy (kd_error k) \<Longrightarrow> \<exists>e. compare gate ask i ss pr c = Inl e"
proof (induction gate ask i ss pr c rule: compare.induct)
  case (2 gate ask i s ss pr c)
  show ?case
  proof (cases "gv_supported (gate s)")
    case True
    obtain k pr' where k: "ask i (scenario_obj s) pr = (k, pr')" by fastforce
    show ?thesis
    proof (cases "truthy (kd_error k)")
      case False
      with 2(3) True k have "\<exists>(s, k) \<in> set (judged gate ask (Suc i) ss pr'). truthy (kd_error k)" by auto
      with 2(2) True k False have "\<exists>e. compare gate ask (Suc i) ss pr' (compare_one i s (gate s) k c) = Inl e" by auto
      with True k False show ?thesis by (simp add: Let_def)
    qed (simp add: True k Let_def)
  qed (use 2 in \<open>simp add: Let_def\<close>)
qed simp

text \<open>C33: the report accounts for every scenario. When the comparison ends in a report, each of its
  scenarios is counted exactly once: as an agreement, as not expressible, or as a divergence; no
  scenario the kernel failed on is among them. With \<open>--fail-on-false-admit\<close> the exit code is 0
  exactly when the gate admits no scenario that the kernel rejects.\<close>

theorem report_accounts_for_every_scenario:
  assumes "compare gate ask 0 ss pr no_comparison = Inr c"
  shows "cp_agree c + unsupported_count c + length (cp_divergences c) = length ss \<and>
    (\<forall>(s, k) \<in> set (judged gate ask 0 ss pr). \<not> truthy (kd_error k)) \<and>
    (verify_exit True (Inr c) = 0 \<longleftrightarrow>
       (\<forall>(s, k) \<in> set (judged gate ask 0 ss pr). gv_admitted (gate s) \<longrightarrow> kd_admitted k))"
proof -
  have "\<forall>(s, k) \<in> set (judged gate ask 0 ss pr). \<not> truthy (kd_error k)"
    using compare_errors [of gate ask 0 ss pr no_comparison] assms by fastforce
  then show ?thesis
    using compare_counts [OF assms] compare_false_admits [OF assms]
    by (auto simp: no_comparison_def unsupported_count_def verify_exit_def list_ex_iff)
qed

theorem report_accounts_for_every_scenario_witness:
  "\<exists>c. compare allow_all (\<lambda>i r pr. (rejection (JStr ''authority'') JNull [], pr)) 0 [base_case, base_case] NoProc no_comparison = Inr c \<and>
     cp_agree c + unsupported_count c + length (cp_divergences c) = 2 \<and> verify_exit True (Inr c) \<noteq> 0"
proof -
  let ?ask = "\<lambda>i r pr. (rejection (JStr ''authority'') JNull [], pr)"
  obtain c where c: "compare allow_all ?ask 0 [base_case, base_case] NoProc no_comparison = Inr c"
    by (simp add: Let_def allow_all_def rejection_def)
  show ?thesis
    using report_accounts_for_every_scenario [OF c] c by (auto simp: allow_all_def rejection_def)
qed

section \<open>The built-in gate of version 0.1\<close>

lemma v01_admits:
  "gv_admitted (darmguard_v01 now s) \<longleftrightarrow>
     \<not> (sn_expired s \<and> 946684801000000 < now) \<and>
     (sn_tool s \<in> sc_tool ` set (sn_tools s) \<or> sn_tool s \<in> set (sn_credential s))"
  by (auto simp: darmguard_v01_def Let_def v01_guard_def guard_check_fst new_guard_def new_session_def
      check_transfer_admitted is_expired_def fset_of_list.rep_eq fset_of_list_elem)

lemma coverage_gates:
  "map cv_gate (coverage_rows gate ask i cs pr) = map (\<lambda>(name, s, expected). gate_word name (gate s)) cs"
proof (induction cs arbitrary: i pr)
  case (Cons c cs)
  then show ?case by (cases c) (simp add: coverage_row_of_def split: prod.split)
qed simp

text \<open>what the coverage map says of the legacy guard. Run on the adapter of version 0.1, whatever the
  kernel answers, the map reports that expiry is the only dimension it covers; authority,
  observation, values and provenance are misses. The last case is labelled argument-aware although
  the guard's verdict never depends on the arguments: the label only says that the gate admitted.\<close>

theorem v01_covers_only_expiry:
  assumes "946684801000000 < now"
  shows "map cv_gate (coverage (darmguard_v01 now) ask) =
      [''admits'', ''MISSES'', ''covers'', ''MISSES'', ''MISSES'', ''MISSES'', ''MISSES'', ''argument-aware (admits)''] \<and>
    darmguard_v01 now (s\<lparr>sn_args := as\<rparr>) = darmguard_v01 now s"
proof
  have admits: "gv_admitted (darmguard_v01 now s) \<longleftrightarrow>
      \<not> sn_expired s \<and> (sn_tool s \<in> sc_tool ` set (sn_tools s) \<or> sn_tool s \<in> set (sn_credential s))" for s
    using assms by (simp add: v01_admits)
  have supported: "gv_supported (darmguard_v01 now s)" for s
    by (simp add: darmguard_v01_def Let_def)
  show "map cv_gate (coverage (darmguard_v01 now) ask) =
      [''admits'', ''MISSES'', ''covers'', ''MISSES'', ''MISSES'', ''MISSES'', ''MISSES'', ''argument-aware (admits)'']"
    unfolding coverage_def coverage_gates
    by (simp add: coverage_cases_def gate_word_def admits supported startswith_def
        base_case_def edit_arg_def unknown_tool_def)
  show "darmguard_v01 now (s\<lparr>sn_args := as\<rparr>) = darmguard_v01 now s"
    by (simp add: darmguard_v01_def v01_guard_def)
qed

theorem v01_covers_only_expiry_witness:
  "filter (\<lambda>g. g = ''covers'') (map cv_gate (coverage (darmguard_v01 946684801000001)
     (\<lambda>i r pr. (rejection (JStr ''authority'') JNull [], pr)))) = [''covers'']"
  using v01_covers_only_expiry [of 946684801000001 "\<lambda>i r pr. (rejection (JStr ''authority'') JNull [], pr)"] by simp

end
