(* ===== verification/Adapters.thy ===== *)
theory Adapters
  imports Compared
begin

text \<open>
  The adapters for two third-party gates (\<open>darm_guard/adapters/agentlock_adapter.py\<close> and
  \<open>darm_guard/adapters/airlock_adapter.py\<close>) and their scenario generators. An adapter either declines
  a scenario with a reason or translates it into calls of the gate; the calls are a record, and the
  gate itself, which is not part of the repository, is the function that answers it. \<open>None\<close> in place of
  a gate is a package that is not installed.
\<close>

definition decline :: "string \<Rightarrow> gate_verdict" where
  "decline reason = \<lparr>gv_admitted = False, gv_reason = reason, gv_supported = False\<rparr>"

definition first_some :: "('a \<Rightarrow> 'b option) \<Rightarrow> 'a list \<Rightarrow> 'b option" where
  "first_some f xs = (case filter (\<lambda>x. f x \<noteq> None) xs of [] \<Rightarrow> None | x # _ \<Rightarrow> f x)"

definition arg_params :: "scenario \<Rightarrow> (string \<times> string) list" where
  \<comment> \<open>\<open>{a["key"]: a["value"] for a in inv["args"]}\<close>\<close>
  "arg_params s = foldl (\<lambda>d a. dset d (ga_key a) (ga_value a)) [] (sn_args s)"

section \<open>AgentLock\<close>

definition al_TOOLS :: "string list" where "al_TOOLS = [''send_email'', ''share_doc'', ''post_msg'']"
definition al_VALUES :: "string list" where
  "al_VALUES = [''alice@corp.example'', ''bob@corp.example'', ''carol@corp.example'', ''mallory@evil.example'']"

definition al_gen_tool :: "string \<Rightarrow> (rng, scenario_tool list) state" where
  "al_gen_tool t = do {
     c \<leftarrow> chance 80;
     if c then do {
       vs \<leftarrow> sample al_VALUES 1 3;
       State_Monad.return [\<lparr>sc_tool = t, sc_rules =
         [\<lparr>ru_key = ''to'', ru_values = vs, ru_prefixes = [], ru_payload = False\<rparr>]\<rparr>] }
     else State_Monad.return [] }"

definition al_scenario :: "(rng, scenario \<times> bool) state" where
  \<comment> \<open>\<open>scenario\<close>, with \<open>session_noise\<close>\<close>
  "al_scenario = do {
     tps \<leftarrow> each al_gen_tool al_TOOLS;
     cred \<leftarrow> sample al_TOOLS 1 3;
     known \<leftarrow> chance 90;
     t \<leftarrow> (if known then choice al_TOOLS else State_Monad.return ''delete_all'');
     bare \<leftarrow> chance 15;
     args \<leftarrow> (if bare then State_Monad.return [] else do {
       v \<leftarrow> choice al_VALUES;
       p \<leftarrow> choice [''authoritative'', ''authoritative'', ''untrusted''];
       State_Monad.return [\<lparr>ga_key = ''to'', ga_value = v, ga_prov = p\<rparr>] });
     noise \<leftarrow> chance 30;
     State_Monad.return (\<lparr>sn_tools = concat tps, sn_credential = cred, sn_expired = False, sn_tool = t, sn_args = args\<rparr>, noise) }"

record al_tool =
  at_name :: string
  at_role :: string
  at_recipients :: "(string list \<times> string) option"   \<comment> \<open>allowlist and parameter\<close>

datatype al_source = USER_MESSAGE | WEB_CONTENT

record al_calls =
  ac_registered :: "al_tool list"
  ac_writes :: "(al_source \<times> string) list"
  ac_tool :: string
  ac_params :: "(string \<times> string) list"
  ac_recipient :: string

record al_result =
  ar_allowed :: bool
  ar_denial :: "jobj option"

definition al_tool_problem :: "scenario_tool \<Rightarrow> string option" where
  "al_tool_problem tp =
     (case sc_rules tp of
        [] \<Rightarrow> None
      | r # rs \<Rightarrow>
          if rs \<noteq> [] then Some ''more than one ruled argument per tool''
          else if ru_payload r then Some ''payload roles''
          else if ru_prefixes r \<noteq> [] then Some ''prefix rules'' else None)"

definition al_ruled :: "scenario \<Rightarrow> string \<Rightarrow> string set option" where
  \<comment> \<open>\<open>ruled\<close>: the keys of the last entry of a tool\<close>
  "al_ruled s = map_of (rev (map (\<lambda>tp. (sc_tool tp, set (map ru_key (sc_rules tp)))) (sn_tools s)))"

definition al_key :: "scenario \<Rightarrow> string \<Rightarrow> string" where
  \<comment> \<open>\<open>rkey.get(tool, "")\<close>\<close>
  "al_key s t =
     (case map_of (rev (map (\<lambda>tp. (sc_tool tp, ru_key (hd (sc_rules tp)))) (filter (\<lambda>tp. sc_rules tp \<noteq> []) (sn_tools s)))) t of
        None \<Rightarrow> [] | Some k \<Rightarrow> k)"

definition al_arg_problem :: "scenario \<Rightarrow> scenario_arg \<Rightarrow> string option" where
  "al_arg_problem s a =
     (if (case al_ruled s (sn_tool s) of None \<Rightarrow> False | Some ks \<Rightarrow> ga_key a \<notin> ks)
      then Some ''argument key without a rule (AgentLock does not restrict parameter names)''
      else if ga_prov a = ''derived'' then Some ''derived provenance (no probed AgentLock counterpart)''
      else if length (ga_value a) < 6 then Some ''value shorter than AgentLock's lineage minimum''
      else None)"

definition al_register :: "scenario \<Rightarrow> scenario_tool \<Rightarrow> al_tool" where
  "al_register s tp =
     \<lparr>at_name = sc_tool tp, at_role = if sc_tool tp \<in> set (sn_credential s) then ''agent'' else ''admin'',
      at_recipients = (case sc_rules tp of [] \<Rightarrow> None | r # _ \<Rightarrow> Some (ru_values r, ru_key r))\<rparr>"

definition spaced :: "string \<Rightarrow> scenario \<Rightarrow> string" where
  "spaced p s = join_with '' '' (map ga_value (filter (\<lambda>a. ga_prov a = p) (sn_args s)))"

definition al_plan :: "scenario \<Rightarrow> bool \<Rightarrow> string + al_calls" where
  "al_plan s noise =
     (if sn_expired s then Inl ''credential expiry (AgentLock sessions expire by elapsed time)''
      else case first_some al_tool_problem (sn_tools s) of
        Some why \<Rightarrow> Inl why
      | None \<Rightarrow>
          (case first_some (al_arg_problem s) (sn_args s) of
             Some why \<Rightarrow> Inl why
           | None \<Rightarrow> Inr
               \<lparr>ac_registered = map (al_register s) (sn_tools s),
                ac_writes = [(USER_MESSAGE, ''request: '' @ spaced ''authoritative'' s)] @
                  (if spaced ''untrusted'' s \<noteq> [] then [(WEB_CONTENT, ''page: '' @ spaced ''untrusted'' s)] else []) @
                  (if noise then [(WEB_CONTENT, ''unrelated page about the weather'')] else []),
                ac_tool = sn_tool s, ac_params = arg_params s,
                ac_recipient = (case map_of (arg_params s) (al_key s (sn_tool s)) of None \<Rightarrow> [] | Some v \<Rightarrow> v)\<rparr>))"

definition agentlock_adapter :: "(al_calls \<Rightarrow> al_result) option \<Rightarrow> scenario \<Rightarrow> bool \<Rightarrow> gate_verdict" where
  "agentlock_adapter gate s noise =
     (case gate of
        None \<Rightarrow> decline ''agentlock not installed''
      | Some run \<Rightarrow>
          (case al_plan s noise of
             Inl why \<Rightarrow> decline why
           | Inr calls \<Rightarrow>
               (let r = run calls; d = (case ar_denial r of None \<Rightarrow> [] | Some d \<Rightarrow> d) in
                if ar_allowed r then \<lparr>gv_admitted = True, gv_reason = [], gv_supported = True\<rparr>
                else \<lparr>gv_admitted = False,
                      gv_reason = if jget d ''status'' = JStr ''approval_required''
                        then ''escalated: '' @ py_str (if has_key d ''reason'' then jget d ''reason'' else JStr [])
                        else py_str (if has_key d ''reason'' then jget d ''reason'' else JStr ''denied''),
                      gv_supported = True\<rparr>)))"

section \<open>Agent-Airlock\<close>

definition ROOT :: string where "ROOT = ''/tmp/darmv''"
definition WS :: string where "WS = ROOT @ ''/ws/''"
definition PUB :: string where "PUB = ROOT @ ''/pub/''"
definition PATHS :: "string list" where
  "PATHS = [ROOT @ ''/ws/a.txt'', ROOT @ ''/pub/b.txt'', ROOT @ ''/etc/p.txt'', ROOT @ ''/ws/../etc/p.txt'']"
definition EMAILS :: "string list" where
  "EMAILS = [''alice@corp.example'', ''bob@corp.example'', ''mallory@evil.example'']"

definition air_scenario :: "(rng, scenario) state" where
  "air_scenario = do {
     reads \<leftarrow> chance 85;
     doc \<leftarrow> (if reads then do {
         ps \<leftarrow> sample [WS, PUB] 1 2;
         State_Monad.return [\<lparr>sc_tool = ''read_doc'', sc_rules =
           [\<lparr>ru_key = ''path'', ru_values = [], ru_prefixes = ps, ru_payload = False\<rparr>]\<rparr>] }
       else State_Monad.return []);
     sends \<leftarrow> chance 85;
     note \<leftarrow> (if sends then do {
         vs \<leftarrow> sample EMAILS 1 2;
         State_Monad.return [\<lparr>sc_tool = ''send_note'', sc_rules =
           [\<lparr>ru_key = ''to'', ru_values = vs, ru_prefixes = [], ru_payload = False\<rparr>]\<rparr>] }
       else State_Monad.return []);
     cred \<leftarrow> sample [''read_doc'', ''send_note''] 1 2;
     known \<leftarrow> chance 90;
     t \<leftarrow> (if known then choice [''read_doc'', ''send_note''] else State_Monad.return ''wipe'');
     bare \<leftarrow> chance 10;
     args \<leftarrow> (if bare then State_Monad.return [] else do {
         v \<leftarrow> choice (if t = ''read_doc'' then PATHS else EMAILS);
         u \<leftarrow> chance 10;
         State_Monad.return [\<lparr>ga_key = if t = ''read_doc'' then ''path'' else ''to'', ga_value = v,
           ga_prov = if u then ''untrusted'' else ''authoritative''\<rparr>] });
     forced \<leftarrow> chance 10;
     State_Monad.return \<lparr>sn_tools = doc @ note, sn_credential = cred, sn_expired = False, sn_tool = t,
       sn_args = args @ (if forced then [\<lparr>ga_key = ''mode'', ga_value = ''force'', ga_prov = ''authoritative''\<rparr>] else [])\<rparr> }"

record air_calls =
  ai_tool :: string
  ai_params :: "(string \<times> string list option) list"   \<comment> \<open>the type: a literal of the values, or a string\<close>
  ai_roots :: "string list"
  ai_granted :: "string list"
  ai_args :: "(string \<times> string) list"

definition air_rule_problem :: "scenario_rule \<Rightarrow> string option" where
  "air_rule_problem r =
     (if ru_values r \<noteq> [] \<and> ru_prefixes r \<noteq> [] then Some ''rule mixing exact values and prefixes''
      else if ru_values r = [] \<and> ru_prefixes r = [] then Some ''rule allowing no values'' else None)"

definition air_plan :: "scenario \<Rightarrow> string + air_calls" where
  "air_plan s =
     (let rules = (case filter (\<lambda>tp. sc_tool tp = sn_tool s) (sn_tools s) of [] \<Rightarrow> [] | tp # _ \<Rightarrow> sc_rules tp) in
      if sn_expired s then Inl ''credential expiry (no Airlock counterpart)''
      else if list_ex (\<lambda>a. ga_prov a \<noteq> ''authoritative'') (sn_args s)
      then Inl ''argument provenance (Airlock has no provenance mechanism)''
      else case first_some air_rule_problem rules of
        Some why \<Rightarrow> Inl why
      | None \<Rightarrow> Inr
          \<lparr>ai_tool = sn_tool s,
           ai_params = foldl (\<lambda>d r. dset d (ru_key r) (if ru_values r \<noteq> [] then Some (ru_values r) else None)) [] rules,
           ai_roots = concat (map (\<lambda>r. if ru_values r \<noteq> [] then [] else ru_prefixes r) rules),
           ai_granted = filter (\<lambda>t. t \<in> set (sn_credential s)) (map sc_tool (sn_tools s)),
           ai_args = arg_params s\<rparr>)"

definition airlock_adapter :: "(air_calls \<Rightarrow> json) option \<Rightarrow> scenario \<Rightarrow> gate_verdict" where
  "airlock_adapter gate s =
     (case gate of
        None \<Rightarrow> decline ''agent-airlock not installed''
      | Some run \<Rightarrow>
          (case air_plan s of
             Inl why \<Rightarrow> decline why
           | Inr calls \<Rightarrow>
               (let d = (case run calls of JObj d \<Rightarrow> d | _ \<Rightarrow> []) in
                if truthy (jget d ''success'') then \<lparr>gv_admitted = True, gv_reason = [], gv_supported = True\<rparr>
                else \<lparr>gv_admitted = False, gv_reason = py_str (py_or (jget d ''block_reason'') (JStr ''blocked'')),
                      gv_supported = True\<rparr>)))"

section \<open>What the generated scenarios are\<close>

lemma first_some_None: "first_some f xs = None \<longleftrightarrow> (\<forall>x \<in> set xs. f x = None)"
proof (cases "filter (\<lambda>x. f x \<noteq> None) xs")
  case Nil
  then show ?thesis by (auto simp: first_some_def filter_empty_conv)
next
  case (Cons x ys)
  then have "x \<in> set (filter (\<lambda>x. f x \<noteq> None) xs)" by simp
  then show ?thesis using Cons by (auto simp: first_some_def)
qed

lemma gives_bind_any: "(\<And>x. gives P (k x)) \<Longrightarrow> gives P (State_Monad.bind m k)"
  by (rule gives_bind [OF gives_any])

definition al_simple :: "scenario_tool \<Rightarrow> bool" where
  "al_simple tp \<longleftrightarrow> (\<exists>vs. sc_rules tp = [\<lparr>ru_key = ''to'', ru_values = vs, ru_prefixes = [], ru_payload = False\<rparr>])"

definition al_plain :: "scenario_arg \<Rightarrow> bool" where
  "al_plain a \<longleftrightarrow> ga_key a = ''to'' \<and> ga_value a \<in> set al_VALUES \<and> ga_prov a \<in> {''authoritative'', ''untrusted''}"

lemma gives_al_tool: "gives (list_all al_simple) (al_gen_tool t)"
  unfolding al_gen_tool_def
  by (intro gives_bind_any gives_if gives_return) (simp_all add: al_simple_def)

lemma gives_al_args:
  "gives (list_all al_plain) (if bare then State_Monad.return [] else do {
     v \<leftarrow> choice al_VALUES;
     p \<leftarrow> choice [''authoritative'', ''authoritative'', ''untrusted''];
     State_Monad.return [\<lparr>ga_key = ''to'', ga_value = v, ga_prov = p\<rparr>] })"
  by (intro gives_if gives_return gives_bind [OF gives_choice [of al_VALUES]]
      gives_bind [OF gives_choice [of "[''authoritative'', ''authoritative'', ''untrusted'']"]])
    (auto simp: al_plain_def al_VALUES_def)

lemma gives_al_scenario:
  "gives (\<lambda>(s, noise). \<not> sn_expired s \<and> list_all al_simple (sn_tools s) \<and> list_all al_plain (sn_args s)) al_scenario"
  (is "gives ?P _")
proof -
  have tools: "gives (\<lambda>tps. list_all al_simple (concat tps)) (each al_gen_tool al_TOOLS)"
  proof (rule gives_weaken [OF gives_each [of al_TOOLS "\<lambda>t. list_all al_simple"]])
    fix tps
    assume "list_all2 (\<lambda>t. list_all al_simple) al_TOOLS tps"
    then show "list_all al_simple (concat tps)"
      by (auto simp: list_all_iff list_all2_iff in_set_conv_nth [of _ tps] set_zip) (metis nth_mem)
  qed (rule gives_al_tool)
  show ?thesis
    unfolding al_scenario_def
    by (rule gives_bind [OF tools], rule gives_bind_any, rule gives_bind_any, rule gives_bind_any, rule gives_bind_any,
        rule gives_bind [OF gives_al_args], rule gives_bind_any, rule gives_return) simp
qed

lemma al_ruled_simple: "list_all al_simple (sn_tools s) \<Longrightarrow> al_ruled s t = Some ks \<Longrightarrow> ks = {''to''}"
  unfolding al_ruled_def list_all_iff al_simple_def by (fastforce dest!: map_of_SomeD)

lemma al_plan_simple:
  assumes "\<not> sn_expired s" and "list_all al_simple (sn_tools s)" and "list_all al_plain (sn_args s)"
  shows "\<exists>calls. al_plan s noise = Inr calls"
proof -
  have "first_some al_tool_problem (sn_tools s) = None"
    using assms(2) by (auto simp: first_some_None al_tool_problem_def al_simple_def list_all_iff)
  moreover have "\<forall>v \<in> set al_VALUES. 6 \<le> length v" by code_simp
  then have "first_some (al_arg_problem s) (sn_args s) = None"
    using assms(3) al_ruled_simple [OF assms(2)]
    by (fastforce simp: first_some_None al_arg_problem_def al_plain_def list_all_iff split: option.split)
  ultimately show ?thesis using assms(1) by (simp add: al_plan_def)
qed

definition air_simple :: "scenario_tool \<Rightarrow> bool" where
  "air_simple tp \<longleftrightarrow> list_all (\<lambda>r. air_rule_problem r = None) (sc_rules tp)"

lemma gives_air_scenario: "gives (\<lambda>s. \<not> sn_expired s \<and> list_all air_simple (sn_tools s)) air_scenario"
proof -
  have doc: "gives (list_all air_simple) (if c then do { ps \<leftarrow> sample [WS, PUB] 1 2; State_Monad.return [\<lparr>sc_tool = ''read_doc'', sc_rules =
           [\<lparr>ru_key = ''path'', ru_values = [], ru_prefixes = ps, ru_payload = False\<rparr>]\<rparr>] } else State_Monad.return [])" for c
  proof (intro gives_if gives_return)
    show "gives (list_all air_simple) (do { ps \<leftarrow> sample [WS, PUB] 1 2; State_Monad.return [\<lparr>sc_tool = ''read_doc'', sc_rules =
           [\<lparr>ru_key = ''path'', ru_values = [], ru_prefixes = ps, ru_payload = False\<rparr>]\<rparr>] })"
      by (rule gives_bind [OF gives_sample]) (auto simp: WS_def PUB_def ROOT_def air_simple_def air_rule_problem_def intro!: gives_return)
  qed simp
  have mail: "gives (list_all air_simple) (if c then do { vs \<leftarrow> sample EMAILS 1 2; State_Monad.return [\<lparr>sc_tool = ''send_note'', sc_rules =
           [\<lparr>ru_key = ''to'', ru_values = vs, ru_prefixes = [], ru_payload = False\<rparr>]\<rparr>] } else State_Monad.return [])" for c
  proof (intro gives_if gives_return)
    show "gives (list_all air_simple) (do { vs \<leftarrow> sample EMAILS 1 2; State_Monad.return [\<lparr>sc_tool = ''send_note'', sc_rules =
           [\<lparr>ru_key = ''to'', ru_values = vs, ru_prefixes = [], ru_payload = False\<rparr>]\<rparr>] })"
      by (rule gives_bind [OF gives_sample]) (auto simp: EMAILS_def air_simple_def air_rule_problem_def intro!: gives_return)
  qed simp
  show ?thesis
    unfolding air_scenario_def
    by (rule gives_bind_any, rule gives_bind [OF doc], rule gives_bind_any, rule gives_bind [OF mail], (rule gives_bind_any)+,
        rule gives_return) simp
qed

lemma air_plan_simple:
  assumes "\<not> sn_expired s" and "list_all air_simple (sn_tools s)"
  shows "(\<exists>calls. air_plan s = Inr calls) \<longleftrightarrow> list_all (\<lambda>a. ga_prov a = ''authoritative'') (sn_args s)"
proof -
  let ?rules = "case filter (\<lambda>tp. sc_tool tp = sn_tool s) (sn_tools s) of [] \<Rightarrow> [] | tp # _ \<Rightarrow> sc_rules tp"
  have "first_some air_rule_problem ?rules = None"
  proof (cases "filter (\<lambda>tp. sc_tool tp = sn_tool s) (sn_tools s)")
    case (Cons tp tps)
    then have "tp \<in> set (filter (\<lambda>tp. sc_tool tp = sn_tool s) (sn_tools s))" by simp
    then have "air_simple tp" using assms(2) by (simp add: list_all_iff)
    then show ?thesis using Cons by (simp add: first_some_None air_simple_def list_all_iff)
  qed (simp add: first_some_None)
  then show ?thesis using assms(1) by (auto simp: air_plan_def Let_def list_all_iff list_ex_iff)
qed

text \<open>The scenarios made for a gate are in the gate's terms. Whatever the random draws and whatever the
  installed gate answers, no scenario of the AgentLock generator is declined by its adapter, and one
  of the Airlock generator is declined exactly when one of its arguments is not authoritative: so the
  comparison measures the gate and not the translation.\<close>

theorem generated_scenarios_are_expressible:
  "(case fst (run_state al_scenario f) of (s, noise) \<Rightarrow> gv_supported (agentlock_adapter (Some lock) s noise)) \<and>
   (let s = fst (run_state air_scenario f) in
    gv_supported (airlock_adapter (Some air) s) \<longleftrightarrow> list_all (\<lambda>a. ga_prov a = ''authoritative'') (sn_args s))"
proof
  obtain s noise where s: "fst (run_state al_scenario f) = (s, noise)" by fastforce
  obtain calls where "al_plan s noise = Inr calls"
    using gives_al_scenario [unfolded gives_def, rule_format, of f] s al_plan_simple by auto
  then show "case fst (run_state al_scenario f) of (s, noise) \<Rightarrow> gv_supported (agentlock_adapter (Some lock) s noise)"
    by (simp add: s agentlock_adapter_def Let_def)
  let ?s = "fst (run_state air_scenario f)"
  have "gv_supported (airlock_adapter (Some air) ?s) \<longleftrightarrow> (\<exists>calls. air_plan ?s = Inr calls)"
    by (auto simp: airlock_adapter_def decline_def Let_def split: sum.split)
  then show "let s = fst (run_state air_scenario f) in
      gv_supported (airlock_adapter (Some air) s) \<longleftrightarrow> list_all (\<lambda>a. ga_prov a = ''authoritative'') (sn_args s)"
    using gives_air_scenario [unfolded gives_def, rule_format, of f] air_plan_simple by (simp add: Let_def)
qed

text \<open>What a translated gate is told to allow. In both translations the agent's authority covers
  exactly the tools that are in the policy and in the credential, whatever the arguments; the
  gate of version 0.1, in contrast, admits a tool that is in one of the two.\<close>

theorem adapters_grant_policy_and_credential:
  "(case al_plan s noise of Inl _ \<Rightarrow> True | Inr calls \<Rightarrow>
      (\<exists>r \<in> set (ac_registered calls). at_name r = t \<and> at_role r = ''agent'') \<longleftrightarrow>
      t \<in> sc_tool ` set (sn_tools s) \<and> t \<in> set (sn_credential s)) \<and>
   (case air_plan s of Inl _ \<Rightarrow> True | Inr calls \<Rightarrow>
      t \<in> set (ai_granted calls) \<longleftrightarrow> t \<in> sc_tool ` set (sn_tools s) \<and> t \<in> set (sn_credential s))"
  by (auto simp: al_plan_def air_plan_def al_register_def Let_def split: option.split)

end
