(* ===== verification/Inventory.thy ===== *)
theory Inventory
  imports Attest "HOL-Library.Product_Lexorder"
begin

text \<open>
  The inventory of effect sites (\<open>scripts/effect_inventory.py\<close>): which calls and references of a
  package can change the world, and for every function that has one, the functions its verdict
  depends on. Python's parser is not part of the repository, so the input is the parsed tree: the
  node kinds the script looks at are constructors, every other node is \<open>NOther\<close> with its children,
  and a node carries the source text the script asks for. The fingerprint of a text (Python's
  tokenizer and SHA-256) is an argument. Sets of names are lists without regard to order.
\<close>

section \<open>Trees\<close>

datatype node =
    NName nat string bool                  \<comment> \<open>line, name, and whether it is loaded\<close>
  | NAttr nat node string bool
  | NCall nat string node "node list" "(string \<times> node) list"
      \<comment> \<open>line, text, function, arguments, keywords\<close>
  | NStr string                            \<comment> \<open>a constant that is a string\<close>
  | NClass string "node list"
  | NFun string string "node list"         \<comment> \<open>name, source lines; also \<open>async def\<close>\<close>
  | NImport "(string \<times> string) list"      \<comment> \<open>name and \<open>as\<close> name, empty without one\<close>
  | NFrom string "(string \<times> string) list"
  | NAssign "node list" node
  | NOther "node list"

fun children :: "node \<Rightarrow> node list" where
  "children (NAttr l v a ld) = [v]"
| "children (NCall l seg f args kws) = f # args @ map snd kws"
| "children (NClass name ns) = ns"
| "children (NFun name txt ns) = ns"
| "children (NAssign ts v) = ts @ [v]"
| "children (NOther ns) = ns"
| "children _ = []"

lemma children_smaller: "sum_list (map (Suc \<circ> size) (children n)) < Suc (size n)"
proof (cases n)
  case (NCall l seg f args kws)
  have "sum_list (map (Suc \<circ> size \<circ> snd) kws) \<le> size_list (size_prod (\<lambda>x. 0) size) kws"
    by (induction kws) auto
  moreover have "sum_list (map (Suc \<circ> size) args) \<le> size_list size args" by (induction args) auto
  ultimately show ?thesis by (simp add: NCall comp_assoc)
next
  case (NAssign ts v)
  have "sum_list (map (Suc \<circ> size) ts) \<le> size_list size ts" by (induction ts) auto
  then show ?thesis by (simp add: NAssign)
next
  case (NClass name ns)
  have "sum_list (map (Suc \<circ> size) ns) \<le> size_list size ns" by (induction ns) auto
  then show ?thesis by (simp add: NClass)
next
  case (NFun name src ns)
  have "sum_list (map (Suc \<circ> size) ns) \<le> size_list size ns" by (induction ns) auto
  then show ?thesis by (simp add: NFun)
next
  case (NOther ns)
  have "sum_list (map (Suc \<circ> size) ns) \<le> size_list size ns" by (induction ns) auto
  then show ?thesis by (simp add: NOther)
qed auto

function walk :: "node list \<Rightarrow> node list" where
  \<comment> \<open>\<open>ast.walk\<close>: breadth first\<close>
  "walk [] = []"
| "walk (n # ns) = n # walk (ns @ children n)"
  by pat_completeness auto
termination
  by (relation "measure (\<lambda>ns. sum_list (map (Suc \<circ> size) ns))") (simp_all add: children_smaller)

section \<open>Effects\<close>

definition OS_EFFECTS :: "string list" where
  "OS_EFFECTS = [''replace'', ''rename'', ''unlink'', ''remove'', ''setxattr'', ''removexattr'', ''mkdir'',
     ''makedirs'', ''rmdir'', ''truncate'', ''ftruncate'', ''link'', ''symlink'', ''chmod'',
     ''fchmod'', ''chown'', ''renames'', ''removedirs'', ''utime'', ''mknod'', ''mkfifo'',
     ''lchown'', ''lchmod'', ''system'', ''popen'', ''fork'', ''kill'']"
definition SHUTIL_EFFECTS :: "string list" where
  "SHUTIL_EFFECTS = [''move'', ''rmtree'', ''copy'', ''copy2'', ''copyfile'', ''copytree'']"
definition SUBPROCESS_EFFECTS :: "string list" where
  "SUBPROCESS_EFFECTS = [''run'', ''Popen'', ''call'', ''check_call'', ''check_output'', ''getoutput'', ''getstatusoutput'']"
definition NET_EFFECTS :: "(string \<times> string list) list" where
  "NET_EFFECTS = [(''socket'', [''socket'', ''create_connection'', ''create_server'', ''socketpair'', ''fromfd'']),
     (''http.client'', [''HTTPConnection'', ''HTTPSConnection'']),
     (''urllib.request'', [''urlopen'', ''urlretrieve'', ''build_opener''])]"
definition WRITE_FLAGS :: "string list" where
  "WRITE_FLAGS = [''O_WRONLY'', ''O_RDWR'', ''O_CREAT'', ''O_TRUNC'', ''O_APPEND'']"
definition MODULES :: "string list" where
  "MODULES = [''os'', ''shutil'', ''subprocess''] @ map fst NET_EFFECTS"
definition DYNAMIC :: "string list" where
  "DYNAMIC = [''eval'', ''exec'', ''compile'', ''__import__'']"

definition net_effect :: "string \<Rightarrow> string \<Rightarrow> bool" where
  "net_effect md name = (case map_of NET_EFFECTS md of None \<Rightarrow> False | Some ns \<Rightarrow> name \<in> set ns)"

definition is_effect :: "string \<Rightarrow> string \<Rightarrow> bool" where
  "is_effect md name \<longleftrightarrow>
     (md = ''os'' \<and> name \<in> set OS_EFFECTS) \<or> (md = ''shutil'' \<and> name \<in> set SHUTIL_EFFECTS) \<or>
     (md = ''subprocess'' \<and> name \<in> set SUBPROCESS_EFFECTS) \<or> net_effect md name"

record scope =
  aliases :: "(string \<times> string) list"
  direct :: "(string \<times> (string \<times> string)) list"
  foreign :: "string list"

definition get_or :: "(string \<times> 'a) list \<Rightarrow> string \<Rightarrow> 'a \<Rightarrow> 'a" where
  \<comment> \<open>\<open>d.get(k, default)\<close>\<close>
  "get_or d k v = (case map_of d k of None \<Rightarrow> v | Some x \<Rightarrow> x)"

fun dotted :: "node \<Rightarrow> string option" where
  "dotted (NName l x ld) = Some x"
| "dotted (NAttr l v a ld) = map_option (\<lambda>d. d @ ''.'' @ a) (dotted v)"
| "dotted _ = None"

definition modname :: "scope \<Rightarrow> node \<Rightarrow> string option" where
  "modname sc n = (case n of NName l x ld \<Rightarrow> map_of (aliases sc) x | _ \<Rightarrow> None)"

fun resolve :: "scope \<Rightarrow> node \<Rightarrow> string \<times> string" where
  "resolve sc (NAttr l v a ld) =
     (case dotted v of Some d \<Rightarrow> (get_or (aliases sc) d d, a) | None \<Rightarrow> (''?'', a))"
| "resolve sc (NName l x ld) = get_or (direct sc) x ([], x)"
| "resolve sc _ = (''?'', ''?'')"

definition mode_of :: "node list \<Rightarrow> (string \<times> node) list \<Rightarrow> string option" where
  \<comment> \<open>\<open>_mode(n, 1)\<close>\<close>
  "mode_of args kws =
     (case (if 1 < length args then Some (args ! 1) else map_of kws ''mode'') of
        Some (NStr s) \<Rightarrow> Some s | _ \<Rightarrow> None)"

definition writes :: "string option \<Rightarrow> bool" where
  "writes m = (case m of None \<Rightarrow> False | Some s \<Rightarrow> list_ex (\<lambda>c. c \<in> set s) ''wax+'')"

definition mode_repr :: "string option \<Rightarrow> string" where
  "mode_repr m = (case m of None \<Rightarrow> ''None'' | Some s \<Rightarrow> py_repr_str s)"

definition effect_of_call ::
  "scope \<Rightarrow> string \<Rightarrow> node list \<Rightarrow> (string \<times> node) list \<Rightarrow> string \<Rightarrow> string \<Rightarrow> string option" where
  \<comment> \<open>\<open>effect_of\<close> of a call with the text and the arguments\<close>
  "effect_of_call sc seg args kws base name =
     (if (base = ''os'' \<or> base = ''shutil'') \<and> is_effect base name then Some (base @ ''.'' @ name)
      else if base = ''subprocess'' \<and> name \<in> set SUBPROCESS_EFFECTS then Some (''subprocess.'' @ name)
      else if base = ''os'' \<and> (startswith name ''exec'' \<or> startswith name ''spawn'') then Some (''os.'' @ name)
      else if name = ''renameat2'' then Some ''renameat2''
      else if net_effect base name then Some (base @ ''.'' @ name)
      else if base \<in> set (foreign sc) then Some (''foreign:'' @ base @ ''.'' @ name)
      else if name = ''write_text'' \<or> name = ''write_bytes'' then Some name
      else if base = ''os'' \<and> name = ''open'' \<and> list_ex (\<lambda>fl. sublist fl seg) WRITE_FLAGS then Some ''os.open(write)''
      else if base = [] \<and> name = ''open'' \<and> writes (mode_of args kws)
      then Some (''open('' @ mode_repr (mode_of args kws) @ '')'')
      else if base = ''os'' \<and> name = ''fdopen'' \<and> writes (mode_of args kws)
      then Some (''os.fdopen('' @ mode_repr (mode_of args kws) @ '')'')
      else None)"

section \<open>The walk\<close>

datatype event =
    Calls string string          \<comment> \<open>the function, and a name it calls or refers to\<close>
  | Effect nat string string     \<comment> \<open>line, effect, function\<close>
  | Source string string         \<comment> \<open>a function and its text\<close>

definition qual :: "string list \<Rightarrow> string" where
  "qual st = (if st = [] then ''<module>'' else join_with ''.'' st)"

definition call_effects ::
  "scope \<Rightarrow> string \<Rightarrow> nat \<Rightarrow> string \<Rightarrow> node \<Rightarrow> node list \<Rightarrow> (string \<times> node) list \<Rightarrow> event list" where
  \<comment> \<open>\<open>visit_Call\<close> up to the visit of the children\<close>
  "call_effects sc fn l seg f args kws =
     (case resolve sc f of (base, name) \<Rightarrow>
        Calls fn name #
        (case effect_of_call sc seg args kws base name of None \<Rightarrow> [] | Some e \<Rightarrow> [Effect l e fn]) @
        (if base = [] \<and> name \<in> set DYNAMIC then [Effect l (''dynamic:'' @ name) fn] else []) @
        (if base = ''importlib'' then [Effect l (''dynamic:importlib.'' @ name) fn] else []) @
        (case (base = [] \<and> name = ''getattr'', args) of
           (True, a # as) \<Rightarrow>
             (case modname sc a of
                Some m \<Rightarrow> if m \<in> set MODULES then [Effect l (''dynamic:getattr('' @ m @ '')'') fn] else []
              | None \<Rightarrow> [])
         | _ \<Rightarrow> []))"

fun visit :: "scope \<Rightarrow> string list \<Rightarrow> bool \<Rightarrow> node \<Rightarrow> event list" where
  \<comment> \<open>the flag: the node is the function of a call (\<open>_darm_called\<close>)\<close>
  "visit sc st called (NName l x ld) =
     (if called \<or> \<not> ld then []
      else Calls (qual st) x #
        (case map_of (direct sc) x of
           Some (m, a) \<Rightarrow> if is_effect m a then [Effect l (''reference:'' @ m @ ''.'' @ a) (qual st)] else []
         | None \<Rightarrow> []))"
| "visit sc st called (NAttr l v a ld) =
     (if \<not> called \<and> ld then [Calls (qual st) a] else []) @
     (if called then []
      else case modname sc v of
             Some b \<Rightarrow> if b \<noteq> [] \<and> is_effect b a then [Effect l (''reference:'' @ b @ ''.'' @ a) (qual st)] else []
           | None \<Rightarrow> []) @
     visit sc st False v"
| "visit sc st called (NCall l seg f args kws) =
     call_effects sc (qual st) l seg f args kws @
     visit sc st True f @ concat (map (visit sc st False) args) @ concat (map (\<lambda>kw. visit sc st False (snd kw)) kws)"
| "visit sc st called (NClass name ns) = concat (map (visit sc (st @ [name]) False) ns)"
| "visit sc st called (NFun name txt ns) =
     Source (qual (st @ [name])) txt # concat (map (visit sc (st @ [name]) False) ns)"
| "visit sc st called (NAssign ts v) = concat (map (visit sc st False) ts) @ visit sc st False v"
| "visit sc st called (NOther ns) = concat (map (visit sc st False) ns)"
| "visit sc st called (NStr s) = []"
| "visit sc st called (NImport names) = []"
| "visit sc st called (NFrom md names) = []"

section \<open>Names of a file\<close>

definition or_name :: "string \<times> string \<Rightarrow> string" where
  \<comment> \<open>\<open>al.asname or al.name\<close>\<close>
  "or_name al = (if snd al = [] then fst al else snd al)"

definition note_import :: "node \<Rightarrow> scope \<Rightarrow> scope" where
  \<comment> \<open>one turn of the loop over \<open>ast.walk(tree)\<close>\<close>
  "note_import n sc =
     (case n of
        NImport als \<Rightarrow>
          fold (\<lambda>al sc. if fst al \<in> set MODULES \<or> fst al = ''importlib''
                        then sc\<lparr>aliases := dset (aliases sc) (or_name al) (fst al)\<rparr> else sc) als sc
      | NFrom md als \<Rightarrow>
          (if md \<in> set MODULES \<or> md = ''importlib''
           then fold (\<lambda>al sc. sc\<lparr>direct := dset (direct sc) (or_name al) (md, fst al)\<rparr>) als sc
           else if md \<noteq> []
           then fold (\<lambda>al sc. if md @ ''.'' @ fst al \<in> set MODULES
                              then sc\<lparr>aliases := dset (aliases sc) (or_name al) (md @ ''.'' @ fst al)\<rparr> else sc) als sc
           else sc)
      | NAssign ts (NCall l seg f args kws) \<Rightarrow>
          (if sublist ''CDLL'' seg \<or> sublist ''LibraryLoader'' seg \<or> sublist ''ctypes.cdll'' seg
           then sc\<lparr>foreign := foreign sc @ concat (map (\<lambda>t. case t of NName l x ld \<Rightarrow> [x] | NAttr l v a ld \<Rightarrow> [a] | _ \<Rightarrow> []) ts)\<rparr>
           else sc)
      | _ \<Rightarrow> sc)"

record source_file =
  sf_name :: string
  sf_body :: "(string \<times> node) list"      \<comment> \<open>the statements with their texts\<close>

definition scope_of :: "source_file \<Rightarrow> scope" where
  "scope_of f = fold note_import (walk [NOther (map snd (sf_body f))]) \<lparr>aliases = [], direct = [], foreign = []\<rparr>"

definition file_events :: "source_file \<Rightarrow> event list" where
  "file_events f = concat (map (visit (scope_of f) [] False) (map snd (sf_body f)))"

definition is_def :: "node \<Rightarrow> bool" where
  "is_def n = (case n of NFun _ _ _ \<Rightarrow> True | NClass _ _ \<Rightarrow> True | _ \<Rightarrow> False)"

definition module_code :: "source_file \<Rightarrow> string" where
  \<comment> \<open>\<open>top\<close>, joined\<close>
  "module_code f = join_with [CHR 0x0A] (map fst (filter (\<lambda>s. \<not> is_def (snd s)) (sf_body f)))"

definition in_file :: "source_file \<Rightarrow> string \<Rightarrow> string" where
  "in_file f q = sf_name f @ '':'' @ q"

section \<open>The package\<close>

definition all_calls :: "source_file list \<Rightarrow> (string \<times> string) list" where
  "all_calls fs = concat (map (\<lambda>f. concat (map (\<lambda>ev. case ev of Calls q x \<Rightarrow> [(in_file f q, x)] | _ \<Rightarrow> []) (file_events f))) fs)"

definition fps_of :: "(string \<Rightarrow> string) \<Rightarrow> source_file list \<Rightarrow> (string \<times> string) list" where
  \<comment> \<open>a later definition of the same name replaces the earlier one; the module's code comes last\<close>
  "fps_of fp fs = fold (\<lambda>(q, txt) d. dset d q (fp txt))
     (concat (map (\<lambda>f. concat (map (\<lambda>ev. case ev of Source q txt \<Rightarrow> [(in_file f q, txt)] | _ \<Rightarrow> []) (file_events f)) @
                       [(in_file f ''<module>'', module_code f)]) fs)) []"

definition rows_of :: "source_file list \<Rightarrow> (string \<times> nat \<times> string \<times> string) list" where
  "rows_of fs = concat (map (\<lambda>f. concat (map (\<lambda>ev. case ev of Effect l e q \<Rightarrow> [(sf_name f, l, e, in_file f q)] | _ \<Rightarrow> [])
     (file_events f))) fs)"

definition after_colon :: "string \<Rightarrow> string" where
  \<comment> \<open>\<open>q.split(":", 1)[1]\<close>\<close>
  "after_colon q = snd (snd (partition_at (CHR '':'') q))"

definition before_colon :: "string \<Rightarrow> string" where
  "before_colon q = fst (partition_at (CHR '':'') q)"

definition short :: "string \<Rightarrow> string" where
  "short q = last (split_on (CHR ''.'') (after_colon q))"

definition callers_of :: "(string \<times> string) list \<Rightarrow> string list \<Rightarrow> (string \<times> string list) list" where
  \<comment> \<open>\<open>callers\<close>: for every function those that call or refer to its name\<close>
  "callers_of calls known =
     map (\<lambda>d. (d, remdups (map fst (filter (\<lambda>(f, x). x = short d \<and> d \<noteq> f) calls)))) known"

definition callees_of :: "(string \<times> string list) list \<Rightarrow> (string \<times> string list) list" where
  \<comment> \<open>\<open>callees\<close>: the callers, turned round\<close>
  "callees_of callers =
     map (\<lambda>c. (c, map fst (filter (\<lambda>(f, cs). c \<in> set cs) callers))) (remdups (concat (map snd callers)))"

definition edges :: "(string \<times> string list) list \<Rightarrow> string \<Rightarrow> string list" where
  "edges g x = get_or g x []"

lemma edges_range: "set (edges g x) \<subseteq> \<Union> (set ` snd ` set g)"
proof (cases "map_of g x")
  case (Some ys)
  then have "(x, ys) \<in> set g" by (rule map_of_SomeD)
  then show ?thesis using Some by (force simp: edges_def get_or_def)
qed (simp add: edges_def get_or_def)

function closure :: "(string \<times> string list) list \<Rightarrow> string list \<Rightarrow> string list \<Rightarrow> string list" where
  \<comment> \<open>what was seen, and the stack\<close>
  "closure g seen [] = seen"
| "closure g seen (x # todo) =
     (let fresh = filter (\<lambda>c. c \<notin> set seen) (remdups (edges g x)) in closure g (seen @ fresh) (rev fresh @ todo))"
  by pat_completeness auto
termination
proof (relation "(\<lambda>(g, seen, todo). card (\<Union> (set ` snd ` set g) - set seen)) <*mlex*> measure (\<lambda>(g, seen, todo). length todo)")
  fix g :: "(string \<times> string list) list" and seen todo fresh :: "string list" and x
  assume fresh: "fresh = filter (\<lambda>c. c \<notin> set seen) (remdups (edges g x))"
  let ?U = "\<Union> (set ` snd ` set g)"
  show "((g, seen @ fresh, rev fresh @ todo), (g, seen, x # todo))
     \<in> (\<lambda>(g, seen, todo). card (\<Union> (set ` snd ` set g) - set seen)) <*mlex*> measure (\<lambda>(g, seen, todo). length todo)"
  proof (cases "fresh = []")
    case True
    then show ?thesis by (simp add: mlex_prod_def)
  next
    case False
    then obtain c where c: "c \<in> set fresh" by (cases fresh) auto
    then have "c \<in> ?U - set seen" "c \<notin> ?U - set (seen @ fresh)" using edges_range [of g x] by (auto simp: fresh)
    then have "?U - set (seen @ fresh) \<subset> ?U - set seen" by auto
    then have "card (?U - set (seen @ fresh)) < card (?U - set seen)" by (intro psubset_card_mono) auto
    then show ?thesis by (simp add: mlex_prod_def)
  qed
qed (simp add: wf_mlex)

record inventory =
  iv_sites :: "(string \<times> string) list"       \<comment> \<open>function and effect\<close>
  iv_functions :: "(string \<times> string \<times> (string \<times> string) list) list"
    \<comment> \<open>fingerprint and cone\<close>

definition cone :: "(string \<times> string list) list \<Rightarrow> (string \<times> string list) list \<Rightarrow> string \<Rightarrow> string list" where
  "cone callers callees fn =
     (let up = closure callers [fn] [fn];
          down = closure callees up (rev up);
          members = up @ down
      in sort (remdups (filter (\<lambda>m. m \<noteq> fn) (members @ map (\<lambda>m. before_colon m @ '':<module>'') members))))"

definition take_inventory :: "(string \<Rightarrow> string) \<Rightarrow> source_file list \<Rightarrow> inventory" where
  \<comment> \<open>what \<open>--json\<close> prints, for the files in the order of their names\<close>
  "take_inventory fp fs =
     (let fps = fps_of fp fs; callers = callers_of (all_calls fs) (map fst fps); callees = callees_of callers;
          rows = rows_of fs; fns = sort (remdups (map (\<lambda>(m, l, e, fn). fn) rows))
      in \<lparr>iv_sites = map (\<lambda>(m, l, e, fn). (fn, e)) (sort rows),
          iv_functions = map (\<lambda>fn. (fn, get_or fps fn ''?'',
             map (\<lambda>a. (a, get_or fps a ''?'')) (cone callers callees fn))) fns\<rparr>)"

section \<open>Uses of effects\<close>

lemma walk_set: "set (walk ns) = (\<Union>n \<in> set ns. insert n (set (walk (children n))))"
proof (induction "sum_list (map (Suc \<circ> size) ns)" arbitrary: ns rule: less_induct)
  case less
  show ?case
  proof (cases ns)
    case (Cons n ms)
    have "sum_list (map (Suc \<circ> size) (ms @ children n)) < sum_list (map (Suc \<circ> size) ns)"
      using children_smaller [of n] by (simp add: Cons)
    from less [OF this] have "set (walk ns) = insert n (\<Union>k \<in> set ms \<union> set (children n). insert k (set (walk (children k))))"
      by (simp add: Cons)
    moreover have "sum_list (map (Suc \<circ> size) (children n)) < sum_list (map (Suc \<circ> size) ns)"
      using children_smaller [of n] by (simp add: Cons)
    from less [OF this] have "set (walk (children n)) = (\<Union>k \<in> set (children n). insert k (set (walk (children k))))" .
    ultimately show ?thesis by (auto simp: Cons)
  qed simp
qed

definition below :: "node \<Rightarrow> node set" where
  \<comment> \<open>a node and everything below it\<close>
  "below n = insert n (set (walk (children n)))"

lemma below_children: "below n = insert n (\<Union> (below ` set (children n)))"
  unfolding below_def by (simp only: walk_set [of "children n"])

lemma walk_below: "set (walk ns) = \<Union> (below ` set ns)"
  unfolding below_def by (rule walk_set)

definition names_effect :: "scope \<Rightarrow> node \<Rightarrow> string \<Rightarrow> string \<Rightarrow> bool" where
  \<comment> \<open>an imported name or an attribute of an imported module that stands for the effect, read\<close>
  "names_effect sc u m a \<longleftrightarrow>
     (case u of
        NName l x ld \<Rightarrow> ld \<and> map_of (direct sc) x = Some (m, a)
      | NAttr l (NName k x d) b ld \<Rightarrow> ld \<and> map_of (aliases sc) x = Some m \<and> b = a
      | _ \<Rightarrow> False)"

definition site_of :: "string \<Rightarrow> string \<Rightarrow> event list \<Rightarrow> bool" where
  "site_of m a evs \<longleftrightarrow> (\<exists>l q. Effect l (m @ ''.'' @ a) q \<in> set evs \<or> Effect l (''reference:'' @ m @ ''.'' @ a) q \<in> set evs)"

lemma site_of_append [simp]: "site_of m a (xs @ ys) \<longleftrightarrow> site_of m a xs \<or> site_of m a ys"
  by (auto simp: site_of_def)

lemma site_of_Nil [simp]: "\<not> site_of m a []"
  by (simp add: site_of_def)

lemma site_of_other [simp]: "site_of m a (Calls q x # evs) = site_of m a evs" "site_of m a (Source q x # evs) = site_of m a evs"
  by (simp_all add: site_of_def)

lemma site_of_concat [simp]: "site_of m a (concat xss) \<longleftrightarrow> (\<exists>xs \<in> set xss. site_of m a xs)"
  by (induction xss) auto

lemma site_of_Effect: "site_of m a (Effect l (m @ ''.'' @ a) q # evs)" "site_of m a (Effect l (''reference:'' @ m @ ''.'' @ a) q # evs)"
  by (auto simp: site_of_def)

lemma is_effect_named: "is_effect m a \<Longrightarrow> m \<noteq> []"
  by (auto simp: is_effect_def net_effect_def NET_EFFECTS_def)

lemma net_effect_cases:
  assumes "net_effect m a"
  shows "m \<noteq> ''os'' \<and> m \<noteq> ''shutil'' \<and> m \<noteq> ''subprocess'' \<and> a \<noteq> ''renameat2''"
  using assms by (auto simp: net_effect_def NET_EFFECTS_def split: if_splits)

lemma effect_of_call_direct:
  assumes "is_effect m a"
  shows "effect_of_call sc seg args kws m a = Some (m @ ''.'' @ a)"
proof -
  consider "m = ''os'' \<or> m = ''shutil''" | "m = ''subprocess''" "a \<in> set SUBPROCESS_EFFECTS" | "net_effect m a"
    using assms unfolding is_effect_def by blast
  then show ?thesis
  proof cases
    case 1
    then show ?thesis using assms by (simp only: effect_of_call_def simp_thms if_True)
  next
    case 2
    then show ?thesis by (simp add: effect_of_call_def)
  next
    case 3
    then show ?thesis using net_effect_cases [OF 3] by (simp only: effect_of_call_def simp_thms if_True if_False)
  qed
qed

lemma resolve_named: "names_effect sc u m a \<Longrightarrow> resolve sc u = (m, a)"
  by (cases u) (auto simp: names_effect_def get_or_def split: node.splits)

lemma site_called:
  assumes "is_effect m a" and "names_effect sc f m a"
  shows "site_of m a (call_effects sc q l seg f args kws)"
proof -
  have "Effect l (m @ ''.'' @ a) q \<in> set (call_effects sc q l seg f args kws)"
    unfolding call_effects_def resolve_named [OF assms(2)] prod.case effect_of_call_direct [OF assms(1)] option.case by simp
  then show ?thesis unfolding site_of_def by blast
qed

lemma below_simps [simp]:
  "below (NName l x ld) = {NName l x ld}"
  "below (NAttr l v a ld) = insert (NAttr l v a ld) (below v)"
  "below (NCall l seg f args kws) =
     insert (NCall l seg f args kws) (below f \<union> \<Union> (below ` set args) \<union> \<Union> ((\<lambda>kw. below (snd kw)) ` set kws))"
  "below (NStr s) = {NStr s}" "below (NImport als) = {NImport als}" "below (NFrom md als) = {NFrom md als}"
  "below (NClass name ns) = insert (NClass name ns) (\<Union> (below ` set ns))"
  "below (NFun name txt ns) = insert (NFun name txt ns) (\<Union> (below ` set ns))"
  "below (NAssign ts v) = insert (NAssign ts v) (\<Union> (below ` set ts) \<union> below v)"
  "below (NOther ns) = insert (NOther ns) (\<Union> (below ` set ns))"
  by (subst below_children, force)+

lemma site_name:
  assumes "is_effect m a" and "names_effect sc (NName l x ld) m a"
  shows "site_of m a (visit sc st False (NName l x ld))"
proof -
  have "ld" "map_of (direct sc) x = Some (m, a)" using assms(2) by (simp_all add: names_effect_def)
  then show ?thesis using assms(1) by (simp add: site_of_def)
qed

lemma site_attr:
  assumes "is_effect m a" and "names_effect sc (NAttr l v b ld) m a"
  shows "site_of m a (visit sc st False (NAttr l v b ld))"
proof -
  have "b = a" "modname sc v = Some m" using assms(2) by (auto simp: names_effect_def modname_def split: node.splits)
  then show ?thesis using assms(1) is_effect_named [OF assms(1)] by (simp add: site_of_def) blast
qed

lemma visit_uses:
  assumes "u \<in> below n" and "names_effect sc u m a" and "is_effect m a"
  shows "(called \<and> u = n) \<or> site_of m a (visit sc st called n)"
  using assms(1,2)
proof (induction sc st called n rule: visit.induct)
  case (1 sc st called l x ld)
  then show ?case using site_name [OF assms(3)] by (cases called) auto
next
  case (2 sc st called l v b ld)
  show ?case
  proof (cases "u = NAttr l v b ld")
    case True
    then show ?thesis using 2(3) site_attr [OF assms(3), of sc l v b ld st] by (cases called) simp_all
  next
    case False
    then have "u \<in> below v" using 2(2) by simp
    then show ?thesis using 2(1,3) by simp
  qed
next
  case (3 sc st called l seg f args kws)
  have "u \<noteq> NCall l seg f args kws" using 3(5) by (auto simp: names_effect_def)
  then consider "u \<in> below f" | v where "v \<in> set args" "u \<in> below v" | k where "k \<in> set kws" "u \<in> below (snd k)"
    using 3(4) by auto
  then show ?case
  proof cases
    case 1
    then show ?thesis using 3(1) [OF _ 3(5)] site_called [OF assms(3)] 3(5) by auto
  next
    case 2
    then show ?thesis using 3(2) [OF 2 3(5)] by auto
  next
    case k: 3
    then show ?thesis using 3(3) [OF k 3(5)] by auto
  qed
qed (auto simp: names_effect_def)

lemma named_effect_has_a_site:
  assumes "f \<in> set fs" and "u \<in> set (walk (map snd (sf_body f)))" and "names_effect (scope_of f) u m a" and "is_effect m a"
  shows "\<exists>l fn e. (sf_name f, l, e, fn) \<in> set (rows_of fs) \<and> (e = m @ ''.'' @ a \<or> e = ''reference:'' @ m @ ''.'' @ a)"
proof -
  obtain n where n: "n \<in> set (map snd (sf_body f))" "u \<in> below n" using assms(2) by (auto simp: walk_below)
  have "site_of m a (visit (scope_of f) [] False n)" using visit_uses [OF n(2) assms(3,4), of False] by simp
  then obtain l q e where "Effect l e q \<in> set (file_events f)" "e = m @ ''.'' @ a \<or> e = ''reference:'' @ m @ ''.'' @ a"
    using n(1) unfolding site_of_def file_events_def by fastforce
  moreover from this(1) have "(sf_name f, l, e, in_file f q) \<in> set (rows_of fs)"
    using assms(1) unfolding rows_of_def by force
  ultimately show ?thesis by blast
qed

section \<open>Imports\<close>

definition binds_name :: "node \<Rightarrow> string \<Rightarrow> string \<Rightarrow> string \<Rightarrow> bool" where
  \<comment> \<open>the statement is \<open>from m import a\<close> under the name\<close>
  "binds_name n x m a \<longleftrightarrow> (case n of NFrom md als \<Rightarrow> md = m \<and> (\<exists>al\<in>set als. fst al = a \<and> or_name al = x) | _ \<Rightarrow> False)"

definition binds_module :: "node \<Rightarrow> string \<Rightarrow> string \<Rightarrow> bool" where
  \<comment> \<open>the statement imports the module under the name, from its package or not\<close>
  "binds_module n x m \<longleftrightarrow>
     (case n of
        NImport als \<Rightarrow> \<exists>al\<in>set als. fst al = m \<and> or_name al = x
      | NFrom md als \<Rightarrow> \<exists>al\<in>set als. md @ ''.'' @ fst al = m \<and> or_name al = x
      | _ \<Rightarrow> False)"

definition tracked :: "string \<Rightarrow> bool" where
  "tracked m \<longleftrightarrow> m \<in> set MODULES \<or> m = ''importlib''"

definition uses_import :: "node set \<Rightarrow> node \<Rightarrow> string \<Rightarrow> string \<Rightarrow> bool" where
  \<comment> \<open>among the statements, the node reads the effect \<open>a\<close> of the module \<open>m\<close> by a name that an import binds
      to it and no import of a listed module to anything else\<close>
  "uses_import stmts u m a \<longleftrightarrow>
     (\<exists>l x. u = NName l x True \<and> (\<exists>i\<in>stmts. binds_name i x m a) \<and>
        (\<forall>i\<in>stmts. \<forall>m' a'. tracked m' \<longrightarrow> binds_name i x m' a' \<longrightarrow> m' = m \<and> a' = a)) \<or>
     (\<exists>l k x d. u = NAttr l (NName k x d) a True \<and> (\<exists>i\<in>stmts. binds_module i x m) \<and>
        (\<forall>i\<in>stmts. \<forall>m'. tracked m' \<longrightarrow> binds_module i x m' \<longrightarrow> m' = m))"

definition direct_pairs :: "node \<Rightarrow> (string \<times> string \<times> string) list" where
  "direct_pairs n =
     (case n of NFrom md als \<Rightarrow> if tracked md then map (\<lambda>al. (or_name al, md, fst al)) als else [] | _ \<Rightarrow> [])"

definition alias_pairs :: "node \<Rightarrow> (string \<times> string) list" where
  "alias_pairs n =
     (case n of
        NImport als \<Rightarrow> map (\<lambda>al. (or_name al, fst al)) (filter (\<lambda>al. tracked (fst al)) als)
      | NFrom md als \<Rightarrow>
          if tracked md \<or> md = [] then []
          else map (\<lambda>al. (or_name al, md @ ''.'' @ fst al)) (filter (\<lambda>al. md @ ''.'' @ fst al \<in> set MODULES) als)
      | _ \<Rightarrow> [])"

definition bind_all :: "(string \<times> 'a) list \<Rightarrow> (string \<times> 'a) list \<Rightarrow> (string \<times> 'a) list" where
  "bind_all ps d = fold (\<lambda>(x, v) d. dset d x v) ps d"

lemma fold_direct: "fold (\<lambda>al sc. sc\<lparr>direct := dset (direct sc) (g al) (h al)\<rparr>) als sc =
    sc\<lparr>direct := bind_all (map (\<lambda>al. (g al, h al)) als) (direct sc)\<rparr>"
  by (induction als arbitrary: sc) (simp_all add: bind_all_def)

lemma fold_aliases: "fold (\<lambda>al sc. if P al then sc\<lparr>aliases := dset (aliases sc) (g al) (h al)\<rparr> else sc) als sc =
    sc\<lparr>aliases := bind_all (map (\<lambda>al. (g al, h al)) (filter P als)) (aliases sc)\<rparr>"
  by (induction als arbitrary: sc) (simp_all add: bind_all_def)

lemma note_import_direct: "direct (note_import n sc) = bind_all (direct_pairs n) (direct sc)"
  by (cases n) (auto simp: note_import_def direct_pairs_def tracked_def fold_direct fold_aliases bind_all_def split: node.splits)

lemma note_import_aliases: "aliases (note_import n sc) = bind_all (alias_pairs n) (aliases sc)"
  by (cases n)
    (auto simp: note_import_def alias_pairs_def tracked_def fold_direct fold_aliases bind_all_def split: node.splits)

lemma notes_direct: "direct (fold note_import ns sc) = bind_all (concat (map direct_pairs ns)) (direct sc)"
  by (induction ns arbitrary: sc) (simp_all add: note_import_direct bind_all_def)

lemma notes_aliases: "aliases (fold note_import ns sc) = bind_all (concat (map alias_pairs ns)) (aliases sc)"
  by (induction ns arbitrary: sc) (simp_all add: note_import_aliases bind_all_def)

lemma bind_all_only:
  "\<forall>v'. (x, v') \<in> set ps \<longrightarrow> v' = v \<Longrightarrow> (x, v) \<in> set ps \<or> map_of d x = Some v \<Longrightarrow> map_of (bind_all ps d) x = Some v"
proof (induction ps arbitrary: d)
  case (Cons p ps)
  obtain y w where p: "p = (y, w)" by (cases p)
  have "map_of (bind_all ps (dset d y w)) x = Some v"
    by (rule Cons.IH) (use Cons.prems p in \<open>auto simp: update_conv'\<close>)
  then show ?case by (simp add: p bind_all_def)
qed (simp add: bind_all_def)

lemma submodule_of_package: "md @ ''.'' @ b \<in> set MODULES \<Longrightarrow> \<not> tracked md \<and> md \<noteq> []"
  by (auto simp: MODULES_def NET_EFFECTS_def tracked_def)

lemma in_direct_pairs: "(x, m, a) \<in> set (direct_pairs n) \<longleftrightarrow> tracked m \<and> binds_name n x m a"
  by (cases n) (auto simp: direct_pairs_def binds_name_def)

lemma in_alias_pairs: "(x, m) \<in> set (alias_pairs n) \<longleftrightarrow> tracked m \<and> binds_module n x m"
proof (cases n)
  case (NFrom md als)
  have "tracked (md @ ''.'' @ b) \<longleftrightarrow> md @ ''.'' @ b \<in> set MODULES" for b
    by (cases md) (auto simp: tracked_def append_eq_Cons_conv)
  then show ?thesis using submodule_of_package [of md] by (auto simp: NFrom alias_pairs_def binds_module_def)
qed (auto simp: alias_pairs_def binds_module_def)

lemma is_effect_tracked: "is_effect m a \<Longrightarrow> tracked m"
  by (auto simp: is_effect_def net_effect_def NET_EFFECTS_def tracked_def MODULES_def split: if_splits)

lemma import_is_named:
  assumes "is_effect m a" and "uses_import (set (walk (map snd (sf_body f)))) u m a"
  shows "names_effect (scope_of f) u m a"
proof -
  let ?ns = "walk [NOther (map snd (sf_body f))]"
  have ns: "set ?ns = insert (NOther (map snd (sf_body f))) (set (walk (map snd (sf_body f))))" by simp
  have none: "binds_name (NOther xs) x m a = False" "binds_module (NOther xs) x m = False" for xs x m a
    by (simp_all add: binds_name_def binds_module_def)
  have m: "tracked m" by (rule is_effect_tracked [OF assms(1)])
  have d: "(x, m', a') \<in> set (concat (map direct_pairs ?ns)) \<longleftrightarrow>
      (\<exists>i\<in>set (walk (map snd (sf_body f))). tracked m' \<and> binds_name i x m' a')" for x m' a'
    using none by (auto simp: in_direct_pairs ns)
  have al: "(x, m') \<in> set (concat (map alias_pairs ?ns)) \<longleftrightarrow>
      (\<exists>i\<in>set (walk (map snd (sf_body f))). tracked m' \<and> binds_module i x m')" for x m'
    using none by (auto simp: in_alias_pairs ns)
  from assms(2) consider l x where "u = NName l x True" "\<exists>i\<in>set (walk (map snd (sf_body f))). binds_name i x m a"
      "\<forall>i\<in>set (walk (map snd (sf_body f))). \<forall>m' a'. tracked m' \<longrightarrow> binds_name i x m' a' \<longrightarrow> m' = m \<and> a' = a"
    | l k x d where "u = NAttr l (NName k x d) a True" "\<exists>i\<in>set (walk (map snd (sf_body f))). binds_module i x m"
      "\<forall>i\<in>set (walk (map snd (sf_body f))). \<forall>m'. tracked m' \<longrightarrow> binds_module i x m' \<longrightarrow> m' = m"
    unfolding uses_import_def by blast
  then show ?thesis
  proof cases
    case 1
    have "map_of (bind_all (concat (map direct_pairs ?ns)) []) x = Some (m, a)"
    proof (rule bind_all_only)
      show "\<forall>v'. (x, v') \<in> set (concat (map direct_pairs ?ns)) \<longrightarrow> v' = (m, a)"
        using 1(3) d by (metis prod.exhaust)
      show "(x, m, a) \<in> set (concat (map direct_pairs ?ns)) \<or> map_of [] x = Some (m, a)"
        using 1(2) m d by blast
    qed
    then have "map_of (direct (scope_of f)) x = Some (m, a)" by (simp only: scope_of_def notes_direct scope.simps)
    then show ?thesis using 1(1) by (simp add: names_effect_def)
  next
    case 2
    have "map_of (bind_all (concat (map alias_pairs ?ns)) []) x = Some m"
    proof (rule bind_all_only)
      show "\<forall>v'. (x, v') \<in> set (concat (map alias_pairs ?ns)) \<longrightarrow> v' = m" using 2(3) al by blast
      show "(x, m) \<in> set (concat (map alias_pairs ?ns)) \<or> map_of [] x = Some m" using 2(2) m al by blast
    qed
    then have "map_of (aliases (scope_of f)) x = Some m" by (simp only: scope_of_def notes_aliases scope.simps)
    then show ?thesis using 2(1) by (simp add: names_effect_def)
  qed
qed

text \<open>C24: No imported effect is used without a site. If an import statement anywhere in a file of the package
  - at its top, in a function or a class, at any depth - binds a name to a listed effect
  (\<open>from module import effect\<close>) or to a listed module (\<open>import module\<close>,
  \<open>from package import module\<close>), under its own name or another, and no other import of a listed
  module in the file binds that name to something else, then every read of the name, or of the
  effect as an attribute of the module's name, anywhere in the file - called, passed along, or bound to
  another name, at any depth - gives a row of the inventory for that effect.\<close>

theorem imported_effect_has_a_site:
  assumes "f \<in> set fs" and "u \<in> set (walk (map snd (sf_body f)))" and "is_effect m a"
    and "uses_import (set (walk (map snd (sf_body f)))) u m a"
  shows "\<exists>l fn e. (sf_name f, l, e, fn) \<in> set (rows_of fs) \<and> (e = m @ ''.'' @ a \<or> e = ''reference:'' @ m @ ''.'' @ a)"
  by (rule named_effect_has_a_site [OF assms(1,2) import_is_named [OF assms(3,4)] assms(3)])

definition small_file :: "node \<Rightarrow> node \<Rightarrow> source_file" where
  \<comment> \<open>an import, and a function with one statement\<close>
  "small_file imp use =
     \<lparr>sf_name = ''m.py'',
      sf_body = [(''import'', imp),
                 (''def f(p): use'', NFun ''f'' ''def f(p): use'' [use])]\<rparr>"

definition remove_call :: "node \<Rightarrow> node" where
  "remove_call f = NOther [NCall 2 ''remove(p)'' f [NName 2 ''p'' True] []]"

definition local_file :: source_file where
  \<comment> \<open>a function that imports what it uses\<close>
  "local_file =
     \<lparr>sf_name = ''m.py'',
      sf_body = [(''def f(p): from os import remove as rm; rm(p)'', NFun ''f'' ''def f(p): from os import remove as rm; rm(p)''
        [NFrom ''os'' [(''remove'', ''rm'')], remove_call (NName 2 ''rm'' True)])]\<rparr>"

theorem imported_effect_has_a_site_witness:
  "\<exists>l fn e. (''m.py'', l, e, fn) \<in> set (rows_of [local_file]) \<and>
     (e = ''os'' @ ''.'' @ ''remove'' \<or> e = ''reference:'' @ ''os'' @ ''.'' @ ''remove'')"
proof -
  let ?stmts = "set (walk (map snd (sf_body local_file)))"
  have mem: "NName 2 ''rm'' True \<in> ?stmts" by (simp add: local_file_def remove_call_def)
  have "NFrom ''os'' [(''remove'', ''rm'')] \<in> ?stmts" by (simp add: local_file_def)
  moreover have "binds_name (NFrom ''os'' [(''remove'', ''rm'')]) ''rm'' ''os'' ''remove''" by (simp add: binds_name_def or_name_def)
  moreover have "\<forall>i\<in>?stmts. \<forall>m' a'. tracked m' \<longrightarrow> binds_name i ''rm'' m' a' \<longrightarrow> m' = ''os'' \<and> a' = ''remove''"
    by (simp add: local_file_def remove_call_def binds_name_def)
  ultimately have uses: "uses_import ?stmts (NName 2 ''rm'' True) ''os'' ''remove''" unfolding uses_import_def by blast
  have eff: "is_effect ''os'' ''remove''" by code_simp
  have "sf_name local_file = ''m.py''" by (simp add: local_file_def)
  with imported_effect_has_a_site [OF _ mem eff uses, of "[local_file]"] show ?thesis by simp
qed

text \<open>The names of a file share one table, although Python's imports in functions bind local names: an import in
  another function that binds the same name hides the effect of this one.\<close>

lemma other_import_hides_effect:
  "rows_of [\<lparr>sf_name = ''m.py'',
     sf_body = [(''def f(p): from os import remove as x; x(p)'', NFun ''f'' ''def f(p): from os import remove as x; x(p)''
        [NFrom ''os'' [(''remove'', ''x'')], remove_call (NName 2 ''x'' True)]),
       (''def g(): from os import path as x'', NFun ''g'' ''def g(): from os import path as x''
        [NFrom ''os'' [(''path'', ''x'')]])]\<rparr>] = []"
  by code_simp

lemma star_import_hides_effects:
  "rows_of [small_file (NFrom ''os'' [(''*'', [])]) (remove_call (NName 2 ''remove'' True))] = []"
  by code_simp

lemma dotted_reference_is_no_site:
  "rows_of [small_file (NImport [(''http.client'', [])])
     (NAssign [NName 2 ''c'' False] (NAttr 2 (NAttr 2 (NName 2 ''http'' True) ''client'' True) ''HTTPConnection'' True))] = []"
  by code_simp

text \<open>The constant of a class is in no fingerprint: neither a function's nor the module's.\<close>

definition class_constant :: "string \<Rightarrow> source_file" where
  "class_constant c =
     \<lparr>sf_name = ''m.py'',
      sf_body = [(''import os'', NImport [(''os'', [])]),
        (''class C: ROOT = '' @ c, NClass ''C''
           [NAssign [NName 2 ''ROOT'' False] (NStr c),
            NFun ''f'' ''def f(self): os.remove(self.ROOT)''
              [NOther [NCall 3 ''os.remove(self.ROOT)'' (NAttr 3 (NName 3 ''os'' True) ''remove'' True)
                         [NAttr 3 (NName 3 ''self'' True) ''ROOT'' True] []]]])]\<rparr>"

lemma class_constant_unnoticed: "take_inventory fp [class_constant c] = take_inventory fp [class_constant d]"
proof -
  have scope: "scope_of (class_constant x) = scope_of (class_constant [])" for x
    by (simp add: scope_of_def class_constant_def note_import_def)
  have ev: "file_events (class_constant x) = file_events (class_constant [])" for x
    unfolding file_events_def scope [of x] by (simp add: class_constant_def)
  have code: "module_code (class_constant x) = module_code (class_constant [])" for x
    by (simp add: module_code_def class_constant_def is_def_def)
  have name: "sf_name (class_constant x) = ''m.py''" "in_file (class_constant x) = in_file (class_constant [])" for x
    by (simp_all add: class_constant_def in_file_def fun_eq_iff)
  have calls: "all_calls [class_constant x] = all_calls [class_constant []]" for x
    by (simp add: all_calls_def ev [of x] name(2) [of x])
  have fps: "fps_of fp [class_constant x] = fps_of fp [class_constant []]" for x
    by (simp add: fps_of_def ev [of x] code [of x] name(2) [of x])
  have rows: "rows_of [class_constant x] = rows_of [class_constant []]" for x
    by (simp add: rows_of_def ev [of x] name [of x] name(1) [of "[]"])
  show ?thesis unfolding take_inventory_def calls [of c] calls [of d] fps [of c] fps [of d] rows [of c] rows [of d] by (rule refl)
qed

end
