(* ===== verification/EffectGate.thy ===== *)
theory EffectGate
  imports Inventory
begin

text \<open>
  The gate over the effect surface (\<open>scripts/check_effect_sites.py\<close>): the manifest of reviewed effect
  functions against the inventory. The manifest is a dictionary from functions to entries; a field
  that is absent is \<open>JNull\<close> or empty. Whether a cited test exists is an argument. Proved: what a green
  gate says of the package, and what accepting a review does.
\<close>

section \<open>The manifest\<close>

record reviewed =
  re_verdict :: json
  re_effects :: "(string \<times> int) list"
  re_authority :: json
  re_tests :: "string list"
  re_fingerprint :: json
  re_cone :: "(string \<times> json) list"

type_synonym manifest = "(string \<times> reviewed) list"

definition GUARDED :: "json list" where "GUARDED = [JStr ''CLOSED'', JStr ''CONTINUATION'']"
definition VERDICTS :: "json list" where "VERDICTS = GUARDED @ [JStr ''EXCEPTION'', JStr ''OPEN'']"

section \<open>The check\<close>

definition entry_bad :: "(string \<Rightarrow> bool) \<Rightarrow> string \<Rightarrow> reviewed \<Rightarrow> string list" where
  "entry_bad exists fn e =
     (let v = re_verdict e in
      (if v \<notin> set VERDICTS then [fn @ '': verdict '' @ py_repr v @ '' is not a verdict''] else []) @
      (if v = JStr ''OPEN'' then [fn @ '': OPEN, a governed effect with no authority behind it''] else []) @
      (if \<not> truthy (re_authority e) then [fn @ '': no authority stated''] else []) @
      (if v \<in> set GUARDED \<and> re_tests e = [] then [fn @ '': '' @ py_str v @ '' cites no test''] else []) @
      map (\<lambda>t. fn @ '': cited test '' @ t @ '' does not exist'') (filter (\<lambda>t. \<not> exists t) (re_tests e)))"

definition cone_review :: "string \<Rightarrow> (string \<times> json) list \<Rightarrow> (string \<times> string) list \<Rightarrow> string list" where
  \<comment> \<open>the reviewed cone against the current one\<close>
  "cone_review fn mr cr =
     concat (map (\<lambda>a.
       if map_of mr a = None then [fn @ '': '' @ a @ '' is new in its cone'']
       else if map_of cr a = None then [fn @ '': '' @ a @ '' has left its cone'']
       else if map_of mr a \<noteq> map_option JStr (map_of cr a) then [fn @ '': '' @ a @ '', in its cone, changed''] else [])
     (sort (remdups (map fst mr @ map fst cr))))"

definition entry_review :: "inventory \<Rightarrow> string \<Rightarrow> reviewed \<Rightarrow> string list" where
  "entry_review iv fn e =
     (case map_of (iv_functions iv) fn of
        None \<Rightarrow> []
      | Some (f, cr) \<Rightarrow>
          (if re_fingerprint e \<noteq> JStr f then [fn @ '': its code changed since its verdict was reviewed''] else []) @
          (if re_verdict e \<in> set GUARDED then cone_review fn (re_cone e) cr else []))"

definition expected_keys :: "manifest \<Rightarrow> (string \<times> string) list" where
  "expected_keys man = concat (map (\<lambda>(fn, e). map (\<lambda>(eff, n). (fn, eff)) (re_effects e)) man)"

definition expected :: "manifest \<Rightarrow> string \<times> string \<Rightarrow> int" where
  "expected man k = sum_list (concat (map (\<lambda>(fn, e). map (\<lambda>(eff, n). if (fn, eff) = k then n else 0) (re_effects e)) man))"

definition found :: "inventory \<Rightarrow> string \<times> string \<Rightarrow> int" where
  "found iv k = int (count_list (iv_sites iv) k)"

definition count_bad :: "inventory \<Rightarrow> manifest \<Rightarrow> string list" where
  "count_bad iv man =
     map (\<lambda>k. fst k @ '' '' @ snd k @ '': found '' @ show_int (found iv k) @ '', manifest says '' @ show_int (expected man k))
       (filter (\<lambda>k. found iv k \<noteq> expected man k) (sort (remdups (iv_sites iv @ expected_keys man))))"

definition bad_of :: "(string \<Rightarrow> bool) \<Rightarrow> inventory \<Rightarrow> manifest \<Rightarrow> string list" where
  "bad_of exists iv man = concat (map (\<lambda>(fn, e). entry_bad exists fn e) man) @ count_bad iv man"

definition review_of :: "inventory \<Rightarrow> manifest \<Rightarrow> string list" where
  "review_of iv man = concat (map (\<lambda>(fn, e). entry_review iv fn e) man)"

definition tally :: "manifest \<Rightarrow> string \<Rightarrow> int" where
  "tally man v = sum_list (map (\<lambda>(fn, e). if re_verdict e = JStr v then sum_list (map snd (re_effects e)) else 0) man)"

definition summary_line :: "inventory \<Rightarrow> manifest \<Rightarrow> string" where
  "summary_line iv man =
     ''effect sites: '' @ show_nat (length (iv_sites iv)) @ '' found, '' @
     show_int (sum_list (map (\<lambda>(fn, e). sum_list (map snd (re_effects e))) man)) @ '' classified ('' @
     show_int (tally man ''CLOSED'') @ '' closed, '' @ show_int (tally man ''CONTINUATION'') @ '' continuation, '' @
     show_int (tally man ''EXCEPTION'') @ '' exception, '' @ show_int (tally man ''OPEN'') @ '' open); '' @
     show_nat (length (review_of iv man)) @ '' changes awaiting review''"

definition gate_check :: "(string \<Rightarrow> bool) \<Rightarrow> inventory \<Rightarrow> manifest \<Rightarrow> string list \<times> nat" where
  "gate_check exists iv man =
     (map (\<lambda>b. ''EFFECT '' @ b) (bad_of exists iv man) @ map (\<lambda>r. ''REVIEW '' @ r) (review_of iv man) @ [summary_line iv man],
      if bad_of exists iv man = [] \<and> review_of iv man = [] then 0 else 1)"

section \<open>Accepting a review\<close>

definition accept_entry :: "string \<times> (string \<times> string) list \<Rightarrow> reviewed \<Rightarrow> reviewed" where
  "accept_entry cur e =
     (case cur of (f, cr) \<Rightarrow>
        e\<lparr>re_fingerprint := JStr f,
          re_cone := if re_verdict e \<in> set GUARDED then map (\<lambda>(a, x). (a, JStr x)) cr else []\<rparr>)"

fun accept_all :: "inventory \<Rightarrow> manifest \<Rightarrow> manifest option" where
  \<comment> \<open>\<open>None\<close>: \<open>KeyError\<close>, an entry without any effect whose function is not in the inventory\<close>
  "accept_all iv [] = Some []"
| "accept_all iv ((fn, e) # man) =
     (case map_of (iv_functions iv) fn of
        None \<Rightarrow> None
      | Some cur \<Rightarrow> map_option (\<lambda>m. (fn, accept_entry cur e) # m) (accept_all iv man))"

datatype accepted = NotClassified "string list" | KeyMissing | Accepted manifest

definition gate_accept :: "(string \<Rightarrow> bool) \<Rightarrow> inventory \<Rightarrow> manifest \<Rightarrow> accepted" where
  \<comment> \<open>\<open>--accept\<close>\<close>
  "gate_accept exists iv man =
     (if bad_of exists iv man \<noteq> [] then NotClassified (bad_of exists iv man)
      else case accept_all iv man of None \<Rightarrow> KeyMissing | Some m \<Rightarrow> Accepted m)"

section \<open>Closures\<close>

definition edge_rel :: "(string \<times> string list) list \<Rightarrow> (string \<times> string) set" where
  "edge_rel g = {(x, y). y \<in> set (edges g x)}"

lemma closure_sound: "set (closure g seen todo) \<subseteq> set seen \<union> (edge_rel g)\<^sup>* `` set todo"
proof (induction g seen todo rule: closure.induct)
  case (2 g seen x todo)
  let ?fresh = "filter (\<lambda>c. c \<notin> set seen) (remdups (edges g x))"
  have step: "(edge_rel g)\<^sup>* `` set ?fresh \<subseteq> (edge_rel g)\<^sup>* `` {x}"
    by (auto simp: edge_rel_def intro: converse_rtrancl_into_rtrancl)
  have "set (closure g seen (x # todo)) \<subseteq> set (seen @ ?fresh) \<union> (edge_rel g)\<^sup>* `` set (rev ?fresh @ todo)"
    using 2 by (simp add: Let_def)
  also have "\<dots> \<subseteq> set seen \<union> (edge_rel g)\<^sup>* `` set (x # todo)" using step by auto
  finally show ?case .
qed simp

lemma closure_keeps: "set seen \<subseteq> set (closure g seen todo)"
proof (induction g seen todo rule: closure.induct)
  case (2 g seen x todo)
  then show ?case by (auto simp: Let_def)
qed simp

lemma closure_closed:
  assumes "\<forall>x \<in> set seen - set todo. set (edges g x) \<subseteq> set seen"
  shows "\<forall>x \<in> set (closure g seen todo). set (edges g x) \<subseteq> set (closure g seen todo)"
  using assms
proof (induction g seen todo rule: closure.induct)
  case (2 g seen x todo)
  let ?fresh = "filter (\<lambda>c. c \<notin> set seen) (remdups (edges g x))"
  have "\<forall>y \<in> set (seen @ ?fresh) - set (rev ?fresh @ todo). set (edges g y) \<subseteq> set (seen @ ?fresh)"
    using 2(2) by auto
  from 2(1) [OF refl this] show ?case by (simp add: Let_def)
qed simp

lemma closure_reaches: "set (closure g s (rev s)) = (edge_rel g)\<^sup>* `` set s"
proof
  show "set (closure g s (rev s)) \<subseteq> (edge_rel g)\<^sup>* `` set s" using closure_sound [of g s "rev s"] by auto
  have closed: "edge_rel g `` set (closure g s (rev s)) \<subseteq> set (closure g s (rev s))"
    using closure_closed [of s "rev s" g] by (auto simp: edge_rel_def)
  have "(edge_rel g)\<^sup>* `` set (closure g s (rev s)) \<subseteq> set (closure g s (rev s))"
    using Image_closed_trancl [OF closed] by simp
  then show "(edge_rel g)\<^sup>* `` set s \<subseteq> set (closure g s (rev s))" using closure_keeps [of s g "rev s"] by blast
qed

section \<open>Cones\<close>

definition known :: "(string \<Rightarrow> string) \<Rightarrow> source_file list \<Rightarrow> string list" where
  "known fp fs = map fst (fps_of fp fs)"

definition route :: "source_file list \<Rightarrow> string set \<Rightarrow> (string \<times> string) set" where
  \<comment> \<open>from a function to one of the known functions it calls or refers to by name\<close>
  "route fs K = {(g, f). f \<in> K \<and> (g, short f) \<in> set (all_calls fs) \<and> g \<noteq> f}"

lemma map_of_keys: "map_of (map (\<lambda>d. (d, F d)) us) x = (if x \<in> set us then Some (F x) else None)"
  by (induction us) auto

lemma edges_callers: "edges (callers_of calls ks) f =
    (if f \<in> set ks then remdups (map fst (filter (\<lambda>(g, x). x = short f \<and> f \<noteq> g) calls)) else [])"
  by (simp add: edges_def get_or_def callers_of_def map_of_keys)

lemma edge_callers: "edge_rel (callers_of (all_calls fs) ks) = (route fs (set ks))\<inverse>"
  by (force simp: edge_rel_def edges_callers route_def)

lemma edges_callees: "edges (callees_of g) c =
    (if c \<in> \<Union> (set ` snd ` set g) then map fst (filter (\<lambda>(f, cs). c \<in> set cs) g) else [])"
  by (simp add: edges_def get_or_def callees_of_def map_of_keys)

lemma callers_pairs: "(f, cs) \<in> set (callers_of (all_calls fs) ks) \<Longrightarrow> g \<in> set cs \<longleftrightarrow> (g, f) \<in> route fs (set ks)"
  by (force simp: callers_of_def route_def)

lemma edge_callees: "edge_rel (callees_of (callers_of (all_calls fs) ks)) = route fs (set ks)"
proof -
  let ?g = "callers_of (all_calls fs) ks"
  have "f \<in> set (edges (callees_of ?g) g) \<longleftrightarrow> (\<exists>cs. (f, cs) \<in> set ?g \<and> g \<in> set cs)" for f g
    by (force simp: edges_callees)
  moreover have "(\<exists>cs. (f, cs) \<in> set ?g \<and> g \<in> set cs) \<longleftrightarrow> (g, f) \<in> route fs (set ks)" for f g
  proof
    assume "(g, f) \<in> route fs (set ks)"
    then have "f \<in> set ks" by (simp add: route_def)
    then obtain cs where "(f, cs) \<in> set ?g" by (auto simp: callers_of_def)
    with \<open>(g, f) \<in> route fs (set ks)\<close> callers_pairs show "\<exists>cs. (f, cs) \<in> set ?g \<and> g \<in> set cs" by blast
  qed (use callers_pairs in blast)
  ultimately show ?thesis by (auto simp: edge_rel_def)
qed

definition depends :: "source_file list \<Rightarrow> string set \<Rightarrow> string \<Rightarrow> string set" where
  \<comment> \<open>the functions on a route into \<open>fn\<close>, everything called along them, and the code of their modules\<close>
  "depends fs K fn =
     (let R = (route fs K)\<^sup>*; up = {g. (g, fn) \<in> R}; both = up \<union> R `` up
      in both \<union> (\<lambda>m. before_colon m @ '':<module>'') ` both)"

lemma cone_depends:
  "set (cone (callers_of (all_calls fs) ks) (callees_of (callers_of (all_calls fs) ks)) fn) = depends fs (set ks) fn - {fn}"
proof -
  let ?R = "route fs (set ks)"
  let ?up = "closure (callers_of (all_calls fs) ks) [fn] [fn]"
  have up: "set ?up = {g. (g, fn) \<in> ?R\<^sup>*}"
    using closure_reaches [of "callers_of (all_calls fs) ks" "[fn]"]
    by (simp add: edge_callers rtrancl_converse) blast
  have down: "set (closure (callees_of (callers_of (all_calls fs) ks)) ?up (rev ?up)) = ?R\<^sup>* `` set ?up"
    by (simp add: closure_reaches edge_callees)
  show ?thesis unfolding cone_def Let_def depends_def using up down by auto
qed

section \<open>A green gate\<close>

definition manifest_ok :: "manifest \<Rightarrow> bool" where
  \<comment> \<open>dictionaries have each key once\<close>
  "manifest_ok man \<longleftrightarrow> distinct (map fst man) \<and> list_all (\<lambda>(fn, e). distinct (map fst (re_effects e))) man"

lemma fold_dset_distinct: "distinct (map fst d) \<Longrightarrow> distinct (map fst (fold (\<lambda>(k, v) d. dset d k (g v)) kvs d))"
  by (induction kvs arbitrary: d) (auto simp: distinct_dset)

lemma known_distinct: "distinct (known fp fs)"
  unfolding known_def fps_of_def by (rule fold_dset_distinct) simp

lemma sum_single: "distinct (map fst d) \<Longrightarrow> sum_list (map (\<lambda>(k, v). if k = x then f v else (0::int)) d) =
    (case map_of d x of None \<Rightarrow> 0 | Some v \<Rightarrow> f v)"
proof (induction d)
  case (Cons kv d)
  obtain k v where kv: "kv = (k, v)" by (cases kv)
  show ?case
  proof (cases "k = x")
    case True
    then have "map_of d x = None" using Cons.prems by (auto simp: kv map_of_eq_None_iff)
    then show ?thesis using Cons True by (simp add: kv)
  next
    case False
    then show ?thesis using Cons by (simp add: kv)
  qed
qed simp

lemma sum_list_of_concat: "sum_list (concat xss) = sum_list (map sum_list (xss :: int list list))"
  by (induction xss) auto

lemma expected_entry:
  assumes "manifest_ok man"
  shows "expected man (fn, eff) =
    (case map_of man fn of None \<Rightarrow> 0 | Some e \<Rightarrow> (case map_of (re_effects e) eff of None \<Rightarrow> 0 | Some n \<Rightarrow> n))"
proof -
  have one: "sum_list (map (\<lambda>(ef, n). if (f, ef) = (fn, eff) then n else 0) (re_effects e)) =
      (if f = fn then (case map_of (re_effects e) eff of None \<Rightarrow> 0 | Some n \<Rightarrow> n) else 0)" if "(f, e) \<in> set man" for f e
  proof (cases "f = fn")
    case True
    have "distinct (map fst (re_effects e))" using assms that by (auto simp: manifest_ok_def list_all_iff)
    from sum_single [OF this, of eff "\<lambda>n. n"] True show ?thesis by simp
  qed (simp add: case_prod_unfold)
  have "expected man (fn, eff) = sum_list (map (\<lambda>(f, e). sum_list (map (\<lambda>(ef, n). if (f, ef) = (fn, eff) then n else 0) (re_effects e))) man)"
    unfolding expected_def sum_list_of_concat by (simp add: case_prod_unfold comp_def)
  also have "\<dots> = sum_list (map (\<lambda>(f, e). if f = fn then (case map_of (re_effects e) eff of None \<Rightarrow> 0 | Some n \<Rightarrow> n) else 0) man)"
    by (rule arg_cong [where f = sum_list], rule map_cong [OF refl]) (use one in auto)
  finally show ?thesis using assms sum_single [of man fn "\<lambda>e. case map_of (re_effects e) eff of None \<Rightarrow> 0 | Some n \<Rightarrow> n"]
    by (simp add: manifest_ok_def)
qed

lemma count_map: "count_list (map g xs) k = length (filter (\<lambda>x. g x = k) xs)"
  by (induction xs) auto

lemma found_rows:
  "found (take_inventory fp fs) (fn, eff) = int (length (filter (\<lambda>(m, l, e, f). f = fn \<and> e = eff) (rows_of fs)))"
proof -
  have "(\<lambda>x :: string \<times> nat \<times> string \<times> string. (case x of (m, l, e, f) \<Rightarrow> (f, e)) = (fn, eff)) = (\<lambda>(m, l, e, f). f = fn \<and> e = eff)"
    by auto
  moreover have "length (filter P (sort rows)) = length (filter P rows)" for P and rows :: "(string \<times> nat \<times> string \<times> string) list"
    by (metis mset_filter mset_sort size_mset)
  ultimately show ?thesis by (simp add: found_def take_inventory_def Let_def count_map)
qed

lemma inventory_functions:
  "map_of (iv_functions (take_inventory fp fs)) fn =
     (if fn \<in> (\<lambda>(m, l, e, f). f) ` set (rows_of fs)
      then Some (get_or (fps_of fp fs) fn ''?'', map (\<lambda>a. (a, get_or (fps_of fp fs) a ''?''))
             (cone (callers_of (all_calls fs) (known fp fs)) (callees_of (callers_of (all_calls fs) (known fp fs))) fn))
      else None)"
  unfolding take_inventory_def Let_def known_def inventory.simps map_of_keys
  by (simp only: set_sort set_remdups set_map)

lemma cone_review_none: "cone_review fn mr cr = [] \<longleftrightarrow> (\<forall>a \<in> set (map fst mr) \<union> set (map fst cr).
    map_of mr a \<noteq> None \<and> map_of cr a \<noteq> None \<and> map_of mr a = map_option JStr (map_of cr a))"
  unfolding cone_review_def concat_eq_Nil_conv set_map set_sort set_remdups set_append ball_simps(9)
  by (rule ball_cong [OF refl]) simp

lemma cone_unchanged:
  assumes "cone_review fn mr cr = []"
  shows "set (map fst mr) = set (map fst cr) \<and> (\<forall>a x. map_of cr a = Some x \<longrightarrow> map_of mr a = Some (JStr x))"
proof -
  have each: "map_of mr a \<noteq> None \<and> map_of cr a \<noteq> None \<and> map_of mr a = map_option JStr (map_of cr a)"
    if "a \<in> set (map fst mr) \<union> set (map fst cr)" for a
    using assms that unfolding cone_review_none by blast
  have "a \<in> set (map fst mr) \<longleftrightarrow> a \<in> set (map fst cr)" for a
    using each [of a] unfolding map_of_eq_None_iff by auto
  moreover have "map_of mr a = Some (JStr x)" if "map_of cr a = Some x" for a x
  proof -
    have "a \<in> set (map fst cr)" using map_of_SomeD [OF that] by force
    then show ?thesis using each [of a] that by simp
  qed
  ultimately show ?thesis by blast
qed

lemma entry_reviewed:
  assumes "entry_review iv fn e = []" and "map_of (iv_functions iv) fn = Some (f, cr)"
  shows "re_fingerprint e = JStr f" and "re_verdict e \<in> set GUARDED \<Longrightarrow> cone_review fn (re_cone e) cr = []"
  using assms by (auto simp: entry_review_def split: if_splits)

text \<open>C23: What a green effect gate says. If \<open>check_effect_sites.py\<close> exits with 0, every effect site of the
  package belongs to a function of the manifest that has a verdict other than \<open>OPEN\<close> and an authority, whose
  sites of that kind are as many as the manifest says and whose code is the reviewed code; and for a
  guarded verdict every function on a route into it, everything called along the routes, and
  the code of their modules are exactly those of the reviewed cone, with the reviewed fingerprints.\<close>

theorem green_gate_binds_every_site:
  assumes "snd (gate_check exists (take_inventory fp fs) man) = 0" and "manifest_ok man"
    and "(m, l, eff, fn) \<in> set (rows_of fs)"
  shows "\<exists>e. map_of man fn = Some e \<and> re_verdict e \<in> set VERDICTS - {JStr ''OPEN''} \<and> truthy (re_authority e) \<and>
    map_of (re_effects e) eff = Some (int (length (filter (\<lambda>(m, l, x, f). f = fn \<and> x = eff) (rows_of fs)))) \<and>
    re_fingerprint e = JStr (get_or (fps_of fp fs) fn ''?'') \<and>
    (re_verdict e \<in> set GUARDED \<longrightarrow> re_tests e \<noteq> [] \<and> list_all exists (re_tests e) \<and>
       set (map fst (re_cone e)) = depends fs (set (known fp fs)) fn - {fn} \<and>
       (\<forall>h \<in> depends fs (set (known fp fs)) fn - {fn}. map_of (re_cone e) h = Some (JStr (get_or (fps_of fp fs) h ''?''))))"
proof -
  let ?iv = "take_inventory fp fs"
  let ?n = "int (length (filter (\<lambda>(m, l, x, f). f = fn \<and> x = eff) (rows_of fs)))"
  have quiet: "bad_of exists ?iv man = []" "review_of ?iv man = []"
    using assms(1) by (simp_all add: gate_check_def split: if_splits)
  have site: "(fn, eff) \<in> set (iv_sites ?iv)" using assms(3) by (force simp: take_inventory_def Let_def)
  have "found ?iv (fn, eff) = expected man (fn, eff)"
    using quiet(1) site by (fastforce simp: bad_of_def count_bad_def filter_empty_conv)
  then have n: "?n = expected man (fn, eff)" by (simp only: found_rows)
  have "filter (\<lambda>(m, l, x, f). f = fn \<and> x = eff) (rows_of fs) \<noteq> []" using assms(3) by (auto simp: filter_empty_conv)
  then have "?n \<noteq> 0" by simp
  then obtain e where e: "map_of man fn = Some e" "map_of (re_effects e) eff = Some ?n"
    using n expected_entry [OF assms(2), of fn eff] by (auto split: option.splits)
  have mem: "(fn, e) \<in> set man" using e(1) by (rule map_of_SomeD)
  have eb: "entry_bad exists fn e = []" and er: "entry_review ?iv fn e = []"
    using quiet mem by (auto simp: bad_of_def review_of_def)
  have "fn \<in> (\<lambda>(m, l, e, f). f) ` set (rows_of fs)" using assms(3) by force
  from inventory_functions [of fp fs fn] this
  have cur: "map_of (iv_functions ?iv) fn = Some (get_or (fps_of fp fs) fn ''?'', map (\<lambda>a. (a, get_or (fps_of fp fs) a ''?''))
             (cone (callers_of (all_calls fs) (known fp fs)) (callees_of (callers_of (all_calls fs) (known fp fs))) fn))" by simp
  have cone: "set (map fst (re_cone e)) = depends fs (set (known fp fs)) fn - {fn} \<and>
      (\<forall>h \<in> depends fs (set (known fp fs)) fn - {fn}. map_of (re_cone e) h = Some (JStr (get_or (fps_of fp fs) h ''?'')))"
    if "re_verdict e \<in> set GUARDED"
    using cone_unchanged [OF entry_reviewed(2) [OF er cur that]] cone_depends [of fs "known fp fs" fn]
    by (auto simp: comp_def map_of_keys)
  show ?thesis
    using e eb cone entry_reviewed(1) [OF er cur]
    by (intro exI [of _ e]) (auto simp: entry_bad_def Let_def filter_empty_conv list_all_iff split: if_splits)
qed

definition two_functions :: "source_file list" where
  \<comment> \<open>\<open>f\<close> removes a file, \<open>g\<close> calls \<open>f\<close>\<close>
  "two_functions =
     [\<lparr>sf_name = ''m.py'',
       sf_body = [(''import os'', NImport [(''os'', [])]),
         (''def f'', NFun ''f'' ''def f'' [NCall 2 ''os.remove(p)'' (NAttr 2 (NName 2 ''os'' True) ''remove'' True) [NName 2 ''p'' True] []]),
         (''def g'', NFun ''g'' ''def g'' [NCall 4 ''f(1)'' (NName 4 ''f'' True) [] []])]\<rparr>]"

definition two_functions_manifest :: manifest where
  "two_functions_manifest =
     [(''m.py:f'', \<lparr>re_verdict = JStr ''CLOSED'', re_effects = [(''os.remove'', 1)], re_authority = JStr ''g'',
        re_tests = [''tests/t.py''], re_fingerprint = JStr ''def f'',
        re_cone = [(''m.py:<module>'', JStr ''import os''), (''m.py:g'', JStr ''def g'')]\<rparr>)]"

lemma two_functions_inventory:
  "take_inventory (\<lambda>t. t) two_functions =
     \<lparr>iv_sites = [(''m.py:f'', ''os.remove'')],
      iv_functions = [(''m.py:f'', ''def f'', [(''m.py:<module>'', ''import os''), (''m.py:g'', ''def g'')])]\<rparr>"
  by code_simp

theorem green_gate_binds_every_site_witness:
  "map_of two_functions_manifest ''m.py:f'' \<noteq> None \<and>
   snd (gate_check (\<lambda>t. True) (take_inventory (\<lambda>t. t) two_functions) two_functions_manifest) = 0"
proof -
  have green: "snd (gate_check (\<lambda>t. True) (take_inventory (\<lambda>t. t) two_functions) two_functions_manifest) = 0"
    unfolding two_functions_inventory by code_simp
  have once: "manifest_ok two_functions_manifest" by code_simp
  have "rows_of two_functions = [(''m.py'', 2, ''os.remove'', ''m.py:f'')]" by code_simp
  then have site: "(''m.py'', 2, ''os.remove'', ''m.py:f'') \<in> set (rows_of two_functions)" by simp
  from green_gate_binds_every_site [OF green once site] green show ?thesis by auto
qed

section \<open>Accepting\<close>

lemma accept_entry_keeps [simp]:
  "re_verdict (accept_entry cur e) = re_verdict e" "re_effects (accept_entry cur e) = re_effects e"
  "re_authority (accept_entry cur e) = re_authority e" "re_tests (accept_entry cur e) = re_tests e"
  by (cases cur, simp add: accept_entry_def)+

lemma accept_all_pointwise:
  assumes "accept_all iv man = Some man'"
  shows "list_all2 (\<lambda>(fn, e) (fn', e'). fn' = fn \<and> (\<exists>cur. map_of (iv_functions iv) fn = Some cur \<and> e' = accept_entry cur e)) man man'"
  using assms by (induction iv man arbitrary: man' rule: accept_all.induct) (auto split: option.splits)

lemma entry_bad_cong:
  assumes "re_verdict e' = re_verdict e" "re_authority e' = re_authority e" "re_tests e' = re_tests e"
  shows "entry_bad exists fn e' = entry_bad exists fn e"
  using assms by (simp add: entry_bad_def)

lemma accepted_entry_review:
  assumes "map_of (iv_functions iv) fn = Some cur"
  shows "entry_review iv fn (accept_entry cur e) = []"
proof -
  obtain f cr where cur: "cur = (f, cr)" by (cases cur)
  have "cone_review fn (map (\<lambda>(a, x). (a, JStr x)) cr) cr = []"
    unfolding cone_review_none map_of_map by (auto simp: map_of_eq_None_iff case_prod_unfold image_image)
  then show ?thesis using assms by (simp add: entry_review_def cur accept_entry_def)
qed

lemma accept_all_same:
  assumes "accept_all iv man = Some man'"
  shows "bad_of exists iv man' = bad_of exists iv man" and "review_of iv man' = []"
    and "map (\<lambda>(fn, e). (fn, re_verdict e, re_effects e, re_authority e, re_tests e)) man' =
         map (\<lambda>(fn, e). (fn, re_verdict e, re_effects e, re_authority e, re_tests e)) man"
proof -
  note pw = accept_all_pointwise [OF assms]
  have eff: "map (\<lambda>(fn, e). (fn, re_effects e)) man' = map (\<lambda>(fn, e). (fn, re_effects e)) man"
    using pw by (induction rule: list_all2_induct) auto
  have bad: "concat (map (\<lambda>(fn, e). entry_bad exists fn e) man') = concat (map (\<lambda>(fn, e). entry_bad exists fn e) man)"
    using pw by (induction rule: list_all2_induct) (auto simp: entry_bad_cong [of "accept_entry _ _"])
  have "expected_keys man = concat (map (\<lambda>(fn, es). map (\<lambda>(eff, n). (fn, eff)) es) (map (\<lambda>(fn, e). (fn, re_effects e)) man))" for man
    by (simp add: expected_keys_def case_prod_unfold comp_def)
  then have keys: "expected_keys man' = expected_keys man" using eff by metis
  have "expected man k = sum_list (concat (map (\<lambda>(fn, es). map (\<lambda>(eff, n). if (fn, eff) = k then n else 0) es) (map (\<lambda>(fn, e). (fn, re_effects e)) man)))" for man k
    by (simp add: expected_def case_prod_unfold comp_def)
  then have ex: "expected man' = expected man" using eff by presburger
  show "bad_of exists iv man' = bad_of exists iv man" unfolding bad_of_def bad count_bad_def keys ex by (rule refl)
  show "review_of iv man' = []" unfolding review_of_def
    using pw by (induction rule: list_all2_induct) (auto simp: accepted_entry_review)
  show "map (\<lambda>(fn, e). (fn, re_verdict e, re_effects e, re_authority e, re_tests e)) man' =
        map (\<lambda>(fn, e). (fn, re_verdict e, re_effects e, re_authority e, re_tests e)) man"
    using pw by (induction rule: list_all2_induct) auto
qed

text \<open>C36: What \<open>--accept\<close> does. It never classifies: verdicts, counts, authorities and tests stay as they were
  written, and it refuses while the check of them reports anything. What it writes passes the gate on the same
  package, and a second \<open>--accept\<close> changes nothing.\<close>

theorem accept_records_the_review:
  assumes "gate_accept exists iv man = Accepted man'"
  shows "snd (gate_check exists iv man') = 0 \<and> bad_of exists iv man = [] \<and> gate_accept exists iv man' = Accepted man' \<and>
    map (\<lambda>(fn, e). (fn, re_verdict e, re_effects e, re_authority e, re_tests e)) man' =
    map (\<lambda>(fn, e). (fn, re_verdict e, re_effects e, re_authority e, re_tests e)) man"
proof -
  have bad: "bad_of exists iv man = []" and all: "accept_all iv man = Some man'"
    using assms by (auto simp: gate_accept_def split: if_splits option.splits)
  have "accept_all iv man' = Some man'"
    using accept_all_pointwise [OF all]
    by (induction rule: list_all2_induct) (auto simp: accept_entry_def split: prod.splits)
  then show ?thesis using accept_all_same(1) [OF all, of exists] accept_all_same(2,3) [OF all] bad by (simp add: gate_check_def gate_accept_def)
qed

theorem accept_records_the_review_witness:
  "\<exists>man'. gate_accept (\<lambda>t. True) (take_inventory (\<lambda>t. t) two_functions)
            (map (\<lambda>(fn, e). (fn, e\<lparr>re_cone := []\<rparr>)) two_functions_manifest) = Accepted man' \<and>
          snd (gate_check (\<lambda>t. True) (take_inventory (\<lambda>t. t) two_functions) man') = 0"
proof -
  have "gate_accept (\<lambda>t. True) (take_inventory (\<lambda>t. t) two_functions)
            (map (\<lambda>(fn, e). (fn, e\<lparr>re_cone := []\<rparr>)) two_functions_manifest) = Accepted two_functions_manifest"
    unfolding two_functions_inventory by code_simp
  from accept_records_the_review [OF this] this show ?thesis by blast
qed

end
