(* ===== verification/CiGate.thy ===== *)
theory CiGate
  imports Json
begin

text \<open>
  The gate of the repository run locally (\<open>scripts/ci_local.py\<close>: the steps read from the lines of
  the workflow file, and run in order) and the mutation gate over it
  (\<open>scripts/mutation_gate.py\<close>: the edit of a source, the verdict on the run of the mutated clone).
  What a command does is an argument: a state, here the clone, and a function from it and the text given
  to \<open>bash -c\<close> to the exit code, the output and the next state. Making the clone and its environment is not
  modelled, nor is the table of the mutations.
\<close>

section \<open>The steps of the workflow\<close>

definition step_line :: "string \<Rightarrow> bool" where
  \<comment> \<open>\<open>re.match(r"\s*- name:", line)\<close>\<close>
  "step_line l = startswith (dropWhile py_space l) ''- name:''"

definition step_name :: "string \<Rightarrow> string option" where
  \<comment> \<open>\<open>re.match(r"\s*- name: (.*)", line)\<close>\<close>
  "step_name l = (let r = dropWhile py_space l in if startswith r ''- name: '' then Some (drop 8 r) else None)"

definition run_block :: "string \<Rightarrow> bool" where
  \<comment> \<open>\<open>re.match(r"\s*run: \|\s*$", line)\<close>\<close>
  "run_block l = (let r = dropWhile py_space l in startswith r ''run: |'' \<and> list_all py_space (drop 6 r))"

definition run_line :: "string \<Rightarrow> string option" where
  \<comment> \<open>\<open>re.match(r"\s*run: (.+)$", line)\<close>\<close>
  "run_line l = (let r = dropWhile py_space l in if startswith r ''run: '' \<and> drop 5 r \<noteq> [] then Some (drop 5 r) else None)"

fun block_body :: "string option \<Rightarrow> string list \<Rightarrow> string list" where
  \<comment> \<open>the loop over \<open>k\<close>, with the indentation of the block\<close>
  "block_body ind [] = []"
| "block_body ind (l # ls) =
     (if strip l = [] then [] # block_body ind ls
      else let d = (case ind of None \<Rightarrow> takeWhile py_space l | Some d \<Rightarrow> d)
           in if \<not> startswith l d then [] else drop (length d) l # block_body (Some d) ls)"

fun step_cmd :: "string option \<Rightarrow> string list \<Rightarrow> string option \<times> string list" where
  \<comment> \<open>the loop over \<open>j\<close>: the command, and the lines from the next step on\<close>
  "step_cmd cmd [] = (cmd, [])"
| "step_cmd cmd (l # ls) =
     (if step_line l then (cmd, l # ls)
      else if run_block l then step_cmd (Some (join_with [CHR 0x0A] (block_body None ls))) ls
      else case run_line l of Some c \<Rightarrow> step_cmd (Some c) ls | None \<Rightarrow> step_cmd cmd ls)"

lemma step_cmd_shorter: "length (snd (step_cmd cmd ls)) \<le> length ls"
  by (induction cmd ls rule: step_cmd.induct) (auto split: option.splits)

function steps_of :: "string list \<Rightarrow> (string \<times> string) list" where
  "steps_of [] = []"
| "steps_of (l # ls) =
     (case step_name l of
        None \<Rightarrow> steps_of ls
      | Some name \<Rightarrow>
          (case fst (step_cmd None ls) of
             Some cmd \<Rightarrow> if cmd \<noteq> [] then [(name, cmd)] else []
           | None \<Rightarrow> []) @ steps_of (snd (step_cmd None ls)))"
  by pat_completeness auto
termination by (relation "measure length") (auto simp: less_Suc_eq_le step_cmd_shorter)

section \<open>Running them\<close>

type_synonym 'w shell = "'w \<Rightarrow> string \<Rightarrow> int \<times> string \<times> 'w"
  \<comment> \<open>exit code, standard output and error, the state afterwards\<close>

definition ci_command :: "string \<Rightarrow> string" where
  "ci_command cmd = replace_all ''python '' ''python3 '' cmd"

definition tail_of :: "nat \<Rightarrow> string \<Rightarrow> string" where
  \<comment> \<open>\<open>s[-n:]\<close>\<close>
  "tail_of n s = drop (length s - n) s"

fun run_steps :: "'w shell \<Rightarrow> 'w \<Rightarrow> (string \<times> string) list \<Rightarrow> string list \<times> nat" where
  \<comment> \<open>the lines printed, and the exit code\<close>
  "run_steps sh w [] = ([], 0)"
| "run_steps sh w ((name, cmd) # steps) =
     (case sh w (ci_command cmd) of (rc, out, w') \<Rightarrow>
        if rc \<noteq> 0
        then ([''FAILED  '' @ name, tail_of 1500 out, ''full output of every step: /tmp/darm-ci-local.log''], 1)
        else case run_steps sh w' steps of (ls, c) \<Rightarrow> ((''ok      '' @ name) # ls, c))"

definition ci_local :: "'w shell \<Rightarrow> 'w \<Rightarrow> string \<Rightarrow> string \<times> nat" where
  \<comment> \<open>standard output and exit code, for the text of the workflow file\<close>
  "ci_local sh w yml =
     (let steps = steps_of (split_on (CHR 0x0A) (universal_newlines yml)) in
      case run_steps sh w steps of (ls, c) \<Rightarrow>
        (concat (map (\<lambda>l. l @ [CHR 0x0A])
           (ls @ (if c = 0 then [''all '' @ show_nat (length steps) @ '' steps passed''] else []))), c))"

section \<open>Mutations\<close>

fun count_sub :: "string \<Rightarrow> string \<Rightarrow> nat" where
  \<comment> \<open>\<open>s.count(v)\<close> of a \<open>v\<close> that is not empty\<close>
  "count_sub v [] = 0"
| "count_sub v (c # s) = (if v \<noteq> [] \<and> prefix v (c # s) then Suc (count_sub v (drop (length v) (c # s))) else count_sub v s)"

fun replace_first :: "string \<Rightarrow> string \<Rightarrow> string \<Rightarrow> string" where
  \<comment> \<open>\<open>s.replace(v, r, 1)\<close> of a \<open>v\<close> that is not empty\<close>
  "replace_first v r [] = []"
| "replace_first v r (c # s) =
     (if v \<noteq> [] \<and> prefix v (c # s) then r @ drop (length v) (c # s) else c # replace_first v r s)"

fun mutate :: "string \<Rightarrow> (string \<times> string) list \<Rightarrow> string option" where
  \<comment> \<open>\<open>None\<close>: the \<open>SystemExit\<close> of an anchor that is not found exactly once\<close>
  "mutate src [] = Some src"
| "mutate src ((old, new) # edits) =
     (if old = ''<append>'' then mutate (src @ new) edits
      else if count_sub old src \<noteq> 1 then None
      else mutate (replace_first old new src) edits)"

definition line_end :: "char \<Rightarrow> bool" where
  \<comment> \<open>where \<open>str.splitlines\<close> splits, below code point 256\<close>
  "line_end c \<longleftrightarrow> (let n = of_char c :: nat in (10 \<le> n \<and> n \<le> 13) \<or> (28 \<le> n \<and> n \<le> 30) \<or> n = 133)"

function splitlines :: "string \<Rightarrow> string \<Rightarrow> string list" where
  "splitlines acc [] = (if acc = [] then [] else [rev acc])"
| "splitlines acc (c # s) =
     (if line_end c then rev acc # splitlines [] (if c = CHR 0x0D \<and> startswith s [CHR 0x0A] then drop 1 s else s)
      else splitlines (c # acc) s)"
  by pat_completeness auto
termination by (relation "measure (\<lambda>(acc, s). length s)") auto

datatype mutation_verdict = Caught string | RunFailed | Survived

definition judge :: "nat \<Rightarrow> string \<Rightarrow> mutation_verdict" where
  "judge rc out =
     (let first_fail = map_option (\<lambda>l. strip (replace_all ''FAILED'' [] l))
                         (find (\<lambda>l. startswith l ''FAILED'') (splitlines [] out))
      in if rc \<noteq> 0 \<and> first_fail \<noteq> None \<and> first_fail \<noteq> Some [] then Caught (the first_fail)
         else if rc \<noteq> 0 then RunFailed
         else Survived)"

definition mutation_gate :: "(string \<times> mutation_verdict) list \<Rightarrow> string \<times> nat" where
  \<comment> \<open>the last line and the exit code, from the verdicts on the mutations\<close>
  "mutation_gate vs =
     (let survived = filter (\<lambda>(name, v). v = RunFailed \<or> v = Survived) vs
      in (show_nat (length vs - length survived) @ ''/'' @ show_nat (length vs) @ '' mutations caught'',
          if survived = [] then 0 else 1))"

section \<open>Edits\<close>

lemma count_sub_pos: "0 < count_sub v s \<Longrightarrow> sublist v s \<and> v \<noteq> []"
proof (induction v s rule: count_sub.induct)
  case (2 v c s)
  then show ?case by (cases "v \<noteq> [] \<and> prefix v (c # s)") (auto simp: sublist_Cons_right)
qed simp

lemma replace_first_at:
  assumes "0 < count_sub v s"
  shows "\<exists>p q. s = p @ v @ q \<and> replace_first v r s = p @ r @ q"
  using assms
proof (induction v r s rule: replace_first.induct)
  case (2 v r c s)
  show ?case
  proof (cases "v \<noteq> [] \<and> prefix v (c # s)")
    case True
    then obtain q where q: "c # s = v @ q" by (auto simp: prefix_def)
    have "replace_first v r (c # s) = r @ q" unfolding replace_first.simps if_P [OF True] by (simp add: q)
    with q show ?thesis by (intro exI [of _ "[]"] exI [of _ q]) simp
  next
    case False
    with 2 obtain p q where "s = p @ v @ q" "replace_first v r s = p @ r @ q" by auto
    then have "c # s = (c # p) @ v @ q \<and> replace_first v r (c # s) = (c # p) @ r @ q"
      unfolding replace_first.simps if_not_P [OF False] by simp
    then show ?thesis by blast
  qed
qed simp

lemma mutate_one:
  assumes "mutate src [(old, new)] = Some m" and "old \<noteq> ''<append>''"
  shows "\<exists>p q. src = p @ old @ q \<and> m = p @ new @ q \<and> (m = src \<longleftrightarrow> new = old)"
proof -
  have "count_sub old src = 1" "m = replace_first old new src" using assms by (auto split: if_splits)
  then obtain p q where "src = p @ old @ q" "m = p @ new @ q" using replace_first_at [of old src new] by auto
  then show ?thesis by auto
qed

section \<open>Verdicts\<close>

fun first_failing :: "'w shell \<Rightarrow> 'w \<Rightarrow> (string \<times> string) list \<Rightarrow> string option" where
  \<comment> \<open>the first step whose command does not exit with 0\<close>
  "first_failing sh w [] = None"
| "first_failing sh w ((name, cmd) # steps) =
     (case sh w (ci_command cmd) of (rc, out, w') \<Rightarrow> if rc \<noteq> 0 then Some name else first_failing sh w' steps)"

definition plain_name :: "string \<Rightarrow> bool" where
  "plain_name name \<longleftrightarrow> list_all (\<lambda>c. \<not> line_end c) name \<and> strip (replace_all ''FAILED'' [] name) \<noteq> []"

lemma splitlines_line: "list_all (\<lambda>c. \<not> line_end c) l \<Longrightarrow> splitlines acc (l @ CHR 0x0A # s) = (rev acc @ l) # splitlines [] s"
  by (induction l arbitrary: acc) (simp_all add: line_end_def)

lemma strip_blanks: "strip (CHR '' '' # s) = strip s"
  by (simp add: strip_def)

lemma first_failing_named: "first_failing sh w steps = Some n \<Longrightarrow> n \<in> fst ` set steps"
  by (induction sh w steps rule: first_failing.induct) (auto split: prod.splits if_splits)

lemma strip_FAILED: "strip (replace_all ''FAILED'' [] (''FAILED  '' @ n)) = strip (replace_all ''FAILED'' [] n)"
  by (simp add: strip_blanks)

lemma find_failed:
  assumes "list_all (\<lambda>(name, cmd). plain_name name) steps"
  shows "find (\<lambda>l. startswith l ''FAILED'') (splitlines [] (concat (map (\<lambda>l. l @ [CHR 0x0A]) (fst (run_steps sh w steps))) @ rest)) =
    (case first_failing sh w steps of
       None \<Rightarrow> find (\<lambda>l. startswith l ''FAILED'') (splitlines [] rest) | Some n \<Rightarrow> Some (''FAILED  '' @ n))"
  using assms
proof (induction sh w steps rule: run_steps.induct)
  case (2 sh w name cmd steps)
  obtain rc out w' where sh: "sh w (ci_command cmd) = (rc, out, w')" by (metis prod_cases3)
  have plain: "list_all (\<lambda>c. \<not> line_end c) (''FAILED  '' @ name)" "list_all (\<lambda>c. \<not> line_end c) (''ok      '' @ name)"
    using 2(2) by (simp_all add: plain_name_def line_end_def)
  show ?case
  proof (cases "rc = 0")
    case False
    then show ?thesis using splitlines_line [OF plain(1), of "[]"] by (simp add: sh)
  next
    case True
    then have rest: "list_all (\<lambda>(name, cmd). plain_name name) steps" "\<not> rc \<noteq> 0" using 2(2) by simp_all
    from 2(1) [OF sh [symmetric] refl rest(2) rest(1)] True splitlines_line [OF plain(2), of "[]"] show ?thesis
      by (simp add: sh case_prod_unfold)
  qed
qed simp

lemma run_steps_exit: "snd (run_steps sh w steps) = (if first_failing sh w steps = None then 0 else 1)"
  by (induction sh w steps rule: run_steps.induct) (auto split: prod.splits)

text \<open>C37: What the mutation gate's verdict says. Where the names of the workflow's steps are plain, a mutation
  is \<open>CAUGHT\<close> exactly when some step of the gate fails on the mutated clone after every step before
  it passed there, and the step it names is the first that fails; it is \<open>SURVIVED\<close> exactly when
  every step passes, and never the error between the two.\<close>

theorem mutation_caught_iff_a_step_fails:
  assumes "list_all (\<lambda>(name, cmd). plain_name name) (steps_of (split_on (CHR 0x0A) (universal_newlines yml)))"
  shows "(case ci_local sh w yml of (out, rc) \<Rightarrow> judge rc out) =
    (case first_failing sh w (steps_of (split_on (CHR 0x0A) (universal_newlines yml))) of
       None \<Rightarrow> Survived
     | Some n \<Rightarrow> Caught (strip (replace_all ''FAILED'' [] n)))"
proof -
  let ?steps = "steps_of (split_on (CHR 0x0A) (universal_newlines yml))"
  obtain ls c where run: "run_steps sh w ?steps = (ls, c)" by (cases "run_steps sh w ?steps")
  have c: "c = (if first_failing sh w ?steps = None then 0 else 1)" using run_steps_exit [of sh w ?steps] by (simp add: run)
  show ?thesis
  proof (cases "first_failing sh w ?steps")
    case None
    then show ?thesis using c by (simp add: ci_local_def run judge_def)
  next
    case (Some n)
    then have "n \<in> fst ` set ?steps" by (rule first_failing_named)
    then have "plain_name n" using assms by (auto simp: list_all_iff)
    then have n: "strip (replace_all ''FAILED'' [] n) \<noteq> []" by (simp add: plain_name_def)
    have "find (\<lambda>l. startswith l ''FAILED'') (splitlines [] (concat (map (\<lambda>l. l @ [CHR 0x0A]) ls))) = Some (''FAILED  '' @ n)"
      using find_failed [OF assms, of sh w "[]"] by (simp add: run Some)
    then show ?thesis using c n Some strip_FAILED [of n]
      by (simp add: ci_local_def run judge_def del: replace_all.simps)
  qed
qed

definition small_workflow :: string where
  "small_workflow = join_with [CHR 0x0A]
     [''    steps:'', ''      - uses: actions/checkout@v5'', ''      - name: Fixture'', ''        run: ./setup.sh'',
      ''      - name: Tests'', ''        run: |'', ''          ./setup.sh'', ''          python t.py'', []]"

lemma small_workflow_steps:
  "steps_of (split_on (CHR 0x0A) (universal_newlines small_workflow)) =
     [(''Fixture'', ''./setup.sh''), (''Tests'', ''./setup.sh'' @ [CHR 0x0A] @ ''python t.py'' @ [CHR 0x0A])]"
  by code_simp

theorem mutation_caught_iff_a_step_fails_witness:
  "(case ci_local (\<lambda>w cmd. (if sublist ''python3'' cmd then 1 else 0, ''trace'', w)) () small_workflow of
      (out, rc) \<Rightarrow> judge rc out) = Caught ''Tests''"
proof -
  have "list_all (\<lambda>(name, cmd). plain_name name) (steps_of (split_on (CHR 0x0A) (universal_newlines small_workflow)))"
    unfolding small_workflow_steps by code_simp
  from mutation_caught_iff_a_step_fails [OF this, of "\<lambda>w cmd. (if sublist ''python3'' cmd then 1 else 0, ''trace'', w)" "()"]
  show ?thesis unfolding small_workflow_steps by code_simp
qed

section \<open>Steps that are not run as written\<close>

lemma unnamed_step_not_run: "steps_of [''      - run: exit 1''] = []"
  by code_simp

lemma line_of_block_becomes_the_command:
  "steps_of [''      - name: Tests'', ''        run: |'', ''          cat > job.yml <<EOF'', ''          run: true'',
             ''          EOF'', ''          ./tests.sh''] = [(''Tests'', ''true'')]"
  by code_simp

end
