(* ===== verification/Claims.thy ===== *)
theory Claims
  imports Attest "HOL-Library.Product_Lexorder"
begin

text \<open>
  The checks over the assurance graph (\<open>assurance/claims.json\<close>): every claim's citations and the
  threat model's rows (\<open>scripts/check_assurance.py\<close>), the bridges (\<open>scripts/check_bridges.py\<close>), the page of
  limitations generated from it (\<open>scripts/limitations.py\<close>), and the block of figures of the README
  (\<open>scripts/readme_figures.py\<close>). A field that a claim does not have is \<open>JNull\<close>, \<open>None\<close> or empty.
  The repository's files and the cited Lean modules are arguments; so are the figures, which other programs print.
\<close>

section \<open>Claims\<close>

record claim =
  cl_id :: string
  cl_text :: string
  cl_lean :: "(string \<times> string list) list"      \<comment> \<open>modules and theorems\<close>
  cl_modelled :: json
  cl_tests :: "string list"
  cl_implementation :: "string list"
  cl_correspondence :: string
  cl_counterexample :: string
  cl_limitation :: string
  cl_bridge :: "string option"
  cl_trusted :: "string list"

record repository =
  rp_exists :: "string \<Rightarrow> bool"
  rp_read :: "string \<Rightarrow> string"
  rp_module :: "string \<Rightarrow> string option"        \<comment> \<open>the Lean module at the pinned commit\<close>
  rp_commit :: string
  rp_gate :: string                             \<comment> \<open>the workflow file\<close>
  rp_threats :: "string option"                 \<comment> \<open>\<open>THREAT_MODEL.md\<close>\<close>

section \<open>Searching\<close>

definition word_char :: "char \<Rightarrow> bool" where
  \<comment> \<open>\<open>\w\<close> below code point 256\<close>
  "word_char c \<longleftrightarrow> (let n = of_char c :: nat in
     (48 \<le> n \<and> n \<le> 57) \<or> (65 \<le> n \<and> n \<le> 90) \<or> n = 95 \<or> (97 \<le> n \<and> n \<le> 122) \<or> n = 170 \<or> n = 178 \<or> n = 179 \<or>
     n = 181 \<or> n = 185 \<or> n = 186 \<or> (188 \<le> n \<and> n \<le> 190) \<or> (192 \<le> n \<and> n \<noteq> 215 \<and> n \<noteq> 247))"

fun after_newlines :: "string \<Rightarrow> string list" where
  "after_newlines [] = []"
| "after_newlines (c # s) = (if c = CHR 0x0A then s # after_newlines s else after_newlines s)"

definition line_starts :: "string \<Rightarrow> string list" where
  \<comment> \<open>where \<open>^\<close> matches under \<open>re.M\<close>\<close>
  "line_starts s = s # after_newlines s"

definition boundary :: "string \<Rightarrow> string \<Rightarrow> bool" where
  \<comment> \<open>\<open>\b\<close> between the text matched so far, which is not empty, and the rest\<close>
  "boundary before rest \<longleftrightarrow> word_char (last before) \<noteq> (rest \<noteq> [] \<and> word_char (hd rest))"

definition declares_here :: "string \<Rightarrow> string \<Rightarrow> string \<Rightarrow> bool" where
  \<comment> \<open>\<open>\s*kw\s+name\b\<close> at this point; \<open>\s+\<close> may leave white space for the name\<close>
  "declares_here kw name s =
     (let r = dropWhile py_space s; t = drop (length kw) r; ws = takeWhile py_space t in
      startswith r kw \<and>
      list_ex (\<lambda>k. startswith (drop k t) name \<and> boundary (take k t @ name) (drop (k + length name) t)) [1..<length ws + 1])"

definition declares :: "string \<Rightarrow> string \<Rightarrow> string \<Rightarrow> bool" where
  "declares kw name text = list_ex (declares_here kw name) (line_starts text)"

definition basename :: "string \<Rightarrow> string" where
  "basename p = last (split_on (CHR ''/'') p)"

section \<open>Citations\<close>

definition module_problems :: "repository \<Rightarrow> string \<times> string list \<Rightarrow> string list" where
  "module_problems rp m =
     (case rp_module rp (fst m) of
        None \<Rightarrow> [''module '' @ fst m @ '' not found at '' @ rp_commit rp]
      | Some text \<Rightarrow>
          map (\<lambda>th. ''theorem '' @ fst m @ ''.'' @ th @ '' not found at '' @ rp_commit rp)
            (filter (\<lambda>th. \<not> declares ''theorem'' th text) (snd m)))"

definition test_problems :: "repository \<Rightarrow> string \<Rightarrow> string list" where
  "test_problems rp t =
     (if \<not> rp_exists rp t then [''test '' @ t @ '' does not exist'']
      else if \<not> sublist (basename t) (rp_gate rp) then [''test '' @ t @ '' is not run by the gate'']
      else [])"

definition implementation_problems :: "repository \<Rightarrow> string \<Rightarrow> string list" where
  "implementation_problems rp impl =
     (case partition_at (CHR '':'') impl of (path, _, fn) \<Rightarrow>
        if \<not> rp_exists rp path then [''implementation '' @ path @ '' does not exist'']
        else if fn \<noteq> [] \<and> \<not> (declares ''def'' fn (rp_read rp path) \<or> declares ''class'' fn (rp_read rp path))
        then [''implementation '' @ path @ '':'' @ fn @ '' not found'']
        else [])"

definition claim_problems :: "repository \<Rightarrow> claim \<Rightarrow> string list" where
  "claim_problems rp c =
     (if cl_lean c = [] \<and> cl_modelled c \<noteq> JBool False
      then [''no Lean theorem cited, and not marked '' @ quote ''modelled'' @ '': false''] else []) @
     concat (map (module_problems rp) (cl_lean c)) @
     concat (map (test_problems rp) (cl_tests c)) @
     concat (map (implementation_problems rp) (cl_implementation c)) @
     map (\<lambda>(f, v). ''missing '' @ f)
       (filter (\<lambda>(f, v). strip v = [])
         [(''claim'', cl_text c), (''correspondence'', cl_correspondence c),
          (''counterexample'', cl_counterexample c), (''limitation'', cl_limitation c)])"

section \<open>The threat model\<close>

definition id_char :: "char \<Rightarrow> bool" where
  \<comment> \<open>\<open>[a-z0-9-]\<close>\<close>
  "id_char c \<longleftrightarrow> (let n = of_char c :: nat in (97 \<le> n \<and> n \<le> 122) \<or> (48 \<le> n \<and> n \<le> 57) \<or> n = 45)"

function id_list :: "string \<Rightarrow> string list \<times> string" where
  \<comment> \<open>the names of a group that starts with an \<open>id_char\<close>, and what follows it\<close>
  "id_list s =
     (let x = takeWhile id_char s; r = dropWhile id_char s in
      if startswith r '', '' \<and> drop 2 r \<noteq> [] \<and> id_char (hd (drop 2 r))
      then (case id_list (drop 2 r) of (xs, rest) \<Rightarrow> (x # xs, rest))
      else ([x], r))"
  by pat_completeness auto
termination
proof (relation "measure length")
  fix s x r :: string
  assume "x = takeWhile id_char s" and r: "r = dropWhile id_char s"
    and "startswith r '', '' \<and> drop 2 r \<noteq> [] \<and> id_char (hd (drop 2 r))"
  then have "length (drop 2 r) < length r" by (cases r) auto
  also have "length r \<le> length s" unfolding r by (rule length_dropWhile_le)
  finally show "(drop 2 r, s) \<in> measure length" by simp
qed simp

declare id_list.simps [simp del]

lemma id_list_shorter: "length (snd (id_list s)) \<le> length s"
proof (induction s rule: id_list.induct)
  case (1 s)
  have d: "length (dropWhile id_char s) \<le> length s" by (rule length_dropWhile_le)
  show ?case
  proof (cases "startswith (dropWhile id_char s) '', '' \<and> drop 2 (dropWhile id_char s) \<noteq> [] \<and> id_char (hd (drop 2 (dropWhile id_char s)))")
    case True
    from 1 [OF refl refl True] have "length (snd (id_list (drop 2 (dropWhile id_char s)))) \<le> length (dropWhile id_char s)" by simp
    with d have "length (snd (id_list (drop 2 (dropWhile id_char s)))) \<le> length s" by (rule order_trans [rotated])
    moreover have "id_list s = (takeWhile id_char s # fst (id_list (drop 2 (dropWhile id_char s))), snd (id_list (drop 2 (dropWhile id_char s))))"
      by (subst id_list.simps) (simp only: Let_def True if_True case_prod_unfold simp_thms)
    ultimately show ?thesis by (simp only: snd_conv)
  next
    case False
    then show ?thesis using d by (subst id_list.simps) (simp only: Let_def if_False snd_conv)
  qed
qed

function named_claims :: "string \<Rightarrow> string list" where
  \<comment> \<open>\<open>re.findall(r"claim: ([a-z0-9-]+(?:, [a-z0-9-]+)*)", tm)\<close>, the groups split\<close>
  "named_claims [] = []"
| "named_claims (c # s) =
     (if startswith (c # s) ''claim: '' \<and> drop 7 (c # s) \<noteq> [] \<and> id_char (hd (drop 7 (c # s)))
      then fst (id_list (drop 7 (c # s))) @ named_claims (snd (id_list (drop 7 (c # s))))
      else named_claims s)"
  by pat_completeness auto
termination
proof (relation "measure length")
  fix c and s :: string
  have "length (snd (id_list (drop 7 (c # s)))) \<le> length (drop 7 (c # s))" by (rule id_list_shorter)
  then show "(snd (id_list (drop 7 (c # s))), c # s) \<in> measure length" by simp
qed simp_all

fun split_once :: "string \<Rightarrow> string \<Rightarrow> (string \<times> string) option" where
  \<comment> \<open>before and after the first occurrence; \<open>None\<close> when there is none\<close>
  "split_once v [] = (if v = [] then Some ([], []) else None)"
| "split_once v (c # s) =
     (if prefix v (c # s) then Some ([], drop (length v) (c # s))
      else map_option (\<lambda>(p, q). (c # p, q)) (split_once v s))"

definition guarantees_section :: "string \<Rightarrow> string option" where
  \<comment> \<open>\<open>None\<close>: \<open>IndexError\<close>, no such heading\<close>
  "guarantees_section tm =
     map_option (\<lambda>(p, s). case split_once (CHR 0x0A # ''## '') s of None \<Rightarrow> s | Some (a, b) \<Rightarrow> a)
       (split_once ''## What is guaranteed'' tm)"

definition rule_row :: "string \<Rightarrow> bool" where
  \<comment> \<open>\<open>re.fullmatch(r"\|[-| :]*\|?", s)\<close>\<close>
  "rule_row s \<longleftrightarrow> s \<noteq> [] \<and> hd s = CHR ''|'' \<and> list_all (\<lambda>c. c \<in> set ''-| :'') (tl s)"

definition guarantee_rows :: "string \<Rightarrow> string list" where
  "guarantee_rows sec =
     filter (\<lambda>l. startswith l ''| '' \<and> \<not> startswith l ''| Guarantee'' \<and> \<not> rule_row (strip l)) (split_on (CHR 0x0A) sec)"

definition unbacked_rows :: "string \<Rightarrow> string list" where
  "unbacked_rows sec =
     map (\<lambda>l. take 70 (strip (split_on (CHR ''|'') l ! 1))) (filter (\<lambda>l. \<not> sublist ''claim:'' l) (guarantee_rows sec))"

definition sorted_set :: "string list \<Rightarrow> string list" where
  "sorted_set xs = sort (remdups xs)"

definition unknown_claims :: "string \<Rightarrow> claim list \<Rightarrow> string list" where
  "unknown_claims tm cs = sorted_set (filter (\<lambda>x. x \<notin> cl_id ` set cs) (named_claims tm))"

definition unstated_claims :: "string \<Rightarrow> claim list \<Rightarrow> string list" where
  "unstated_claims tm cs = sorted_set (filter (\<lambda>x. x \<notin> set (named_claims tm)) (map cl_id cs))"

definition assurance_exit :: "repository \<Rightarrow> claim list \<Rightarrow> nat option" where
  \<comment> \<open>\<open>None\<close>: the exception of a threat model without the section\<close>
  "assurance_exit rp cs =
     (let failed = list_ex (\<lambda>c. claim_problems rp c \<noteq> []) cs in
      case rp_threats rp of
        None \<Rightarrow> Some (if failed then 1 else 0)
      | Some tm \<Rightarrow>
          map_option (\<lambda>sec. if failed \<or> unbacked_rows sec \<noteq> [] \<or> unknown_claims tm cs \<noteq> [] \<or> unstated_claims tm cs \<noteq> []
                            then 1 else 0) (guarantees_section tm))"

definition claim_report :: "repository \<Rightarrow> claim \<Rightarrow> string list" where
  "claim_report rp c =
     ((if claim_problems rp c = [] then ''ok      '' else ''FAILED  '') @ cl_id c) #
     map (\<lambda>p. ''          '' @ p) (claim_problems rp c)"

definition theorem_and_evidence :: "claim list \<Rightarrow> claim list" where
  "theorem_and_evidence cs = filter (\<lambda>c. cl_lean c \<noteq> [] \<and> cl_tests c \<noteq> []) cs"

definition tested_not_modelled :: "claim list \<Rightarrow> string list" where
  "tested_not_modelled cs = map cl_id (filter (\<lambda>c. cl_lean c = []) cs)"

definition assurance_summary :: "repository \<Rightarrow> claim list \<Rightarrow> string list" where
  \<comment> \<open>the lines printed after the claims'; the first of them is blank\<close>
  "assurance_summary rp cs =
     (let n = show_nat (length cs); both = show_nat (length (theorem_and_evidence cs)); u = tested_not_modelled cs in
      ['''',
       show_nat (length (filter (\<lambda>c. claim_problems rp c = []) cs)) @ ''/'' @ n @
         '' claims fully cited (darm-monitor at '' @ rp_commit rp @ '')'',
       ''assurance completeness: '' @ both @ ''/'' @ n @ '' claims have a theorem and gated runtime evidence'',
       ''evidence completeness:  '' @ both @ ''/'' @ show_nat (length (filter (\<lambda>c. cl_lean c \<noteq> []) cs)) @
         '' formal claims have gated runtime evidence'',
       ''tested, not modelled:   '' @ show_nat (length u) @ '' ('' @ (if u = [] then ''none'' else join_with '', '' u) @ '')''])"

definition threat_lines :: "string \<Rightarrow> string \<Rightarrow> claim list \<Rightarrow> string list" where
  \<comment> \<open>of the threat model's text and its section of guarantees\<close>
  "threat_lines tm sec cs =
     (let rows = length (guarantee_rows sec); un = unbacked_rows sec in
      (''guarantees backed:      '' @ show_nat (rows - length un) @ ''/'' @ show_nat rows @ '' threat-model guarantees name a claim'') #
      map (\<lambda>u. ''  UNBACKED       '' @ u) un @
      map (\<lambda>u. ''  UNKNOWN CLAIM  '' @ u) (unknown_claims tm cs) @
      map (\<lambda>u. ''  UNSTATED       '' @ u @ '' (no threat-model entry names it)'') (unstated_claims tm cs))"

definition manifest_claim :: "claim \<Rightarrow> json" where
  "manifest_claim c =
     JObj [(''id'', JStr (cl_id c)), (''claim'', JStr (cl_text c)),
       (''theorems'', JList (concat (map (\<lambda>(m, ths). map (\<lambda>t. JStr (m @ ''.'' @ t)) ths) (cl_lean c)))),
       (''tests'', JList (map JStr (cl_tests c))), (''limitation'', JStr (cl_limitation c))]"

definition assurance_manifest :: "repository \<Rightarrow> json \<Rightarrow> claim list \<Rightarrow> json option" where
  \<comment> \<open>what \<open>--manifest\<close> writes; the pinned release is copied. The threat model's problems count as a failed
      claim there\<close>
  "assurance_manifest rp pinned cs =
     map_option (\<lambda>rc. JObj [(''darm_monitor'', pinned), (''fully_cited'', JBool (rc = 0)),
       (''metrics'', JObj [(''claims'', JNum (int (length cs))), (''theorem_and_evidence'', JNum (int (length (theorem_and_evidence cs)))),
          (''formal'', JNum (int (length (filter (\<lambda>c. cl_lean c \<noteq> []) cs)))),
          (''tested_not_modelled'', JList (map JStr (tested_not_modelled cs)))]),
       (''claims'', JList (map manifest_claim cs))]) (assurance_exit rp cs)"

section \<open>Bridges\<close>

definition BRIDGES :: "string list" where "BRIDGES = [''construction'', ''proved'', ''tested'', ''assumed'']"

definition bridge_problem :: "claim \<Rightarrow> string option" where
  "bridge_problem c =
     (case cl_bridge c of
        Some b \<Rightarrow>
          if b \<notin> set BRIDGES
          then Some (cl_id c @ '': bridge '' @ py_repr_str b @ '' is not one of '' @ py_repr (JList (map JStr (sort BRIDGES))))
          else if (b = ''construction'' \<or> b = ''proved'') \<and> cl_trusted c = []
          then Some (cl_id c @ '': a '' @ b @ '' bridge must name its trusted base'')
          else None
      | None \<Rightarrow> Some (cl_id c @ '': bridge None is not one of '' @ py_repr (JList (map JStr (sort BRIDGES)))))"

definition bridge_tally :: "claim list \<Rightarrow> string \<Rightarrow> nat" where
  "bridge_tally cs b = length (filter (\<lambda>c. bridge_problem c = None \<and> cl_bridge c = Some b) cs)"

definition check_bridges :: "claim list \<Rightarrow> string list \<times> nat" where
  "check_bridges cs =
     (let bad = concat (map (\<lambda>c. case bridge_problem c of None \<Rightarrow> [] | Some x \<Rightarrow> [x]) cs) in
      (map (\<lambda>x. ''BRIDGE '' @ x) bad @
       [''bridges: '' @ join_with '', '' (map (\<lambda>k. show_nat (bridge_tally cs k) @ '' '' @ k) BRIDGES),
        ''trusted base named: '' @ join_with ''; '' (sorted_set (concat (map cl_trusted cs)))],
       if bad = [] then 0 else 1))"

section \<open>The page of limitations\<close>

definition INTRO :: string where
  "INTRO = join_with [CHR 0x0A]
    [''# What DARM Guard does not establish'',
     [],
     ''Every claim DARM Guard makes is scoped: to the boundary it mediates, the assumptions it states, and the kind of'',
     ''evidence behind it. This page gathers those limits in one place. The first section lists what every claim rests'',
     ''on. The second lists each claim in [`assurance/claims.json`](assurance/claims.json) with its own limitation,'',
     ''generated from that file by `scripts/limitations.py`, so the two cannot disagree: CI fails if this page falls out'',
     ''of date, or if any claim states no limitation.'',
     [],
     ''## Assumed throughout'',
     [],
     ''- **Complete mediation.** The agent reaches governed files only through the broker. A deployment has to provide'',
     ''  this, for example with a container or kernel-level enforcement; it is tested only in the reference deployment.'',
     ''- **The Python broker is tested against the model, not proved.** The decision path is the model compiled, with'',
     ''  theorems about the server's replies; the broker's execution, logging and attestation are tested. Its effect'',
     ''  surface is audited and gated, which rests on correct review at each acceptance, on static analysis of the'',
     ''  package, on collision-resistant fingerprints, and on equal code behaving equally in the same environment.'',
     ''- **The trusted base.** The Lean compiler and runtime, the kernel's JSON parser and I/O loop, the operating'',
     ''  system, the C library and Python, the signing key's secrecy, and fresh nonces.'',
     ''- **What is out of scope.** The truth, harm or sensitivity of content; information flow; physical effects; and'',
     ''  anything outside the governed workspace.'',
     ''- **The principal's files.** The config, registry, intents and revocations must be where the agent cannot'',
     ''  write; file permissions are the deployer's responsibility.'',
     [],
     ''## Claim by claim'',
     [],
     ''Bridges: **construction** means the code is the model compiled; **proved** means a theorem covers the code;'',
     ''**tested** means tests check the code against the model; **assumed** means nothing does.'',
     []]"

definition ORDER :: "string option \<Rightarrow> nat" where
  "ORDER b = (if b = Some ''construction'' then 0 else if b = Some ''proved'' then 1
     else if b = Some ''tested'' then 2 else if b = Some ''assumed'' then 3 else 9)"

definition render_claim :: "claim \<Rightarrow> string list" where
  "render_claim c =
     [''### `'' @ cl_id c @ ''`'' @ [CHR 0x0A],
      strip (cl_text c) @ [CHR 0x0A],
      ''- **Bridge:** '' @ (case cl_bridge c of None \<Rightarrow> ''not stated'' | Some b \<Rightarrow> b),
      ''- **Limitation:** '' @ (if strip (cl_limitation c) = [] then ''not stated'' else strip (cl_limitation c))] @
     (if cl_trusted c \<noteq> [] then [''- **Trusted:** '' @ join_with ''; '' (cl_trusted c)] else []) @ [[]]"

definition rstrip :: "string \<Rightarrow> string" where
  "rstrip s = rev (dropWhile py_space (rev s))"

definition render :: "claim list \<Rightarrow> string" where
  "render cs =
     rstrip (join_with [CHR 0x0A] (INTRO # concat (map render_claim (sort_key (\<lambda>c. (ORDER (cl_bridge c), cl_id c)) cs)))) @ [CHR 0x0A]"

definition no_limitation :: "claim list \<Rightarrow> string list" where
  "no_limitation cs = map cl_id (filter (\<lambda>c. strip (cl_limitation c) = []) cs)"

definition limitations_write :: "claim list \<Rightarrow> string" where
  \<comment> \<open>\<open>--write\<close>: the file\<close>
  "limitations_write cs = render cs"

definition limitations_check :: "claim list \<Rightarrow> string option \<Rightarrow> string list \<times> nat" where
  \<comment> \<open>\<open>--check\<close> with the file on disk, which is read in text mode\<close>
  "limitations_check cs page =
     (let current = (case page of None \<Rightarrow> [] | Some t \<Rightarrow> universal_newlines t);
          bad = (if no_limitation cs \<noteq> [] then [''claims with no stated limitation: '' @ join_with '', '' (no_limitation cs)] else []) @
                (if current \<noteq> render cs then [''LIMITATIONS.md is out of date; run scripts/limitations.py --write''] else [])
      in if bad = []
         then ([''LIMITATIONS.md matches the assurance graph ('' @ show_nat (length cs) @ '' claims, each with its limitation)''], 0)
         else (bad, 1))"

section \<open>The figures of the README\<close>

definition FIG_START :: string where "FIG_START = ''<!-- figures:start -->''"
definition FIG_END :: string where "FIG_END = ''<!-- figures:end -->''"

record figures =
  fg_version :: string
  fg_kernel :: string
  fg_claims :: nat
  fg_guarantees :: nat
  fg_bridges :: string
  fg_sites :: string
  fg_mutations :: nat
  fg_steps :: nat

definition figure_rows :: "figures \<Rightarrow> string" where
  \<comment> \<open>the block between its markers\<close>
  "figure_rows g = CHR 0x0A # join_with [CHR 0x0A]
     [''| | |'', ''| --- | --- |'',
      ''| Package / kernel | '' @ fg_version g @ '' / '' @ fg_kernel g @ '' |'',
      ''| Claims, each citing its theorems and tests | '' @ show_nat (fg_claims g) @ '' |'',
      ''| Threat-model guarantees, each backed by a claim | '' @ show_nat (fg_guarantees g) @ '' |'',
      ''| Bridges from model to code | '' @ fg_bridges g @ '' |'',
      ''| Effect sites | '' @ fg_sites g @ '' |'',
      ''| Mutations, each caught by a test | '' @ show_nat (fg_mutations g) @ '' |'',
      ''| Gate steps in full validation | '' @ show_nat (fg_steps g) @ '' |''] @ [CHR 0x0A]"

definition figure_block :: "figures \<Rightarrow> string" where
  "figure_block g = FIG_START @ figure_rows g @ FIG_END"

definition find_block :: "string \<Rightarrow> (string \<times> string \<times> string) option" where
  \<comment> \<open>\<open>re.search(start.*?end, readme, re.S)\<close>: before the match, the match, after it\<close>
  "find_block readme =
     (case split_once FIG_START readme of
        None \<Rightarrow> None
      | Some (p, s) \<Rightarrow> map_option (\<lambda>(b, q). (p, FIG_START @ b @ FIG_END, q)) (split_once FIG_END s))"

datatype figures_result = NoBlock | Written string | OutOfDate | Matches

definition figures_write :: "figures \<Rightarrow> string \<Rightarrow> figures_result" where
  "figures_write g readme =
     (case find_block (universal_newlines readme) of
        None \<Rightarrow> NoBlock | Some (p, b, q) \<Rightarrow> Written (p @ figure_block g @ q))"

definition figures_check :: "figures \<Rightarrow> string \<Rightarrow> figures_result" where
  "figures_check g readme =
     (case find_block (universal_newlines readme) of
        None \<Rightarrow> NoBlock | Some (p, b, q) \<Rightarrow> if b \<noteq> figure_block g then OutOfDate else Matches)"

section \<open>Writing and checking\<close>

lemma universal_newlines_no_CR: "CHR 0x0D \<notin> set (universal_newlines s)"
  by (induction s rule: universal_newlines.induct) auto

lemma universal_newlines_iff: "universal_newlines s = s \<longleftrightarrow> CHR 0x0D \<notin> set s"
  using universal_newlines_no_CR [of s] universal_newlines_id [of s] by metis

text \<open>The page of limitations after \<open>--write\<close>. \<open>limitations.py --check\<close> accepts the page it has just
  written exactly when every claim states a limitation and no carriage return came into the page with a
  claim's text: with one, the page is out of date however often it is written, since reading it translates line ends.\<close>

theorem written_limitations_check:
  "snd (limitations_check cs (Some (limitations_write cs))) = 0 \<longleftrightarrow>
     (\<forall>c \<in> set cs. strip (cl_limitation c) \<noteq> []) \<and> CHR 0x0D \<notin> set (render cs)"
  by (simp add: limitations_check_def limitations_write_def no_limitation_def filter_empty_conv universal_newlines_iff Let_def)

lemma split_once_here: "split_once v (v @ r) = Some ([], r)"
proof (cases "v @ r")
  case (Cons a l)
  have "prefix v (a # l)" "drop (length v) (a # l) = r" unfolding Cons [symmetric] by simp_all
  then show ?thesis by (simp add: Cons)
qed simp

lemma split_once_eq:
  assumes "split_once v s = Some (p, q)"
  shows "s = p @ v @ q \<and> (\<forall>r. split_once v (p @ v @ r) = Some (p, r))"
  using assms
proof (induction v s arbitrary: p rule: split_once.induct)
  case (1 v)
  then show ?case using split_once_here [of "[]"] by (auto split: if_splits)
next
  case (2 v c s)
  show ?case
  proof (cases "prefix v (c # s)")
    case True
    then show ?thesis using 2(2) split_once_here [of v] by (auto simp: prefix_def)
  next
    case False
    then obtain p' where p: "p = c # p'" "split_once v s = Some (p', q)" using 2(2) by auto
    then have IH: "s = p' @ v @ q" "\<And>r. split_once v (p' @ v @ r) = Some (p', r)" using 2(1) [OF False] by auto
    have "\<not> prefix v ((c # p' @ v) @ r)" for r
    proof
      assume "prefix v ((c # p' @ v) @ r)"
      then have "prefix v (c # p' @ v)" by (rule prefix_length_prefix) auto
      then have "prefix v ((c # p' @ v) @ q)" by (rule prefix_prefix)
      with False IH(1) show False by simp
    qed
    then show ?thesis using p(1) IH by simp
  qed
qed

lemma split_once_first:
  assumes "h \<notin> set t" and "\<not> sublist (h # t) rows"
  shows "split_once (h # t) (rows @ (h # t) @ q) = Some (rows, q)"
  using assms(2)
proof (induction rows)
  case (Cons c rows)
  have "\<not> prefix (h # t) ((c # rows) @ (h # t) @ q)"
  proof
    assume p: "prefix (h # t) ((c # rows) @ (h # t) @ q)"
    then have "prefix t (rows @ h # t @ q)" "c = h" by auto
    then have "prefix t rows \<or> h \<in> set t" by (auto simp: prefix_append prefix_Cons)
    with assms(1) \<open>c = h\<close> have "prefix (h # t) (c # rows)" by simp
    with Cons.prems show False by auto
  qed
  moreover have "\<not> sublist (h # t) rows" using Cons.prems by (simp add: sublist_Cons_right)
  ultimately show ?case using Cons.IH by simp
qed simp

lemma split_once_FIG_END: "\<not> sublist FIG_END rows \<Longrightarrow> split_once FIG_END (rows @ FIG_END @ q) = Some (rows, q)"
  unfolding FIG_END_def by (rule split_once_first) simp_all

lemma find_block_eq:
  assumes "find_block s = Some (p, b, q)"
  shows "s = p @ b @ q" and "\<not> sublist FIG_END rows \<Longrightarrow> find_block (p @ (FIG_START @ rows @ FIG_END) @ r) = Some (p, FIG_START @ rows @ FIG_END, r)"
proof -
  obtain u x where u: "split_once FIG_START s = Some (p, u)" "split_once FIG_END u = Some (x, q)" "b = FIG_START @ x @ FIG_END"
    using assms by (auto simp: find_block_def split: option.splits)
  then show "s = p @ b @ q" using split_once_eq [OF u(1)] split_once_eq [OF u(2)] by simp
  assume "\<not> sublist FIG_END rows"
  then have "split_once FIG_END (rows @ FIG_END @ r) = Some (rows, r)" by (rule split_once_FIG_END)
  moreover have "split_once FIG_START (p @ FIG_START @ rows @ FIG_END @ r) = Some (p, rows @ FIG_END @ r)"
    using split_once_eq [OF u(1)] by blast
  ultimately show "find_block (p @ (FIG_START @ rows @ FIG_END) @ r) = Some (p, FIG_START @ rows @ FIG_END, r)"
    by (simp add: find_block_def)
qed

text \<open>The README's figures after \<open>--write\<close>. Where the figures hold neither the closing marker nor a carriage
  return, \<open>readme_figures.py --check\<close> accepts the README it has just written with the same figures,
  writing them again changes nothing, and outside the block the text is the text that was read.\<close>

theorem written_figures_check:
  assumes "figures_write g readme = Written r"
    and "\<not> sublist FIG_END (figure_rows g)" and "CHR 0x0D \<notin> set (figure_rows g)"
  shows "figures_check g r = Matches \<and> figures_write g r = Written r \<and>
    (\<exists>p b q. universal_newlines readme = p @ b @ q \<and> r = p @ figure_block g @ q)"
proof -
  obtain p b q where f: "find_block (universal_newlines readme) = Some (p, b, q)" and r: "r = p @ figure_block g @ q"
    using assms(1) by (auto simp: figures_write_def split: option.splits)
  note eq = find_block_eq(1) [OF f]
  have "CHR 0x0D \<notin> set p \<union> set q" using universal_newlines_no_CR [of readme] unfolding eq by auto
  then have "CHR 0x0D \<notin> set r" using assms(3) by (auto simp: r figure_block_def FIG_START_def FIG_END_def)
  then have "universal_newlines r = r" by (rule universal_newlines_id)
  moreover have "find_block r = Some (p, figure_block g, q)"
    unfolding r figure_block_def by (rule find_block_eq(2) [OF f assms(2)])
  ultimately show ?thesis using eq r by (auto simp: figures_check_def figures_write_def)
qed

definition some_figures :: figures where
  "some_figures = \<lparr>fg_version = ''0.41.0'', fg_kernel = ''0.6'', fg_claims = 31, fg_guarantees = 30, fg_bridges = ''2 proved'',
     fg_sites = ''70 found'', fg_mutations = 19, fg_steps = 70\<rparr>"

theorem written_figures_check_witness:
  "\<exists>r. figures_write some_figures (''# Darm '' @ FIG_START @ '' old '' @ FIG_END @ '' end'') = Written r \<and>
       figures_check some_figures r = Matches"
proof -
  have w: "figures_write some_figures (''# Darm '' @ FIG_START @ '' old '' @ FIG_END @ '' end'') =
      Written (''# Darm '' @ figure_block some_figures @ '' end'')" by code_simp
  have m: "\<not> sublist FIG_END (figure_rows some_figures)" and cr: "CHR 0x0D \<notin> set (figure_rows some_figures)" by code_simp+
  from written_figures_check [OF w m cr] w show ?thesis by blast
qed

section \<open>A green graph\<close>

lemma green_graph:
  assumes "assurance_exit rp cs = Some 0" and "c \<in> set cs"
  shows "(cl_lean c \<noteq> [] \<or> cl_modelled c = JBool False) \<and>
    (\<forall>(m, ths) \<in> set (cl_lean c). \<exists>text. rp_module rp m = Some text \<and> list_all (\<lambda>th. declares ''theorem'' th text) ths) \<and>
    (\<forall>t \<in> set (cl_tests c). rp_exists rp t \<and> sublist (basename t) (rp_gate rp)) \<and>
    strip (cl_text c) \<noteq> [] \<and> strip (cl_limitation c) \<noteq> [] \<and>
    (\<forall>tm. rp_threats rp = Some tm \<longrightarrow> cl_id c \<in> set (named_claims tm) \<and> set (named_claims tm) \<subseteq> cl_id ` set cs)"
proof -
  have none: "claim_problems rp c = []" using assms by (auto simp: assurance_exit_def Let_def list_ex_iff split: option.splits if_splits)
  have tm: "unknown_claims tm cs = [] \<and> unstated_claims tm cs = []" if "rp_threats rp = Some tm" for tm
    using assms(1) that by (auto simp: assurance_exit_def Let_def split: if_splits)
  have lean: "\<exists>text. rp_module rp m = Some text \<and> list_all (\<lambda>th. declares ''theorem'' th text) ths" if "(m, ths) \<in> set (cl_lean c)" for m ths
  proof -
    have "module_problems rp (m, ths) = []" using none that by (auto simp: claim_problems_def)
    then show ?thesis by (auto simp: module_problems_def filter_empty_conv list_all_iff split: option.splits)
  qed
  have tests: "rp_exists rp t \<and> sublist (basename t) (rp_gate rp)" if "t \<in> set (cl_tests c)" for t
  proof -
    have "test_problems rp t = []" using none that by (auto simp: claim_problems_def)
    then show ?thesis by (auto simp: test_problems_def split: if_splits)
  qed
  have ids: "cl_id c \<in> set (named_claims tm) \<and> set (named_claims tm) \<subseteq> cl_id ` set cs" if "rp_threats rp = Some tm" for tm
    using tm [OF that] assms(2)
    by (auto simp: unknown_claims_def unstated_claims_def sorted_set_def filter_empty_conv dest: arg_cong [where f = set])
  show ?thesis using none lean tests ids by (auto simp: claim_problems_def split: if_splits)
qed

lemma unbacked_bounded: "length (unbacked_rows sec) \<le> length (guarantee_rows sec)"
  by (simp add: unbacked_rows_def)

lemma manifest_fully_cited:
  assumes "assurance_manifest rp pinned cs = Some (JObj d)"
  shows "jget d ''fully_cited'' = JBool True \<longleftrightarrow> assurance_exit rp cs = Some 0"
  using assms by (auto simp: assurance_manifest_def)

lemma cited_but_not_fully_cited:
  assumes "\<forall>c\<in>set cs. claim_problems rp c = []" and "rp_threats rp = Some tm" and "guarantees_section tm = Some sec"
    and "unbacked_rows sec \<noteq> []"
  shows "\<exists>d. assurance_manifest rp pinned cs = Some (JObj d) \<and> jget d ''fully_cited'' = JBool False"
  using assms by (auto simp: assurance_manifest_def assurance_exit_def list_ex_iff)

lemma prefix_of_a_theorem_counts:
  "declares ''theorem'' ''cas_safe'' (''theorem cas_safe'' @ [CHR 0x27] @ '' : True'')"
  by code_simp

lemma name_inside_another_test_counts:
  "rp_exists rp ''tests/gate.py'' \<Longrightarrow> rp_gate rp = ''run: python tests/delegate.py'' \<Longrightarrow> test_problems rp ''tests/gate.py'' = []"
  by (simp add: test_problems_def) code_simp

lemma row_without_a_claim_counts:
  "unbacked_rows ''| No harm | claim: (to be written) |'' = [] \<and> named_claims ''| No harm | claim: (to be written) |'' = []"
  by (intro conjI; code_simp)

lemma bridges_counted:
  assumes "snd (check_bridges cs) = 0"
  shows "sum_list (map (bridge_tally cs) BRIDGES) = length cs"
proof -
  have none: "bridge_problem c = None" if "c \<in> set cs" for c
    using assms that by (auto simp: check_bridges_def Let_def split: option.splits if_splits)
  have "sum_list (map (bridge_tally cs) BRIDGES) = length (filter (\<lambda>c. bridge_problem c = None) cs)"
  proof (induction cs)
    case (Cons c cs)
    have "bridge_problem c = None \<Longrightarrow> \<exists>b \<in> set BRIDGES. cl_bridge c = Some b"
      by (auto simp: bridge_problem_def split: option.splits if_splits)
    then show ?case using Cons.IH by (auto simp: bridge_tally_def BRIDGES_def)
  qed (simp add: bridge_tally_def BRIDGES_def)
  also have "filter (\<lambda>c. bridge_problem c = None) cs = cs" using none by (simp add: filter_True)
  finally show ?thesis .
qed

end
