(* ===== verification/Workflows.thy ===== *)
theory Workflows
  imports Claims
begin

text \<open>
  The check of the workflow files (\<open>scripts/check_workflows.py\<close>): with PyYAML what it says of each file, without it
  the line-by-line search for an unquoted value with \<open>: \<close> in it. PyYAML is an argument: the text of its error,
  \<open>None\<close> for a file it parses.
\<close>

definition key_char :: "char \<Rightarrow> bool" where
  \<comment> \<open>\<open>[\w.-]\<close>\<close>
  "key_char c \<longleftrightarrow> word_char c \<or> c = CHR ''.'' \<or> c = CHR ''-''"

definition key_line :: "string \<Rightarrow> (nat \<times> string) option" where
  \<comment> \<open>\<open>KEY.match\<close>: the length of its first group, and its last. A dash that white space follows can only be the
      list marker: no name has white space in it, and a name is followed by a colon\<close>
  "key_line l =
     (let r = dropWhile py_space l;
          item = startswith r ''-'' \<and> takeWhile py_space (tl r) \<noteq> [];
          k = (if item then dropWhile py_space (tl r) else r);
          t = dropWhile key_char k
      in if takeWhile key_char k \<noteq> [] \<and> startswith t '':'' \<and> takeWhile py_space (tl t) \<noteq> []
         then Some (length (takeWhile py_space l), dropWhile py_space (tl t)) else None)"

definition BLOCK_MARKS :: "string list" where
  "BLOCK_MARKS = [''|'', ''>'', ''|-'', ''>-'', ''|+'', ''>+'']"

definition quoted_value :: "string \<Rightarrow> bool" where
  "quoted_value v \<longleftrightarrow> v \<noteq> [] \<and> (hd v = CHR 0x27 \<or> hd v = CHR 0x22 \<or> hd v \<in> set ''{[&*!'')"

definition before_comment :: "string \<Rightarrow> string" where
  \<comment> \<open>\<open>value.split(" #")[0]\<close>\<close>
  "before_comment v = (case split_once '' #'' v of None \<Rightarrow> v | Some (p, q) \<Rightarrow> p)"

definition line_message :: "string \<Rightarrow> nat \<Rightarrow> string \<Rightarrow> string" where
  "line_message f n line =
     f @ '':'' @ show_nat n @ '': unquoted value contains '' @ [CHR 0x27] @ '': '' @ [CHR 0x27] @
     '', which YAML reads as a new key: '' @ take 80 (strip line)"

fun line_problems :: "string \<Rightarrow> nat \<Rightarrow> nat option \<Rightarrow> string list \<Rightarrow> string list" where
  \<comment> \<open>the loop over the lines of a file, from line \<open>n\<close>; \<open>block\<close> is the indentation of the block scalar's key\<close>
  "line_problems f n block [] = []"
| "line_problems f n block (line # ls) =
     (let r = dropWhile py_space line; indent = length (takeWhile py_space line) in
      if r = [] \<or> startswith r ''#'' then line_problems f (Suc n) block ls
      else if (case block of None \<Rightarrow> False | Some i \<Rightarrow> i < indent) then line_problems f (Suc n) block ls
      else (case key_line line of
              None \<Rightarrow> line_problems f (Suc n) None ls
            | Some (i, rest) \<Rightarrow>
                (let v = strip rest in
                 if v \<in> set BLOCK_MARKS then line_problems f (Suc n) (Some i) ls
                 else if quoted_value v \<or> \<not> sublist '': '' (before_comment v) then line_problems f (Suc n) None ls
                 else line_message f n line # line_problems f (Suc n) None ls)))"

definition file_problems :: "(string \<Rightarrow> string option) option \<Rightarrow> string \<times> string \<Rightarrow> string list" where
  "file_problems yaml ft =
     (case yaml of
        Some parse \<Rightarrow> (case parse (snd ft) of None \<Rightarrow> [] | Some e \<Rightarrow> [fst ft @ '': '' @ join_with '' '' (words_of e)])
      | None \<Rightarrow> line_problems (fst ft) 1 None (split_on (CHR 0x0A) (universal_newlines (snd ft))))"

definition check_workflows :: "(string \<Rightarrow> string option) option \<Rightarrow> (string \<times> string) list \<Rightarrow> string list \<times> nat" where
  \<comment> \<open>the files with their names, sorted; the lines printed and the exit status\<close>
  "check_workflows yaml fs =
     (let ps = concat (map (file_problems yaml) fs) in
      (map (\<lambda>p. ''INVALID '' @ p) ps @
       [show_nat (length fs) @ '' workflow files '' @
        (if yaml = None then ''checked line by line (PyYAML not installed)'' else ''parsed with PyYAML'') @ '': '' @
        show_nat (length ps) @ '' problems''],
       if ps = [] then 0 else 1))"

section \<open>What it finds\<close>

definition inside :: "nat \<Rightarrow> string \<Rightarrow> bool" where
  \<comment> \<open>a line of a block scalar whose key is indented so far: deeper, or blank\<close>
  "inside i l \<longleftrightarrow> dropWhile py_space l = [] \<or> i < length (takeWhile py_space l)"

lemma block_skipped: "list_all (inside i) ls \<Longrightarrow> line_problems f n (Some i) (ls @ rest) = line_problems f (n + length ls) (Some i) rest"
  by (induction ls arbitrary: n) (auto simp: inside_def Let_def)

lemma workflows_pass_iff: "snd (check_workflows yaml fs) = 0 \<longleftrightarrow> (\<forall>ft \<in> set fs. file_problems yaml ft = [])"
  by (auto simp: check_workflows_def Let_def)

text \<open>A script under \<open>run: |\<close> may say anything; the same words as a plain value are found, with their line. With a comment after
  the mark, the block is not recognized, and a line of the script is reported.\<close>

lemma found_lines:
  "line_problems ''f'' 1 None [''- name: a'', ''  run: |'', ''    echo x: y'', '''', ''  with: x: y'', ''  ok: quoted # x: y''] =
     [line_message ''f'' 5 ''  with: x: y'']"
  "line_problems ''f'' 1 None [''- run: | # all'', ''    say: x: y''] = [line_message ''f'' 2 ''    say: x: y'']"
  by code_simp+

end
