(* ===== verification/Spec2Isabelle.thy ===== *)
theory Spec2Isabelle
  imports Cas Rename Verdict Kernel Url LegacyGuard Restart Honest Report Daemon Life Threads Adapters EffectGate CiGate Workflows
begin

text \<open>
  A verification development for DARM Guard, the runtime authorization broker of this repository
  (Python, under \<open>src/darm_guard/\<close>). An agent sends proposals (a tool and its arguments) to a broker
  process. The broker canonicalizes a proposal, asks an external decision kernel, records what it
  is about to do in a hash-chained log, performs the effect (a file operation in its workspace or a
  governed GET), observes the result, and records the outcome. A principal holds the configuration,
  the registry of vouched values, single-use intents and revocations, all in files.

  \<^bold>\<open>How the model is made.\<close> Every definition translates the function named in the manifest. Python
  objects are records, dictionaries association lists in insertion order, exceptions the left of a
  sum (with the class, where a caller looks at it) or \<open>None\<close>. Text is a list of characters up to code
  point 255, and what is encoded or decoded as UTF-8 keeps its characters, which is exact for ASCII.
  \<open>loads\<close> reads JSON without floats and without escapes above 255, \<open>of_iso\<close> the stamps \<open>isoformat\<close> writes
  of a naive time; a theorem about any file or any request is about those of them that fit this, and says
  so. Times are microseconds since the first instant of year 1. What is
  not in the repository is an argument: SHA-256, HMAC and Ed25519 (the record \<open>crypto\<close>), the kernel
  process (\<open>kernel_io\<close>), the resolver and the server of a GET (\<open>net\<close>), random text, clocks, and the
  fault an \<open>fsync\<close> or a sink may have (\<open>append_env\<close>). The one law used of the signatures is that what
  is signed verifies under the public key (\<open>ed25519\<close>); of the hash nothing is assumed: where it
  matters, a theorem says ``or there is a collision''.

  Effects on the workspace are programs over \<open>world\<close> in the state monad of the library: every system
  call is one step, before every step a foreign actor may do anything to the file system, and the
  machine may stop between any two steps. The state files of the broker (log, keys, intents) are
  a map of paths to texts, and their writers are lists of operations that a crash cuts anywhere.

  \<^bold>\<open>Theories.\<close>
  \<^item> \<open>Prelude\<close>: Python's string and dictionary operations; \<open>Clock\<close>: ISO time stamps; \<open>Json\<close>:
    \<open>json.dumps\<close> and \<open>json.loads\<close> (a recursive-descent reader on fuel, with the proof that twice the
    length of the text is always enough), \<open>sort_keys\<close>, and the interface \<open>text_codec\<close>.
  \<^item> \<open>Registry\<close>: \<open>BrokerConfig.load\<close> with every refusal, \<open>registry_for\<close>, canonicalization and hashing of
    invocations, \<open>parse_proposal\<close>. \<open>Kernel\<close>: \<open>kernel.py\<close> and \<open>install.py\<close>. \<open>LegacyGuard\<close>: \<open>types.py\<close>,
    \<open>checker.py\<close>, \<open>session.py\<close>, \<open>guard.py\<close> and the wrapper of \<open>integrations\<close>.
  \<^item> \<open>Attest\<close>: \<open>attest.py\<close> and the key files of \<open>broker.py\<close>. \<open>Checkpoint\<close>: \<open>checkpoint.py\<close>. \<open>AuditLog\<close>:
    the log of \<open>broker.py\<close> and \<open>chain_problems\<close> of \<open>evidence.py\<close>, over the interface \<open>hash_chain\<close>.
  \<^item> \<open>FileSystem\<close>: the POSIX calls the broker uses. \<open>Effects\<close>: resolution, observation,
    compare-and-swap, the rename protocol, \<open>_execute\<close>, recovery. \<open>Cas\<close>: the interface
    \<open>compare_and_swap\<close> that replacement and deletion implement. \<open>Rename\<close>: the protocol and its recovery
    together. \<open>Verdict\<close>: the verdict on a read, \<open>verify_world\<close>, \<open>_retire_legacy\<close>.
  \<^item> \<open>Url\<close>, \<open>Http\<close>: \<open>http_get.py\<close>, with the address checks on 32-bit and 128-bit words.
  \<^item> \<open>Intents\<close>: intents, their files, reservation, revocation and settlement. \<open>Broker\<close>: \<open>decide\<close>, \<open>handle\<close>
    and \<open>_handle\<close>, as the three functions \<open>begin_request\<close>, \<open>perform\<close>, \<open>finish_request\<close>, since the lock is
    held for the first and taken again in the last. \<open>Idle\<close>, \<open>Request\<close>, \<open>Handling\<close>: their lemmas.
    \<open>Replies\<close>: every reply and every record is a JSON value that reads back, and the invariant \<open>sound\<close>
    (log in step with its file) of every operation. \<open>Threads\<close>: the server's threads as a step
    relation over \<open>stage\<close>s, cut at the broker's and the log's lock, with its invariant \<open>pool_ok\<close>; a beginning
    is one step, and \<open>late_append_covered\<close> shows that appends of other threads within it add no state that
    the relation does not reach. \<open>Basis\<close>: the evidence basis of a reply
    (\<open>_basis\<close>), with \<open>Honest\<close> for what its claims rest on. \<open>Startup\<close>: \<open>reconcile_pending\<close>, \<open>serve\<close>,
    \<open>reattest_legacy\<close>, connections, the client. \<open>Restart\<close>: what a start makes of any log. \<open>Daemon\<close>: \<open>main\<close>
    from its signal handler to its end, as a step relation (with a parameter for runs in which no further signal
    arrives and the disk works). \<open>Wire\<close>: the bytes between the client and
    the broker over the interface \<open>line_frames\<close>: requests cut by \<open>readline\<close>, the client's receive loop
    as a partial function. \<open>Life\<close>: a start, then the steps of any clients' threads, and what the process leaves behind.
  \<^item> \<open>Evidence\<close>, \<open>Report\<close>: \<open>evidence.py\<close>, the auditor's two commands line by line, and what they say of a log.
  \<^item> \<open>Gates\<close>: \<open>verify.py\<close> and \<open>coverage.py\<close> (random scenarios over a stream of draws, the comparison of a
    gate with the kernel, the coverage map); \<open>Adapters\<close>: the translations of \<open>adapters/\<close>, with the gate
    as an argument; \<open>Compared\<close>: what the scenarios are and what a report accounts for.
  \<^item> The repository's own gates (\<open>src/scripts/\<close>). \<open>Inventory\<close>: \<open>effect_inventory.py\<close> over parsed files, from the
    names a file imports to the cone of every effect function. \<open>EffectGate\<close>: \<open>check_effect_sites.py\<close>, with the
    abstract \<open>depends\<close> (a closure of the relation \<open>route\<close>) that the computed cones are proved equal to.
    \<open>CiGate\<close>: \<open>ci_local.py\<close> and \<open>mutation_gate.py\<close>, with a step's command as a function on the clone. \<open>Claims\<close>:
    \<open>check_assurance.py\<close>, \<open>check_bridges.py\<close>, \<open>limitations.py\<close>, \<open>readme_figures.py\<close>. \<open>Workflows\<close>: \<open>check_workflows.py\<close>,
    with what PyYAML says of a file as an argument.

  \<^bold>\<open>What is proved.\<close> An effect happens only after its durable record and the kernel's admission of the
  executed invocation; with intents on it takes one; an idempotency key has at most one effect, however the
  steps of threads interleave and also across crashes, and no intent is both spent and returned, whether or not
  the appends succeed; a start closes every request left open and finds nothing to do a second time; a
  reply that says nothing was done is true. A replacement or deletion touches only the state that
  was recorded, or puts it back. A rename, cut anywhere and then recovered, has happened entirely
  or not at all. The log reloads after any start and any interleaving of requests, and every reply can be read; its head determines its contents up to a
  collision, and a checked log extends its checkpoint; fewer records than the interval lack a published checkpoint that
  verifies. Keys, attestations and intents survive
  restart and rotation, also a rotation interrupted anywhere. The result of a GET does not depend on any host but the
  one checked, nor on a credential of another prefix; path patterns are read by
  components, and a credential is cut out of a body. The claims of a reply's basis are backed by what the
  broker did; a proposal and its reply cross the socket unchanged in whatever pieces; a SIGTERM is never lost, and without a second signal
  the shutdown it begins ends with the stop record; the auditor accepts the broker's own log and reports every request in it
  once; the generated scenarios are well formed and a comparison counts each of them once. Every use of an
  effect function under a name that only its import binds is a site of the inventory; behind a green effect gate every site belongs to a
  function whose code, and for a guarded verdict everything on its routes, is what was reviewed;
  accepting a review changes no verdict and makes the gate green; a mutation is reported as caught
  exactly when a step of the gate fails on it. The properties of kind \<open>error\<close> state what the
  code does where it falls short of its documentation; the manifest lists them as findings.

  \<^bold>\<open>Bounds.\<close> Loops that are not structural (\<open>walk\<close>, \<open>closure\<close>, \<open>steps_of\<close>, \<open>named_claims\<close> and others) have
  termination proofs; \<open>closure\<close> ends because what was seen grows within a finite set. The reader of JSON has
  fuel that is proved enough; the client's receive loop is partial, with a theorem that says when it returns.

  \<^bold>\<open>Not modelled.\<close> The argument parsers, the demonstration, the dashboard and the deployment example; of the
  scripts the clone and its environment, the table of mutations and the statistics; Python's parser and
  tokenizer; third-party gates; the creation of sockets and threads (a critical section or an append is the
  grain of \<open>pool_step\<close>, a record that of \<open>daemon_step\<close>); errors of the device; text beyond code
  point 255 and its encoding; JSON floats; ISO dates and times in other forms than the log's; the intents file's time stamps.
\<close>

end
